(* ===== verification/Prelude.thy ===== *)
theory Prelude
  imports Main "HOL-Library.Word" "HOL-Library.List_Lexorder" "HOL-Library.Char_ord"
begin

text \<open>
  What the component theories share: the machine types of the Go sources, the byte strings of
  the standard library's \<^verbatim>\<open>bytes\<close>, \<^verbatim>\<open>encoding/hex\<close>, \<^verbatim>\<open>encoding/binary\<close> and \<^verbatim>\<open>strings\<close>
  packages as far as the sources use them, and the generic lemmas on lists, words and maps that
  carry the component proofs.

  \<^item> \<open>byte\<close> is a Go \<^verbatim>\<open>byte\<close>; a \<^verbatim>\<open>[]byte\<close> is a \<open>byte list\<close> (no code modelled here tells a nil
    slice from an empty one, except where a component says so); a Go \<^verbatim>\<open>string\<close> that holds text
    is a HOL \<open>string\<close>, whose characters are bytes and whose order is the byte order.
  \<^item> \<open>bytes_compare\<close> is \<^verbatim>\<open>bytes.Compare\<close>; the lemmas in \<open>bytes_order\<close> turn it into the
    lexicographic linear order on byte lists.
  \<^item> \<open>be_bytes\<close>, \<open>be_val\<close>, \<open>le_bytes\<close>, \<open>le_val\<close> are the fixed-width encodings of
    \<^verbatim>\<open>encoding/binary\<close> and the numbers they stand for.
  \<^item> \<open>hex_decode\<close>, \<open>hex_encode\<close> are \<^verbatim>\<open>hex.DecodeString\<close> and \<^verbatim>\<open>hex.EncodeToString\<close>.
\<close>

type_synonym byte = "8 word"
type_synonym uint16 = "16 word"
type_synonym uint32 = "32 word"
type_synonym uint64 = "64 word"

unbundle bit_operations_syntax

named_theorems bytes_order \<open>rewriting bytes_compare into the order on byte lists\<close>
named_theorems bin_simps \<open>values of fixed-width byte encodings\<close>

subsection \<open>Byte strings and their order\<close>

fun bytes_compare :: "byte list \<Rightarrow> byte list \<Rightarrow> int" where
  "bytes_compare [] [] = 0"
| "bytes_compare [] (y # ys) = -1"
| "bytes_compare (x # xs) [] = 1"
| "bytes_compare (x # xs) (y # ys) =
     (if x < y then -1 else if y < x then 1 else bytes_compare xs ys)"

lemma bytes_compare_less [bytes_order]: "bytes_compare xs ys < 0 \<longleftrightarrow> xs < ys"
  by (induction xs ys rule: bytes_compare.induct) auto

lemma bytes_compare_greater [bytes_order]: "bytes_compare xs ys > 0 \<longleftrightarrow> ys < xs"
  by (induction xs ys rule: bytes_compare.induct) auto

lemma bytes_compare_eq [bytes_order]: "bytes_compare xs ys = 0 \<longleftrightarrow> xs = ys"
  by (induction xs ys rule: bytes_compare.induct) auto

lemma bytes_compare_le [bytes_order]: "bytes_compare xs ys \<le> 0 \<longleftrightarrow> xs \<le> ys"
  using bytes_compare_greater [of xs ys] by (simp add: linorder_not_less flip: linorder_not_less)

lemma Nil_less_iff [simp]: "[] < xs \<longleftrightarrow> xs \<noteq> []"
  by (cases xs) auto

text \<open>Lists of equal length are ordered by their first difference, whatever follows them.\<close>

lemma less_append_iff:
  fixes xs ys :: "'a::linorder list"
  assumes "length xs = length ys"
  shows "xs @ us < ys @ vs \<longleftrightarrow> xs < ys \<or> xs = ys \<and> us < vs"
  using assms by (induction xs ys rule: list_induct2) auto

lemma append_less_iff_short:
  fixes xs ys :: "'a::linorder list"
  assumes "length xs = length ys"
  shows "xs @ us < ys \<longleftrightarrow> xs < ys"
  using less_append_iff [OF assms, of us "[]"] by simp

subsection \<open>Fixed-width integers\<close>

definition be_val :: "byte list \<Rightarrow> nat" where
  "be_val xs = foldl (\<lambda>a b. a * 256 + unat b) 0 xs"

fun le_val :: "byte list \<Rightarrow> nat" where
  "le_val [] = 0"
| "le_val (b # bs) = unat b + 256 * le_val bs"

fun le_bytes :: "nat \<Rightarrow> 'a::len word \<Rightarrow> byte list" where
  "le_bytes 0 w = []"
| "le_bytes (Suc n) w = ucast w # le_bytes n (drop_bit 8 w)"

definition be_bytes :: "nat \<Rightarrow> 'a::len word \<Rightarrow> byte list" where
  "be_bytes n w = rev (le_bytes n w)"

lemma foldl_be: "foldl (\<lambda>a b. a * 256 + unat b) c xs = c * 256 ^ length xs + be_val xs"
proof (induction xs rule: rev_induct)
  case Nil
  then show ?case by (simp add: be_val_def)
next
  case (snoc x xs)
  then show ?case by (simp add: be_val_def algebra_simps)
qed

lemma be_val_Nil [simp]: "be_val [] = 0"
  by (simp add: be_val_def)

lemma be_val_Cons [simp]: "be_val (x # xs) = unat x * 256 ^ length xs + be_val xs"
  using foldl_be [of "unat x" xs] by (simp add: be_val_def)

lemma be_val_append: "be_val (xs @ ys) = be_val xs * 256 ^ length ys + be_val ys"
  by (induction xs) (simp_all add: algebra_simps power_add)

lemma unat_byte_less [simp]: "unat (b :: byte) < 256"
  using unsigned_less [of b] by simp

lemma be_val_less: "be_val xs < 256 ^ length xs"
proof (induction xs)
  case Nil
  then show ?case by simp
next
  case (Cons x xs)
  have "unat x * 256 ^ length xs + be_val xs < (unat x + 1) * 256 ^ length xs"
    using Cons by (simp add: algebra_simps)
  also have "\<dots> \<le> 256 * 256 ^ length xs"
    using unat_byte_less [of x] by (intro mult_right_mono) (auto simp del: unat_byte_less)
  finally show ?case by simp
qed

lemma le_val_less: "le_val xs < 256 ^ length xs"
proof (induction xs)
  case Nil
  then show ?case by simp
next
  case (Cons x xs)
  moreover have "unat x < 256" by simp
  ultimately have "unat x + 256 * le_val xs < 256 * 256 ^ length xs" by linarith
  then show ?case by simp
qed

lemma be_val_less_iff:
  "length xs = length ys \<Longrightarrow> be_val xs < be_val ys \<longleftrightarrow> xs < ys"
proof (induction xs ys rule: list_induct2)
  case Nil
  then show ?case by simp
next
  case (Cons x xs y ys)
  let ?p = "256 ^ length ys :: nat"
  have b: "be_val xs < ?p" "be_val ys < ?p"
    using be_val_less [of xs] be_val_less [of ys] Cons.hyps by auto
  have lt: "a * ?p + be_val us < c * ?p + be_val vs"
    if "a < c" "be_val us < ?p" for a c us vs
  proof -
    have "a * ?p + be_val us < (a + 1) * ?p" using that(2) by simp
    also have "\<dots> \<le> c * ?p" using that(1) by (intro mult_right_mono) auto
    finally show ?thesis by simp
  qed
  consider "unat x < unat y" | "unat x = unat y" | "unat y < unat x" by linarith
  then show ?case
  proof cases
    case 1
    then show ?thesis using lt [OF 1 b(1), of ys] Cons.hyps by (simp add: word_less_nat_alt)
  next
    case 2
    then show ?thesis using Cons by (simp add: word_less_nat_alt word_unat_eq_iff)
  next
    case 3
    then show ?thesis using lt [OF 3 b(2), of xs] Cons.hyps
      by (auto simp add: word_less_nat_alt word_unat_eq_iff)
  qed
qed

lemma be_val_rev: "be_val (rev xs) = le_val xs"
  by (induction xs) (simp_all add: be_val_append)

lemma length_le_bytes [simp]: "length (le_bytes n w) = n"
  by (induction n arbitrary: w) auto

lemma length_be_bytes [simp]: "length (be_bytes n w) = n"
  by (simp add: be_bytes_def)

lemma unat_ucast_byte: "unat (ucast (w :: 'a::len word) :: byte) = unat w mod 256"
  by (simp add: unsigned_ucast_eq take_bit_eq_mod)

lemma le_val_le_bytes [bin_simps]: "le_val (le_bytes n w) = unat w mod 256 ^ n"
proof (induction n arbitrary: w)
  case 0
  then show ?case by simp
next
  case (Suc n)
  have "unat (drop_bit 8 w) = unat w div 256"
    by (simp only: unsigned_drop_bit_eq)
      (simp add: drop_bit_eq_div take_bit_nat_eq_self)
  then show ?case
    using Suc by (simp add: unat_ucast_byte mod_mult2_eq)
qed

lemma be_val_be_bytes [bin_simps]: "be_val (be_bytes n w) = unat w mod 256 ^ n"
  by (simp add: be_bytes_def be_val_rev le_val_le_bytes)

lemma be_bytes_inj: "8 * n \<ge> LENGTH('a) \<Longrightarrow> be_bytes n v = be_bytes n w \<Longrightarrow> v = (w :: 'a::len word)"
proof -
  assume n: "8 * n \<ge> LENGTH('a)" and eq: "be_bytes n v = be_bytes n w"
  have big: "unat u mod 256 ^ n = unat u" for u :: "'a word"
  proof -
    have "unat u < 2 ^ LENGTH('a)" by (rule unsigned_less)
    also have "\<dots> \<le> (2 :: nat) ^ (8 * n)" using n by (rule power_increasing) simp
    finally show ?thesis by (simp add: power_mult)
  qed
  from eq have "unat v mod 256 ^ n = unat w mod 256 ^ n"
    by (metis be_val_be_bytes)
  then show ?thesis by (simp add: big word_unat_eq_iff)
qed

text \<open>The integer that the bytes of a little-endian number make, as the sources compute it.\<close>

fun le_word :: "byte list \<Rightarrow> 'a::len word" where
  "le_word [] = 0"
| "le_word (b # bs) = ucast b OR push_bit 8 (le_word bs)"

lemma le_word_le_bytes [bin_simps]: "le_word (le_bytes n w) = take_bit (8 * n) (w :: 'a::len word)"
proof (induction n arbitrary: w)
  case 0
  then show ?case by simp
next
  case (Suc n)
  show ?case
    unfolding le_bytes.simps le_word.simps Suc
    by (rule bit_eqI) (auto simp: bit_simps)
qed

subsection \<open>Running Go code\<close>

text \<open>
  A call that may panic (an index out of range, a nil pointer) returns \<open>Ret\<close> of its results or
  \<open>Panic\<close>. \<open>go_bind\<close> runs one call after another, \<open>go_try\<close> also ends at an error,
  \<open>slice_index\<close> and \<open>index_int\<close> read an element of a slice. A conversion to \<^verbatim>\<open>int64\<close> wraps.
\<close>

datatype 'a go = Panic | Ret 'a

fun go_bind :: "'a go \<Rightarrow> ('a \<Rightarrow> 'b go) \<Rightarrow> 'b go" where
  "go_bind Panic f = Panic"
| "go_bind (Ret x) f = f x"

lemma go_bind_Ret_iff: "go_bind m f = Ret y \<longleftrightarrow> (\<exists>x. m = Ret x \<and> f x = Ret y)"
  by (cases m) auto

lemma go_bind_cong [fundef_cong]:
  "m = m' \<Longrightarrow> (\<And>x. m' = Ret x \<Longrightarrow> f x = g x) \<Longrightarrow> go_bind m f = go_bind m' g"
  by (cases m') auto

definition slice_index :: "'a list \<Rightarrow> nat \<Rightarrow> 'a go" where
  "slice_index xs i = (if i < length xs then Ret (xs ! i) else Panic)"

definition index_int :: "'a list \<Rightarrow> int \<Rightarrow> 'a go" where
  "index_int xs i = (if 0 \<le> i \<and> i < int (length xs) then Ret (xs ! nat i) else Panic)"

definition go_try :: "('e + 'a) go \<Rightarrow> ('a \<Rightarrow> ('e + 'b) go) \<Rightarrow> ('e + 'b) go" where
  "go_try m f = go_bind m (\<lambda>r. case r of Inl err \<Rightarrow> Ret (Inl err) | Inr x \<Rightarrow> f x)"

lemma go_try_simps [simp]:
  "go_try Panic f = Panic" "go_try (Ret (Inl err)) f = Ret (Inl err)" "go_try (Ret (Inr x)) f = f x"
  by (simp_all add: go_try_def)

fun go_list :: "'a go list \<Rightarrow> 'a list go" where
  "go_list [] = Ret []"
| "go_list (m # ms) = go_bind m (\<lambda>x. go_bind (go_list ms) (\<lambda>xs. Ret (x # xs)))"

lemma go_list_Ret [simp]: "go_list (map (\<lambda>x. Ret (f x)) xs) = Ret (map f xs)"
  by (induction xs) simp_all

lemma go_list_map: "(\<And>x. x \<in> set xs \<Longrightarrow> f x = Ret (g x)) \<Longrightarrow> go_list (map f xs) = Ret (map g xs)"
  by (induction xs) simp_all

definition int64 :: "int \<Rightarrow> int" where
  "int64 x = signed_take_bit 63 x"

lemma int64_id [simp]: "- (2 ^ 63) \<le> x \<Longrightarrow> x < 2 ^ 63 \<Longrightarrow> int64 x = x"
  by (simp add: int64_def signed_take_bit_int_eq_self)

lemma int64_range: "- (2 ^ 63) \<le> int64 x" "int64 x < 2 ^ 63"
  unfolding int64_def
  using signed_take_bit_int_greater_eq_minus_exp [of 63 x] signed_take_bit_int_less_exp [of 63 x]
  by auto

subsection \<open>Hexadecimal text\<close>

datatype hex_error = InvalidByteError char | ErrLength

definition from_hex_char :: "char \<Rightarrow> byte option" where
  "from_hex_char c =
     (let n = of_char c :: nat in
      if 48 \<le> n \<and> n \<le> 57 then Some (of_nat (n - 48))
      else if 97 \<le> n \<and> n \<le> 102 then Some (of_nat (n - 97 + 10))
      else if 65 \<le> n \<and> n \<le> 70 then Some (of_nat (n - 65 + 10))
      else None)"

fun hex_decode :: "string \<Rightarrow> hex_error + byte list" where
  "hex_decode [] = Inr []"
| "hex_decode [c] =
     (case from_hex_char c of None \<Rightarrow> Inl (InvalidByteError c) | Some _ \<Rightarrow> Inl ErrLength)"
| "hex_decode (c # d # cs) =
     (case from_hex_char c of
        None \<Rightarrow> Inl (InvalidByteError c)
      | Some a \<Rightarrow>
          (case from_hex_char d of
             None \<Rightarrow> Inl (InvalidByteError d)
           | Some b \<Rightarrow>
               (case hex_decode cs of
                  Inl e \<Rightarrow> Inl e
                | Inr bs \<Rightarrow> Inr ((push_bit 4 a OR b) # bs))))"

definition hex_digit :: "byte \<Rightarrow> char" where
  "hex_digit b = ''0123456789abcdef'' ! unat b"

fun hex_encode :: "byte list \<Rightarrow> string" where
  "hex_encode [] = []"
| "hex_encode (b # bs) = hex_digit (drop_bit 4 b) # hex_digit (b AND 15) # hex_encode bs"

lemma length_hex_encode [simp]: "length (hex_encode bs) = 2 * length bs"
  by (induction bs) auto

lemma hex_encode_eq_Nil [simp]: "hex_encode bs = [] \<longleftrightarrow> bs = []"
  by (cases bs) auto

lemma hex_encode_append [simp]: "hex_encode (xs @ ys) = hex_encode xs @ hex_encode ys"
  by (induction xs) auto

lemma nibble_cases:
  assumes "unat (b :: byte) < 16"
  shows "b \<in> {0, 1, 2, 3, 4, 5, 6, 7, 8, 9, 10, 11, 12, 13, 14, 15}"
proof -
  have "b \<le> 15" using assms by (simp add: word_le_nat_alt)
  then have "uint b \<le> 15" by (simp add: word_le_def)
  moreover have "0 \<le> uint b" by simp
  ultimately have "uint b \<in> {0..15}" by simp
  also have "{0..15} = {0, 1, 2, 3, 4, 5, 6, 7, 8, 9, 10, 11, 12, 13, 14, 15 :: int}"
    by (simp only: set_upto [symmetric]) (simp add: upto_rec1 del: set_upto)
  finally have "uint b \<in> {0, 1, 2, 3, 4, 5, 6, 7, 8, 9, 10, 11, 12, 13, 14, 15}" .
  then have "word_of_int (uint b) \<in>
      (word_of_int ` {0, 1, 2, 3, 4, 5, 6, 7, 8, 9, 10, 11, 12, 13, 14, 15} :: byte set)"
    by (rule imageI)
  then show ?thesis by simp
qed

lemma from_hex_digit: "unat b < 16 \<Longrightarrow> from_hex_char (hex_digit b) = Some b"
  by (drule nibble_cases) (auto simp: from_hex_char_def hex_digit_def Let_def)

lemma unat_drop_bit4: "unat (drop_bit 4 (b :: byte)) = unat b div 16"
  by (simp only: unat_drop_bit_eq) (simp add: drop_bit_eq_div)

lemma unat_and15: "unat (b AND 15 :: byte) = unat b mod 16"
proof -
  have "b AND 15 = take_bit 4 b" by (simp add: take_bit_eq_mask mask_eq_exp_minus_1)
  moreover have "unat (take_bit 4 b) = unat b mod 16"
    by (simp only: unsigned_take_bit_eq) (simp add: take_bit_eq_mod)
  ultimately show ?thesis by simp
qed

lemma unat_high_nibble: "unat (drop_bit 4 (b :: byte)) < 16"
  unfolding unat_drop_bit4 by (rule less_mult_imp_div_less) simp

lemma unat_low_nibble: "unat (b AND 15 :: byte) < 16"
  by (simp add: unat_and15)

lemma nibbles_join: "push_bit 4 (drop_bit 4 b) OR (b AND 15) = (b :: byte)"
proof -
  have "(15 :: byte) = mask 4" by (simp add: mask_eq_exp_minus_1)
  then show ?thesis
    by (simp add: bit_eq_iff bit_simps) (auto simp: not_less dest: bit_imp_le_length)
qed

lemma hex_decode_encode [simp]: "hex_decode (hex_encode bs) = Inr bs"
  by (induction bs) (simp_all add: from_hex_digit unat_high_nibble unat_low_nibble nibbles_join)

lemma hex_digit_less_iff:
  "unat a < 16 \<Longrightarrow> unat b < 16 \<Longrightarrow> hex_digit a < hex_digit b \<longleftrightarrow> a < b"
  by (drule nibble_cases, drule nibble_cases)
    (elim insertE emptyE; simp add: hex_digit_def less_char_def)

lemma hex_digit_eq_iff: "unat a < 16 \<Longrightarrow> unat b < 16 \<Longrightarrow> hex_digit a = hex_digit b \<longleftrightarrow> a = b"
  by (metis from_hex_digit option.inject)

lemma less_div_mod_iff:
  fixes a b :: nat
  shows "a < b \<longleftrightarrow> a div 16 < b div 16 \<or> a div 16 = b div 16 \<and> a mod 16 < b mod 16"
proof -
  have "a = 16 * (a div 16) + a mod 16" "a mod 16 < 16" "b = 16 * (b div 16) + b mod 16" "b mod 16 < 16"
    by simp_all
  then show ?thesis by linarith
qed

lemma byte_less_nibbles:
  "a < (b :: byte) \<longleftrightarrow>
     drop_bit 4 a < drop_bit 4 b \<or> drop_bit 4 a = drop_bit 4 b \<and> a AND 15 < b AND 15"
  unfolding word_less_nat_alt word_unat_eq_iff unat_drop_bit4 unat_and15 by (rule less_div_mod_iff)

text \<open>Hexadecimal text in lower case is ordered as the bytes it stands for.\<close>

lemma hex_encode_less_iff: "hex_encode xs < hex_encode ys \<longleftrightarrow> xs < ys"
proof (induction xs ys rule: bytes_compare.induct)
  case (4 x xs y ys)
  have eq: "x = y \<longleftrightarrow> drop_bit 4 x = drop_bit 4 y \<and> x AND 15 = y AND 15"
    by (metis nibbles_join)
  show ?case
  proof (cases "x = y")
    case True
    with 4 show ?thesis by simp
  next
    case False
    with eq show ?thesis by (auto simp: hex_digit_less_iff hex_digit_eq_iff unat_high_nibble unat_low_nibble
        byte_less_nibbles [of x y])
  qed
qed auto

lemma hex_digit_lower:
  "n \<in> {48..57} \<Longrightarrow> hex_digit (of_nat (n - 48)) = char_of (n :: nat)"
  "n \<in> {97..102} \<Longrightarrow> hex_digit (of_nat (n - 97 + 10)) = char_of (n :: nat)"
proof -
  have dec: "\<forall>n \<in> set [48..<58::nat]. hex_digit (of_nat (n - 48)) = char_of n"
    and low: "\<forall>n \<in> set [97..<103::nat]. hex_digit (of_nat (n - 97 + 10)) = char_of n"
    by (simp_all add: upt_rec hex_digit_def char_of_def bit_Suc_0_iff)
  show "hex_digit (of_nat (n - 48)) = char_of n" if "n \<in> {48..57}"
    by (rule bspec [OF dec], unfold set_upt) (use that in simp)
  show "hex_digit (of_nat (n - 97 + 10)) = char_of n" if "n \<in> {97..102}"
    by (rule bspec [OF low], unfold set_upt) (use that in simp)
qed

lemma from_hex_char_lower:
  assumes "from_hex_char c = Some a" "\<not> (65 \<le> (of_char c :: nat) \<and> (of_char c :: nat) \<le> 70)"
  shows "hex_digit a = c" "unat a < 16"
proof -
  show "hex_digit a = c"
    using assms hex_digit_lower [of "of_char c"]
    by (auto simp: from_hex_char_def Let_def split: if_splits)
  show "unat a < 16"
    using assms
    by (auto simp: from_hex_char_def Let_def unat_of_nat simp del: of_nat_diff of_nat_add split: if_splits)
qed

lemma nibble_bit: "unat (a :: byte) < 16 \<Longrightarrow> bit a n \<Longrightarrow> n < 4"
proof -
  assume a: "unat a < 16" and b: "bit a n"
  have "unat (a AND 15) = unat a" using a by (simp add: unat_and15)
  then have "a AND 15 = a" by (simp only: word_unat_eq_iff)
  with b have "bit (a AND mask 4) n" by (simp add: mask_eq_exp_minus_1)
  then show ?thesis by (simp add: bit_simps)
qed

lemma nibbles_split:
  assumes "unat (a :: byte) < 16" "unat b < 16"
  shows "drop_bit 4 (push_bit 4 a OR b) = a" "(push_bit 4 a OR b) AND 15 = b"
proof -
  note nb = nibble_bit [OF assms(1)] nibble_bit [OF assms(2)]
  show "drop_bit 4 (push_bit 4 a OR b) = a"
    by (rule bit_eqI) (auto simp: bit_simps dest: nb)
  have "(push_bit 4 a OR b) AND mask 4 = b"
    by (rule bit_eqI) (auto simp: bit_simps dest: nb)
  then show "(push_bit 4 a OR b) AND 15 = b" by (simp add: mask_eq_exp_minus_1)
qed

subsection \<open>Splitting text\<close>

text \<open>\<^verbatim>\<open>strings.Split\<close> with a separator of one character.\<close>

fun split_on :: "char \<Rightarrow> string \<Rightarrow> string list" where
  "split_on c [] = [[]]"
| "split_on c (x # xs) =
     (if x = c then [] # split_on c xs
      else (case split_on c xs of [] \<Rightarrow> [[x]] | p # ps \<Rightarrow> (x # p) # ps))"

lemma split_on_not_Nil [simp]: "split_on c xs \<noteq> []"
  by (cases xs) (auto split: list.splits)

fun join_with :: "string \<Rightarrow> string list \<Rightarrow> string" where
  "join_with s [] = []"
| "join_with s [x] = x"
| "join_with s (x # y # xs) = x @ s @ join_with s (y # xs)"

lemma split_on_no_sep: "c \<notin> set xs \<Longrightarrow> split_on c xs = [xs]"
  by (induction xs) auto

lemma split_on_append_sep: "c \<notin> set xs \<Longrightarrow> split_on c (xs @ c # ys) = xs # split_on c ys"
  by (induction xs) auto

lemma split_on_join:
  "ps \<noteq> [] \<Longrightarrow> \<forall>p \<in> set ps. c \<notin> set p \<Longrightarrow> split_on c (join_with [c] ps) = ps"
  by (induction "[c]" ps rule: join_with.induct) (auto simp: split_on_no_sep split_on_append_sep)

lemma split_on_parts: "p \<in> set (split_on c xs) \<Longrightarrow> set p \<subseteq> set xs - {c}"
  by (induction xs arbitrary: p) (fastforce split: if_splits list.splits)+

lemma join_split_on: "join_with [c] (split_on c xs) = xs"
proof (induction xs)
  case (Cons x xs)
  obtain p ps where "split_on c xs = p # ps" by (cases "split_on c xs") auto
  with Cons show ?case by (cases ps) auto
qed simp

end
