(* ===== verification/Key_Range.thy ===== *)
theory Key_Range
  imports Prelude
begin

text \<open>
  Keyspace ids and key ranges: \<^verbatim>\<open>src/vt/key/key.go\<close>.

  A \<^verbatim>\<open>*topodatapb.KeyRange\<close> is a \<open>KeyRange option\<close> (\<open>None\<close> is the nil pointer, which stands for
  the whole key space); an empty \<open>End\<close> means that the range has no upper limit. The
  operations keep the source's case order. \<open>key_set\<close> is what a range means: the keyspace ids
  it contains. The lemmas show that the boolean tests on the limits decide the questions on
  the sets of ids they stand for, that \<open>ParseShardingSpec\<close> yields a partition of the key
  space, and that \<open>EvenShardsKeyRange\<close> cuts the 64-bit keys in equal parts.
\<close>

subsection \<open>Keyspace ids of integers\<close>

definition Uint64Key_Bytes :: "uint64 \<Rightarrow> byte list" where
  "Uint64Key_Bytes i = be_bytes 8 i"

subsection \<open>Key ranges\<close>

record KeyRange =
  Start :: "byte list"
  End :: "byte list"

definition KeyRangeContains :: "KeyRange option \<Rightarrow> byte list \<Rightarrow> bool" where
  "KeyRangeContains kr i =
     (case kr of
        None \<Rightarrow> True
      | Some k \<Rightarrow>
          bytes_compare (Start k) i \<le> 0 \<and>
          (length (End k) = 0 \<or> bytes_compare i (End k) < 0))"

definition ParseKeyRangeParts :: "string \<Rightarrow> string \<Rightarrow> hex_error + KeyRange" where
  "ParseKeyRangeParts start end' =
     (case hex_decode start of
        Inl err \<Rightarrow> Inl err
      | Inr s \<Rightarrow>
          (case hex_decode end' of
             Inl err \<Rightarrow> Inl err
           | Inr e \<Rightarrow> Inr \<lparr>Start = s, End = e\<rparr>))"

definition KeyRangeString :: "KeyRange option \<Rightarrow> string" where
  "KeyRangeString kr =
     (case kr of
        None \<Rightarrow> ''-''
      | Some k \<Rightarrow> hex_encode (Start k) @ ''-'' @ hex_encode (End k))"

definition KeyRangeIsPartial :: "KeyRange option \<Rightarrow> bool" where
  "KeyRangeIsPartial kr =
     (case kr of
        None \<Rightarrow> False
      | Some k \<Rightarrow> \<not> (length (Start k) = 0 \<and> length (End k) = 0))"

definition KeyRangeEqual :: "KeyRange option \<Rightarrow> KeyRange option \<Rightarrow> bool" where
  "KeyRangeEqual left right =
     (case left of
        None \<Rightarrow>
          (case right of
             None \<Rightarrow> True
           | Some r \<Rightarrow> length (Start r) = 0 \<and> length (End r) = 0)
      | Some l \<Rightarrow>
          (case right of
             None \<Rightarrow> length (Start l) = 0 \<and> length (End l) = 0
           | Some r \<Rightarrow> Start l = Start r \<and> End l = End r))"

definition KeyRangeStartEqual :: "KeyRange option \<Rightarrow> KeyRange option \<Rightarrow> bool" where
  "KeyRangeStartEqual left right =
     (case left of
        None \<Rightarrow> (case right of None \<Rightarrow> True | Some r \<Rightarrow> length (Start r) = 0)
      | Some l \<Rightarrow>
          (case right of None \<Rightarrow> length (Start l) = 0 | Some r \<Rightarrow> Start l = Start r))"

definition KeyRangeEndEqual :: "KeyRange option \<Rightarrow> KeyRange option \<Rightarrow> bool" where
  "KeyRangeEndEqual left right =
     (case left of
        None \<Rightarrow> (case right of None \<Rightarrow> True | Some r \<Rightarrow> length (End r) = 0)
      | Some l \<Rightarrow>
          (case right of None \<Rightarrow> length (End l) = 0 | Some r \<Rightarrow> End l = End r))"

definition KeyRangesIntersect :: "KeyRange option \<Rightarrow> KeyRange option \<Rightarrow> bool" where
  "KeyRangesIntersect first second =
     (case (first, second) of
        (Some f, Some s) \<Rightarrow>
          (length (End f) = 0 \<or> bytes_compare (Start s) (End f) < 0) \<and>
          (length (End s) = 0 \<or> bytes_compare (Start f) (End s) < 0)
      | _ \<Rightarrow> True)"

datatype key_error = DontOverlap "KeyRange option" "KeyRange option"

definition KeyRangesOverlap ::
  "KeyRange option \<Rightarrow> KeyRange option \<Rightarrow> key_error + KeyRange option" where
  "KeyRangesOverlap first second =
     (if \<not> KeyRangesIntersect first second then Inl (DontOverlap first second)
      else
        (case first of
           None \<Rightarrow> Inr second
         | Some f \<Rightarrow>
             (case second of
                None \<Rightarrow> Inr first
              | Some s \<Rightarrow>
                  (let result = f;
                       result = (if bytes_compare (Start s) (Start f) > 0
                                 then result\<lparr>Start := Start s\<rparr> else result);
                       result = (if length (End f) = 0 \<or>
                                    length (End s) \<noteq> 0 \<and> bytes_compare (End s) (End f) < 0
                                 then result\<lparr>End := End s\<rparr> else result)
                   in Inr (Some result)))))"

definition KeyRangeIncludes :: "KeyRange option \<Rightarrow> KeyRange option \<Rightarrow> bool" where
  "KeyRangeIncludes big small =
     (case big of
        None \<Rightarrow> True
      | Some b \<Rightarrow>
          (case small of
             None \<Rightarrow> length (Start b) = 0 \<and> length (End b) = 0
           | Some s \<Rightarrow>
               if length (Start b) \<noteq> 0 \<and> bytes_compare (Start s) (Start b) < 0 then False
               else if length (End b) \<noteq> 0 \<and>
                       (length (End s) = 0 \<or> bytes_compare (End s) (End b) > 0) then False
               else True))"

subsection \<open>Sharding specifications\<close>

datatype spec_error =
    NoRange
  | MiddleKey
  | NotInOrder
  | HexError hex_error

fun parse_spec_parts :: "string \<Rightarrow> string list \<Rightarrow> spec_error + KeyRange list" where
  "parse_spec_parts old [] = Inr []"
| "parse_spec_parts old (p # ps) =
     (if p = [] \<and> ps \<noteq> [] then Inl MiddleKey
      else if p \<noteq> [] \<and> p \<le> old then Inl NotInOrder
      else
        (case hex_decode old of
           Inl err \<Rightarrow> Inl (HexError err)
         | Inr s \<Rightarrow>
             (case hex_decode p of
                Inl err \<Rightarrow> Inl (HexError err)
              | Inr e \<Rightarrow>
                  (case parse_spec_parts p ps of
                     Inl err \<Rightarrow> Inl err
                   | Inr ranges \<Rightarrow> Inr (\<lparr>Start = s, End = e\<rparr> # ranges)))))"

definition ParseShardingSpec :: "string \<Rightarrow> spec_error + KeyRange list" where
  "ParseShardingSpec spec =
     (let parts = split_on CHR ''-'' spec in
      if length parts = 1 then Inl NoRange
      else parse_spec_parts (hd parts) (tl parts))"

subsection \<open>Equal shards\<close>

datatype even_error = ShardCountNotPositive | IndexTooLarge | NotPowerOfTwo

function min_bytes :: "uint64 \<Rightarrow> nat" where
  "min_bytes nn = (if nn > 0 then Suc (min_bytes (drop_bit 8 nn)) else 0)"
  by pat_completeness auto
termination
proof (relation "measure unat")
  fix nn :: uint64
  assume "nn > 0"
  then have "0 < unat nn" by (simp add: word_less_nat_alt)
  moreover have "unat (drop_bit 8 nn) = unat nn div 256"
    by (simp only: unat_drop_bit_eq) (simp add: drop_bit_eq_div)
  ultimately show "(drop_bit 8 nn, nn) \<in> measure unat" by simp
qed simp

declare min_bytes.simps [simp del]

text \<open>The Go \<^verbatim>\<open>int\<close> arguments are integers; the conversion to \<^verbatim>\<open>Uint64Key\<close> wraps.\<close>

definition EvenShardsKeyRange :: "int \<Rightarrow> int \<Rightarrow> even_error + KeyRange" where
  "EvenShardsKeyRange i n =
     (if n \<le> 0 then Inl ShardCountNotPositive
      else if i \<ge> n then Inl IndexTooLarge
      else if n AND (n - 1) \<noteq> 0 then Inl NotPowerOfTwo
      else
        (let minBytes = min_bytes (word_of_int (n - 1));
             width = (- 1 :: uint64) div word_of_int n + 1;
             start = word_of_int i * width;
             end' = start + width;
             startBytes = take minBytes (Uint64Key_Bytes start);
             endBytes = take minBytes (Uint64Key_Bytes end');
             startBytes = (if start = 0 then [] else startBytes);
             endBytes = (if end' = 0 then [] else endBytes)
         in Inr \<lparr>Start = startBytes, End = endBytes\<rparr>))"

subsection \<open>What a key range means\<close>

definition key_set :: "KeyRange option \<Rightarrow> byte list set" where
  "key_set kr = {i. KeyRangeContains kr i}"

definition kr_valid :: "KeyRange option \<Rightarrow> bool" where
  "kr_valid kr = (case kr of None \<Rightarrow> True | Some k \<Rightarrow> End k = [] \<or> Start k < End k)"

lemma KeyRangeContains_None [simp]: "KeyRangeContains None i"
  by (simp add: KeyRangeContains_def)

lemma KeyRangeContains_Some [simp]:
  "KeyRangeContains (Some k) i \<longleftrightarrow> Start k \<le> i \<and> (End k = [] \<or> i < End k)"
  by (simp add: KeyRangeContains_def bytes_order)

lemma key_set_None [simp]: "key_set None = UNIV"
  by (simp add: key_set_def)

lemma mem_key_set [simp]: "i \<in> key_set (Some k) \<longleftrightarrow> Start k \<le> i \<and> (End k = [] \<or> i < End k)"
  by (simp add: key_set_def)

lemma kr_valid_simps [simp]:
  "kr_valid None" "kr_valid (Some k) \<longleftrightarrow> End k = [] \<or> Start k < End k"
  by (simp_all add: kr_valid_def)

text \<open>The nil pointer and the range with two empty limits are the same range.\<close>

definition kr_norm :: "KeyRange option \<Rightarrow> KeyRange" where
  "kr_norm kr = (case kr of None \<Rightarrow> \<lparr>Start = [], End = []\<rparr> | Some k \<Rightarrow> k)"

lemma kr_norm_Some [simp]: "kr_norm (Some k) = k"
  by (simp add: kr_norm_def)

lemma key_set_norm: "key_set (Some (kr_norm kr)) = key_set kr"
  by (cases kr) (auto simp: kr_norm_def)

lemma KeyRangeStartEqual_iff: "KeyRangeStartEqual l r \<longleftrightarrow> Start (kr_norm l) = Start (kr_norm r)"
  by (auto simp: KeyRangeStartEqual_def kr_norm_def split: option.splits)

lemma KeyRangeEndEqual_iff: "KeyRangeEndEqual l r \<longleftrightarrow> End (kr_norm l) = End (kr_norm r)"
  by (auto simp: KeyRangeEndEqual_def kr_norm_def split: option.splits)

lemma KeyRangeEqual_iff: "KeyRangeEqual l r \<longleftrightarrow> kr_norm l = kr_norm r"
  by (auto simp: KeyRangeEqual_def kr_norm_def split: option.splits)

lemma KeyRangesIntersect_norm:
  "KeyRangesIntersect l r \<longleftrightarrow>
     (let f = kr_norm l; s = kr_norm r in
      (End f = [] \<or> Start s < End f) \<and> (End s = [] \<or> Start f < End s))"
  by (auto simp: KeyRangesIntersect_def kr_norm_def bytes_order split: option.splits)

lemma KeyRangesIntersect_sym: "KeyRangesIntersect l r = KeyRangesIntersect r l"
  by (auto simp: KeyRangesIntersect_def split: option.splits)

lemma kr_valid_norm: "kr_valid kr \<longleftrightarrow> End (kr_norm kr) = [] \<or> Start (kr_norm kr) < End (kr_norm kr)"
  by (cases kr) (auto simp: kr_norm_def)

lemma KeyRangesIntersect_iff:
  assumes "kr_valid a" "kr_valid b"
  shows "KeyRangesIntersect a b \<longleftrightarrow> key_set a \<inter> key_set b \<noteq> {}"
proof
  assume int: "KeyRangesIntersect a b"
  let ?f = "kr_norm a" and ?s = "kr_norm b"
  have "max (Start ?f) (Start ?s) \<in> key_set (Some ?f) \<inter> key_set (Some ?s)"
    using int assms by (auto simp: KeyRangesIntersect_norm Let_def kr_valid_norm max_def)
  then show "key_set a \<inter> key_set b \<noteq> {}" by (auto simp: key_set_norm)
next
  assume "key_set a \<inter> key_set b \<noteq> {}"
  then obtain i where "i \<in> key_set (Some (kr_norm a))" "i \<in> key_set (Some (kr_norm b))"
    by (auto simp: key_set_norm)
  then show "KeyRangesIntersect a b"
    by (auto simp: KeyRangesIntersect_norm Let_def)
qed

lemma KeyRangesOverlap_Inr:
  assumes "KeyRangesOverlap a b = Inr c"
  shows "key_set c = key_set a \<inter> key_set b"
proof (cases "a = None \<or> b = None")
  case True
  with assms show ?thesis
    by (auto simp: KeyRangesOverlap_def split: if_splits option.splits)
next
  case False
  then obtain f s where [simp]: "a = Some f" "b = Some s" by auto
  from assms show ?thesis
    by (auto simp: KeyRangesOverlap_def bytes_order Let_def not_less split: if_splits)
qed

lemma KeyRangeIncludes_iff:
  assumes "kr_valid small"
  shows "KeyRangeIncludes big small \<longleftrightarrow> key_set small \<subseteq> key_set big"
proof -
  let ?b = "kr_norm big" and ?s = "kr_norm small"
  have inc: "KeyRangeIncludes big small \<longleftrightarrow>
      Start ?b \<le> Start ?s \<and> (End ?b = [] \<or> End ?s \<noteq> [] \<and> End ?s \<le> End ?b)"
    by (auto simp: KeyRangeIncludes_def kr_norm_def bytes_order not_less split: option.splits)
  show ?thesis
  proof
    assume "KeyRangeIncludes big small"
    then have "key_set (Some ?s) \<subseteq> key_set (Some ?b)" by (auto simp: inc)
    then show "key_set small \<subseteq> key_set big" by (simp only: key_set_norm)
  next
    assume sub: "key_set small \<subseteq> key_set big"
    then have sub': "i \<in> key_set (Some ?s) \<Longrightarrow> i \<in> key_set (Some ?b)" for i
      by (auto simp only: key_set_norm)
    have "Start ?b \<le> Start ?s"
      using sub' [of "Start ?s"] assms by (auto simp: kr_valid_norm)
    moreover have "End ?b = [] \<or> End ?s \<noteq> [] \<and> End ?s \<le> End ?b"
    proof (rule ccontr)
      assume "\<not> ?thesis"
      then have "End ?b \<noteq> []" "End ?s = [] \<or> End ?b < End ?s" by auto
      then have "max (Start ?s) (End ?b) \<in> key_set (Some ?s)"
        using assms by (auto simp: kr_valid_norm)
      then have "max (Start ?s) (End ?b) \<in> key_set (Some ?b)" by (rule sub')
      with \<open>End ?b \<noteq> []\<close> show False by simp
    qed
    ultimately show "KeyRangeIncludes big small" by (simp add: inc)
  qed
qed

lemma KeyRangeEqual_sets:
  assumes "kr_valid a" "kr_valid b"
  shows "KeyRangeEqual a b \<longleftrightarrow> key_set a = key_set b"
proof -
  have inc: "KeyRangeIncludes l r \<longleftrightarrow>
      Start (kr_norm l) \<le> Start (kr_norm r) \<and>
      (End (kr_norm l) = [] \<or> End (kr_norm r) \<noteq> [] \<and> End (kr_norm r) \<le> End (kr_norm l))" for l r
    by (auto simp: KeyRangeIncludes_def kr_norm_def bytes_order not_less split: option.splits)
  have "key_set a = key_set b \<longleftrightarrow> KeyRangeIncludes a b \<and> KeyRangeIncludes b a"
    using KeyRangeIncludes_iff assms by blast
  also have "\<dots> \<longleftrightarrow> kr_norm a = kr_norm b"
    unfolding inc by (cases "kr_norm a"; cases "kr_norm b") auto
  finally show ?thesis by (simp add: KeyRangeEqual_iff)
qed

subsection \<open>Contiguous ranges\<close>

text \<open>
  \<open>contiguous s krs\<close>: the ranges start at \<open>s\<close>, each begins where the one before ends, none is
  empty, and only the last may be without an upper limit.
\<close>

fun contiguous :: "byte list \<Rightarrow> KeyRange list \<Rightarrow> bool" where
  "contiguous s [] = True"
| "contiguous s (k # ks) =
     (Start k = s \<and> (s < End k \<or> ks = [] \<and> End k = []) \<and> contiguous (End k) ks)"

lemma contiguous_valid: "contiguous s ks \<Longrightarrow> k \<in> set ks \<Longrightarrow> kr_valid (Some k)"
  by (induction ks arbitrary: s) auto

lemma contiguous_above: "contiguous s ks \<Longrightarrow> k \<in> set ks \<Longrightarrow> s \<le> Start k"
  by (induction ks arbitrary: s) (auto intro: order.trans less_imp_le)

lemma contiguous_last_above:
  "contiguous s ks \<Longrightarrow> ks \<noteq> [] \<Longrightarrow> End (last ks) = [] \<or> s < End (last ks)"
proof (induction ks arbitrary: s)
  case (Cons k ks)
  then show ?case by (cases "ks = []") (auto dest: order.strict_trans)
qed simp

lemma contiguous_containing:
  assumes "contiguous s ks" "ks \<noteq> []"
  shows "length (filter (\<lambda>k. KeyRangeContains (Some k) i) ks) =
     (if s \<le> i \<and> (End (last ks) = [] \<or> i < End (last ks)) then 1 else 0)"
  using assms
proof (induction ks arbitrary: s)
  case Nil
  then show ?case by simp
next
  case (Cons k ks)
  show ?case
  proof (cases "ks = []")
    case True
    with Cons.prems show ?thesis by auto
  next
    case False
    with Cons.prems have k: "Start k = s" "s < End k" and c: "contiguous (End k) ks"
      by auto
    note IH = Cons.IH [OF c False]
    show ?thesis
    proof (cases "i < End k")
      case True
      moreover have "End (last ks) = [] \<or> i < End (last ks)"
        using True contiguous_last_above [OF c False] by auto
      ultimately show ?thesis using k False IH by (simp add: leD)
    next
      case i: False
      then show ?thesis using k False IH by auto
    qed
  qed
qed

subsection \<open>Parsing sharding specifications\<close>

definition lower_hex :: "string \<Rightarrow> bool" where
  "lower_hex s = (\<forall>c \<in> set s. \<not> (65 \<le> (of_char c :: nat) \<and> (of_char c :: nat) \<le> 70))"

lemma hex_decode_lower:
  "hex_decode s = Inr bs \<Longrightarrow> lower_hex s \<Longrightarrow> s = hex_encode bs"
proof (induction s arbitrary: bs rule: hex_decode.induct)
  case (3 c d cs)
  then obtain a b bs' where
    ab: "from_hex_char c = Some a" "from_hex_char d = Some b" "hex_decode cs = Inr bs'"
    and bs: "bs = (push_bit 4 a OR b) # bs'"
    by (auto split: option.splits sum.splits)
  have "lower_hex cs" using 3(3) by (simp add: lower_hex_def)
  with 3 ab have "cs = hex_encode bs'" by blast
  moreover have "hex_digit a = c" "unat a < 16" "hex_digit b = d" "unat b < 16"
    using from_hex_char_lower [OF ab(1)] from_hex_char_lower [OF ab(2)] 3(3)
    by (auto simp: lower_hex_def)
  ultimately show ?case unfolding bs hex_encode.simps
    using nibbles_split [OF \<open>unat a < 16\<close> \<open>unat b < 16\<close>] by (simp only:)
qed (auto split: option.splits)

lemma parse_spec_parts_contiguous:
  assumes "parse_spec_parts old ps = Inr ks" "lower_hex old" "\<forall>p \<in> set ps. lower_hex p"
    "hex_decode old = Inr s"
  shows "contiguous s ks" "length ks = length ps"
    "ps \<noteq> [] \<Longrightarrow> hex_decode (last ps) = Inr (End (last ks))"
proof -
  have "contiguous s ks \<and> length ks = length ps \<and>
      (ps \<noteq> [] \<longrightarrow> hex_decode (last ps) = Inr (End (last ks)))"
    using assms
  proof (induction ps arbitrary: old s ks)
    case (Cons p ps)
    from Cons.prems obtain e ks' where
      e: "hex_decode p = Inr e" and ks': "parse_spec_parts p ps = Inr ks'"
      and ks: "ks = \<lparr>Start = s, End = e\<rparr> # ks'"
      and ok: "p = [] \<longrightarrow> ps = []" "p = [] \<or> old < p"
      by (auto simp: not_le split: if_splits sum.splits)
    have enc: "old = hex_encode s" "p = hex_encode e"
      using Cons.prems e by (auto intro: hex_decode_lower)
    from Cons.IH [OF ks'] Cons.prems e
    have IH: "contiguous e ks'" "length ks' = length ps"
      "ps \<noteq> [] \<longrightarrow> hex_decode (last ps) = Inr (End (last ks'))" by auto
    have "s < e \<or> e = []" using ok(2) enc by (auto simp: hex_encode_less_iff)
    moreover have "e = [] \<longrightarrow> ps = []" using ok(1) enc by auto
    ultimately show ?case using IH e ks by (cases "ps = []") auto
  qed auto
  then show "contiguous s ks" "length ks = length ps"
    "ps \<noteq> [] \<Longrightarrow> hex_decode (last ps) = Inr (End (last ks))" by auto
qed

lemma parse_spec_parts_old: "parse_spec_parts old (p # ps) = Inr ks \<Longrightarrow> \<exists>s. hex_decode old = Inr s"
  by (auto split: if_splits sum.splits)

lemma ParseShardingSpec_contiguous:
  assumes "ParseShardingSpec spec = Inr ks" "lower_hex spec"
  obtains s where "contiguous s ks" "ks \<noteq> []"
    "hex_decode (hd (split_on CHR ''-'' spec)) = Inr s"
    "hex_decode (last (split_on CHR ''-'' spec)) = Inr (End (last ks))"
proof -
  let ?parts = "split_on CHR ''-'' spec"
  obtain old ps where parts: "?parts = old # ps" by (cases ?parts) auto
  with assms(1) have ps: "ps \<noteq> []" and parse: "parse_spec_parts old ps = Inr ks"
    by (auto simp: ParseShardingSpec_def Let_def split: if_splits)
  have low: "lower_hex p" if "p \<in> set ?parts" for p
    using split_on_parts [OF that] assms(2) by (auto simp: lower_hex_def)
  obtain s where s: "hex_decode old = Inr s"
    using parse ps parse_spec_parts_old [of old "hd ps" "tl ps"] by auto
  from parse_spec_parts_contiguous [OF parse _ _ s] low parts ps
  show thesis by (intro that [of s]) (use s in auto)
qed

lemma join_ends_with_sep:
  assumes "spec \<noteq> []" "hd spec = CHR ''-''" "last spec = CHR ''-''"
  shows "hd (split_on CHR ''-'' spec) = []" "last (split_on CHR ''-'' spec) = []"
proof -
  show "hd (split_on CHR ''-'' spec) = []" using assms by (cases spec) auto
  obtain ys where "spec = ys @ [CHR ''-'']" using assms by (metis append_butlast_last_id)
  moreover have "last (split_on CHR ''-'' (ys @ [CHR ''-''])) = [] \<and>
      length (split_on CHR ''-'' (ys @ [CHR ''-''])) > 1"
    by (induction ys) (auto split: list.splits)
  ultimately show "last (split_on CHR ''-'' spec) = []" by simp
qed

subsection \<open>Equal shards of the 64-bit keys\<close>

lemma be_val_Uint64Key [simp]: "be_val (Uint64Key_Bytes x) = unat x"
proof -
  have "unat x < 2 ^ 64" using unsigned_less [of x] by simp
  then show ?thesis by (simp add: Uint64Key_Bytes_def be_val_be_bytes)
qed

lemma length_Uint64Key [simp]: "length (Uint64Key_Bytes x) = 8"
  by (simp add: Uint64Key_Bytes_def)

lemma Uint64Key_not_Nil [simp]: "Uint64Key_Bytes x \<noteq> []"
  using length_Uint64Key [of x] by (metis list.size(3) zero_neq_numeral)

lemma Uint64Key_less_iff: "Uint64Key_Bytes x < Uint64Key_Bytes y \<longleftrightarrow> x < y"
  using be_val_less_iff [of "Uint64Key_Bytes x" "Uint64Key_Bytes y"]
  by (simp add: word_less_nat_alt)

lemma min_bytes_bound: "unat w < 256 ^ min_bytes w"
proof (induction w rule: min_bytes.induct)
  case (1 w)
  show ?case
  proof (cases "w > 0")
    case True
    have "unat (drop_bit 8 w) = unat w div 256"
      by (simp only: unat_drop_bit_eq) (simp add: drop_bit_eq_div)
    with 1 [OF True] have "unat w div 256 < 256 ^ min_bytes (drop_bit 8 w)" by simp
    then have "unat w < 256 ^ min_bytes (drop_bit 8 w) * 256"
      by (simp add: div_less_iff_less_mult)
    with True show ?thesis by (simp add: min_bytes.simps [of w] mult.commute)
  qed (simp add: min_bytes.simps [of w] word_gt_0)
qed

lemma min_bytes_le: "unat w < 256 ^ n \<Longrightarrow> min_bytes w \<le> n"
proof (induction n arbitrary: w)
  case 0
  then have "w = 0" by (simp add: unat_eq_0)
  then show ?case by (simp add: min_bytes.simps)
next
  case (Suc n)
  have "unat (drop_bit 8 w) = unat w div 256"
    by (simp only: unat_drop_bit_eq) (simp add: drop_bit_eq_div)
  with Suc.prems have "unat (drop_bit 8 w) < 256 ^ n"
    by (simp add: div_less_iff_less_mult mult.commute)
  from Suc.IH [OF this] show ?case by (subst min_bytes.simps) simp
qed

text \<open>A limit whose omitted bytes are zero cuts the 64-bit keys where the full limit does.\<close>

lemma trimmed_limit:
  assumes "m \<le> 8" "256 ^ (8 - m) dvd unat s"
  shows "Uint64Key_Bytes x < take m (Uint64Key_Bytes s) \<longleftrightarrow> x < s"
proof -
  let ?X = "Uint64Key_Bytes x" and ?S = "Uint64Key_Bytes s" and ?P = "256 ^ (8 - m) :: nat"
  have val: "unat y = be_val (take m (Uint64Key_Bytes y)) * ?P + be_val (drop m (Uint64Key_Bytes y))" for y
    using be_val_append [of "take m (Uint64Key_Bytes y)" "drop m (Uint64Key_Bytes y)"] assms(1) by simp
  have low: "be_val (drop m (Uint64Key_Bytes y)) < ?P" for y
    using be_val_less [of "drop m (Uint64Key_Bytes y)"] assms(1) by simp
  have "be_val (drop m ?S) = unat s mod ?P" using val [of s] low [of s] by simp
  then have s: "unat s = be_val (take m ?S) * ?P" using val [of s] assms(2) by simp
  have "x < s \<longleftrightarrow> be_val (take m ?X) * ?P + be_val (drop m ?X) < be_val (take m ?S) * ?P"
    using val [of x] s by (simp add: word_less_nat_alt)
  also have "\<dots> \<longleftrightarrow> be_val (take m ?X) < be_val (take m ?S)"
  proof
    assume "be_val (take m ?X) * ?P + be_val (drop m ?X) < be_val (take m ?S) * ?P"
    then have "be_val (take m ?X) * ?P < be_val (take m ?S) * ?P" by linarith
    then show "be_val (take m ?X) < be_val (take m ?S)" by simp
  next
    assume "be_val (take m ?X) < be_val (take m ?S)"
    then have "(be_val (take m ?X) + 1) * ?P \<le> be_val (take m ?S) * ?P"
      by (intro mult_right_mono) auto
    then show "be_val (take m ?X) * ?P + be_val (drop m ?X) < be_val (take m ?S) * ?P"
      using low [of x] by simp
  qed
  also have "\<dots> \<longleftrightarrow> take m ?X < take m ?S" by (rule be_val_less_iff) simp
  also have "\<dots> \<longleftrightarrow> take m ?X @ drop m ?X < take m ?S"
    by (rule append_less_iff_short [symmetric]) simp
  finally show ?thesis by simp
qed

lemma even_width:
  assumes "k \<le> 63"
  shows "(- 1 :: uint64) div word_of_int (2 ^ k) + 1 = of_nat (2 ^ (64 - k))"
proof -
  have n: "unat (word_of_int (2 ^ k) :: uint64) = 2 ^ k"
  proof -
    have "word_of_int (2 ^ k) = (of_nat (2 ^ k) :: uint64)" by simp
    moreover have "(2 :: nat) ^ k < 2 ^ 64"
      using power_strict_increasing [of k 64 "2 :: nat"] assms by linarith
    ultimately show ?thesis by (simp only: unat_of_nat) simp
  qed
  have "(2 :: nat) ^ 64 = 2 ^ k * 2 ^ (64 - k)"
    using assms by (simp flip: power_add)
  moreover have "(a * b - 1) div a = b - 1" if "0 < a" "0 < b" for a b :: nat
  proof (cases b)
    case (Suc c)
    then have "a * b - 1 = (a - 1) + a * c" using that by simp
    then show ?thesis using that Suc by (simp only: div_mult_self2) simp
  qed (use that in simp)
  ultimately have "((2 :: nat) ^ 64 - 1) div 2 ^ k = 2 ^ (64 - k) - 1"
    by (metis zero_less_numeral zero_less_power)
  then have "unat ((- 1 :: uint64) div word_of_int (2 ^ k)) = 2 ^ (64 - k) - 1"
    by (simp only: unat_div n) (simp add: unsigned_minus_1_eq_mask mask_eq_exp_minus_1)
  then have "(- 1 :: uint64) div word_of_int (2 ^ k) = of_nat (2 ^ (64 - k) - 1)"
    by (metis of_nat_unat ucast_id)
  then show ?thesis by simp
qed

lemma even_shard_limits:
  assumes "k \<le> 63" "j < 2 ^ k"
  shows "unat (of_nat j * of_nat (2 ^ (64 - k)) :: uint64) = j * 2 ^ (64 - k)"
    and "unat (of_nat j * of_nat (2 ^ (64 - k)) + of_nat (2 ^ (64 - k)) :: uint64) =
      (if Suc j = 2 ^ k then 0 else Suc j * 2 ^ (64 - k))"
proof -
  have p: "(2 :: nat) ^ 64 = 2 ^ k * 2 ^ (64 - k)" using assms by (simp flip: power_add)
  have u: "unat (of_nat x * of_nat (2 ^ (64 - k)) :: uint64) = x * 2 ^ (64 - k) mod 2 ^ 64" for x
    by (simp only: of_nat_mult [symmetric] unat_of_nat) simp
  have small: "x * 2 ^ (64 - k) < (2 :: nat) ^ 64" if "x < 2 ^ k" for x :: nat
    unfolding p using that by simp
  show "unat (of_nat j * of_nat (2 ^ (64 - k)) :: uint64) = j * 2 ^ (64 - k)"
    using u [of j] small [OF assms(2)] by simp
  have s: "of_nat j * of_nat (2 ^ (64 - k)) + of_nat (2 ^ (64 - k)) =
      (of_nat (Suc j) * of_nat (2 ^ (64 - k)) :: uint64)" by (simp add: algebra_simps)
  show "unat (of_nat j * of_nat (2 ^ (64 - k)) + of_nat (2 ^ (64 - k)) :: uint64) =
      (if Suc j = 2 ^ k then 0 else Suc j * 2 ^ (64 - k))"
  proof (cases "Suc j = 2 ^ k")
    case True
    then show ?thesis unfolding s u True p by simp
  next
    case False
    with assms(2) have "Suc j < 2 ^ k" by linarith
    from small [OF this] False show ?thesis unfolding s u by simp
  qed
qed

lemma even_min_bytes:
  assumes "k \<le> 63"
  defines "m \<equiv> min_bytes (word_of_int (2 ^ k - 1))"
  shows "m \<le> 8" "256 ^ (8 - m) dvd (2 :: nat) ^ (64 - k)"
proof -
  let ?w = "word_of_int (2 ^ k - 1) :: uint64"
  have "(2 :: int) ^ k - 1 = int (2 ^ k - 1)" by (simp add: of_nat_diff)
  then have "?w = of_nat (2 ^ k - 1)" by (simp only: of_int_of_nat_eq)
  moreover have "(2 :: nat) ^ k - 1 < 2 ^ 64"
    using power_strict_increasing [of k 64 "2 :: nat"] assms(1) by linarith
  ultimately have w: "unat ?w = 2 ^ k - 1" by (simp only: unat_of_nat) simp
  show "m \<le> 8"
    unfolding m_def by (rule min_bytes_le) (use w \<open>2 ^ k - 1 < 2 ^ 64\<close> in simp)
  have "(2 :: nat) ^ k - 1 < 256 ^ m" using min_bytes_bound [of ?w] w unfolding m_def by simp
  then have "(2 :: nat) ^ k \<le> 256 ^ m" by simp
  then have "(2 :: nat) ^ k \<le> 2 ^ (8 * m)" by (simp add: power_mult)
  then have "k \<le> 8 * m" by simp
  then have "8 * (8 - m) \<le> 64 - k" by simp
  then have "(2 :: nat) ^ (8 * (8 - m)) dvd 2 ^ (64 - k)" by (rule le_imp_power_dvd)
  then show "256 ^ (8 - m) dvd (2 :: nat) ^ (64 - k)" by (simp add: power_mult)
qed

lemma EvenShardsKeyRange_contains:
  assumes "k \<le> 63" "0 \<le> i" "i < 2 ^ k"
  shows "\<exists>kr. EvenShardsKeyRange i (2 ^ k) = Inr kr \<and>
     (\<forall>x. KeyRangeContains (Some kr) (Uint64Key_Bytes x) \<longleftrightarrow> int (unat x div 2 ^ (64 - k)) = i)"
proof -
  define j where "j = nat i"
  have j: "i = int j" "j < 2 ^ k" using assms(2,3) by (auto simp: j_def nat_less_iff)
  define W where "W = (2 :: nat) ^ (64 - k)"
  define m where "m = min_bytes (word_of_int (2 ^ k - 1))"
  define start where "start = (of_nat j * of_nat W :: uint64)"
  define end' where "end' = start + of_nat W"
  note lim = even_shard_limits [OF assms(1) j(2)]
  have us: "unat start = j * W" and ue: "unat end' = (if Suc j = 2 ^ k then 0 else Suc j * W)"
    using lim unfolding start_def end'_def W_def by blast+
  have m: "m \<le> 8" "256 ^ (8 - m) dvd unat start" "256 ^ (8 - m) dvd unat end'"
    using even_min_bytes [OF assms(1)] unfolding us ue m_def W_def by (auto intro: dvd_mult)
  have pow: "(2 :: int) ^ k AND (2 ^ k - 1) = 0"
    by (simp add: mask_eq_exp_minus_1 [symmetric] take_bit_eq_mask [symmetric])
  define kr where "kr = \<lparr>Start = (if start = 0 then [] else take m (Uint64Key_Bytes start)),
      End = (if end' = 0 then [] else take m (Uint64Key_Bytes end'))\<rparr>"
  have ev: "EvenShardsKeyRange i (2 ^ k) = Inr kr"
  proof -
    have c: "((2 :: int) ^ k \<le> 0) = False" "(2 ^ k \<le> int j) = False"
      "((2 :: int) ^ k AND (2 ^ k - 1) \<noteq> 0) = False" using assms pow j by simp_all
    show ?thesis
      unfolding EvenShardsKeyRange_def j(1) c even_width [OF assms(1)] Let_def if_False
        kr_def m_def end'_def start_def W_def of_int_of_nat_eq ..
  qed
  have "KeyRangeContains (Some kr) (Uint64Key_Bytes x) \<longleftrightarrow> int (unat x div W) = i" for x
  proof -
    have "KeyRangeContains (Some kr) (Uint64Key_Bytes x) \<longleftrightarrow>
        (start \<le> x) \<and> (end' = 0 \<or> x < end')"
      using trimmed_limit [OF m(1,2), of x] trimmed_limit [OF m(1,3), of x]
        trimmed_limit [OF m(1,3), of 0]
      by (auto simp: kr_def not_less [symmetric] word_gt_0)
    also have "\<dots> \<longleftrightarrow> j * W \<le> unat x \<and> unat x < Suc j * W"
    proof (cases "Suc j = 2 ^ k")
      case True
      then have "Suc j * W = 2 ^ 64" using assms(1) by (simp add: W_def flip: power_add)
      moreover have "unat x < 2 ^ 64" using unsigned_less [of x] by simp
      ultimately show ?thesis using us ue True
        by (simp add: word_le_nat_alt unat_eq_0 [symmetric])
    next
      case False
      have "W > 0" by (simp add: W_def)
      with False ue have "end' \<noteq> 0" by (metis mult_is_0 nat.distinct(1) neq0_conv unat_0)
      with False us ue show ?thesis by (simp add: word_le_nat_alt word_less_nat_alt)
    qed
    also have "\<dots> \<longleftrightarrow> j \<le> unat x div W \<and> unat x div W < Suc j"
      by (simp add: W_def less_eq_div_iff_mult_less_eq div_less_iff_less_mult)
    also have "\<dots> \<longleftrightarrow> unat x div W = j" by auto
    finally show ?thesis by (simp add: j)
  qed
  with ev show ?thesis unfolding W_def by blast
qed

subsection \<open>Properties\<close>

text \<open>
  C22. On ranges that are not empty, the tests on limits decide the questions on keyspace ids:
  \<open>KeyRangesIntersect\<close> says whether some id is in both ranges, \<open>KeyRangeIncludes\<close> whether
  every id of the second is in the first, \<open>KeyRangeEqual\<close> whether they have the same ids, and
  \<open>KeyRangesOverlap\<close> returns exactly the ids of both ranges, or an error exactly when there are none.
\<close>

theorem key_range_tests_decide:
  assumes "kr_valid a" "kr_valid b"
  shows "(KeyRangesIntersect a b \<longleftrightarrow> key_set a \<inter> key_set b \<noteq> {}) \<and>
    (KeyRangeIncludes a b \<longleftrightarrow> key_set b \<subseteq> key_set a) \<and>
    (KeyRangeEqual a b \<longleftrightarrow> key_set a = key_set b) \<and>
    (case KeyRangesOverlap a b of
       Inl _ \<Rightarrow> key_set a \<inter> key_set b = {}
     | Inr c \<Rightarrow> key_set c = key_set a \<inter> key_set b)"
proof -
  have "key_set a \<inter> key_set b = {}" if "KeyRangesOverlap a b = Inl e" for e
    using that KeyRangesIntersect_iff [OF assms]
    by (auto simp: KeyRangesOverlap_def Let_def split: if_splits option.splits)
  then show ?thesis
    using KeyRangesIntersect_iff [OF assms] KeyRangeIncludes_iff [OF assms(2)] KeyRangeEqual_sets [OF assms]
    by (auto split: sum.splits dest: KeyRangesOverlap_Inr)
qed

theorem key_range_tests_decide_witness:
  "let a = Some \<lparr>Start = [], End = [128]\<rparr>; b = Some \<lparr>Start = [64], End = []\<rparr> in
   key_set a \<inter> key_set b \<noteq> {} \<and> \<not> key_set b \<subseteq> key_set a \<and> key_set a \<noteq> key_set b \<and>
   key_set (Some \<lparr>Start = [64], End = [128]\<rparr>) = key_set a \<inter> key_set b"
  using key_range_tests_decide [of "Some \<lparr>Start = [], End = [128]\<rparr>" "Some \<lparr>Start = [64], End = []\<rparr>"]
  by (simp add: KeyRangesIntersect_def KeyRangeIncludes_def KeyRangeEqual_def KeyRangesOverlap_def bytes_order Let_def)

text \<open>
  C10. A sharding specification in lower case that begins and ends with a dash, when
  \<open>ParseShardingSpec\<close> accepts it, gives shards that cut the whole key space: every keyspace
  id is in exactly one of them.
\<close>

theorem ParseShardingSpec_partition:
  assumes "ParseShardingSpec spec = Inr ks" "lower_hex spec"
    "spec \<noteq> []" "hd spec = CHR ''-''" "last spec = CHR ''-''"
  shows "\<exists>!i. i < length ks \<and> KeyRangeContains (Some (ks ! i)) ksid"
proof -
  obtain s where s: "contiguous s ks" "ks \<noteq> []"
    "hex_decode (hd (split_on CHR ''-'' spec)) = Inr s"
    "hex_decode (last (split_on CHR ''-'' spec)) = Inr (End (last ks))"
    using ParseShardingSpec_contiguous [OF assms(1,2)] by blast
  from s(3,4) join_ends_with_sep [OF assms(3-5)] have "s = []" "End (last ks) = []" by auto
  with contiguous_containing [OF s(1,2), of ksid]
  have "length (filter (\<lambda>k. KeyRangeContains (Some k) ksid) ks) = 1" by simp
  then have "card {i. i < length ks \<and> KeyRangeContains (Some (ks ! i)) ksid} = 1"
    by (simp only: length_filter_conv_card)
  then obtain j where j: "{i. i < length ks \<and> KeyRangeContains (Some (ks ! i)) ksid} = {j}"
    by (rule card_1_singletonE)
  then have "i < length ks \<and> KeyRangeContains (Some (ks ! i)) ksid \<longleftrightarrow> i = j" for i
    by blast
  then show ?thesis by (intro ex1I [of _ j]) (simp_all only:)
qed

theorem ParseShardingSpec_partition_witness:
  "ParseShardingSpec ''-40-80-'' =
     Inr [\<lparr>Start = [], End = [64]\<rparr>, \<lparr>Start = [64], End = [128]\<rparr>, \<lparr>Start = [128], End = []\<rparr>] \<and>
   (\<exists>!i. i < 3 \<and> KeyRangeContains (Some
     ([\<lparr>Start = [], End = [64]\<rparr>, \<lparr>Start = [64], End = [128]\<rparr>, \<lparr>Start = [128], End = []\<rparr>] ! i)) [65, 7])"
proof -
  have p: "ParseShardingSpec ''-40-80-'' =
     Inr [\<lparr>Start = [], End = [64]\<rparr>, \<lparr>Start = [64], End = [128]\<rparr>, \<lparr>Start = [128], End = []\<rparr>]"
    by (simp add: ParseShardingSpec_def Let_def from_hex_char_def)
  have l: "lower_hex ''-40-80-''" by (simp add: lower_hex_def)
  show ?thesis using p ParseShardingSpec_partition [OF p l, of "[65, 7]"]
    by (simp add: numeral_3_eq_3)
qed

text \<open>
  C23. The shard \<open>i\<close> of \<open>2^k\<close> equal shards holds exactly the 64-bit keys whose \<open>k\<close> leading
  bits are \<open>i\<close>, although its limits are written with trailing zero bytes left out.
\<close>

theorem EvenShardsKeyRange_leading_bits:
  assumes "k \<le> 63" "0 \<le> i" "i < 2 ^ k"
  shows "\<exists>kr. EvenShardsKeyRange i (2 ^ k) = Inr kr \<and>
     (\<forall>x. KeyRangeContains (Some kr) (Uint64Key_Bytes x) \<longleftrightarrow> int (unat x div 2 ^ (64 - k)) = i)"
  by (rule EvenShardsKeyRange_contains [OF assms])

theorem EvenShardsKeyRange_leading_bits_witness:
  "\<exists>kr. EvenShardsKeyRange 1 (2 ^ 1) = Inr kr \<and>
     (\<forall>x. KeyRangeContains (Some kr) (Uint64Key_Bytes x) \<longleftrightarrow> int (unat x div 2 ^ (64 - 1)) = 1)"
  using EvenShardsKeyRange_leading_bits [of 1 1] by simp

text \<open>
  The limits of a specification are compared as text, so capital digits escape the order check:
  \<^verbatim>\<open>B0-a0\<close> is accepted although its start is above its end, and its range holds no id.
\<close>

theorem ParseShardingSpec_capitals:
  "ParseShardingSpec ''B0-a0'' = Inr [\<lparr>Start = [176], End = [160]\<rparr>] \<and>
   key_set (Some \<lparr>Start = [176], End = [160]\<rparr>) = {}"
proof -
  have "ParseShardingSpec ''B0-a0'' = Inr [\<lparr>Start = [176], End = [160]\<rparr>]" by (simp add: ParseShardingSpec_def Let_def from_hex_char_def)
  moreover have "\<not> ([176] \<le> i \<and> i < [160 :: byte])" for i
    using order.strict_trans1 [of "[176]" i "[160 :: byte]"] by auto
  ultimately show ?thesis by auto
qed

end
