(* ===== verification/Destination.thy ===== *)
theory Destination
  imports Key_Range
begin

text \<open>
  Query destinations and their resolution to shards: \<^verbatim>\<open>src/vt/key/destination.go\<close>.

  The implementations of the \<^verbatim>\<open>Destination\<close> interface are the constructors of \<open>Destination\<close>, its
  methods are \<open>Destination_IsUnique\<close>, \<open>Destination_Resolve\<close> and \<open>Destination_String\<close>. The callback
  \<^verbatim>\<open>addShard\<close> is a function of the shard name and of the caller's state; it returns an error, if
  any, and the new state. The global \<^verbatim>\<open>AnyShardPicker\<close> is the parameter \<open>pick\<close>: the source's
  implementation draws a random index below the number of shards.

  \<open>Destination_Resolve_streams\<close> shows that a resolution is a stream of shard names that does not
  depend on the callback; the other properties are about that stream.
\<close>

record ShardReference =
  Name :: string
  SR_KeyRange :: "KeyRange option"

datatype Destination =
    DestinationShard string
  | DestinationShards "string list"
  | DestinationExactKeyRange "KeyRange option"
  | DestinationExactKeyRanges "KeyRange option list"
  | DestinationKeyRange "KeyRange option"
  | DestinationKeyRanges "KeyRange option list"
  | DestinationKeyspaceID "byte list"
  | DestinationKeyspaceIDs "byte list list"
  | DestinationAnyShard
  | DestinationAllShards
  | DestinationNone

text \<open>
  The errors of a resolution: the three that the code makes itself (with the \<^verbatim>\<open>vtrpc\<close> codes
  UNAVAILABLE for \<open>NoShardInKeyspace\<close> and INVALID\_ARGUMENT for the two others), the panic of an
  index out of range, and an error of the callback, passed on.
\<close>

datatype 'e resolve_error =
    NoShardInKeyspace
  | NotExactMatch "KeyRange option"
  | NoMatchingShard "byte list"
  | IndexOutOfRange
  | CallbackError 'e

type_synonym ('s, 'e) callback = "string \<Rightarrow> 's \<Rightarrow> 'e option \<times> 's"

fun Destination_IsUnique :: "Destination \<Rightarrow> bool" where
  "Destination_IsUnique (DestinationShard _) = True"
| "Destination_IsUnique (DestinationShards _) = False"
| "Destination_IsUnique (DestinationExactKeyRange _) = True"
| "Destination_IsUnique (DestinationExactKeyRanges _) = False"
| "Destination_IsUnique (DestinationKeyRange _) = True"
| "Destination_IsUnique (DestinationKeyRanges _) = False"
| "Destination_IsUnique (DestinationKeyspaceID _) = True"
| "Destination_IsUnique (DestinationKeyspaceIDs _) = False"
| "Destination_IsUnique DestinationAnyShard = True"
| "Destination_IsUnique DestinationAllShards = False"
| "Destination_IsUnique DestinationNone = True"

definition DestinationShard_String :: "string \<Rightarrow> string" where
  "DestinationShard_String d = ''DestinationShard('' @ d @ '')''"

definition DestinationShards_String :: "string list \<Rightarrow> string" where
  "DestinationShards_String d = ''DestinationShards('' @ join_with '','' d @ '')''"

definition DestinationExactKeyRange_String :: "KeyRange option \<Rightarrow> string" where
  "DestinationExactKeyRange_String kr = ''DestinationExactKeyRange('' @ KeyRangeString kr @ '')''"

definition DestinationExactKeyRanges_String :: "KeyRange option list \<Rightarrow> string" where
  "DestinationExactKeyRanges_String krs =
     ''DestinationExactKeyRanges('' @ join_with '','' (map KeyRangeString krs) @ '')''"

definition DestinationKeyRange_String :: "KeyRange option \<Rightarrow> string" where
  "DestinationKeyRange_String kr = ''DestinationKeyRange('' @ KeyRangeString kr @ '')''"

definition DestinationKeyRanges_String :: "KeyRange option list \<Rightarrow> string" where
  "DestinationKeyRanges_String krs =
     ''DestinationKeyRanges('' @ join_with '','' (map KeyRangeString krs) @ '')''"

definition DestinationKeyspaceID_String :: "byte list \<Rightarrow> string" where
  "DestinationKeyspaceID_String i = ''DestinationKeyspaceID('' @ hex_encode i @ '')''"

definition DestinationKeyspaceIDs_String :: "byte list list \<Rightarrow> string" where
  "DestinationKeyspaceIDs_String ids =
     ''DestinationKeyspaceIDs('' @ join_with '','' (map hex_encode ids) @ '')''"

fun Destination_String :: "Destination \<Rightarrow> string" where
  "Destination_String (DestinationShard d) = DestinationShard_String d"
| "Destination_String (DestinationShards d) = DestinationShards_String d"
| "Destination_String (DestinationExactKeyRange kr) = DestinationExactKeyRange_String kr"
| "Destination_String (DestinationExactKeyRanges krs) = DestinationExactKeyRanges_String krs"
| "Destination_String (DestinationKeyRange kr) = DestinationKeyRange_String kr"
| "Destination_String (DestinationKeyRanges krs) = DestinationKeyRanges_String krs"
| "Destination_String (DestinationKeyspaceID i) = DestinationKeyspaceID_String i"
| "Destination_String (DestinationKeyspaceIDs ids) = DestinationKeyspaceIDs_String ids"
| "Destination_String DestinationAnyShard = ''DestinationAnyShard()''"
| "Destination_String DestinationAllShards = ''DestinationAllShards()''"
| "Destination_String DestinationNone = ''DestinationNone()''"

definition DestinationsString :: "Destination list \<Rightarrow> string" where
  "DestinationsString ds = ''Destinations:'' @ join_with '','' (map Destination_String ds)"

fun add_shards :: "('s, 'e) callback \<Rightarrow> string list \<Rightarrow> 's \<Rightarrow> 'e resolve_error option \<times> 's" where
  "add_shards addShard [] s = (None, s)"
| "add_shards addShard (n # ns) s =
     (case addShard n s of
        (Some err, s') \<Rightarrow> (Some (CallbackError err), s')
      | (None, s') \<Rightarrow> add_shards addShard ns s')"

fun skip_to_start :: "KeyRange option \<Rightarrow> ShardReference list \<Rightarrow> ShardReference list" where
  "skip_to_start kr [] = []"
| "skip_to_start kr (sh # shs) =
     (if KeyRangeStartEqual kr (SR_KeyRange sh) then sh # shs else skip_to_start kr shs)"

fun exact_loop :: "KeyRange option \<Rightarrow> ShardReference list \<Rightarrow> ('s, 'e) callback \<Rightarrow> 's \<Rightarrow>
    'e resolve_error option \<times> 's" where
  "exact_loop kr [] addShard s = (Some (NotExactMatch kr), s)"
| "exact_loop kr (sh # shs) addShard s =
     (if \<not> KeyRangesIntersect kr (SR_KeyRange sh) then (Some (NotExactMatch kr), s)
      else
        (case addShard (Name sh) s of
           (Some err, s') \<Rightarrow> (Some (CallbackError err), s')
         | (None, s') \<Rightarrow>
             if KeyRangeEndEqual kr (SR_KeyRange sh) then (None, s')
             else exact_loop kr shs addShard s'))"

definition processExactKeyRange ::
  "ShardReference list \<Rightarrow> KeyRange option \<Rightarrow> ('s, 'e) callback \<Rightarrow> 's \<Rightarrow> 'e resolve_error option \<times> 's" where
  "processExactKeyRange allShards kr addShard s =
     exact_loop kr (skip_to_start kr allShards) addShard s"

fun processKeyRange ::
  "ShardReference list \<Rightarrow> KeyRange option \<Rightarrow> ('s, 'e) callback \<Rightarrow> 's \<Rightarrow> 'e resolve_error option \<times> 's" where
  "processKeyRange [] kr addShard s = (None, s)"
| "processKeyRange (shard # shs) kr addShard s =
     (if \<not> KeyRangesIntersect kr (SR_KeyRange shard) then processKeyRange shs kr addShard s
      else
        (case addShard (Name shard) s of
           (Some err, s') \<Rightarrow> (Some (CallbackError err), s')
         | (None, s') \<Rightarrow> processKeyRange shs kr addShard s'))"

fun find_shard :: "ShardReference list \<Rightarrow> byte list \<Rightarrow> 'e resolve_error + string" where
  "find_shard [] keyspaceID = Inl (NoMatchingShard keyspaceID)"
| "find_shard (sh # shs) keyspaceID =
     (if KeyRangeContains (SR_KeyRange sh) keyspaceID then Inr (Name sh)
      else find_shard shs keyspaceID)"

definition GetShardForKeyspaceID ::
  "ShardReference list \<Rightarrow> byte list \<Rightarrow> 'e resolve_error + string" where
  "GetShardForKeyspaceID allShards keyspaceID =
     (if length allShards = 0 then Inl NoShardInKeyspace else find_shard allShards keyspaceID)"

text \<open>A loop that runs a step for each element and stops at the first error.\<close>

fun each :: "('a \<Rightarrow> 's \<Rightarrow> 'err option \<times> 's) \<Rightarrow> 'a list \<Rightarrow> 's \<Rightarrow> 'err option \<times> 's" where
  "each f [] s = (None, s)"
| "each f (x # xs) s =
     (case f x s of (Some err, s') \<Rightarrow> (Some err, s') | (None, s') \<Rightarrow> each f xs s')"

definition DestinationShard_Resolve ::
  "string \<Rightarrow> ShardReference list \<Rightarrow> ('s, 'e) callback \<Rightarrow> 's \<Rightarrow> 'e resolve_error option \<times> 's" where
  "DestinationShard_Resolve d allShards addShard s = add_shards addShard [d] s"

definition DestinationShards_Resolve ::
  "string list \<Rightarrow> ShardReference list \<Rightarrow> ('s, 'e) callback \<Rightarrow> 's \<Rightarrow> 'e resolve_error option \<times> 's" where
  "DestinationShards_Resolve d allShards addShard s = add_shards addShard d s"

definition DestinationExactKeyRange_Resolve ::
  "KeyRange option \<Rightarrow> ShardReference list \<Rightarrow> ('s, 'e) callback \<Rightarrow> 's \<Rightarrow> 'e resolve_error option \<times> 's" where
  "DestinationExactKeyRange_Resolve kr allShards addShard s = processExactKeyRange allShards kr addShard s"

definition DestinationExactKeyRanges_Resolve ::
  "KeyRange option list \<Rightarrow> ShardReference list \<Rightarrow> ('s, 'e) callback \<Rightarrow> 's \<Rightarrow>
    'e resolve_error option \<times> 's" where
  "DestinationExactKeyRanges_Resolve krs allShards addShard s =
     each (\<lambda>kr. processExactKeyRange allShards kr addShard) krs s"

definition DestinationKeyRange_Resolve ::
  "KeyRange option \<Rightarrow> ShardReference list \<Rightarrow> ('s, 'e) callback \<Rightarrow> 's \<Rightarrow> 'e resolve_error option \<times> 's" where
  "DestinationKeyRange_Resolve kr allShards addShard s = processKeyRange allShards kr addShard s"

definition DestinationKeyRanges_Resolve ::
  "KeyRange option list \<Rightarrow> ShardReference list \<Rightarrow> ('s, 'e) callback \<Rightarrow> 's \<Rightarrow>
    'e resolve_error option \<times> 's" where
  "DestinationKeyRanges_Resolve krs allShards addShard s =
     each (\<lambda>kr. processKeyRange allShards kr addShard) krs s"

definition DestinationKeyspaceID_Resolve ::
  "byte list \<Rightarrow> ShardReference list \<Rightarrow> ('s, 'e) callback \<Rightarrow> 's \<Rightarrow> 'e resolve_error option \<times> 's" where
  "DestinationKeyspaceID_Resolve d allShards addShard s =
     (case GetShardForKeyspaceID allShards d of
        Inl err \<Rightarrow> (Some err, s)
      | Inr shard \<Rightarrow> add_shards addShard [shard] s)"

definition DestinationKeyspaceIDs_Resolve ::
  "byte list list \<Rightarrow> ShardReference list \<Rightarrow> ('s, 'e) callback \<Rightarrow> 's \<Rightarrow> 'e resolve_error option \<times> 's" where
  "DestinationKeyspaceIDs_Resolve d allShards addShard s =
     each (\<lambda>ksid s.
       case GetShardForKeyspaceID allShards ksid of
         Inl err \<Rightarrow> (Some err, s)
       | Inr shard \<Rightarrow> add_shards addShard [shard] s) d s"

definition DestinationAnyShard_Resolve ::
  "(nat \<Rightarrow> nat) \<Rightarrow> ShardReference list \<Rightarrow> ('s, 'e) callback \<Rightarrow> 's \<Rightarrow> 'e resolve_error option \<times> 's" where
  "DestinationAnyShard_Resolve pick allShards addShard s =
     (if length allShards = 0 then (Some NoShardInKeyspace, s)
      else if pick (length allShards) < length allShards
      then add_shards addShard [Name (allShards ! pick (length allShards))] s
      else (Some IndexOutOfRange, s))"

definition DestinationAllShards_Resolve ::
  "ShardReference list \<Rightarrow> ('s, 'e) callback \<Rightarrow> 's \<Rightarrow> 'e resolve_error option \<times> 's" where
  "DestinationAllShards_Resolve allShards addShard s = add_shards addShard (map Name allShards) s"

definition DestinationNone_Resolve ::
  "ShardReference list \<Rightarrow> ('s, 'e) callback \<Rightarrow> 's \<Rightarrow> 'e resolve_error option \<times> 's" where
  "DestinationNone_Resolve allShards addShard s = (None, s)"

lemmas Resolve_defs =
  DestinationShard_Resolve_def DestinationShards_Resolve_def DestinationExactKeyRange_Resolve_def
  DestinationExactKeyRanges_Resolve_def DestinationKeyRange_Resolve_def DestinationKeyRanges_Resolve_def
  DestinationKeyspaceID_Resolve_def DestinationKeyspaceIDs_Resolve_def DestinationAnyShard_Resolve_def
  DestinationAllShards_Resolve_def DestinationNone_Resolve_def

text \<open>The call through the interface.\<close>

fun Destination_Resolve ::
  "(nat \<Rightarrow> nat) \<Rightarrow> Destination \<Rightarrow> ShardReference list \<Rightarrow> ('s, 'e) callback \<Rightarrow> 's \<Rightarrow>
    'e resolve_error option \<times> 's" where
  "Destination_Resolve pick (DestinationShard d) = DestinationShard_Resolve d"
| "Destination_Resolve pick (DestinationShards d) = DestinationShards_Resolve d"
| "Destination_Resolve pick (DestinationExactKeyRange kr) = DestinationExactKeyRange_Resolve kr"
| "Destination_Resolve pick (DestinationExactKeyRanges krs) = DestinationExactKeyRanges_Resolve krs"
| "Destination_Resolve pick (DestinationKeyRange kr) = DestinationKeyRange_Resolve kr"
| "Destination_Resolve pick (DestinationKeyRanges krs) = DestinationKeyRanges_Resolve krs"
| "Destination_Resolve pick (DestinationKeyspaceID i) = DestinationKeyspaceID_Resolve i"
| "Destination_Resolve pick (DestinationKeyspaceIDs ids) = DestinationKeyspaceIDs_Resolve ids"
| "Destination_Resolve pick DestinationAnyShard = DestinationAnyShard_Resolve pick"
| "Destination_Resolve pick DestinationAllShards = DestinationAllShards_Resolve"
| "Destination_Resolve pick DestinationNone = DestinationNone_Resolve"

subsection \<open>The stream of shard names\<close>

text \<open>The callback that only records the names it gets, and the stream it records.\<close>

definition record_shard :: "(string list, 'e) callback" where
  "record_shard n ns = (None, ns @ [n])"

lemma add_shards_append:
  "add_shards cb (xs @ ys) s =
     (case add_shards cb xs s of (Some e, s') \<Rightarrow> (Some e, s') | (None, s') \<Rightarrow> add_shards cb ys s')"
  by (induction xs arbitrary: s) (auto split: prod.splits option.splits)

lemma add_shards_record [simp]: "add_shards record_shard ns acc = (None, acc @ ns)"
  by (induction ns arbitrary: acc) (auto simp: record_shard_def)

fun exact_names :: "KeyRange option \<Rightarrow> ShardReference list \<Rightarrow> 'e resolve_error option \<times> string list" where
  "exact_names kr [] = (Some (NotExactMatch kr), [])"
| "exact_names kr (sh # shs) =
     (if \<not> KeyRangesIntersect kr (SR_KeyRange sh) then (Some (NotExactMatch kr), [])
      else if KeyRangeEndEqual kr (SR_KeyRange sh) then (None, [Name sh])
      else (case exact_names kr shs of (err, ns) \<Rightarrow> (err, Name sh # ns)))"

text \<open>Each kind of loop, run with any callback, feeds it a fixed list of names.\<close>

definition feeds :: "('s, 'e) callback \<Rightarrow> 'e resolve_error option \<times> string list \<Rightarrow> 's \<Rightarrow>
    'e resolve_error option \<times> 's" where
  "feeds cb t s =
     (case add_shards cb (snd t) s of (Some e, s') \<Rightarrow> (Some e, s') | (None, s') \<Rightarrow> (fst t, s'))"

lemma add_shards_feeds: "add_shards cb ns s = feeds cb (None, ns) s"
  by (auto simp: feeds_def split: prod.splits option.splits)

lemma exact_loop_feeds: "exact_loop kr shs cb s = feeds cb (exact_names kr shs) s"
  by (induction shs arbitrary: s) (auto simp: feeds_def split: prod.splits option.splits)

lemma processKeyRange_feeds:
  "processKeyRange shs kr cb s =
     feeds cb (None, map Name (filter (\<lambda>sh. KeyRangesIntersect kr (SR_KeyRange sh)) shs)) s"
  by (induction shs arbitrary: s) (auto simp: feeds_def split: prod.splits option.splits)

definition ksid_names :: "ShardReference list \<Rightarrow> byte list \<Rightarrow> 'e resolve_error option \<times> string list" where
  "ksid_names shs i = (case GetShardForKeyspaceID shs i of Inl err \<Rightarrow> (Some err, []) | Inr n \<Rightarrow> (None, [n]))"

lemma resolve_ksid_feeds:
  "(case GetShardForKeyspaceID shs i of Inl err \<Rightarrow> (Some err, s) | Inr n \<Rightarrow> add_shards cb [n] s) =
     feeds cb (ksid_names shs i) s"
  by (auto simp: ksid_names_def feeds_def split: sum.splits prod.splits option.splits)

fun seq_names :: "('a \<Rightarrow> 'e resolve_error option \<times> string list) \<Rightarrow> 'a list \<Rightarrow>
    'e resolve_error option \<times> string list" where
  "seq_names f [] = (None, [])"
| "seq_names f (x # xs) =
     (case f x of (Some err, ns) \<Rightarrow> (Some err, ns)
      | (None, ns) \<Rightarrow> (case seq_names f xs of (err, ms) \<Rightarrow> (err, ns @ ms)))"

lemma each_feeds:
  assumes "\<And>x s. f x s = feeds cb (g x) s"
  shows "each f xs s = feeds cb (seq_names g xs) s"
  by (induction xs arbitrary: s)
    (auto simp: assms feeds_def add_shards_append split: prod.splits option.splits)

fun targets :: "(nat \<Rightarrow> nat) \<Rightarrow> Destination \<Rightarrow> ShardReference list \<Rightarrow>
    'e resolve_error option \<times> string list" where
  "targets pick (DestinationShard d) shs = (None, [d])"
| "targets pick (DestinationShards d) shs = (None, d)"
| "targets pick (DestinationExactKeyRange kr) shs = exact_names kr (skip_to_start kr shs)"
| "targets pick (DestinationExactKeyRanges krs) shs =
     seq_names (\<lambda>kr. exact_names kr (skip_to_start kr shs)) krs"
| "targets pick (DestinationKeyRange kr) shs =
     (None, map Name (filter (\<lambda>sh. KeyRangesIntersect kr (SR_KeyRange sh)) shs))"
| "targets pick (DestinationKeyRanges krs) shs =
     seq_names (\<lambda>kr. (None, map Name (filter (\<lambda>sh. KeyRangesIntersect kr (SR_KeyRange sh)) shs))) krs"
| "targets pick (DestinationKeyspaceID i) shs = ksid_names shs i"
| "targets pick (DestinationKeyspaceIDs ids) shs = seq_names (ksid_names shs) ids"
| "targets pick DestinationAnyShard shs =
     (if shs = [] then (Some NoShardInKeyspace, [])
      else if pick (length shs) < length shs then (None, [Name (shs ! pick (length shs))])
      else (Some IndexOutOfRange, []))"
| "targets pick DestinationAllShards shs = (None, map Name shs)"
| "targets pick DestinationNone shs = (None, [])"

lemma Destination_Resolve_feeds:
  "Destination_Resolve pick d shs cb s = feeds cb (targets pick d shs) s"
proof (cases d)
  case (DestinationExactKeyRanges krs)
  then show ?thesis
    by (simp add: Resolve_defs each_feeds [where g = "\<lambda>kr. exact_names kr (skip_to_start kr shs)"]
        processExactKeyRange_def exact_loop_feeds)
next
  case (DestinationKeyRanges krs)
  then show ?thesis
    by (simp add: Resolve_defs processKeyRange_feeds each_feeds [where g = "\<lambda>kr.
        (None, map Name (filter (\<lambda>sh. KeyRangesIntersect kr (SR_KeyRange sh)) shs))"])
next
  case (DestinationKeyspaceIDs ids)
  then show ?thesis
    by (simp add: Resolve_defs resolve_ksid_feeds each_feeds [where g = "ksid_names shs"]
        del: add_shards.simps)
next
  case DestinationAnyShard
  then show ?thesis by (auto simp: Resolve_defs feeds_def split: option.splits prod.splits)
next
  case DestinationNone
  then show ?thesis by (simp add: Resolve_defs feeds_def)
qed (simp_all add: Resolve_defs add_shards_feeds processExactKeyRange_def exact_loop_feeds
    processKeyRange_feeds resolve_ksid_feeds del: add_shards.simps)

lemma Destination_Resolve_record:
  "Destination_Resolve pick d shs record_shard [] = targets pick d shs"
  by (cases "targets pick d shs :: 'a resolve_error option \<times> string list")
    (simp add: Destination_Resolve_feeds feeds_def)

subsection \<open>Routing on a partition of the key space\<close>

text \<open>
  \<open>partitioned shs\<close>: the shards of a keyspace, in order, cut the whole key space.
\<close>

definition shard_ranges :: "ShardReference list \<Rightarrow> KeyRange list" where
  "shard_ranges shs = map (\<lambda>sh. kr_norm (SR_KeyRange sh)) shs"

definition partitioned :: "ShardReference list \<Rightarrow> bool" where
  "partitioned shs \<longleftrightarrow>
     shs \<noteq> [] \<and> contiguous [] (shard_ranges shs) \<and> End (last (shard_ranges shs)) = []"

lemma contains_norm: "KeyRangeContains (Some (kr_norm kr)) i = KeyRangeContains kr i"
  using key_set_norm [of kr] by (auto simp: key_set_def)

lemma partitioned_one:
  assumes "partitioned shs"
  shows "length (filter (\<lambda>sh. KeyRangeContains (SR_KeyRange sh) i) shs) = 1"
proof -
  have "filter (\<lambda>k. KeyRangeContains (Some k) i) (shard_ranges shs) =
      map (\<lambda>sh. kr_norm (SR_KeyRange sh)) (filter (\<lambda>sh. KeyRangeContains (SR_KeyRange sh) i) shs)"
    by (simp only: shard_ranges_def filter_map o_def contains_norm)
  moreover have "shard_ranges shs \<noteq> []" using assms by (simp add: partitioned_def shard_ranges_def)
  ultimately show ?thesis
    using contiguous_containing [of "[]" "shard_ranges shs" i] assms
    by (simp add: partitioned_def)
qed

lemma find_shard_eq:
  "find_shard shs i =
     (case filter (\<lambda>sh. KeyRangeContains (SR_KeyRange sh) i) shs of
        [] \<Rightarrow> Inl (NoMatchingShard i) | sh # _ \<Rightarrow> Inr (Name sh))"
  by (induction shs) auto

lemma partitioned_ksid:
  assumes "partitioned shs"
  obtains sh where "filter (\<lambda>sh. KeyRangeContains (SR_KeyRange sh) i) shs = [sh]"
    "targets pick (DestinationKeyspaceID i) shs = (None, [Name sh])"
proof -
  obtain sh where sh: "filter (\<lambda>sh. KeyRangeContains (SR_KeyRange sh) i) shs = [sh]"
    using partitioned_one [OF assms, of i] by (auto simp: length_Suc_conv)
  moreover have "shs \<noteq> []" using assms by (simp add: partitioned_def)
  ultimately show thesis
    by (intro that [OF sh]) (simp add: ksid_names_def GetShardForKeyspaceID_def find_shard_eq)
qed

lemma partitioned_valid: "partitioned shs \<Longrightarrow> sh \<in> set shs \<Longrightarrow> kr_valid (SR_KeyRange sh)"
  using contiguous_valid [of "[]" "shard_ranges shs" "kr_norm (SR_KeyRange sh)"]
  by (auto simp: partitioned_def shard_ranges_def kr_valid_norm)

lemma contiguous_suffix: "contiguous s (xs @ y # ys) \<Longrightarrow> contiguous (Start y) (y # ys)"
  by (induction xs arbitrary: s) auto

lemma contiguous_prefix:
  "contiguous s (xs @ ys) \<Longrightarrow> contiguous s xs"
  by (induction xs arbitrary: s) auto

lemma skip_to_start_suffix:
  "\<exists>pre. shs = pre @ skip_to_start kr shs \<and>
     (skip_to_start kr shs \<noteq> [] \<longrightarrow>
       Start (kr_norm (SR_KeyRange (hd (skip_to_start kr shs)))) = Start (kr_norm kr))"
proof (induction shs)
  case Nil
  then show ?case by simp
next
  case (Cons sh shs)
  then obtain pre where "shs = pre @ skip_to_start kr shs \<and>
     (skip_to_start kr shs \<noteq> [] \<longrightarrow>
       Start (kr_norm (SR_KeyRange (hd (skip_to_start kr shs)))) = Start (kr_norm kr))" by blast
  then show ?case
    by (auto simp: KeyRangeStartEqual_iff intro: exI [of _ "sh # pre"])
qed

lemma exact_names_segment:
  assumes "exact_names kr shs = (None :: 'e resolve_error option, ns)"
  obtains seg post where "shs = seg @ post" "seg \<noteq> []" "ns = map Name seg"
    "End (kr_norm (SR_KeyRange (last seg))) = End (kr_norm kr)"
proof -
  have "\<exists>seg post. shs = seg @ post \<and> seg \<noteq> [] \<and> ns = map Name seg \<and>
      End (kr_norm (SR_KeyRange (last seg))) = End (kr_norm kr)"
    using assms
  proof (induction shs arbitrary: ns)
    case (Cons sh shs)
    show ?case
    proof (cases "KeyRangeEndEqual kr (SR_KeyRange sh)")
      case True
      with Cons.prems show ?thesis
        by (intro exI [of _ "[sh]"] exI [of _ shs]) (auto simp: KeyRangeEndEqual_iff split: if_splits)
    next
      case False
      with Cons.prems obtain ms where "exact_names kr shs = (None :: 'e resolve_error option, ms)" "ns = Name sh # ms"
        by (auto split: if_splits prod.splits)
      with Cons.IH obtain seg post where "shs = seg @ post" "seg \<noteq> []" "ms = map Name seg"
        "End (kr_norm (SR_KeyRange (last seg))) = End (kr_norm kr)" by blast
      with \<open>ns = Name sh # ms\<close> show ?thesis
        by (intro exI [of _ "sh # seg"] exI [of _ post]) auto
    qed
  qed simp
  then show thesis using that by blast
qed

text \<open>The ids of a contiguous segment of shards are those between its first and last limits.\<close>

lemma segment_contains:
  assumes "contiguous s (shard_ranges seg)" "seg \<noteq> []"
  shows "(\<exists>sh \<in> set seg. KeyRangeContains (SR_KeyRange sh) i) \<longleftrightarrow>
     s \<le> i \<and> (End (kr_norm (SR_KeyRange (last seg))) = [] \<or> i < End (kr_norm (SR_KeyRange (last seg))))"
proof -
  have ne: "shard_ranges seg \<noteq> []" using assms(2) by (simp add: shard_ranges_def)
  have "(\<exists>sh \<in> set seg. KeyRangeContains (SR_KeyRange sh) i) \<longleftrightarrow>
      filter (\<lambda>k. KeyRangeContains (Some k) i) (shard_ranges seg) \<noteq> []"
    by (auto simp: shard_ranges_def filter_empty_conv contains_norm simp del: KeyRangeContains_Some)
  also have "\<dots> \<longleftrightarrow> length (filter (\<lambda>k. KeyRangeContains (Some k) i) (shard_ranges seg)) \<noteq> 0"
    by simp
  also have "\<dots> \<longleftrightarrow> s \<le> i \<and> (End (last (shard_ranges seg)) = [] \<or> i < End (last (shard_ranges seg)))"
    unfolding contiguous_containing [OF assms(1) ne] by simp
  finally show ?thesis using assms(2) by (simp add: shard_ranges_def last_map)
qed

subsection \<open>Properties\<close>

text \<open>
  C24. Resolution is a stream: whatever the callback, \<open>Resolve\<close> hands it, in order, the shard
  names that a recording callback gets, stops at the first error of the callback, and otherwise
  ends with the error the recorded resolution ends with.
\<close>

theorem Destination_Resolve_streams:
  "Destination_Resolve pick d shs cb s =
     (case Destination_Resolve pick d shs record_shard [] of
        (err, names) \<Rightarrow>
          (case add_shards cb names s of
             (Some e, s') \<Rightarrow> (Some e, s')
           | (None, s') \<Rightarrow> (err, s')))"
  unfolding Destination_Resolve_record
  by (auto simp: Destination_Resolve_feeds feeds_def split: prod.splits option.splits)

text \<open>
  C6. When the shards cut the whole key space, a keyspace id resolves to one shard, the only one
  whose key range contains it, and every key range that contains the id resolves to a list of
  shards with that shard in it: a query on a range never misses a row.
\<close>

theorem keyspace_id_routing:
  assumes "partitioned shs" "kr_valid kr" "KeyRangeContains kr ksid"
  shows "\<exists>sh. filter (\<lambda>sh. KeyRangeContains (SR_KeyRange sh) ksid) shs = [sh] \<and>
     Destination_Resolve pick (DestinationKeyspaceID ksid) shs record_shard [] =
       (None :: 'e resolve_error option, [Name sh]) \<and>
     (\<exists>names. Destination_Resolve pick (DestinationKeyRange kr) shs record_shard [] =
        (None :: 'e resolve_error option, names) \<and>
        Name sh \<in> set names)"
proof -
  obtain sh where sh: "filter (\<lambda>sh. KeyRangeContains (SR_KeyRange sh) ksid) shs = [sh]"
    "targets pick (DestinationKeyspaceID ksid) shs = (None :: 'e resolve_error option, [Name sh])"
    using partitioned_ksid [OF assms(1)] by blast
  have "sh \<in> set (filter (\<lambda>sh. KeyRangeContains (SR_KeyRange sh) ksid) shs)"
    unfolding sh(1) by simp
  then have mem: "sh \<in> set shs" "KeyRangeContains (SR_KeyRange sh) ksid" by simp_all
  have "key_set kr \<inter> key_set (SR_KeyRange sh) \<noteq> {}"
    using mem(2) assms(3) by (auto simp: key_set_def)
  then have "KeyRangesIntersect kr (SR_KeyRange sh)"
    using KeyRangesIntersect_iff [OF assms(2) partitioned_valid [OF assms(1) mem(1)]] by simp
  with sh mem(1) show ?thesis unfolding Destination_Resolve_record by auto
qed

theorem keyspace_id_routing_witness:
  "\<exists>sh. filter (\<lambda>sh. KeyRangeContains (SR_KeyRange sh) [200])
       [\<lparr>Name = ''-80'', SR_KeyRange = Some \<lparr>Start = [], End = [128]\<rparr>\<rparr>,
        \<lparr>Name = ''80-'', SR_KeyRange = Some \<lparr>Start = [128], End = []\<rparr>\<rparr>] = [sh] \<and> Name sh = ''80-''"
  using keyspace_id_routing [of "[\<lparr>Name = ''-80'', SR_KeyRange = Some \<lparr>Start = [], End = [128]\<rparr>\<rparr>,
        \<lparr>Name = ''80-'', SR_KeyRange = Some \<lparr>Start = [128], End = []\<rparr>\<rparr>]" None "[200]"]
  by (simp add: partitioned_def shard_ranges_def)

text \<open>
  When an exact key range resolves without an error on shards that cut the key space, the
  shards named are a consecutive part of the shard list and together contain exactly the
  keyspace ids of the range.
\<close>

theorem exact_key_range_covers:
  assumes "partitioned shs"
    and "Destination_Resolve pick (DestinationExactKeyRange kr) shs record_shard [] =
      (None :: 'e resolve_error option, names)"
  shows "\<exists>pre seg post. shs = pre @ seg @ post \<and> seg \<noteq> [] \<and> names = map Name seg \<and>
     (\<forall>ksid. KeyRangeContains kr ksid \<longleftrightarrow>
        (\<exists>sh \<in> set seg. KeyRangeContains (SR_KeyRange sh) ksid))"
proof -
  obtain pre where pre: "shs = pre @ skip_to_start kr shs"
    "skip_to_start kr shs \<noteq> [] \<longrightarrow>
       Start (kr_norm (SR_KeyRange (hd (skip_to_start kr shs)))) = Start (kr_norm kr)"
    using skip_to_start_suffix by blast
  have "exact_names kr (skip_to_start kr shs) = (None :: 'e resolve_error option, names)"
    using assms(2) unfolding Destination_Resolve_record by simp
  then obtain seg post where seg: "skip_to_start kr shs = seg @ post" "seg \<noteq> []" "names = map Name seg"
    "End (kr_norm (SR_KeyRange (last seg))) = End (kr_norm kr)"
    by (rule exact_names_segment)
  obtain sh shs' where cons: "seg = sh # shs'" using seg(2) by (cases seg) auto
  have "contiguous [] (shard_ranges pre @ kr_norm (SR_KeyRange sh) # shard_ranges (shs' @ post))"
    using assms(1) pre(1) unfolding seg(1) cons by (simp add: partitioned_def shard_ranges_def)
  then have "contiguous (Start (kr_norm (SR_KeyRange sh))) (shard_ranges seg @ shard_ranges post)"
    using contiguous_suffix unfolding cons by (fastforce simp: shard_ranges_def)
  then have c: "contiguous (Start (kr_norm kr)) (shard_ranges seg)"
    using pre(2) seg(1) cons by (auto dest: contiguous_prefix)
  show ?thesis
  proof (intro exI conjI allI)
    show "shs = pre @ seg @ post" using pre(1) seg(1) by simp
    show "KeyRangeContains kr ksid \<longleftrightarrow> (\<exists>sh \<in> set seg. KeyRangeContains (SR_KeyRange sh) ksid)" for ksid
      unfolding segment_contains [OF c seg(2)] seg(4)
      using contains_norm [of kr ksid] by simp
  qed (use seg in auto)
qed

theorem exact_key_range_covers_witness:
  "\<exists>pre seg post. [\<lparr>Name = ''-80'', SR_KeyRange = Some \<lparr>Start = [], End = [128]\<rparr>\<rparr>,
        \<lparr>Name = ''80-'', SR_KeyRange = Some \<lparr>Start = [128], End = []\<rparr>\<rparr>] = pre @ seg @ post \<and>
     seg \<noteq> [] \<and> [''-80'', ''80-''] = map Name seg \<and>
     (\<forall>ksid. KeyRangeContains (Some \<lparr>Start = [], End = []\<rparr>) ksid \<longleftrightarrow>
        (\<exists>sh \<in> set seg. KeyRangeContains (SR_KeyRange sh) ksid))"
  by (rule exact_key_range_covers [of _ id, where 'e = unit])
    (simp_all add: partitioned_def shard_ranges_def Resolve_defs processExactKeyRange_def record_shard_def
      KeyRangeStartEqual_def KeyRangesIntersect_def KeyRangeEndEqual_def)

text \<open>
  A \<^verbatim>\<open>DestinationKeyRange\<close> claims to be unique, yet it can resolve to several shards, which the
  comment of the interface rules out.
\<close>

theorem DestinationKeyRange_not_unique:
  "Destination_IsUnique (DestinationKeyRange None) \<and>
   Destination_Resolve id (DestinationKeyRange None)
     [\<lparr>Name = ''-80'', SR_KeyRange = Some \<lparr>Start = [], End = [128]\<rparr>\<rparr>,
      \<lparr>Name = ''80-'', SR_KeyRange = Some \<lparr>Start = [128], End = []\<rparr>\<rparr>] record_shard [] =
     (None :: unit resolve_error option, [''-80'', ''80-''])"
  by (simp add: Resolve_defs record_shard_def KeyRangesIntersect_def)

end
