(* ===== verification/Mysql_Encoding.thy ===== *)
theory Mysql_Encoding
  imports Prelude
begin

text \<open>
  The data encoding of the MySQL wire protocol: \<^verbatim>\<open>src/mysql/encoding.go\<close>.

  The writers fill a buffer from a position on and return the buffer and the next position;
  writing outside of the buffer panics. The readers return \<open>None\<close> where the source returns a
  false \<^verbatim>\<open>ok\<close>, and panic where a slice expression of the source does. Positions are integers;
  \<^verbatim>\<open>pos + s\<close> wraps where \<^verbatim>\<open>s\<close> comes from the data (the other sums stay next to the length of
  the buffer). Go strings hold bytes here.

  The locale \<open>codec\<close> states what a writer and its reader promise together; it is interpreted for
  every kind of field, and the lemmas proved in it once (a field is read back, a sequence of
  fields is read back) hold for all of them.
\<close>

subsection \<open>Buffers\<close>

definition write_bytes :: "byte list \<Rightarrow> int \<Rightarrow> byte list \<Rightarrow> (byte list \<times> int) go" where
  "write_bytes data pos bs =
     (if 0 \<le> pos \<and> pos + int (length bs) \<le> int (length data)
      then Ret (take (nat pos) data @ bs @ drop (nat pos + length bs) data, pos + int (length bs))
      else Panic)"

text \<open>\<^verbatim>\<open>copy(data[pos:], value)\<close>: as many bytes as fit.\<close>

definition copy_bytes :: "byte list \<Rightarrow> int \<Rightarrow> byte list \<Rightarrow> (byte list \<times> int) go" where
  "copy_bytes data pos value =
     (if 0 \<le> pos \<and> pos \<le> int (length data)
      then write_bytes data pos (take (length data - nat pos) value)
      else Panic)"

text \<open>\<^verbatim>\<open>data[lo:hi]\<close>, on a buffer whose capacity is its length.\<close>

definition go_slice :: "byte list \<Rightarrow> int \<Rightarrow> int \<Rightarrow> byte list go" where
  "go_slice data lo hi =
     (if 0 \<le> lo \<and> lo \<le> hi \<and> hi \<le> int (length data)
      then Ret (take (nat hi - nat lo) (drop (nat lo) data)) else Panic)"

definition at :: "byte list \<Rightarrow> int \<Rightarrow> byte go" where
  "at data pos = (if 0 \<le> pos \<and> pos < int (length data) then Ret (data ! nat pos) else Panic)"

subsection \<open>Writers\<close>

definition lenEncIntSize :: "uint64 \<Rightarrow> int" where
  "lenEncIntSize i = (if i < 251 then 1 else if i < 2 ^ 16 then 3 else if i < 2 ^ 24 then 4 else 9)"

definition writeLenEncInt :: "byte list \<Rightarrow> int \<Rightarrow> uint64 \<Rightarrow> (byte list \<times> int) go" where
  "writeLenEncInt data pos i =
     (if i < 251 then write_bytes data pos [ucast i]
      else if i < 2 ^ 16 then
        write_bytes data pos [0xfc, ucast i, ucast (drop_bit 8 i)]
      else if i < 2 ^ 24 then
        write_bytes data pos [0xfd, ucast i, ucast (drop_bit 8 i), ucast (drop_bit 16 i)]
      else
        write_bytes data pos
          [0xfe, ucast i, ucast (drop_bit 8 i), ucast (drop_bit 16 i), ucast (drop_bit 24 i),
           ucast (drop_bit 32 i), ucast (drop_bit 40 i), ucast (drop_bit 48 i),
           ucast (drop_bit 56 i)])"

definition lenNullString :: "byte list \<Rightarrow> int" where
  "lenNullString value = int (length value) + 1"

definition writeNullString :: "byte list \<Rightarrow> int \<Rightarrow> byte list \<Rightarrow> (byte list \<times> int) go" where
  "writeNullString data pos value =
     go_bind (copy_bytes data pos value) (\<lambda>(data, pos). write_bytes data pos [0])"

definition writeEOFString :: "byte list \<Rightarrow> int \<Rightarrow> byte list \<Rightarrow> (byte list \<times> int) go" where
  "writeEOFString data pos value = copy_bytes data pos value"

definition writeByte :: "byte list \<Rightarrow> int \<Rightarrow> byte \<Rightarrow> (byte list \<times> int) go" where
  "writeByte data pos value = write_bytes data pos [value]"

definition writeUint16 :: "byte list \<Rightarrow> int \<Rightarrow> uint16 \<Rightarrow> (byte list \<times> int) go" where
  "writeUint16 data pos value = write_bytes data pos [ucast value, ucast (drop_bit 8 value)]"

definition writeUint32 :: "byte list \<Rightarrow> int \<Rightarrow> uint32 \<Rightarrow> (byte list \<times> int) go" where
  "writeUint32 data pos value =
     write_bytes data pos
       [ucast value, ucast (drop_bit 8 value), ucast (drop_bit 16 value), ucast (drop_bit 24 value)]"

definition writeUint64 :: "byte list \<Rightarrow> int \<Rightarrow> uint64 \<Rightarrow> (byte list \<times> int) go" where
  "writeUint64 data pos value =
     write_bytes data pos
       [ucast value, ucast (drop_bit 8 value), ucast (drop_bit 16 value), ucast (drop_bit 24 value),
        ucast (drop_bit 32 value), ucast (drop_bit 40 value), ucast (drop_bit 48 value),
        ucast (drop_bit 56 value)]"

definition lenEncStringSize :: "byte list \<Rightarrow> int" where
  "lenEncStringSize value =
     (let l = length value in lenEncIntSize (of_nat l) + int l)"

definition writeLenEncString :: "byte list \<Rightarrow> int \<Rightarrow> byte list \<Rightarrow> (byte list \<times> int) go" where
  "writeLenEncString data pos value =
     go_bind (writeLenEncInt data pos (of_nat (length value)))
       (\<lambda>(data, pos). writeEOFString data pos value)"

definition writeZeroes :: "byte list \<Rightarrow> int \<Rightarrow> int \<Rightarrow> (byte list \<times> int) go" where
  "writeZeroes data pos len =
     (if len \<le> 0 then Ret (data, pos + len) else write_bytes data pos (replicate (nat len) 0))"

subsection \<open>Readers\<close>

definition readByte :: "byte list \<Rightarrow> int \<Rightarrow> (byte \<times> int) option go" where
  "readByte data pos =
     (if pos \<ge> int (length data) then Ret None
      else go_bind (at data pos) (\<lambda>b. Ret (Some (b, pos + 1))))"

definition readBytes :: "byte list \<Rightarrow> int \<Rightarrow> int \<Rightarrow> (byte list \<times> int) option go" where
  "readBytes data pos size' =
     (if int64 (pos + size' - 1) \<ge> int (length data) then Ret None
      else go_bind (go_slice data pos (int64 (pos + size')))
             (\<lambda>bs. Ret (Some (bs, int64 (pos + size')))))"

definition readBytesCopy :: "byte list \<Rightarrow> int \<Rightarrow> int \<Rightarrow> (byte list \<times> int) option go" where
  "readBytesCopy data pos size' =
     (if int64 (pos + size' - 1) \<ge> int (length data) then Ret None
      else if size' < 0 then Panic
      else go_bind (go_slice data pos (int64 (pos + size')))
             (\<lambda>bs. Ret (Some (bs, int64 (pos + size')))))"

definition index_byte :: "byte list \<Rightarrow> byte \<Rightarrow> int" where
  "index_byte bs c =
     (let n = length (takeWhile (\<lambda>b. b \<noteq> c) bs) in if n = length bs then -1 else int n)"

definition readNullString :: "byte list \<Rightarrow> int \<Rightarrow> (byte list \<times> int) option go" where
  "readNullString data pos =
     go_bind (go_slice data pos (int (length data))) (\<lambda>rest.
       let end' = index_byte rest 0 in
       if end' = -1 then Ret None
       else go_bind (go_slice data pos (pos + end')) (\<lambda>bs. Ret (Some (bs, pos + end' + 1))))"

definition readUint16 :: "byte list \<Rightarrow> int \<Rightarrow> (uint16 \<times> int) option go" where
  "readUint16 data pos =
     (if pos + 1 \<ge> int (length data) then Ret None
      else go_bind (go_slice data pos (pos + 2)) (\<lambda>bs. Ret (Some (le_word bs, pos + 2))))"

definition readUint32 :: "byte list \<Rightarrow> int \<Rightarrow> (uint32 \<times> int) option go" where
  "readUint32 data pos =
     (if pos + 3 \<ge> int (length data) then Ret None
      else go_bind (go_slice data pos (pos + 4)) (\<lambda>bs. Ret (Some (le_word bs, pos + 4))))"

definition readUint64 :: "byte list \<Rightarrow> int \<Rightarrow> (uint64 \<times> int) option go" where
  "readUint64 data pos =
     (if pos + 7 \<ge> int (length data) then Ret None
      else go_bind (go_slice data pos (pos + 8)) (\<lambda>bs. Ret (Some (le_word bs, pos + 8))))"

text \<open>
  \<^verbatim>\<open>uint64(data[pos+1]) | uint64(data[pos+2])<<8 | ...\<close> over \<open>n\<close> bytes is \<open>le_word\<close> of the slice
  that holds them.
\<close>

definition readLenEncInt :: "byte list \<Rightarrow> int \<Rightarrow> (uint64 \<times> int) option go" where
  "readLenEncInt data pos =
     (if pos \<ge> int (length data) then Ret None
      else go_bind (at data pos) (\<lambda>b.
        if b = 0xfc then
          (if pos + 2 \<ge> int (length data) then Ret None
           else go_bind (go_slice data (pos + 1) (pos + 3)) (\<lambda>bs. Ret (Some (le_word bs, pos + 3))))
        else if b = 0xfd then
          (if pos + 3 \<ge> int (length data) then Ret None
           else go_bind (go_slice data (pos + 1) (pos + 4)) (\<lambda>bs. Ret (Some (le_word bs, pos + 4))))
        else if b = 0xfe then
          (if pos + 8 \<ge> int (length data) then Ret None
           else go_bind (go_slice data (pos + 1) (pos + 9)) (\<lambda>bs. Ret (Some (le_word bs, pos + 9))))
        else Ret (Some (ucast b, pos + 1))))"

definition readLenEncString :: "byte list \<Rightarrow> int \<Rightarrow> (byte list \<times> int) option go" where
  "readLenEncString data pos =
     go_bind (readLenEncInt data pos) (\<lambda>r.
       case r of
         None \<Rightarrow> Ret None
       | Some (size', pos) \<Rightarrow>
           (let s = sint size' in
            if int64 (pos + s - 1) \<ge> int (length data) then Ret None
            else go_bind (go_slice data pos (int64 (pos + s)))
                   (\<lambda>bs. Ret (Some (bs, int64 (pos + s))))))"

definition skipLenEncString :: "byte list \<Rightarrow> int \<Rightarrow> int option go" where
  "skipLenEncString data pos =
     go_bind (readLenEncInt data pos) (\<lambda>r.
       case r of
         None \<Rightarrow> Ret None
       | Some (size', pos) \<Rightarrow>
           (let s = sint size' in
            if int64 (pos + s - 1) \<ge> int (length data) then Ret None
            else Ret (Some (int64 (pos + s)))))"

definition readLenEncStringAsBytes :: "byte list \<Rightarrow> int \<Rightarrow> (byte list \<times> int) option go" where
  "readLenEncStringAsBytes data pos =
     go_bind (readLenEncInt data pos) (\<lambda>r.
       case r of
         None \<Rightarrow> Ret None
       | Some (size', pos) \<Rightarrow>
           (let s = sint size' in
            if int64 (pos + s - 1) \<ge> int (length data) then Ret None
            else go_bind (go_slice data pos (int64 (pos + s)))
                   (\<lambda>bs. Ret (Some (bs, int64 (pos + s))))))"

subsection \<open>Lemmas on buffers\<close>

named_theorems buf_simps \<open>reading and writing inside a buffer split at the position\<close>

lemma write_bytes_mid [buf_simps]:
  "length zs = length bs \<Longrightarrow>
     write_bytes (xs @ zs @ ys) (int (length xs)) bs = Ret (xs @ bs @ ys, int (length xs) + int (length bs))"
  by (simp add: write_bytes_def)

lemma slice_mid [buf_simps]:
  "go_slice (xs @ bs @ ys) (int (length xs)) (int (length xs) + int (length bs)) = Ret bs"
  by (simp add: go_slice_def nat_add_distrib)

lemma at_mid [buf_simps]: "at (xs @ b # ys) (int (length xs)) = Ret b"
  by (simp add: at_def)

subsection \<open>The contract of a writer and its reader\<close>

fun write_seq :: "(byte list \<Rightarrow> int \<Rightarrow> 'a \<Rightarrow> (byte list \<times> int) go) \<Rightarrow> byte list \<Rightarrow> int \<Rightarrow> 'a list \<Rightarrow>
    (byte list \<times> int) go" where
  "write_seq wr data pos [] = Ret (data, pos)"
| "write_seq wr data pos (v # vs) = go_bind (wr data pos v) (\<lambda>(data, pos). write_seq wr data pos vs)"

fun read_seq :: "(byte list \<Rightarrow> int \<Rightarrow> ('a \<times> int) option go) \<Rightarrow> nat \<Rightarrow> byte list \<Rightarrow> int \<Rightarrow>
    ('a list \<times> int) option go" where
  "read_seq rd 0 data pos = Ret (Some ([], pos))"
| "read_seq rd (Suc n) data pos =
     go_bind (rd data pos) (\<lambda>r. case r of
        None \<Rightarrow> Ret None
      | Some (v, pos) \<Rightarrow>
          go_bind (read_seq rd n data pos) (\<lambda>r. case r of
             None \<Rightarrow> Ret None
           | Some (vs, pos) \<Rightarrow> Ret (Some (v # vs, pos))))"

definition write_pair ::
  "(byte list \<Rightarrow> int \<Rightarrow> 'a \<Rightarrow> (byte list \<times> int) go) \<Rightarrow> (byte list \<Rightarrow> int \<Rightarrow> 'b \<Rightarrow> (byte list \<times> int) go) \<Rightarrow>
   byte list \<Rightarrow> int \<Rightarrow> 'a \<times> 'b \<Rightarrow> (byte list \<times> int) go" where
  "write_pair wr1 wr2 data pos v =
     go_bind (wr1 data pos (fst v)) (\<lambda>(data, pos). wr2 data pos (snd v))"

definition read_pair ::
  "(byte list \<Rightarrow> int \<Rightarrow> ('a \<times> int) option go) \<Rightarrow> (byte list \<Rightarrow> int \<Rightarrow> ('b \<times> int) option go) \<Rightarrow>
   byte list \<Rightarrow> int \<Rightarrow> (('a \<times> 'b) \<times> int) option go" where
  "read_pair rd1 rd2 data pos =
     go_bind (rd1 data pos) (\<lambda>r. case r of
        None \<Rightarrow> Ret None
      | Some (a, pos) \<Rightarrow>
          go_bind (rd2 data pos) (\<lambda>r. case r of
             None \<Rightarrow> Ret None
           | Some (b, pos) \<Rightarrow> Ret (Some ((a, b), pos))))"

locale codec =
  fixes wr :: "byte list \<Rightarrow> int \<Rightarrow> 'a \<Rightarrow> (byte list \<times> int) go"
    and rd :: "byte list \<Rightarrow> int \<Rightarrow> ('a \<times> int) option go"
    and enc :: "'a \<Rightarrow> byte list"
    and ok :: "'a \<Rightarrow> bool"
  assumes wr_mid: "ok v \<Longrightarrow> length zs = length (enc v) \<Longrightarrow>
      wr (xs @ zs @ ys) (int (length xs)) v =
        Ret (xs @ enc v @ ys, int (length xs) + int (length (enc v)))"
    and rd_mid: "ok v \<Longrightarrow> int (length (xs @ enc v @ ys)) < 2 ^ 63 \<Longrightarrow>
      rd (xs @ enc v @ ys) (int (length xs)) =
        Ret (Some (v, int (length xs) + int (length (enc v))))"
begin

lemma roundtrip:
  assumes "ok v" "0 \<le> pos" "pos + int (length (enc v)) \<le> int (length data)" "int (length data) < 2 ^ 63"
  shows "\<exists>data'. wr data pos v = Ret (data', pos + int (length (enc v))) \<and>
     length data' = length data \<and> rd data' pos = Ret (Some (v, pos + int (length (enc v))))"
proof -
  let ?n = "length (enc v)"
  define xs zs ys where "xs = take (nat pos) data" and "zs = take ?n (drop (nat pos) data)"
    and "ys = drop (nat pos + ?n) data"
  have data: "data = xs @ zs @ ys"
    unfolding xs_def zs_def ys_def by (metis add.commute append_take_drop_id drop_drop)
  have len: "int (length xs) = pos" "length zs = ?n"
    using assms(2,3) unfolding xs_def zs_def by auto
  have total: "int (length (xs @ enc v @ ys)) = int (length data)" using data len by simp
  show ?thesis
    using wr_mid [OF assms(1) len(2), of xs ys] rd_mid [OF assms(1), of xs ys] total assms(4) len(1)
    by (intro exI [of _ "xs @ enc v @ ys"]) (simp add: data)
qed

lemma write_seq_mid:
  assumes "\<forall>v \<in> set vs. ok v" "length zs = length (concat (map enc vs))"
  shows "write_seq wr (xs @ zs @ ys) (int (length xs)) vs =
     Ret (xs @ concat (map enc vs) @ ys, int (length xs) + int (length (concat (map enc vs))))"
  using assms
proof (induction vs arbitrary: xs zs)
  case Nil
  then show ?case by simp
next
  case (Cons v vs)
  let ?z1 = "take (length (enc v)) zs" and ?z2 = "drop (length (enc v)) zs"
  have 1: "wr (xs @ ?z1 @ ?z2 @ ys) (int (length xs)) v =
      Ret (xs @ enc v @ ?z2 @ ys, int (length xs) + int (length (enc v)))"
    using Cons.prems by (intro wr_mid) auto
  have zs: "xs @ zs @ ys = xs @ ?z1 @ ?z2 @ ys" by (metis append.assoc append_take_drop_id)
  have "write_seq wr ((xs @ enc v) @ ?z2 @ ys) (int (length (xs @ enc v))) vs =
      Ret ((xs @ enc v) @ concat (map enc vs) @ ys,
        int (length (xs @ enc v)) + int (length (concat (map enc vs))))"
    using Cons.prems by (intro Cons.IH) auto
  then show ?case unfolding write_seq.simps zs 1 by (simp add: add.assoc)
qed

lemma read_seq_mid:
  assumes "\<forall>v \<in> set vs. ok v" "int (length (xs @ concat (map enc vs) @ ys)) < 2 ^ 63"
  shows "read_seq rd (length vs) (xs @ concat (map enc vs) @ ys) (int (length xs)) =
     Ret (Some (vs, int (length xs) + int (length (concat (map enc vs)))))"
  using assms
proof (induction vs arbitrary: xs)
  case Nil
  then show ?case by simp
next
  case (Cons v vs)
  have "rd (xs @ enc v @ concat (map enc vs) @ ys) (int (length xs)) =
      Ret (Some (v, int (length xs) + int (length (enc v))))"
    using Cons.prems by (intro rd_mid) auto
  moreover have "read_seq rd (length vs) ((xs @ enc v) @ concat (map enc vs) @ ys) (int (length (xs @ enc v))) =
      Ret (Some (vs, int (length (xs @ enc v)) + int (length (concat (map enc vs)))))"
    using Cons.prems by (intro Cons.IH) auto
  ultimately show ?case by (simp add: add.assoc)
qed

end

locale codec_pair = c1: codec wr1 rd1 enc1 ok1 + c2: codec wr2 rd2 enc2 ok2
  for wr1 rd1 enc1 ok1 and wr2 :: "byte list \<Rightarrow> int \<Rightarrow> 'b \<Rightarrow> (byte list \<times> int) go" and rd2 enc2 ok2

sublocale codec_pair \<subseteq> pair: codec "write_pair wr1 wr2" "read_pair rd1 rd2"
  "\<lambda>v. enc1 (fst v) @ enc2 (snd v)" "\<lambda>v. ok1 (fst v) \<and> ok2 (snd v)"
proof
  fix v and zs xs ys :: "byte list"
  assume ok: "ok1 (fst v) \<and> ok2 (snd v)" and len: "length zs = length (enc1 (fst v) @ enc2 (snd v))"
  let ?z1 = "take (length (enc1 (fst v))) zs" and ?z2 = "drop (length (enc1 (fst v))) zs"
  have zs: "xs @ zs @ ys = xs @ ?z1 @ ?z2 @ ys" by (metis append.assoc append_take_drop_id)
  have 1: "wr1 (xs @ ?z1 @ ?z2 @ ys) (int (length xs)) (fst v) =
      Ret (xs @ enc1 (fst v) @ ?z2 @ ys, int (length xs) + int (length (enc1 (fst v))))"
    using ok len by (intro c1.wr_mid) auto
  have 2: "wr2 ((xs @ enc1 (fst v)) @ ?z2 @ ys) (int (length (xs @ enc1 (fst v)))) (snd v) =
      Ret ((xs @ enc1 (fst v)) @ enc2 (snd v) @ ys,
        int (length (xs @ enc1 (fst v))) + int (length (enc2 (snd v))))"
    using ok len by (intro c2.wr_mid) auto
  show "write_pair wr1 wr2 (xs @ zs @ ys) (int (length xs)) v =
      Ret (xs @ (enc1 (fst v) @ enc2 (snd v)) @ ys,
        int (length xs) + int (length (enc1 (fst v) @ enc2 (snd v))))"
    unfolding write_pair_def zs 1 using 2 by (simp add: add.assoc)
next
  fix v and xs ys :: "byte list"
  assume ok: "ok1 (fst v) \<and> ok2 (snd v)"
    and len: "int (length (xs @ (enc1 (fst v) @ enc2 (snd v)) @ ys)) < 2 ^ 63"
  have 1: "rd1 (xs @ enc1 (fst v) @ enc2 (snd v) @ ys) (int (length xs)) =
      Ret (Some (fst v, int (length xs) + int (length (enc1 (fst v)))))"
    using ok len by (intro c1.rd_mid) auto
  have 2: "rd2 ((xs @ enc1 (fst v)) @ enc2 (snd v) @ ys) (int (length (xs @ enc1 (fst v)))) =
      Ret (Some (snd v, int (length (xs @ enc1 (fst v))) + int (length (enc2 (snd v)))))"
    using ok len by (intro c2.rd_mid) auto
  show "read_pair rd1 rd2 (xs @ (enc1 (fst v) @ enc2 (snd v)) @ ys) (int (length xs)) =
      Ret (Some (v, int (length xs) + int (length (enc1 (fst v) @ enc2 (snd v)))))"
    unfolding read_pair_def using 1 2 by (simp add: add.assoc)
qed

subsection \<open>The fields of the protocol\<close>

definition enc_lenenc_int :: "uint64 \<Rightarrow> byte list" where
  "enc_lenenc_int i =
     (if i < 251 then [ucast i]
      else if i < 2 ^ 16 then 0xfc # le_bytes 2 i
      else if i < 2 ^ 24 then 0xfd # le_bytes 3 i
      else 0xfe # le_bytes 8 i)"

lemma le_bytes_unfold:
  "[ucast w, ucast (drop_bit 8 w)] = le_bytes 2 w"
  "[ucast w, ucast (drop_bit 8 w), ucast (drop_bit 16 w)] = le_bytes 3 w"
  "[ucast w, ucast (drop_bit 8 w), ucast (drop_bit 16 w), ucast (drop_bit 24 w)] = le_bytes 4 w"
  "[ucast w, ucast (drop_bit 8 w), ucast (drop_bit 16 w), ucast (drop_bit 24 w), ucast (drop_bit 32 w),
    ucast (drop_bit 40 w), ucast (drop_bit 48 w), ucast (drop_bit 56 w)] = le_bytes 8 w"
  by (simp_all add: numeral_eq_Suc)

lemma writeLenEncInt_enc: "writeLenEncInt data pos i = write_bytes data pos (enc_lenenc_int i)"
  unfolding writeLenEncInt_def enc_lenenc_int_def le_bytes_unfold by simp

lemma length_enc_lenenc_int: "int (length (enc_lenenc_int i)) = lenEncIntSize i"
  by (simp add: enc_lenenc_int_def lenEncIntSize_def)

lemma slice_after [buf_simps]:
  "go_slice (xs @ b # bs @ ys) (int (length xs) + 1) (int (length xs) + 1 + int (length bs)) = Ret bs"
  using slice_mid [of "xs @ [b]" bs ys] by (simp add: add.commute)

lemma take_bit_less_id: "unat w < 2 ^ n \<Longrightarrow> take_bit n (w :: 'a::len word) = w"
  unfolding word_unat_eq_iff unsigned_take_bit_eq by (simp add: take_bit_eq_mod)

lemma le_word_small:
  "(i :: uint64) < 2 ^ 16 \<Longrightarrow> le_word (le_bytes 2 i) = i"
  "(i :: uint64) < 2 ^ 24 \<Longrightarrow> le_word (le_bytes 3 i) = i"
  "le_word (le_bytes 8 i) = i"
  by (simp_all add: le_word_le_bytes take_bit_less_id word_less_nat_alt take_bit_word_eq_self)

lemma ucast_byte_small: "(i :: uint64) < 256 \<Longrightarrow> ucast (ucast i :: byte) = i"
  unfolding word_unat_eq_iff by (simp add: word_less_nat_alt unsigned_ucast_eq take_bit_less_id)

lemma byte_small_not_prefix:
  "(i :: uint64) < 251 \<Longrightarrow> ucast i \<noteq> (0xfc :: byte) \<and> ucast i \<noteq> (0xfd :: byte) \<and> ucast i \<noteq> (0xfe :: byte)"
proof -
  assume i: "i < 251"
  then have "unat (ucast i :: byte) = unat i" by (simp add: unat_ucast_byte word_less_nat_alt)
  with i show ?thesis by (auto simp: word_unat_eq_iff word_less_nat_alt)
qed

lemma readLenEncInt_enc [buf_simps]:
  "readLenEncInt (xs @ enc_lenenc_int i @ ys) (int (length xs)) =
     Ret (Some (i, int (length xs) + int (length (enc_lenenc_int i))))"
proof -
  have lt: "i < 251 \<Longrightarrow> i < 256" by (simp add: word_less_nat_alt)
  note s = slice_after [of xs _ "le_bytes _ i" ys, unfolded length_le_bytes]
  show ?thesis
    using s [of "0xfc" 2] s [of "0xfd" 3] s [of "0xfe" 8]
    by (auto simp: readLenEncInt_def enc_lenenc_int_def buf_simps le_word_small ucast_byte_small lt
        byte_small_not_prefix add.assoc)
qed

interpretation len_enc_int: codec writeLenEncInt readLenEncInt enc_lenenc_int "\<lambda>_. True"
  by unfold_locales (simp_all add: writeLenEncInt_enc buf_simps)

interpretation uint16_field: codec writeUint16 readUint16 "le_bytes 2" "\<lambda>_. True"
proof unfold_locales
  show "readUint16 (xs @ le_bytes 2 v @ ys) (int (length xs)) =
      Ret (Some (v, int (length xs) + int (length (le_bytes 2 v))))" for v xs ys
    using slice_mid [of xs "le_bytes 2 v" ys]
    by (simp add: readUint16_def le_word_le_bytes take_bit_word_eq_self)
qed (simp add: writeUint16_def le_bytes_unfold buf_simps)

interpretation uint32_field: codec writeUint32 readUint32 "le_bytes 4" "\<lambda>_. True"
proof unfold_locales
  show "readUint32 (xs @ le_bytes 4 v @ ys) (int (length xs)) =
      Ret (Some (v, int (length xs) + int (length (le_bytes 4 v))))" for v xs ys
    using slice_mid [of xs "le_bytes 4 v" ys]
    by (simp add: readUint32_def le_word_le_bytes take_bit_word_eq_self)
qed (simp add: writeUint32_def le_bytes_unfold buf_simps)

interpretation uint64_field: codec writeUint64 readUint64 "le_bytes 8" "\<lambda>_. True"
proof unfold_locales
  show "readUint64 (xs @ le_bytes 8 v @ ys) (int (length xs)) =
      Ret (Some (v, int (length xs) + int (length (le_bytes 8 v))))" for v xs ys
    using slice_mid [of xs "le_bytes 8 v" ys]
    by (simp add: readUint64_def le_word_le_bytes take_bit_word_eq_self)
qed (simp add: writeUint64_def le_bytes_unfold buf_simps)

interpretation byte_field: codec writeByte readByte "\<lambda>b. [b]" "\<lambda>_. True"
  by unfold_locales (simp_all add: writeByte_def readByte_def buf_simps)

lemma copy_bytes_mid [buf_simps]:
  "length zs = length bs \<Longrightarrow>
     copy_bytes (xs @ zs @ ys) (int (length xs)) bs = Ret (xs @ bs @ ys, int (length xs) + int (length bs))"
  by (simp add: copy_bytes_def buf_simps)

interpretation null_string: codec writeNullString readNullString "\<lambda>v. v @ [0]" "\<lambda>v. 0 \<notin> set v"
proof unfold_locales
  fix v zs xs ys :: "byte list"
  assume len: "length zs = length (v @ [0])"
  then obtain zs' z where zs: "zs = zs' @ [z]" "length zs' = length v" by (cases zs rule: rev_cases) auto
  show "writeNullString (xs @ zs @ ys) (int (length xs)) v =
      Ret (xs @ (v @ [0]) @ ys, int (length xs) + int (length (v @ [0])))"
    using copy_bytes_mid [OF zs(2), of xs "z # ys"] write_bytes_mid [of "[z]" "[0]" "xs @ v" ys]
    by (simp add: writeNullString_def zs(1) add.assoc)
next
  fix v xs ys :: "byte list"
  assume v: "0 \<notin> set v"
  have tw: "takeWhile (\<lambda>b. b \<noteq> 0) (v @ 0 # ys) = v"
    using v by (subst takeWhile_append2) auto
  have "go_slice (xs @ v @ 0 # ys) (int (length xs)) (int (length (xs @ v @ 0 # ys))) = Ret (v @ 0 # ys)"
    by (simp add: go_slice_def nat_add_distrib)
  then show "readNullString (xs @ (v @ [0]) @ ys) (int (length xs)) =
      Ret (Some (v, int (length xs) + int (length (v @ [0]))))"
    using slice_mid [of xs v "0 # ys"]
    by (simp add: readNullString_def index_byte_def tw)
qed

definition enc_lenenc_string :: "byte list \<Rightarrow> byte list" where
  "enc_lenenc_string v = enc_lenenc_int (of_nat (length v)) @ v"

lemma length_enc_lenenc_string: "int (length (enc_lenenc_string v)) = lenEncStringSize v"
  by (simp add: enc_lenenc_string_def lenEncStringSize_def Let_def length_enc_lenenc_int)

lemma sint_of_len: "int n < 2 ^ 63 \<Longrightarrow> sint (of_nat n :: uint64) = int n"
  by (simp add: signed_of_nat signed_take_bit_int_eq_self)

interpretation len_enc_string: codec writeLenEncString readLenEncString enc_lenenc_string "\<lambda>_. True"
proof unfold_locales
  fix v zs xs ys :: "byte list"
  assume len: "length zs = length (enc_lenenc_string v)"
  let ?e = "enc_lenenc_int (of_nat (length v))"
  let ?z1 = "take (length ?e) zs" and ?z2 = "drop (length ?e) zs"
  have zs: "xs @ zs @ ys = xs @ ?z1 @ ?z2 @ ys" by (metis append.assoc append_take_drop_id)
  have 1: "writeLenEncInt (xs @ ?z1 @ ?z2 @ ys) (int (length xs)) (of_nat (length v)) =
      Ret (xs @ ?e @ ?z2 @ ys, int (length xs) + int (length ?e))"
    by (rule len_enc_int.wr_mid) (use len in \<open>simp_all add: enc_lenenc_string_def\<close>)
  have 2: "copy_bytes ((xs @ ?e) @ ?z2 @ ys) (int (length (xs @ ?e))) v =
      Ret ((xs @ ?e) @ v @ ys, int (length (xs @ ?e)) + int (length v))"
    by (rule copy_bytes_mid) (use len in \<open>simp add: enc_lenenc_string_def\<close>)
  show "writeLenEncString (xs @ zs @ ys) (int (length xs)) v =
      Ret (xs @ enc_lenenc_string v @ ys, int (length xs) + int (length (enc_lenenc_string v)))"
    unfolding writeLenEncString_def zs 1 writeEOFString_def enc_lenenc_string_def
    using 2 by (simp add: add.assoc)
next
  fix v xs ys :: "byte list"
  assume len: "int (length (xs @ enc_lenenc_string v @ ys)) < 2 ^ 63"
  let ?e = "enc_lenenc_int (of_nat (length v))"
  have s: "sint (of_nat (length v) :: uint64) = int (length v)"
    by (rule sint_of_len) (use len in \<open>simp add: enc_lenenc_string_def\<close>)
  have "go_slice ((xs @ ?e) @ v @ ys) (int (length (xs @ ?e))) (int (length (xs @ ?e)) + int (length v)) = Ret v"
    by (rule slice_mid)
  then show "readLenEncString (xs @ enc_lenenc_string v @ ys) (int (length xs)) =
      Ret (Some (v, int (length xs) + int (length (enc_lenenc_string v))))"
    using len readLenEncInt_enc [of xs "of_nat (length v)" "v @ ys"]
    by (simp add: readLenEncString_def enc_lenenc_string_def Let_def s add.assoc)
qed

interpretation null_then_lenenc: codec_pair writeNullString readNullString "\<lambda>v. v @ [0]" "\<lambda>v. 0 \<notin> set v"
  writeLenEncString readLenEncString enc_lenenc_string "\<lambda>_. True"
  by unfold_locales

lemma slice_inside: "0 \<le> lo \<Longrightarrow> lo \<le> hi \<Longrightarrow> hi \<le> int (length data) \<Longrightarrow> \<exists>bs. go_slice data lo hi = Ret bs"
  by (simp add: go_slice_def)

lemma readLenEncInt_cases:
  assumes "0 \<le> pos" "pos < int (length data)"
  shows "\<exists>r. readLenEncInt data pos = Ret r \<and>
    (\<forall>v p. r = Some (v, p) \<longrightarrow> pos < p \<and> p \<le> int (length data))"
proof -
  have a: "at data pos = Ret (data ! nat pos)" using assms by (simp add: at_def)
  have sl: "\<exists>bs. go_slice data (pos + 1) (pos + n + 1) = Ret bs"
    if "0 \<le> n" "\<not> int (length data) \<le> pos + n" for n
    using that assms by (intro slice_inside) auto
  show ?thesis
    using assms sl [of 2] sl [of 3] sl [of 8] unfolding readLenEncInt_def a by (auto simp: add.commute)
qed

subsection \<open>Properties\<close>

text \<open>
  C25. A variable-length integer written anywhere in a buffer with room for it is read back: the
  write takes \<open>lenEncIntSize\<close> bytes, keeps the length of the buffer, and the read returns the
  value and the position after it.
\<close>

theorem len_enc_int_roundtrip:
  assumes "0 \<le> pos" "pos + lenEncIntSize i \<le> int (length data)" "int (length data) < 2 ^ 63"
  shows "\<exists>data'. writeLenEncInt data pos i = Ret (data', pos + lenEncIntSize i) \<and>
     length data' = length data \<and>
     readLenEncInt data' pos = Ret (Some (i, pos + lenEncIntSize i))"
  using len_enc_int.roundtrip [of pos i data] assms by (simp add: length_enc_lenenc_int)

theorem len_enc_int_roundtrip_witness:
  "\<exists>data'. writeLenEncInt (replicate 5 0) 1 70000 = Ret (data', 5) \<and>
     length data' = 5 \<and> readLenEncInt data' 1 = Ret (Some (70000, 5))"
  using len_enc_int_roundtrip [of 1 70000 "replicate 5 0"] by (simp add: lenEncIntSize_def)

text \<open>
  A row of strings, written one after the other with their lengths, as the text protocol
  does, into a buffer of exactly the computed size, is read back as the same strings.
\<close>

theorem len_enc_strings_roundtrip:
  assumes "int (length data) = (\<Sum>v \<leftarrow> vs. lenEncStringSize v)" "int (length data) < 2 ^ 63"
  shows "\<exists>data'. write_seq writeLenEncString data 0 vs = Ret (data', int (length data)) \<and>
     read_seq readLenEncString (length vs) data' 0 = Ret (Some (vs, int (length data)))"
proof -
  have n: "int (length (concat (map enc_lenenc_string vs))) = int (length data)"
    unfolding assms(1) by (induction vs) (simp_all add: length_enc_lenenc_string)
  then show ?thesis
    using len_enc_string.write_seq_mid [of vs data "[]" "[]"]
      len_enc_string.read_seq_mid [of vs "[]" "[]"] assms(2)
    by auto
qed

theorem len_enc_strings_roundtrip_witness:
  "\<exists>data'. write_seq writeLenEncString (replicate 7 0) 0 [[1, 2], [], [9, 9]] = Ret (data', 7) \<and>
     read_seq readLenEncString 3 data' 0 = Ret (Some ([[1, 2], [], [9, 9]], 7))"
  using len_enc_strings_roundtrip [of "replicate 7 0" "[[1, 2], [], [9, 9]]"]
  by (simp add: lenEncStringSize_def lenEncIntSize_def numeral_3_eq_3)

text \<open>
  C26. Reading a variable-length integer from any bytes at a position that is not negative never
  panics, and a value that is read ends inside the buffer, after where it began.
\<close>

theorem readLenEncInt_safe:
  assumes "0 \<le> pos"
  shows "\<exists>r. readLenEncInt data pos = Ret r \<and>
    (\<forall>v p. r = Some (v, p) \<longrightarrow> pos < p \<and> p \<le> int (length data))"
proof (cases "pos < int (length data)")
  case True
  with assms show ?thesis by (rule readLenEncInt_cases)
next
  case False
  then show ?thesis by (simp add: readLenEncInt_def)
qed

theorem readLenEncInt_safe_witness:
  "\<exists>r. readLenEncInt [0xfd, 1] 0 = Ret r \<and> (\<forall>v p. r = Some (v, p) \<longrightarrow> 0 < p \<and> p \<le> 2)"
  using readLenEncInt_safe [of 0 "[0xfd, 1]"] by simp

text \<open>
  The readers of strings do not share that safety: a length of \<open>2^64 - 1\<close> becomes the integer
  \<open>-1\<close>, the check on the end of the string passes, and the slice expression panics; skipping such
  a string moves the position back.
\<close>

theorem readLenEncString_panics:
  "readLenEncString [0xfe, 255, 255, 255, 255, 255, 255, 255, 255] 0 = Panic \<and>
   skipLenEncString [0xfe, 255, 255, 255, 255, 255, 255, 255, 255] 0 = Ret (Some 8)"
proof -
  have "readLenEncInt [0xfe, 255, 255, 255, 255, 255, 255, 255, 255] 0 = Ret (Some (- 1, 9))"
    by (simp add: readLenEncInt_def at_def go_slice_def)
  then show ?thesis
    by (simp add: readLenEncString_def skipLenEncString_def go_slice_def)
qed

end
