(* ===== verification/Go_Strings.thy ===== *)
theory Go_Strings
  imports Prelude
begin

text \<open>
  Decimal numbers and white space in text: what the sources use of \<^verbatim>\<open>strconv\<close> (\<^verbatim>\<open>FormatInt\<close>,
  \<^verbatim>\<open>ParseInt\<close>, \<^verbatim>\<open>FormatUint\<close>, \<^verbatim>\<open>ParseUint\<close>, base 10) and of \<^verbatim>\<open>strings\<close> (\<^verbatim>\<open>TrimSpace\<close>, \<^verbatim>\<open>SplitN\<close> with
  two parts). A parse that returns an error is \<open>None\<close>.
\<close>

subsection \<open>Decimal numbers\<close>

definition digit_char :: "nat \<Rightarrow> char" where
  "digit_char n = ''0123456789'' ! n"

definition is_digit :: "char \<Rightarrow> bool" where
  "is_digit c \<longleftrightarrow> c \<in> set ''0123456789''"

definition digit_val :: "char \<Rightarrow> nat" where
  "digit_val c = of_char c - 48"

fun format_nat :: "nat \<Rightarrow> string" where
  "format_nat n = (if n < 10 then [digit_char n] else format_nat (n div 10) @ [digit_char (n mod 10)])"

declare format_nat.simps [simp del]

definition dec_val :: "string \<Rightarrow> nat" where
  "dec_val s = foldl (\<lambda>a c. a * 10 + digit_val c) 0 s"

definition parse_uint :: "nat \<Rightarrow> string \<Rightarrow> nat option" where
  "parse_uint bits s =
     (if s \<noteq> [] \<and> list_all is_digit s \<and> dec_val s < 2 ^ bits then Some (dec_val s) else None)"

definition format_int :: "int \<Rightarrow> string" where
  "format_int i = (if i < 0 then CHR ''-'' # format_nat (nat (- i)) else format_nat (nat i))"

definition parse_int :: "nat \<Rightarrow> string \<Rightarrow> int option" where
  "parse_int bits s =
     (case s of
        [] \<Rightarrow> None
      | c # cs \<Rightarrow>
          (let neg = (c = CHR ''-''); t = (if c = CHR ''+'' \<or> c = CHR ''-'' then cs else s) in
           if t = [] \<or> \<not> list_all is_digit t then None
           else if \<not> neg \<and> dec_val t \<ge> 2 ^ (bits - 1) then None
           else if neg \<and> dec_val t > 2 ^ (bits - 1) then None
           else Some (if neg then - int (dec_val t) else int (dec_val t))))"

text \<open>
  \<^verbatim>\<open>ParseUint\<close> and \<^verbatim>\<open>ParseInt\<close> with base 0, as of Go 1.12: a prefix \<^verbatim>\<open>0x\<close> makes the number
  hexadecimal, another leading \<^verbatim>\<open>0\<close> makes it octal.
\<close>

definition digit_in :: "nat \<Rightarrow> char \<Rightarrow> nat option" where
  "digit_in base c =
     (case from_hex_char c of
        None \<Rightarrow> None
      | Some d \<Rightarrow> if unat d < base then Some (unat d) else None)"

fun base_val :: "nat \<Rightarrow> nat \<Rightarrow> string \<Rightarrow> nat option" where
  "base_val base acc [] = Some acc"
| "base_val base acc (c # cs) =
     (case digit_in base c of None \<Rightarrow> None | Some d \<Rightarrow> base_val base (acc * base + d) cs)"

definition parse_uint0 :: "nat \<Rightarrow> string \<Rightarrow> nat option" where
  "parse_uint0 bits s =
     (case
       (case s of
          [] \<Rightarrow> None
        | c # cs \<Rightarrow>
            if c = CHR ''0'' \<and> cs \<noteq> [] \<and> hd cs \<in> {CHR ''x'', CHR ''X''} then
              (if tl cs = [] then None else base_val 16 0 (tl cs))
            else if c = CHR ''0'' then base_val 8 0 cs
            else base_val 10 0 s) of
        None \<Rightarrow> None
      | Some n \<Rightarrow> if n < 2 ^ bits then Some n else None)"

definition parse_int0 :: "nat \<Rightarrow> string \<Rightarrow> int option" where
  "parse_int0 bits s =
     (case s of
        [] \<Rightarrow> None
      | c # cs \<Rightarrow>
          (let neg = (c = CHR ''-''); t = (if c = CHR ''+'' \<or> c = CHR ''-'' then cs else s) in
           case parse_uint0 bits t of
             None \<Rightarrow> None
           | Some n \<Rightarrow>
               if \<not> neg \<and> n \<ge> 2 ^ (bits - 1) then None
               else if neg \<and> n > 2 ^ (bits - 1) then None
               else Some (if neg then - int n else int n)))"

lemma digit_cases:
  assumes "n < 10"
  shows "n \<in> {0, 1, 2, 3, 4, 5, 6, 7, 8, 9 :: nat}"
  using assms by auto

lemma is_digit_char: "n < 10 \<Longrightarrow> is_digit (digit_char n)"
  unfolding is_digit_def digit_char_def by (rule nth_mem) simp

lemma digit_val_char: "n < 10 \<Longrightarrow> digit_val (digit_char n) = n"
  by (drule digit_cases) (auto simp: digit_val_def digit_char_def)

lemma dec_val_snoc: "dec_val (s @ [c]) = dec_val s * 10 + digit_val c"
  by (simp add: dec_val_def)

lemma format_nat_digits: "format_nat n \<noteq> [] \<and> list_all is_digit (format_nat n)"
proof (induction n rule: format_nat.induct)
  case (1 n)
  then show ?case by (subst (1 2) format_nat.simps) (simp add: is_digit_char)
qed

lemma format_nat_not_Nil [simp]: "format_nat n \<noteq> []"
  using format_nat_digits by blast

lemma list_all_format_nat [simp]: "list_all is_digit (format_nat n)"
  using format_nat_digits by blast

lemma dec_val_format_nat [simp]: "dec_val (format_nat n) = n"
proof (induction n rule: format_nat.induct)
  case (1 n)
  show ?case
  proof (cases "n < 10")
    case True
    then show ?thesis by (simp add: format_nat.simps [of n] dec_val_def digit_val_char)
  next
    case False
    with 1 show ?thesis by (simp add: format_nat.simps [of n] dec_val_snoc digit_val_char)
  qed
qed

lemma parse_uint_format_nat [simp]: "n < 2 ^ bits \<Longrightarrow> parse_uint bits (format_nat n) = Some n"
  by (simp add: parse_uint_def)

lemma set_format_nat: "c \<in> set (format_nat n) \<Longrightarrow> is_digit c"
  using list_all_format_nat [of n] by (simp add: list_all_iff)

lemma not_digit [simp]:
  "\<not> is_digit CHR ''-''" "\<not> is_digit CHR '':''" "\<not> is_digit CHR '',''" "\<not> is_digit CHR ''/''"
  "\<not> is_digit CHR ''+''"
  by (simp_all add: is_digit_def)

lemma hd_format_nat: "is_digit (hd (format_nat n))"
  by (rule set_format_nat [of _ n]) simp

lemma parse_int_digits:
  assumes "s \<noteq> []" "list_all is_digit s" "dec_val s < 2 ^ (bits - 1)"
  shows "parse_int bits s = Some (int (dec_val s))"
proof -
  obtain c cs where s: "s = c # cs" using assms(1) by (cases s) auto
  then have "c \<noteq> CHR ''-''" "c \<noteq> CHR ''+''" using assms(2) by auto
  with s assms show ?thesis by (simp add: parse_int_def Let_def)
qed

lemma parse_int_format_int [simp]:
  assumes "- (2 ^ (bits - 1)) \<le> i" "i < 2 ^ (bits - 1)"
  shows "parse_int bits (format_int i) = Some i"
proof (cases "i < 0")
  case True
  have "nat (- i) \<le> 2 ^ (bits - 1)" using assms(1) by (simp add: nat_le_iff)
  with True show ?thesis by (simp add: format_int_def parse_int_def Let_def)
next
  case False
  have "nat i < 2 ^ (bits - 1)" using assms(2) False by (simp add: nat_less_iff)
  with False show ?thesis by (simp add: format_int_def parse_int_digits)
qed

lemma set_format_int: "c \<in> set (format_int i) \<Longrightarrow> is_digit c \<or> c = CHR ''-''"
  by (auto simp: format_int_def set_format_nat split: if_splits)

subsection \<open>White space\<close>

text \<open>
  The white space of \<^verbatim>\<open>unicode.IsSpace\<close>, each character as the bytes of its UTF-8 encoding.
\<close>

definition white_space :: "string list" where
  "white_space =
     map (map char_of)
       [[9], [10], [11], [12], [13], [32], [0xC2, 0x85], [0xC2, 0xA0], [0xE1, 0x9A, 0x80],
        [0xE2, 0x80, 0x80], [0xE2, 0x80, 0x81], [0xE2, 0x80, 0x82], [0xE2, 0x80, 0x83],
        [0xE2, 0x80, 0x84], [0xE2, 0x80, 0x85], [0xE2, 0x80, 0x86], [0xE2, 0x80, 0x87],
        [0xE2, 0x80, 0x88], [0xE2, 0x80, 0x89], [0xE2, 0x80, 0x8A], [0xE2, 0x80, 0xA8],
        [0xE2, 0x80, 0xA9], [0xE2, 0x80, 0xAF], [0xE2, 0x81, 0x9F], [0xE3, 0x80, 0x80 :: nat]]"

fun starts_with :: "string \<Rightarrow> string \<Rightarrow> bool" where
  "starts_with [] s = True"
| "starts_with (p # ps) [] = False"
| "starts_with (p # ps) (c # cs) = (p = c \<and> starts_with ps cs)"

definition leading_space :: "string list \<Rightarrow> string \<Rightarrow> string option" where
  "leading_space ws s = find (\<lambda>w. starts_with w s) ws"

text \<open>Each round drops one leading space; a string has at most as many as it has characters.\<close>

fun trim_front :: "string list \<Rightarrow> nat \<Rightarrow> string \<Rightarrow> string" where
  "trim_front ws 0 s = s"
| "trim_front ws (Suc n) s =
     (case leading_space ws s of None \<Rightarrow> s | Some w \<Rightarrow> trim_front ws n (drop (length w) s))"

definition trim_space :: "string \<Rightarrow> string" where
  "trim_space s =
     (let t = trim_front white_space (length s) s in
      rev (trim_front (map rev white_space) (length t) (rev t)))"

lemma trim_front_id: "leading_space ws s = None \<Longrightarrow> trim_front ws n s = s"
  by (cases n) auto

lemma leading_space_None:
  assumes "s \<noteq> []" "[] \<notin> set ws" "\<forall>w \<in> set ws. hd w \<noteq> hd s"
  shows "leading_space ws s = None"
proof -
  obtain c cs where s: "s = c # cs" using assms(1) by (cases s) auto
  have "\<not> starts_with w s" if "w \<in> set ws" for w
  proof (cases w)
    case Nil
    with that assms(2) show ?thesis by simp
  next
    case (Cons a w')
    with that assms(3) s show ?thesis by force
  qed
  then show ?thesis by (auto simp: leading_space_def find_None_iff)
qed

text \<open>Text whose first and last characters are printable ASCII is not trimmed.\<close>

lemma trim_space_id:
  assumes "s \<noteq> []" "of_char (hd s) \<in> {33..126 :: nat}" "of_char (last s) \<in> {33..126 :: nat}"
  shows "trim_space s = s"
proof -
  have first: "\<forall>w \<in> set white_space. w \<noteq> [] \<and> (of_char (hd w) :: nat) \<notin> {33..126} \<and>
      (of_char (last w) :: nat) \<notin> {33..126}"
    by (simp add: white_space_def)
  have "leading_space white_space s = None"
  proof (rule leading_space_None)
    show "[] \<notin> set white_space" "\<forall>w \<in> set white_space. hd w \<noteq> hd s"
      using first assms(2) by metis+
  qed (rule assms(1))
  then have 1: "trim_front white_space (length s) s = s" by (rule trim_front_id)
  have "leading_space (map rev white_space) (rev s) = None"
  proof (rule leading_space_None)
    show "[] \<notin> set (map rev white_space)" using first by auto
    show "\<forall>w \<in> set (map rev white_space). hd w \<noteq> hd (rev s)"
      unfolding set_map ball_simps hd_rev using first assms(3) by metis
  qed (simp add: assms(1))
  then have "trim_front (map rev white_space) (length s) (rev s) = rev s" by (rule trim_front_id)
  with 1 show ?thesis by (simp add: trim_space_def Let_def)
qed

subsection \<open>Splitting in two\<close>

text \<open>\<^verbatim>\<open>strings.SplitN(s, sep, 2)\<close> with a separator of one character.\<close>

definition split2 :: "char \<Rightarrow> string \<Rightarrow> string list" where
  "split2 c s =
     (let a = takeWhile (\<lambda>x. x \<noteq> c) s in
      if length a = length s then [s] else [a, drop (Suc (length a)) s])"

lemma split2_append [simp]: "c \<notin> set a \<Longrightarrow> split2 c (a @ c # b) = [a, b]"
proof -
  assume "c \<notin> set a"
  then have "takeWhile (\<lambda>x. x \<noteq> c) (a @ c # b) = a" by (subst takeWhile_append2) auto
  then show ?thesis by (simp add: split2_def Let_def)
qed

end
