(* ===== verification/Gtid_Set.thy ===== *)
theory Gtid_Set
  imports Prelude
begin

text \<open>
  The interface \<^verbatim>\<open>GTIDSet\<close> of \<^verbatim>\<open>src/mysql/gtid_set.go\<close> as a locale: what every flavor of GTID set
  promises to the code that tracks replication positions.

  \<open>tx\<close> is the set of transactions a GTID set stands for. A flavor may let a GTID stand for more
  than one transaction (a MariaDB GTID implies all those before it in its domain), so \<open>down g\<close> is
  what \<open>AddGTID g\<close> adds. The locale \<open>canonical_gtid_set\<close> is for the flavors in which equal sets of
  transactions are equal for \<^verbatim>\<open>Equal\<close>.
\<close>

locale gtid_set =
  fixes inv :: "'s \<Rightarrow> bool"
    and good :: "'g \<Rightarrow> bool"
    and tx :: "'s \<Rightarrow> 't set"
    and name_of :: "'g \<Rightarrow> 't"
    and down :: "'g \<Rightarrow> 't set"
    and contains_gtid :: "'s \<Rightarrow> 'g \<Rightarrow> bool"
    and contains :: "'s \<Rightarrow> 's \<Rightarrow> bool"
    and equal_set :: "'s \<Rightarrow> 's \<Rightarrow> bool"
    and add_gtid :: "'s \<Rightarrow> 'g \<Rightarrow> 's"
    and single :: "'g \<Rightarrow> 's"
  assumes contains_gtid_iff: "inv s \<Longrightarrow> good g \<Longrightarrow> contains_gtid s g \<longleftrightarrow> name_of g \<in> tx s"
    and contains_iff: "inv s \<Longrightarrow> inv t \<Longrightarrow> contains s t \<longleftrightarrow> tx t \<subseteq> tx s"
    and equal_sound: "inv s \<Longrightarrow> inv t \<Longrightarrow> equal_set s t \<Longrightarrow> tx s = tx t"
    and add_inv: "inv s \<Longrightarrow> good g \<Longrightarrow> inv (add_gtid s g)"
    and add_tx: "inv s \<Longrightarrow> good g \<Longrightarrow> tx (add_gtid s g) = tx s \<union> down g"
    and single_inv: "good g \<Longrightarrow> inv (single g)"
    and single_tx: "good g \<Longrightarrow> tx (single g) = down g"
    and name_in_down: "name_of g \<in> down g"
begin

lemma contains_refl: "inv s \<Longrightarrow> contains s s"
  by (simp add: contains_iff)

lemma contains_trans: "inv s \<Longrightarrow> inv t \<Longrightarrow> inv u \<Longrightarrow> contains s t \<Longrightarrow> contains t u \<Longrightarrow> contains s u"
  by (auto simp: contains_iff)

lemma add_contains_gtid: "inv s \<Longrightarrow> good g \<Longrightarrow> contains_gtid (add_gtid s g) g"
  using name_in_down by (simp add: contains_gtid_iff add_inv add_tx)

lemma add_extends: "inv s \<Longrightarrow> good g \<Longrightarrow> contains (add_gtid s g) s"
  by (auto simp: contains_iff add_inv add_tx)

lemma add_mono: "inv s \<Longrightarrow> inv t \<Longrightarrow> good g \<Longrightarrow> contains s t \<Longrightarrow> contains (add_gtid s g) (add_gtid t g)"
  by (auto simp: contains_iff add_inv add_tx)

lemma replay_inv: "inv s \<Longrightarrow> list_all good gs \<Longrightarrow> inv (foldl add_gtid s gs)"
  by (induction gs arbitrary: s) (auto simp: add_inv)

lemma replay_tx: "inv s \<Longrightarrow> list_all good gs \<Longrightarrow> tx (foldl add_gtid s gs) = tx s \<union> (\<Union>g \<in> set gs. down g)"
  by (induction gs arbitrary: s) (auto simp: add_inv add_tx)

text \<open>
  A replica that has applied the transactions of another one, in any order, from a position that is not behind, is not behind.
  The first GTID may also make the position.
\<close>

lemma replay_contains:
  assumes "inv s" "inv t" "contains s t" "list_all good gs" "set hs \<subseteq> set gs"
  shows "contains (foldl add_gtid s gs) (foldl add_gtid t hs)"
proof -
  have "list_all good hs" using assms(4,5) by (auto simp: list_all_iff)
  with assms show ?thesis by (fastforce simp: contains_iff replay_inv replay_tx)
qed

lemma replay_first_contains:
  assumes "list_all good (g # gs)" "set (h # hs) \<subseteq> set (g # gs)"
  shows "contains (foldl add_gtid (single g) gs) (foldl add_gtid (single h) hs)"
proof -
  have ok: "good g" "list_all good gs" "good h" "list_all good hs" using assms by (auto simp: list_all_iff)
  have "tx (foldl add_gtid (single h) hs) \<subseteq> tx (foldl add_gtid (single g) gs)"
    unfolding replay_tx [OF single_inv [OF ok(1)] ok(2)] replay_tx [OF single_inv [OF ok(3)] ok(4)] single_tx [OF ok(1)] single_tx [OF ok(3)]
    using assms(2) by auto
  then show ?thesis using ok by (simp add: contains_iff replay_inv single_inv)
qed

end

locale canonical_gtid_set = gtid_set +
  assumes equal_complete: "inv s \<Longrightarrow> inv t \<Longrightarrow> tx s = tx t \<Longrightarrow> equal_set s t"
begin

lemma equal_iff: "inv s \<Longrightarrow> inv t \<Longrightarrow> equal_set s t \<longleftrightarrow> contains s t \<and> contains t s"
  unfolding contains_iff by (blast intro: equal_complete dest: equal_sound)

lemma add_known: "inv s \<Longrightarrow> good g \<Longrightarrow> down g \<subseteq> tx s \<Longrightarrow> equal_set (add_gtid s g) s"
  by (rule equal_complete) (auto simp: add_inv add_tx)

end

end
