(* ===== verification/Gtid_Mysql56.thy ===== *)
theory Gtid_Mysql56
  imports Go_Strings Gtid_Set "HOL-Library.AList"
begin

text \<open>
  Global transaction ids and the GTID sets of MySQL 5.6: \<^verbatim>\<open>src/mysql/gtid.go\<close>,
  \<^verbatim>\<open>src/mysql/gtid_set.go\<close>, \<^verbatim>\<open>src/mysql/mysql56_gtid.go\<close> and \<^verbatim>\<open>src/mysql/mysql56_gtid_set.go\<close>.

  The implementations of the interfaces \<^verbatim>\<open>GTID\<close> and \<^verbatim>\<open>GTIDSet\<close> are the constructors of \<open>GTID\<close> and
  \<open>GTIDSet\<close> (a nil interface is \<open>None\<close>). A \<^verbatim>\<open>Mysql56GTIDSet\<close> is a Go map from server ids to
  intervals; it is an association list here, in the order in which a \<^verbatim>\<open>range\<close> loop visits it.
  Sequence numbers are integers, and \<^verbatim>\<open>iv.end+1\<close> and \<^verbatim>\<open>iv.start-1\<close> wrap at 64 bits. \<^verbatim>\<open>sort.Sort\<close> leaves
  the order of intervals with the same start open; \<open>sort_key\<close> keeps the order of the text.

  \<open>gtids56\<close> is the set of transactions a set stands for. On sets in normal form (\<open>set56_ok\<close>: each
  list of intervals is sorted, its intervals neither overlap nor touch), the operations are
  membership, inclusion, equality and insertion, and every operation keeps the normal form.
\<close>

subsection \<open>The data\<close>

type_synonym SID = "byte list"

record interval =
  iv_start :: int
  iv_end :: int

record Mysql56GTID =
  Server56 :: SID
  Sequence56 :: int

record MariadbGTID =
  Domain :: uint32
  Server :: uint32
  Sequence :: uint64

type_synonym Mysql56GTIDSet = "(SID \<times> interval list) list"
type_synonym MariadbGTIDSet = "MariadbGTID list"

datatype GTID = Mysql56 Mysql56GTID | Mariadb MariadbGTID

datatype GTIDSet = Mysql56Set Mysql56GTIDSet | MariadbSet MariadbGTIDSet

datatype gtid_error =
    InvalidInterval
  | IntervalStartNotPositive
  | IntervalParts
  | ExpectedUuidInterval
  | InvalidSID
  | InvalidSIDHex hex_error
  | ExpectedUuidSequence
  | InvalidSequence
  | ExpectedDomainServerSequence
  | InvalidDomain
  | InvalidServer
  | UnknownFlavor string
  | CannotRead

subsection \<open>Server ids\<close>

definition SID_String :: "SID \<Rightarrow> string" where
  "SID_String sid =
     hex_encode (take 4 sid) @ ''-'' @ hex_encode (take 2 (drop 4 sid)) @ ''-'' @
     hex_encode (take 2 (drop 6 sid)) @ ''-'' @ hex_encode (take 2 (drop 8 sid)) @ ''-'' @
     hex_encode (take 6 (drop 10 sid))"

definition ParseSID :: "string \<Rightarrow> gtid_error + SID" where
  "ParseSID s =
     (if length s \<noteq> 36 \<or> s ! 8 \<noteq> CHR ''-'' \<or> s ! 13 \<noteq> CHR ''-'' \<or> s ! 18 \<noteq> CHR ''-'' \<or> s ! 23 \<noteq> CHR ''-''
      then Inl InvalidSID
      else
        (let b = take 8 s @ take 4 (drop 9 s) @ take 4 (drop 14 s) @ take 4 (drop 19 s) @ drop 24 s in
         case hex_decode b of Inl err \<Rightarrow> Inl (InvalidSIDHex err) | Inr sid \<Rightarrow> Inr sid))"

subsection \<open>Transaction ids\<close>

definition parseMysql56GTID :: "string \<Rightarrow> gtid_error + GTID" where
  "parseMysql56GTID s =
     (let parts = split_on CHR '':'' s in
      if length parts \<noteq> 2 then Inl ExpectedUuidSequence
      else
        (case ParseSID (parts ! 0) of
           Inl err \<Rightarrow> Inl err
         | Inr sid \<Rightarrow>
             (case parse_int 64 (parts ! 1) of
                None \<Rightarrow> Inl InvalidSequence
              | Some n \<Rightarrow> Inr (Mysql56 \<lparr>Server56 = sid, Sequence56 = n\<rparr>))))"

definition Mysql56GTID_String :: "Mysql56GTID \<Rightarrow> string" where
  "Mysql56GTID_String gtid = SID_String (Server56 gtid) @ '':'' @ format_int (Sequence56 gtid)"

subsection \<open>Sets of transaction ids\<close>

definition interval_contains :: "interval \<Rightarrow> interval \<Rightarrow> bool" where
  "interval_contains iv other \<longleftrightarrow> iv_start iv \<le> iv_start other \<and> iv_end other \<le> iv_end iv"

definition parseInterval :: "string \<Rightarrow> gtid_error + interval" where
  "parseInterval s =
     (let parts = split_on CHR ''-'' s in
      case parse_int 64 (parts ! 0) of
        None \<Rightarrow> Inl InvalidInterval
      | Some start \<Rightarrow>
          if start < 1 then Inl IntervalStartNotPositive
          else if length parts = 1 then Inr \<lparr>iv_start = start, iv_end = start\<rparr>
          else if length parts = 2 then
            (case parse_int 64 (parts ! 1) of
               None \<Rightarrow> Inl InvalidInterval
             | Some end' \<Rightarrow> Inr \<lparr>iv_start = start, iv_end = end'\<rparr>)
          else Inl IntervalParts)"

fun parse_intervals :: "string list \<Rightarrow> gtid_error + interval list" where
  "parse_intervals [] = Inr []"
| "parse_intervals (part # parts) =
     (case parseInterval part of
        Inl err \<Rightarrow> Inl err
      | Inr iv \<Rightarrow>
          (case parse_intervals parts of
             Inl err \<Rightarrow> Inl err
           | Inr ivs \<Rightarrow> Inr (if iv_end iv < iv_start iv then ivs else iv # ivs)))"

fun parse_uuid_sets :: "string list \<Rightarrow> Mysql56GTIDSet \<Rightarrow> gtid_error + Mysql56GTIDSet" where
  "parse_uuid_sets [] set' = Inr set'"
| "parse_uuid_sets (u # us) set' =
     (let uuidSet = trim_space u in
      if uuidSet = [] then parse_uuid_sets us set'
      else
        (let parts = split_on CHR '':'' uuidSet in
         if length parts < 2 then Inl ExpectedUuidInterval
         else
           (case ParseSID (parts ! 0) of
              Inl err \<Rightarrow> Inl err
            | Inr sid \<Rightarrow>
                (case parse_intervals (tl parts) of
                   Inl err \<Rightarrow> Inl err
                 | Inr intervals \<Rightarrow>
                     if length intervals = 0 then parse_uuid_sets us set'
                     else parse_uuid_sets us (AList.update sid (sort_key iv_start intervals) set')))))"

definition parseMysql56GTIDSet :: "string \<Rightarrow> gtid_error + GTIDSet" where
  "parseMysql56GTIDSet s =
     (case parse_uuid_sets (split_on CHR '','' s) [] of
        Inl err \<Rightarrow> Inl err
      | Inr set' \<Rightarrow> Inr (Mysql56Set set'))"

definition SIDs :: "Mysql56GTIDSet \<Rightarrow> SID list" where
  "SIDs set' = sort (map fst set')"

text \<open>\<^verbatim>\<open>set[sid]\<close>: the empty slice when the server is not in the map.\<close>

definition intervals_of :: "Mysql56GTIDSet \<Rightarrow> SID \<Rightarrow> interval list" where
  "intervals_of set' sid = (case map_of set' sid of None \<Rightarrow> [] | Some ivs \<Rightarrow> ivs)"

definition interval_string :: "interval \<Rightarrow> string" where
  "interval_string iv =
     '':'' @ format_int (iv_start iv) @
     (if iv_end iv \<noteq> iv_start iv then ''-'' @ format_int (iv_end iv) else [])"

definition Mysql56GTIDSet_String :: "Mysql56GTIDSet \<Rightarrow> string" where
  "Mysql56GTIDSet_String set' =
     join_with '',''
       (map (\<lambda>sid. SID_String sid @ concat (map interval_string (intervals_of set' sid))) (SIDs set'))"

fun contains_sequence :: "interval list \<Rightarrow> int \<Rightarrow> bool" where
  "contains_sequence [] n = False"
| "contains_sequence (iv # ivs) n =
     (if iv_start iv > n then False
      else if n \<le> iv_end iv then True
      else contains_sequence ivs n)"

definition Mysql56GTIDSet_ContainsGTID :: "Mysql56GTIDSet \<Rightarrow> GTID option \<Rightarrow> bool" where
  "Mysql56GTIDSet_ContainsGTID set' gtid =
     (case gtid of
        Some (Mysql56 gtid56) \<Rightarrow>
          contains_sequence (intervals_of set' (Server56 gtid56)) (Sequence56 gtid56)
      | _ \<Rightarrow> False)"

text \<open>
  The inner loop of \<^verbatim>\<open>Contains\<close>: the index only moves forward, so the list shrinks.
\<close>

fun advance :: "interval list \<Rightarrow> interval \<Rightarrow> interval list option" where
  "advance [] iv = None"
| "advance (x # xs) iv = (if interval_contains x iv then Some (x # xs) else advance xs iv)"

fun covers :: "interval list \<Rightarrow> interval list \<Rightarrow> bool" where
  "covers intervals [] = True"
| "covers intervals (iv # otherIntervals) =
     (case advance intervals iv of
        None \<Rightarrow> False
      | Some rest \<Rightarrow> covers rest otherIntervals)"

definition Mysql56GTIDSet_Contains :: "Mysql56GTIDSet \<Rightarrow> GTIDSet option \<Rightarrow> bool" where
  "Mysql56GTIDSet_Contains set' other =
     (case other of
        Some (Mysql56Set other56) \<Rightarrow>
          list_all (\<lambda>(sid, otherIntervals). covers (intervals_of set' sid) otherIntervals) other56
      | _ \<Rightarrow> False)"

definition Mysql56GTIDSet_Equal :: "Mysql56GTIDSet \<Rightarrow> GTIDSet option \<Rightarrow> bool" where
  "Mysql56GTIDSet_Equal set' other =
     (case other of
        Some (Mysql56Set other56) \<Rightarrow>
          length set' = length other56 \<and>
          list_all (\<lambda>(sid, intervals). intervals = intervals_of other56 sid) set'
      | _ \<Rightarrow> False)"

text \<open>
  One round of the loop of \<^verbatim>\<open>AddGTID\<close> over the intervals of the server: \<open>new\<close> is \<^verbatim>\<open>newIntervals\<close>.
\<close>

definition merge_interval :: "interval list \<Rightarrow> interval \<Rightarrow> interval list" where
  "merge_interval new iv =
     (if new \<noteq> [] \<and> iv_start iv = int64 (iv_end (last new) + 1)
      then butlast new @ [(last new)\<lparr>iv_end := iv_end iv\<rparr>]
      else new @ [iv])"

fun add_loop :: "int \<Rightarrow> interval list \<Rightarrow> bool \<Rightarrow> interval list \<Rightarrow> interval list \<times> bool" where
  "add_loop n [] added new = (new, added)"
| "add_loop n (iv # ivs) added new =
     (if \<not> added \<and> n = int64 (iv_start iv - 1) then
        add_loop n ivs True (merge_interval new (iv\<lparr>iv_start := n\<rparr>))
      else if \<not> added \<and> n = int64 (iv_end iv + 1) then
        add_loop n ivs True (merge_interval new (iv\<lparr>iv_end := n\<rparr>))
      else if \<not> added \<and> n < int64 (iv_start iv - 1) then
        add_loop n ivs True (merge_interval (new @ [\<lparr>iv_start = n, iv_end = n\<rparr>]) iv)
      else add_loop n ivs added (merge_interval new iv))"

fun add_sids :: "SID \<Rightarrow> int \<Rightarrow> Mysql56GTIDSet \<Rightarrow> bool \<Rightarrow> Mysql56GTIDSet \<times> bool" where
  "add_sids server n [] added = ([], added)"
| "add_sids server n ((sid, intervals) # rest) added =
     (if sid = server then
        (case add_loop n intervals added [] of (new, added') \<Rightarrow>
           (case add_sids server n rest added' of (newSet, added'') \<Rightarrow> ((sid, new) # newSet, added'')))
      else
        (case add_sids server n rest added of (newSet, added'') \<Rightarrow> ((sid, intervals) # newSet, added'')))"

definition Mysql56GTIDSet_AddGTID :: "Mysql56GTIDSet \<Rightarrow> GTID option \<Rightarrow> Mysql56GTIDSet" where
  "Mysql56GTIDSet_AddGTID set' gtid =
     (case gtid of
        Some (Mysql56 gtid56) \<Rightarrow>
          if Mysql56GTIDSet_ContainsGTID set' gtid then set'
          else
            (case add_sids (Server56 gtid56) (Sequence56 gtid56) set' False of
               (newSet, added) \<Rightarrow>
                 if \<not> added then
                   AList.update (Server56 gtid56)
                     (intervals_of newSet (Server56 gtid56) @
                        [\<lparr>iv_start = Sequence56 gtid56, iv_end = Sequence56 gtid56\<rparr>]) newSet
                 else newSet)
      | _ \<Rightarrow> set')"

definition Mysql56GTID_GTIDSet :: "Mysql56GTID \<Rightarrow> Mysql56GTIDSet" where
  "Mysql56GTID_GTIDSet gtid = Mysql56GTIDSet_AddGTID [] (Some (Mysql56 gtid))"

subsection \<open>The binary form\<close>

definition int64_bytes :: "int \<Rightarrow> byte list" where
  "int64_bytes i = le_bytes 8 (word_of_int i :: uint64)"

definition SIDBlock :: "Mysql56GTIDSet \<Rightarrow> byte list" where
  "SIDBlock set' =
     le_bytes 8 (of_nat (length set') :: uint64) @
     concat (map (\<lambda>sid.
       sid @ le_bytes 8 (of_nat (length (intervals_of set' sid)) :: uint64) @
       concat (map (\<lambda>iv. int64_bytes (iv_start iv) @ int64_bytes (iv_end iv + 1))
         (intervals_of set' sid))) (SIDs set'))"

text \<open>\<^verbatim>\<open>binary.Read\<close> of a \<^verbatim>\<open>uint64\<close>: an error when fewer than eight bytes are left.\<close>

definition read_uint64 :: "byte list \<Rightarrow> gtid_error + uint64 \<times> byte list" where
  "read_uint64 buf =
     (if length buf < 8 then Inl CannotRead else Inr (le_word (take 8 buf), drop 8 buf))"

fun read_intervals :: "SID \<Rightarrow> nat \<Rightarrow> byte list \<Rightarrow> Mysql56GTIDSet \<Rightarrow>
    gtid_error + byte list \<times> Mysql56GTIDSet" where
  "read_intervals sid 0 buf set' = Inr (buf, set')"
| "read_intervals sid (Suc n) buf set' =
     (case read_uint64 buf of
        Inl err \<Rightarrow> Inl err
      | Inr (start, buf) \<Rightarrow>
          (case read_uint64 buf of
             Inl err \<Rightarrow> Inl err
           | Inr (end', buf) \<Rightarrow>
               read_intervals sid n buf
                 (AList.update sid
                   (intervals_of set' sid @ [\<lparr>iv_start = sint start, iv_end = sint (end' - 1)\<rparr>]) set')))"

fun read_sids :: "nat \<Rightarrow> byte list \<Rightarrow> Mysql56GTIDSet \<Rightarrow> gtid_error + Mysql56GTIDSet" where
  "read_sids 0 buf set' = Inr set'"
| "read_sids (Suc n) buf set' =
     (if length buf < 16 then Inl CannotRead
      else
        (case read_uint64 (drop 16 buf) of
           Inl err \<Rightarrow> Inl err
         | Inr (nIntervals, buf') \<Rightarrow>
             (case read_intervals (take 16 buf) (unat nIntervals) buf' set' of
                Inl err \<Rightarrow> Inl err
              | Inr (buf'', set'') \<Rightarrow> read_sids n buf'' set'')))"

definition NewMysql56GTIDSetFromSIDBlock :: "byte list \<Rightarrow> gtid_error + Mysql56GTIDSet" where
  "NewMysql56GTIDSetFromSIDBlock data =
     (case read_uint64 data of
        Inl err \<Rightarrow> Inl err
      | Inr (nSIDs, buf) \<Rightarrow> read_sids (unat nSIDs) buf [])"

subsection \<open>Intervals in normal form\<close>

fun ivs_ok :: "int \<Rightarrow> interval list \<Rightarrow> bool" where
  "ivs_ok lo [] = True"
| "ivs_ok lo (iv # ivs) =
     (lo < iv_start iv \<and> iv_start iv \<le> iv_end iv \<and> iv_end iv < 2 ^ 63 \<and> ivs_ok (iv_end iv + 1) ivs)"

definition seqs :: "interval list \<Rightarrow> int set" where
  "seqs ivs = (\<Union>iv \<in> set ivs. {iv_start iv..iv_end iv})"

lemma seqs_simps [simp]:
  "seqs [] = {}"
  "seqs (iv # ivs) = {iv_start iv..iv_end iv} \<union> seqs ivs"
  "seqs (xs @ ys) = seqs xs \<union> seqs ys"
  by (auto simp: seqs_def)

lemma ivs_ok_above: "ivs_ok lo ivs \<Longrightarrow> n \<in> seqs ivs \<Longrightarrow> lo < n"
  by (induction ivs arbitrary: lo) fastforce+

lemma ivs_ok_below: "ivs_ok lo ivs \<Longrightarrow> n \<in> seqs ivs \<Longrightarrow> n < 2 ^ 63"
  by (induction ivs arbitrary: lo) fastforce+

lemma ivs_ok_mono: "ivs_ok lo ivs \<Longrightarrow> lo' \<le> lo \<Longrightarrow> ivs_ok lo' ivs"
  by (cases ivs) auto

lemma ivs_ok_append:
  "ivs_ok lo (xs @ ys) \<longleftrightarrow>
     ivs_ok lo xs \<and> ivs_ok (if xs = [] then lo else iv_end (last xs) + 1) ys"
  by (induction xs arbitrary: lo) auto

lemma contains_sequence_iff: "ivs_ok lo ivs \<Longrightarrow> contains_sequence ivs n \<longleftrightarrow> n \<in> seqs ivs"
proof (induction ivs arbitrary: lo)
  case Nil
  then show ?case by simp
next
  case (Cons iv ivs)
  then have rest: "ivs_ok (iv_end iv + 1) ivs" "iv_start iv \<le> iv_end iv" by auto
  from Cons.IH [OF rest(1)] ivs_ok_above [OF rest(1), of n] rest(2) show ?case by auto
qed

text \<open>A run of consecutive numbers inside a normal form is inside one of its intervals.\<close>

lemma run_in_interval:
  assumes "ivs_ok lo ivs" "a \<le> b" "{a..b} \<subseteq> seqs ivs"
  shows "\<exists>x \<in> set ivs. iv_start x \<le> a \<and> b \<le> iv_end x"
  using assms
proof (induction ivs arbitrary: lo)
  case Nil
  then show ?case by auto
next
  case (Cons iv ivs)
  then have rest: "ivs_ok (iv_end iv + 1) ivs" by simp
  have gap: "iv_end iv + 1 \<notin> seqs (iv # ivs)" using ivs_ok_above [OF rest] Cons.prems(1) by fastforce
  show ?case
  proof (cases "a \<le> iv_end iv")
    case True
    have "a \<in> seqs (iv # ivs)" using Cons.prems by auto
    then have "iv_start iv \<le> a" using ivs_ok_above [OF rest, of a] True Cons.prems(1) by auto
    moreover have "b \<le> iv_end iv"
    proof (rule ccontr)
      assume "\<not> b \<le> iv_end iv"
      then have "iv_end iv + 1 \<in> {a..b}" using True by auto
      with Cons.prems(3) gap show False by blast
    qed
    ultimately show ?thesis by auto
  next
    case False
    then have "{a..b} \<subseteq> seqs ivs" using Cons.prems(3) by auto
    from Cons.IH [OF rest Cons.prems(2) this] show ?thesis by auto
  qed
qed

lemma advance_Some:
  "advance ivs iv = Some rest \<Longrightarrow>
     \<exists>pre x xs. ivs = pre @ rest \<and> rest = x # xs \<and> interval_contains x iv"
proof (induction ivs)
  case (Cons y ivs)
  show ?case
  proof (cases "interval_contains y iv")
    case True
    with Cons.prems show ?thesis by auto
  next
    case False
    with Cons.prems Cons.IH obtain pre x xs
      where "ivs = pre @ rest" "rest = x # xs" "interval_contains x iv" by auto
    then have "y # ivs = (y # pre) @ rest" "rest = x # xs" "interval_contains x iv" by auto
    then show ?thesis by blast
  qed
qed simp

lemma advance_None: "advance ivs iv = None \<Longrightarrow> x \<in> set ivs \<Longrightarrow> \<not> interval_contains x iv"
  by (induction ivs) (auto split: if_splits)

lemma ivs_ok_prefix_below:
  "ivs_ok lo (pre @ x # xs) \<Longrightarrow> n \<in> seqs pre \<Longrightarrow> n < iv_start x"
proof (induction pre arbitrary: lo)
  case (Cons y pre)
  have "iv_end y + 1 < iv_start x"
    using Cons.prems(1) ivs_ok_above [of "iv_end y + 1" "pre @ x # xs" "iv_start x"]
    by (auto simp: ivs_ok_append split: if_splits)
  with Cons show ?case by auto
qed simp

lemma covers_iff:
  assumes "ivs_ok lo ivs" "ivs_ok lo' os"
  shows "covers ivs os \<longleftrightarrow> seqs os \<subseteq> seqs ivs"
  using assms
proof (induction os arbitrary: ivs lo lo')
  case Nil
  then show ?case by simp
next
  case (Cons iv os)
  have iv: "iv_start iv \<le> iv_end iv" and os: "ivs_ok (iv_end iv + 1) os" using Cons.prems(2) by auto
  show ?case
  proof (cases "advance ivs iv")
    case None
    have "\<not> {iv_start iv..iv_end iv} \<subseteq> seqs ivs"
      using run_in_interval [OF Cons.prems(1) iv] advance_None [OF None]
      by (auto simp: interval_contains_def)
    with None show ?thesis by auto
  next
    case (Some rest)
    then obtain pre x xs where ivs: "ivs = pre @ rest" and rest: "rest = x # xs"
      and x: "iv_start x \<le> iv_start iv" "iv_end iv \<le> iv_end x"
      using advance_Some [OF Some] by (auto simp: interval_contains_def)
    have ok: "ivs_ok (if pre = [] then lo else iv_end (last pre) + 1) rest"
      using Cons.prems(1) unfolding ivs ivs_ok_append by simp
    have IH: "covers rest os \<longleftrightarrow> seqs os \<subseteq> seqs rest" by (rule Cons.IH [OF ok os])
    have pre: "n \<notin> seqs pre" if "n \<in> seqs os" for n
      using ivs_ok_above [OF os that] ivs_ok_prefix_below [of lo pre x xs n] Cons.prems(1) x(1) iv
      unfolding ivs rest by auto
    have "seqs os \<subseteq> seqs rest \<longleftrightarrow> seqs os \<subseteq> seqs ivs" unfolding ivs using pre by auto
    moreover have "{iv_start iv..iv_end iv} \<subseteq> seqs ivs" using x unfolding ivs rest by auto
    ultimately show ?thesis using Some IH by auto
  qed
qed

lemma ivs_ok_unique:
  assumes "ivs_ok lo xs" "ivs_ok lo' ys" "seqs xs = seqs ys"
  shows "xs = ys"
  using assms
proof (induction xs arbitrary: lo lo' ys)
  case Nil
  then show ?case by (cases ys) auto
next
  case (Cons x xs)
  have x: "iv_start x \<le> iv_end x" "ivs_ok (iv_end x + 1) xs" using Cons.prems(1) by auto
  then have "iv_start x \<in> seqs ys" using Cons.prems(3) by auto
  then obtain y ys' where ys: "ys = y # ys'" by (cases ys) auto
  have y: "iv_start y \<le> iv_end y" "ivs_ok (iv_end y + 1) ys'" using Cons.prems(2) ys by auto
  note above = ivs_ok_above [OF x(2)] ivs_ok_above [OF y(2)]
  have eq: "n \<in> seqs (x # xs) \<longleftrightarrow> n \<in> seqs (y # ys')" for n using Cons.prems(3) ys by simp
  have st: "iv_start x = iv_start y"
    using eq [of "iv_start x"] eq [of "iv_start y"] x(1) y(1) above by fastforce
  have en: "iv_end x = iv_end y"
  proof (rule ccontr)
    assume "iv_end x \<noteq> iv_end y"
    then show False
      using eq [of "iv_end x + 1"] eq [of "iv_end y + 1"] st x(1) y(1) above by fastforce
  qed
  have "seqs xs = seqs ys'"
  proof (intro equalityI subsetI)
    fix n assume "n \<in> seqs xs"
    with eq [of n] above(1) [of n] en show "n \<in> seqs ys'" by auto
  next
    fix n assume "n \<in> seqs ys'"
    with eq [of n] above(2) [of n] en show "n \<in> seqs xs" by auto
  qed
  from Cons.IH [OF x(2) y(2) this] st en ys show ?case by simp
qed

subsection \<open>Adding a number to a normal form\<close>

lemma int64_succ_iff:
  "0 < a \<Longrightarrow> a < 2 ^ 63 \<Longrightarrow> 0 \<le> b \<Longrightarrow> b < 2 ^ 63 \<Longrightarrow> a = int64 (b + 1) \<longleftrightarrow> a = b + 1"
  by (cases "b = 2 ^ 63 - 1") (auto simp: int64_id, simp add: int64_def)

lemma int64_pred: "0 < a \<Longrightarrow> a < 2 ^ 63 \<Longrightarrow> int64 (a - 1) = a - 1"
  by (simp add: int64_id)

lemma merge_interval_gap:
  assumes "new = [] \<or> 0 \<le> iv_end (last new) \<and> iv_end (last new) < 2 ^ 63 \<and> iv_end (last new) + 1 < iv_start iv"
    "0 < iv_start iv" "iv_start iv < 2 ^ 63"
  shows "merge_interval new iv = new @ [iv]"
proof (cases "new = []")
  case False
  then have "iv_start iv \<noteq> int64 (iv_end (last new) + 1)"
    using assms by (subst int64_succ_iff) auto
  then show ?thesis by (simp add: merge_interval_def)
qed (simp add: merge_interval_def)

lemma merge_interval_touch:
  "0 \<le> iv_end j \<Longrightarrow> iv_start iv = iv_end j + 1 \<Longrightarrow> iv_start iv < 2 ^ 63 \<Longrightarrow>
     merge_interval (new @ [j]) iv = new @ [j\<lparr>iv_end := iv_end iv\<rparr>]"
  by (simp add: merge_interval_def int64_id)

text \<open>The end of what is copied so far is below \<open>lo\<close>.\<close>

definition ends_by :: "interval list \<Rightarrow> int \<Rightarrow> bool" where
  "ends_by new lo \<longleftrightarrow>
     (new = [] \<or> 0 \<le> iv_end (last new) \<and> iv_end (last new) < 2 ^ 63 \<and> iv_end (last new) + 1 \<le> lo)"

lemma merge_ends_by:
  "ends_by new lo \<Longrightarrow> lo < iv_start iv \<Longrightarrow> 0 \<le> lo \<Longrightarrow> iv_start iv < 2 ^ 63 \<Longrightarrow>
     merge_interval new iv = new @ [iv]"
  by (rule merge_interval_gap) (auto simp: ends_by_def)

lemma ends_by_snoc: "0 \<le> iv_end iv \<Longrightarrow> iv_end iv < 2 ^ 63 \<Longrightarrow> ends_by (new @ [iv]) (iv_end iv + 1)"
  by (simp add: ends_by_def)

lemma add_loop_True:
  "ivs_ok lo ivs \<Longrightarrow> 0 \<le> lo \<Longrightarrow> ends_by new lo \<Longrightarrow> add_loop n ivs True new = (new @ ivs, True)"
proof (induction ivs arbitrary: lo new)
  case (Cons iv ivs)
  then have m: "merge_interval new iv = new @ [iv]" by (intro merge_ends_by) auto
  from Cons have "add_loop n ivs True (new @ [iv]) = ((new @ [iv]) @ ivs, True)"
    by (intro Cons.IH [of "iv_end iv + 1"] ends_by_snoc) auto
  with m show ?case by simp
qed simp

text \<open>After an interval was extended at its end, it may touch the next one.\<close>

lemma add_loop_touch:
  assumes "ivs_ok n ivs" "0 < n" "iv_end j = n" "iv_start j \<le> n" "n < 2 ^ 63"
  shows "\<exists>ivs'. add_loop n ivs True (new @ [j]) = (new @ ivs', True) \<and>
    (\<forall>lo. lo < iv_start j \<longrightarrow> ivs_ok lo ivs') \<and> seqs ivs' = {iv_start j..n} \<union> seqs ivs"
proof (cases ivs)
  case Nil
  with assms show ?thesis by (intro exI [of _ "[j]"]) auto
next
  case (Cons y ys)
  show ?thesis
  proof (cases "iv_start y = n + 1")
    case True
    let ?j = "j\<lparr>iv_end := iv_end y\<rparr>"
    have "add_loop n ys True (new @ [?j]) = ((new @ [?j]) @ ys, True)"
      using assms Cons by (intro add_loop_True [of "iv_end y + 1"]) (auto simp: ends_by_def)
    moreover have "merge_interval (new @ [j]) y = new @ [?j]"
      using assms Cons True by (intro merge_interval_touch) auto
    moreover have "{iv_start j..iv_end y} = {iv_start j..n} \<union> {iv_start y..iv_end y}"
      using assms Cons True by auto
    ultimately show ?thesis using assms Cons True by (intro exI [of _ "?j # ys"]) auto
  next
    case False
    have "add_loop n ivs True (new @ [j]) = ((new @ [j]) @ ivs, True)"
      using assms Cons False by (intro add_loop_True [of "n + 1"]) (auto simp: ends_by_def)
    then show ?thesis using assms Cons False by (intro exI [of _ "j # ivs"]) auto
  qed
qed

definition placed :: "int \<Rightarrow> int \<Rightarrow> interval list \<Rightarrow> interval list \<Rightarrow> interval list \<times> bool \<Rightarrow> bool" where
  "placed lo n ivs new r \<longleftrightarrow>
     (\<exists>ivs'. r = (new @ ivs', True) \<and> ivs_ok lo ivs' \<and> seqs ivs' = insert n (seqs ivs)) \<or>
     (r = (new @ ivs, False) \<and> (\<forall>iv \<in> set ivs. iv_end iv + 1 < n))"

lemma placedI:
  "r = (new @ ivs', True) \<Longrightarrow> ivs_ok lo ivs' \<Longrightarrow> seqs ivs' = insert n (seqs ivs) \<Longrightarrow> placed lo n ivs new r"
  by (auto simp: placed_def)

lemma placed_Cons:
  assumes "placed (iv_end iv + 1) n ivs (new @ [iv]) r"
    "lo < iv_start iv" "iv_start iv \<le> iv_end iv" "iv_end iv < 2 ^ 63" "iv_end iv + 1 < n"
  shows "placed lo n (iv # ivs) new r"
proof (cases "snd r")
  case True
  with assms(1) obtain ivs' where r: "r = ((new @ [iv]) @ ivs', True)"
    and ok: "ivs_ok (iv_end iv + 1) ivs'" and eq: "seqs ivs' = insert n (seqs ivs)"
    by (auto simp: placed_def)
  show ?thesis
    by (rule placedI [of _ _ "iv # ivs'"]) (use r ok eq assms in auto)
next
  case False
  with assms show ?thesis by (auto simp: placed_def)
qed

lemma add_loop_False:
  assumes "ivs_ok lo ivs" "0 \<le> lo" "ends_by new lo" "lo < n" "n < 2 ^ 63" "n \<notin> seqs ivs"
  shows "placed lo n ivs new (add_loop n ivs False new)"
  using assms
proof (induction ivs arbitrary: lo new)
  case Nil
  then show ?case by (simp add: placed_def)
next
  case (Cons iv ivs)
  have iv: "lo < iv_start iv" "iv_start iv \<le> iv_end iv" "iv_end iv < 2 ^ 63" "ivs_ok (iv_end iv + 1) ivs"
    and out: "\<not> (iv_start iv \<le> n \<and> n \<le> iv_end iv)" "n \<notin> seqs ivs"
    using Cons.prems by auto
  have pred: "int64 (iv_start iv - 1) = iv_start iv - 1"
    using iv Cons.prems(2) by (intro int64_pred) auto
  have succ: "n = int64 (iv_end iv + 1) \<longleftrightarrow> n = iv_end iv + 1"
    using iv Cons.prems by (intro int64_succ_iff) auto
  consider (before) "n = iv_start iv - 1" | (after) "n = iv_end iv + 1"
    | (gap) "n < iv_start iv - 1" | (later) "iv_end iv + 1 < n"
    using out(1) by linarith
  then show ?case
  proof cases
    case before
    let ?iv = "iv\<lparr>iv_start := n\<rparr>"
    have "merge_interval new ?iv = new @ [?iv]"
      using Cons.prems iv before by (intro merge_ends_by) auto
    moreover have "add_loop n ivs True (new @ [?iv]) = ((new @ [?iv]) @ ivs, True)"
      using iv Cons.prems(2) by (intro add_loop_True [of "iv_end iv + 1"]) (auto simp: ends_by_def)
    ultimately show ?thesis
      using before iv Cons.prems by (intro placedI [of _ _ "?iv # ivs"]) (auto simp: pred)
  next
    case after
    let ?iv = "iv\<lparr>iv_end := n\<rparr>"
    have "merge_interval new ?iv = new @ [?iv]"
      using Cons.prems iv after by (intro merge_ends_by) auto
    then have eq: "add_loop n (iv # ivs) False new = add_loop n ivs True (new @ [?iv])"
      using after succ iv(2) by (simp add: pred)
    obtain ivs' where "add_loop n ivs True (new @ [?iv]) = (new @ ivs', True)" "ivs_ok lo ivs'"
      "seqs ivs' = {iv_start iv..n} \<union> seqs ivs"
      using add_loop_touch [of n ivs ?iv new] iv Cons.prems after by auto
    then show ?thesis using eq after iv by (intro placedI [of _ _ ivs']) auto
  next
    case gap
    let ?n = "\<lparr>iv_start = n, iv_end = n\<rparr>"
    have "merge_interval (new @ [?n]) iv = (new @ [?n]) @ [iv]"
      using Cons.prems iv gap by (intro merge_ends_by [of _ "n + 1"]) (auto simp: ends_by_def)
    moreover have "add_loop n ivs True ((new @ [?n]) @ [iv]) = (((new @ [?n]) @ [iv]) @ ivs, True)"
      using iv Cons.prems(2) by (intro add_loop_True [of "iv_end iv + 1"]) (auto simp: ends_by_def)
    ultimately show ?thesis
      using gap iv Cons.prems succ by (intro placedI [of _ _ "?n # iv # ivs"]) (auto simp: pred)
  next
    case later
    have "merge_interval new iv = new @ [iv]" using Cons.prems iv by (intro merge_ends_by) auto
    then have eq: "add_loop n (iv # ivs) False new = add_loop n ivs False (new @ [iv])"
      using later succ iv by (simp add: pred)
    have "placed (iv_end iv + 1) n ivs (new @ [iv]) (add_loop n ivs False (new @ [iv]))"
      using iv Cons.prems later out(2) by (intro Cons.IH ends_by_snoc) auto
    from placed_Cons [OF this iv(1-3) later] eq show ?thesis by simp
  qed
qed

subsection \<open>Sets in normal form\<close>

definition set56_ok :: "Mysql56GTIDSet \<Rightarrow> bool" where
  "set56_ok s \<longleftrightarrow>
     distinct (map fst s) \<and> (\<forall>(sid, ivs) \<in> set s. length sid = 16 \<and> ivs \<noteq> [] \<and> ivs_ok 0 ivs)"

definition gtids56 :: "Mysql56GTIDSet \<Rightarrow> (SID \<times> int) set" where
  "gtids56 s = {(sid, n). n \<in> seqs (intervals_of s sid)}"

lemma set56_ok_Nil [simp]: "set56_ok []" and gtids56_Nil [simp]: "gtids56 [] = {}"
  by (simp_all add: set56_ok_def gtids56_def intervals_of_def)

lemma intervals_of_update [simp]:
  "intervals_of (AList.update k v s) k' = (if k' = k then v else intervals_of s k')"
  by (simp add: intervals_of_def AList.update_conv')

lemma intervals_of_in: "set56_ok s \<Longrightarrow> (sid, ivs) \<in> set s \<Longrightarrow> intervals_of s sid = ivs"
  by (simp add: set56_ok_def intervals_of_def)

lemma intervals_of_not_Nil: "intervals_of s sid \<noteq> [] \<Longrightarrow> (sid, intervals_of s sid) \<in> set s"
  by (auto simp: intervals_of_def split: option.splits dest: map_of_SomeD)

lemma set56_ok_intervals [simp]: "set56_ok s \<Longrightarrow> ivs_ok 0 (intervals_of s sid)"
  using intervals_of_not_Nil [of s sid] by (cases "intervals_of s sid = []") (auto simp: set56_ok_def)

lemma set56_ok_dom:
  assumes ok: "set56_ok s"
  shows "sid \<in> fst ` set s \<longleftrightarrow> intervals_of s sid \<noteq> []"
proof
  assume "sid \<in> fst ` set s"
  then obtain ivs where "(sid, ivs) \<in> set s" by auto
  with intervals_of_in [OF ok this] ok show "intervals_of s sid \<noteq> []" by (auto simp: set56_ok_def)
next
  assume "intervals_of s sid \<noteq> []"
  from intervals_of_not_Nil [OF this] show "sid \<in> fst ` set s" by force
qed

lemma set_update_subset: "set (AList.update k v s) \<subseteq> insert (k, v) (set s)"
  by (induction s) auto

lemma set56_ok_update:
  assumes "set56_ok s" "length k = 16" "v \<noteq> []" "ivs_ok 0 v"
  shows "set56_ok (AList.update k v s)"
proof -
  have "length sid = 16 \<and> ivs \<noteq> [] \<and> ivs_ok 0 ivs" if "(sid, ivs) \<in> set (AList.update k v s)" for sid ivs
    using that assms set_update_subset [of k v s] by (auto simp: set56_ok_def)
  with assms(1) show ?thesis by (auto simp: set56_ok_def distinct_update)
qed

lemma gtids56_update:
  "gtids56 (AList.update k v s) = {(sid, n) \<in> gtids56 s. sid \<noteq> k} \<union> {k} \<times> seqs v"
  by (auto simp: gtids56_def split: if_splits)

lemma add_sids_absent: "k \<notin> fst ` set s \<Longrightarrow> add_sids k n s a = (s, a)"
  by (induction s) auto

lemma add_sids_update:
  assumes "distinct (map fst s)" "map_of s k = Some ivs"
  shows "add_sids k n s a = (AList.update k (fst (add_loop n ivs a [])) s, snd (add_loop n ivs a []))"
  using assms
proof (induction s)
  case (Cons p s)
  obtain sid ivs' where p: "p = (sid, ivs')" by (cases p)
  show ?case
  proof (cases "sid = k")
    case True
    with Cons.prems p have "ivs' = ivs" "k \<notin> fst ` set s" by auto
    then show ?thesis using True p by (simp add: add_sids_absent split: prod.split)
  next
    case False
    with Cons p show ?thesis by (simp split: prod.split)
  qed
qed simp

lemma update_update: "AList.update k v (AList.update k w s) = AList.update k v s"
  by (induction s) auto

lemma AddGTID_absent:
  "set56_ok s \<Longrightarrow> Sequence56 g \<notin> seqs (intervals_of s (Server56 g)) \<Longrightarrow> 0 < Sequence56 g \<Longrightarrow>
     Sequence56 g < 2 ^ 63 \<Longrightarrow>
   \<exists>v. Mysql56GTIDSet_AddGTID s (Some (Mysql56 g)) = AList.update (Server56 g) v s \<and> v \<noteq> [] \<and>
     ivs_ok 0 v \<and> seqs v = insert (Sequence56 g) (seqs (intervals_of s (Server56 g)))"
proof (goal_cases)
  case 1
  let ?k = "Server56 g" and ?n = "Sequence56 g"
  let ?ivs = "intervals_of s ?k"
  have no: "\<not> Mysql56GTIDSet_ContainsGTID s (Some (Mysql56 g))"
    using 1 contains_sequence_iff [OF set56_ok_intervals [OF 1(1), of ?k]]
    by (simp add: Mysql56GTIDSet_ContainsGTID_def)
  show ?case
  proof (cases "map_of s ?k")
    case None
    then have "add_sids ?k ?n s False = (s, False)"
      by (intro add_sids_absent) (simp add: map_of_eq_None_iff)
    with no 1 None show ?thesis
      by (intro exI [of _ "[\<lparr>iv_start = ?n, iv_end = ?n\<rparr>]"])
        (auto simp: Mysql56GTIDSet_AddGTID_def intervals_of_def)
  next
    case (Some ivs)
    then have ivs: "?ivs = ivs" by (simp add: intervals_of_def)
    let ?r = "add_loop ?n ivs False []"
    have add: "add_sids ?k ?n s False = (AList.update ?k (fst ?r) s, snd ?r)"
      using 1(1) Some by (intro add_sids_update) (auto simp: set56_ok_def)
    have ok: "ivs_ok 0 ivs" using set56_ok_intervals [OF 1(1), of ?k] ivs by simp
    have "placed 0 ?n ivs [] ?r"
      using 1 ok ivs by (intro add_loop_False) (auto simp: ends_by_def)
    then show ?thesis unfolding placed_def
    proof (elim disjE exE conjE)
      fix ivs' assume "?r = ([] @ ivs', True)" "ivs_ok 0 ivs'" "seqs ivs' = insert ?n (seqs ivs)"
      with no add ivs show ?thesis
        by (intro exI [of _ ivs']) (auto simp: Mysql56GTIDSet_AddGTID_def)
    next
      assume r: "?r = ([] @ ivs, False)" and below: "\<forall>iv \<in> set ivs. iv_end iv + 1 < ?n"
      have "ivs_ok 0 (ivs @ [\<lparr>iv_start = ?n, iv_end = ?n\<rparr>])"
        using ok below 1 by (auto simp: ivs_ok_append)
      with no add ivs r show ?thesis
        by (intro exI [of _ "ivs @ [\<lparr>iv_start = ?n, iv_end = ?n\<rparr>]"])
          (auto simp: Mysql56GTIDSet_AddGTID_def update_update)
    qed
  qed
qed

subsection \<open>The operations on sets in normal form\<close>

definition gtid56_ok :: "Mysql56GTID \<Rightarrow> bool" where
  "gtid56_ok g \<longleftrightarrow> length (Server56 g) = 16 \<and> 0 < Sequence56 g \<and> Sequence56 g < 2 ^ 63"

abbreviation tx56 :: "Mysql56GTID \<Rightarrow> SID \<times> int" where
  "tx56 g \<equiv> (Server56 g, Sequence56 g)"

lemma ContainsGTID56_iff:
  "set56_ok s \<Longrightarrow> Mysql56GTIDSet_ContainsGTID s (Some (Mysql56 g)) \<longleftrightarrow> tx56 g \<in> gtids56 s"
  using contains_sequence_iff [OF set56_ok_intervals]
  by (simp add: Mysql56GTIDSet_ContainsGTID_def gtids56_def)

lemma Contains56_iff:
  assumes "set56_ok s" "set56_ok t"
  shows "Mysql56GTIDSet_Contains s (Some (Mysql56Set t)) \<longleftrightarrow> gtids56 t \<subseteq> gtids56 s"
proof -
  have "Mysql56GTIDSet_Contains s (Some (Mysql56Set t)) \<longleftrightarrow>
      (\<forall>(sid, ivs) \<in> set t. seqs (intervals_of t sid) \<subseteq> seqs (intervals_of s sid))"
    unfolding Mysql56GTIDSet_Contains_def list_all_iff option.case GTIDSet.case
  proof (intro ball_cong refl, clarify)
    fix sid ivs assume "(sid, ivs) \<in> set t"
    then have "ivs = intervals_of t sid" using intervals_of_in [OF assms(2)] by simp
    then show "covers (intervals_of s sid) ivs \<longleftrightarrow> seqs (intervals_of t sid) \<subseteq> seqs (intervals_of s sid)"
      using covers_iff [OF set56_ok_intervals [OF assms(1)] set56_ok_intervals [OF assms(2)]] by simp
  qed
  also have "\<dots> \<longleftrightarrow> (\<forall>sid. seqs (intervals_of t sid) \<subseteq> seqs (intervals_of s sid))"
  proof (intro iffI allI)
    fix sid assume *: "\<forall>(sid, ivs) \<in> set t. seqs (intervals_of t sid) \<subseteq> seqs (intervals_of s sid)"
    show "seqs (intervals_of t sid) \<subseteq> seqs (intervals_of s sid)"
    proof (cases "intervals_of t sid = []")
      case False
      from intervals_of_not_Nil [OF this] * show ?thesis by auto
    qed simp
  qed auto
  finally show ?thesis by (auto simp: gtids56_def)
qed

lemma intervals_of_eqI:
  "set56_ok s \<Longrightarrow> set56_ok t \<Longrightarrow> gtids56 s = gtids56 t \<Longrightarrow> intervals_of s sid = intervals_of t sid"
  by (rule ivs_ok_unique [of 0 _ 0]) (auto simp: gtids56_def set_eq_iff)

lemma length_dom56: "set56_ok s \<Longrightarrow> length s = card {sid. intervals_of s sid \<noteq> []}"
proof -
  assume ok: "set56_ok s"
  have "{sid. intervals_of s sid \<noteq> []} = fst ` set s" using set56_ok_dom [OF ok] by auto
  then show ?thesis using ok distinct_card [of "map fst s"] by (simp add: set56_ok_def)
qed

lemma finite_dom56: "set56_ok s \<Longrightarrow> finite {sid. intervals_of s sid \<noteq> []}"
proof -
  assume ok: "set56_ok s"
  have "{sid. intervals_of s sid \<noteq> []} = fst ` set s" using set56_ok_dom [OF ok] by auto
  then show ?thesis by simp
qed

lemma Equal56_iff:
  assumes "set56_ok s" "set56_ok t"
  shows "Mysql56GTIDSet_Equal s (Some (Mysql56Set t)) \<longleftrightarrow> gtids56 s = gtids56 t"
proof
  assume eq: "Mysql56GTIDSet_Equal s (Some (Mysql56Set t))"
  then have len: "length s = length t"
    and ivs: "\<And>sid ivs. (sid, ivs) \<in> set s \<Longrightarrow> ivs = intervals_of t sid"
    by (auto simp: Mysql56GTIDSet_Equal_def list_all_iff)
  have sub: "{sid. intervals_of s sid \<noteq> []} \<subseteq> {sid. intervals_of t sid \<noteq> []}"
  proof clarify
    fix sid assume "intervals_of s sid \<noteq> []" "intervals_of t sid = []"
    with ivs [OF intervals_of_not_Nil [of s sid]] show False by simp
  qed
  have dom: "{sid. intervals_of s sid \<noteq> []} = {sid. intervals_of t sid \<noteq> []}"
    using len length_dom56 [OF assms(1)] length_dom56 [OF assms(2)]
    by (intro card_subset_eq [OF finite_dom56 [OF assms(2)] sub]) simp
  have "intervals_of s sid = intervals_of t sid" for sid
  proof (cases "intervals_of s sid = []")
    case True
    then have "sid \<notin> {sid. intervals_of t sid \<noteq> []}" using dom by blast
    with True show ?thesis by simp
  next
    case False
    from ivs [OF intervals_of_not_Nil [OF this]] show ?thesis .
  qed
  then show "gtids56 s = gtids56 t" by (simp add: gtids56_def)
next
  assume "gtids56 s = gtids56 t"
  note ivs = intervals_of_eqI [OF assms this]
  then have "length s = length t"
    using length_dom56 [OF assms(1)] length_dom56 [OF assms(2)] by simp
  moreover have "ivs' = intervals_of t sid" if "(sid, ivs') \<in> set s" for sid ivs'
    using intervals_of_in [OF assms(1) that] ivs by simp
  ultimately show "Mysql56GTIDSet_Equal s (Some (Mysql56Set t))"
    by (auto simp: Mysql56GTIDSet_Equal_def list_all_iff)
qed

lemma AddGTID56:
  assumes "set56_ok s" "gtid56_ok g"
  shows "set56_ok (Mysql56GTIDSet_AddGTID s (Some (Mysql56 g)))" (is ?ok)
    and "gtids56 (Mysql56GTIDSet_AddGTID s (Some (Mysql56 g))) = insert (tx56 g) (gtids56 s)" (is ?tx)
proof -
  have "?ok \<and> ?tx"
  proof (cases "tx56 g \<in> gtids56 s")
    case True
    then show ?thesis
      using assms(1) ContainsGTID56_iff [OF assms(1), of g]
      by (simp add: Mysql56GTIDSet_AddGTID_def insert_absorb)
  next
    case False
    then have "Sequence56 g \<notin> seqs (intervals_of s (Server56 g))" by (simp add: gtids56_def)
    from AddGTID_absent [OF assms(1) this] assms(2) obtain v
      where v: "Mysql56GTIDSet_AddGTID s (Some (Mysql56 g)) = AList.update (Server56 g) v s" "v \<noteq> []"
        "ivs_ok 0 v" "seqs v = insert (Sequence56 g) (seqs (intervals_of s (Server56 g)))"
      by (auto simp: gtid56_ok_def)
    have "set56_ok (AList.update (Server56 g) v s)"
      using assms v by (intro set56_ok_update) (auto simp: gtid56_ok_def)
    moreover have "gtids56 (AList.update (Server56 g) v s) = insert (tx56 g) (gtids56 s)"
      using v(4) by (auto simp: gtids56_def split: if_splits)
    ultimately show ?thesis using v(1) by simp
  qed
  then show ?ok ?tx by auto
qed

lemma GTIDSet56:
  assumes "gtid56_ok g"
  shows "set56_ok (Mysql56GTID_GTIDSet g)" "gtids56 (Mysql56GTID_GTIDSet g) = {tx56 g}"
  using AddGTID56 [OF set56_ok_Nil assms] by (simp_all add: Mysql56GTID_GTIDSet_def)

subsection \<open>Round trips\<close>

text \<open>The Go map of \<open>s\<close>, listed in the order of the server ids.\<close>

definition by_sid :: "Mysql56GTIDSet \<Rightarrow> Mysql56GTIDSet" where
  "by_sid s = map (\<lambda>sid. (sid, intervals_of s sid)) (SIDs s)"

lemma set_SIDs [simp]: "set (SIDs s) = fst ` set s"
  by (simp add: SIDs_def)

lemma fst_by_sid [simp]: "map fst (by_sid s) = SIDs s"
  by (simp add: by_sid_def comp_def)

lemma distinct_SIDs: "set56_ok s \<Longrightarrow> distinct (SIDs s)"
  by (simp add: set56_ok_def SIDs_def)

lemma length_SIDs [simp]: "length (SIDs s) = length s"
  by (simp add: SIDs_def)

lemma map_of_by_sid: "set56_ok s \<Longrightarrow> map_of (by_sid s) = map_of s"
proof
  fix sid assume ok: "set56_ok s"
  have "map_of (by_sid s) sid = (if sid \<in> fst ` set s then Some (intervals_of s sid) else None)"
    using map_of_map_restrict [of "intervals_of s" "SIDs s"] by (simp add: by_sid_def)
  then show "map_of (by_sid s) sid = map_of s sid"
    using map_of_eq_None_iff [of s sid] by (auto simp: intervals_of_def split: option.splits)
qed

lemma by_sid_ok: "set56_ok s \<Longrightarrow> (sid, ivs) \<in> set (by_sid s) \<Longrightarrow>
    length sid = 16 \<and> ivs \<noteq> [] \<and> ivs_ok 0 ivs \<and> ivs = intervals_of s sid"
  using set56_ok_dom [of s sid] by (auto simp: by_sid_def set56_ok_def)

definition ext_set :: "Mysql56GTIDSet \<Rightarrow> SID \<Rightarrow> interval list \<Rightarrow> Mysql56GTIDSet" where
  "ext_set s sid ivs = (if ivs = [] then s else s @ [(sid, ivs)])"

lemma update_absent: "sid \<notin> fst ` set s \<Longrightarrow> AList.update sid v s = s @ [(sid, v)]"
  by (induction s) auto

lemma update_ext_set: "sid \<notin> fst ` set s \<Longrightarrow> AList.update sid v (ext_set s sid pre) = s @ [(sid, v)]"
  by (induction s) (auto simp: ext_set_def update_absent)

lemma intervals_of_ext_set: "sid \<notin> fst ` set s \<Longrightarrow> intervals_of (ext_set s sid pre) sid = pre"
  using map_of_eq_None_iff [of s sid] by (simp add: ext_set_def intervals_of_def map_add_def)

lemma read_uint64_le [simp]: "read_uint64 (le_bytes 8 w @ rest) = Inr (w, rest)"
  by (simp add: read_uint64_def le_word_le_bytes take_bit_word_eq_self)

lemma sint_word_int64:
  "- (2 ^ 63) \<le> i \<Longrightarrow> i < 2 ^ 63 \<Longrightarrow> sint (word_of_int i :: uint64) = i"
  by (simp add: signed_of_int signed_take_bit_int_eq_self)

lemma interval_eta [simp]: "\<lparr>iv_start = iv_start iv, iv_end = iv_end iv\<rparr> = iv"
  by simp

definition interval_bytes :: "interval \<Rightarrow> byte list" where
  "interval_bytes iv = int64_bytes (iv_start iv) @ int64_bytes (iv_end iv + 1)"

lemma read_intervals_bytes:
  assumes "\<forall>iv \<in> set ivs. 0 < iv_start iv \<and> iv_start iv \<le> iv_end iv \<and> iv_end iv < 2 ^ 63"
    "sid \<notin> fst ` set s"
  shows "read_intervals sid (length ivs) (concat (map interval_bytes ivs) @ rest) (ext_set s sid pre) =
    Inr (rest, ext_set s sid (pre @ ivs))"
  using assms(1)
proof (induction ivs arbitrary: pre)
  case (Cons iv ivs)
  have "sint (word_of_int (iv_start iv) :: uint64) = iv_start iv"
    using Cons.prems by (intro sint_word_int64) auto
  moreover have "sint (word_of_int (iv_end iv + 1) - 1 :: uint64) = iv_end iv"
    using Cons.prems sint_word_int64 [of "iv_end iv"] by simp
  moreover have "read_intervals sid (length ivs) (concat (map interval_bytes ivs) @ rest)
      (s @ [(sid, pre @ [iv])]) = Inr (rest, ext_set s sid (pre @ iv # ivs))"
    using Cons.IH [of "pre @ [iv]"] Cons.prems by (simp add: ext_set_def)
  ultimately show ?case using assms(2)
    by (simp add: interval_bytes_def [of iv] int64_bytes_def update_ext_set intervals_of_ext_set)
qed simp

lemma ivs_ok_range:
  "ivs_ok lo ivs \<Longrightarrow> 0 \<le> lo \<Longrightarrow> \<forall>iv \<in> set ivs. 0 < iv_start iv \<and> iv_start iv \<le> iv_end iv \<and> iv_end iv < 2 ^ 63"
  by (induction ivs arbitrary: lo) fastforce+

definition sid_bytes :: "SID \<times> interval list \<Rightarrow> byte list" where
  "sid_bytes p =
     fst p @ le_bytes 8 (of_nat (length (snd p)) :: uint64) @ concat (map interval_bytes (snd p))"

lemma read_sids_bytes:
  assumes "\<forall>(sid, ivs) \<in> set ps. length sid = 16 \<and> ivs \<noteq> [] \<and> ivs_ok 0 ivs \<and> length ivs < 2 ^ 64"
    "distinct (map fst (s @ ps))"
  shows "read_sids (length ps) (concat (map sid_bytes ps)) s = Inr (s @ ps)"
  using assms
proof (induction ps arbitrary: s)
  case (Cons p ps)
  obtain sid ivs where p: "p = (sid, ivs)" by (cases p)
  with Cons.prems have ok: "length sid = 16" "ivs \<noteq> []" "ivs_ok 0 ivs" "length ivs < 2 ^ 64"
    and new: "sid \<notin> fst ` set s" by auto
  have "unat (of_nat (length ivs) :: uint64) = length ivs" using ok(4) by (simp add: unsigned_of_nat take_bit_nat_eq_self)
  moreover have "read_intervals sid (length ivs) (concat (map interval_bytes ivs) @ rest) s =
      Inr (rest, s @ [p])" for rest
    using read_intervals_bytes [OF ivs_ok_range [OF ok(3)] new, of rest "[]"] ok(2) p
    by (simp add: ext_set_def)
  moreover have "read_sids (length ps) (concat (map sid_bytes ps)) (s @ [p]) = Inr ((s @ [p]) @ ps)"
    using Cons.prems by (intro Cons.IH) auto
  ultimately show ?case using ok(1) p by (simp add: sid_bytes_def [of "(sid, ivs)"])
qed simp

lemma SIDBlock_eq: "SIDBlock s = le_bytes 8 (of_nat (length s) :: uint64) @ concat (map sid_bytes (by_sid s))"
  by (simp add: SIDBlock_def by_sid_def sid_bytes_def interval_bytes_def [abs_def] comp_def)

lemma SIDBlock_roundtrip:
  assumes "set56_ok s" "length s < 2 ^ 64" "\<forall>(sid, ivs) \<in> set s. length ivs < 2 ^ 64"
  shows "NewMysql56GTIDSetFromSIDBlock (SIDBlock s) = Inr (by_sid s)"
proof -
  have "length ivs < 2 ^ 64" if "(sid, ivs) \<in> set (by_sid s)" for sid ivs
    using by_sid_ok [OF assms(1) that] intervals_of_not_Nil [of s sid] assms(3) by auto
  then have "read_sids (length (by_sid s)) (concat (map sid_bytes (by_sid s))) [] = Inr ([] @ by_sid s)"
    using by_sid_ok [OF assms(1)] distinct_SIDs [OF assms(1)] by (intro read_sids_bytes) auto
  moreover have "length (by_sid s) = length s" by (simp add: by_sid_def)
  moreover have "unat (of_nat (length s) :: uint64) = length s" using assms(2) by (simp add: unsigned_of_nat take_bit_nat_eq_self)
  ultimately show ?thesis by (simp add: NewMysql56GTIDSetFromSIDBlock_def SIDBlock_eq)
qed

lemma take_SID: "length sid = 16 \<Longrightarrow>
    take 4 sid @ take 2 (drop 4 sid) @ take 2 (drop 6 sid) @ take 2 (drop 8 sid) @ take 6 (drop 10 sid) = sid"
  by (simp add: append_assoc [symmetric] take_add [symmetric] del: append_assoc)

lemma ParseSID_String: "length sid = 16 \<Longrightarrow> ParseSID (SID_String sid) = Inr sid"
proof -
  assume len: "length sid = 16"
  define a b c d e where parts: "a = take 4 sid" "b = take 2 (drop 4 sid)" "c = take 2 (drop 6 sid)"
    "d = take 2 (drop 8 sid)" "e = take 6 (drop 10 sid)"
  have l: "length a = 4" "length b = 2" "length c = 2" "length d = 2" "length e = 6"
    using len by (auto simp: parts)
  have "hex_encode a @ hex_encode b @ hex_encode c @ hex_encode d @ hex_encode e = hex_encode sid"
    using arg_cong [OF take_SID [OF len], of hex_encode] by (simp add: parts)
  moreover have "hex_decode (hex_encode sid) = Inr sid" by simp
  moreover have "SID_String sid = hex_encode a @ ''-'' @ hex_encode b @ ''-'' @ hex_encode c @ ''-'' @
      hex_encode d @ ''-'' @ hex_encode e"
    by (simp add: SID_String_def parts)
  ultimately show ?thesis using l by (simp add: ParseSID_def nth_append Let_def)
qed

definition hex_chars :: "char set" where
  "hex_chars = set ''0123456789abcdef''"

lemma hex_digit_chars: "unat b < 16 \<Longrightarrow> hex_digit b \<in> hex_chars"
  unfolding hex_chars_def by (drule nibble_cases) (elim insertE emptyE; simp add: hex_digit_def)

lemma set_hex_encode: "set (hex_encode bs) \<subseteq> hex_chars"
  by (induction bs) (simp_all add: hex_digit_chars unat_high_nibble unat_low_nibble)

lemma SID_String_chars: "set (SID_String sid) \<subseteq> insert CHR ''-'' hex_chars"
  unfolding SID_String_def set_append list.set using set_hex_encode by blast

lemma hex_chars_plain: "c \<in> insert CHR ''-'' hex_chars \<Longrightarrow>
    c \<noteq> CHR '','' \<and> c \<noteq> CHR '':'' \<and> of_char c \<in> {33..126 :: nat}"
  unfolding hex_chars_def by (simp, elim disjE; simp)

lemma interval_text_ex:
  assumes "0 < iv_start iv" "iv_start iv \<le> iv_end iv" "iv_end iv < 2 ^ 63"
  shows "\<exists>t. interval_string iv = CHR '':'' # t \<and> parseInterval t = Inr iv \<and>
    (\<forall>c \<in> set t. is_digit c \<or> c = CHR ''-'') \<and> t \<noteq> [] \<and> is_digit (last t)"
proof -
  have nat: "format_int (iv_start iv) = format_nat (nat (iv_start iv))"
    "format_int (iv_end iv) = format_nat (nat (iv_end iv))"
    using assms by (auto simp: format_int_def)
  have no: "CHR ''-'' \<notin> set (format_nat n)" for n using set_format_nat by (fastforce simp: is_digit_def)
  have last: "is_digit (last (format_nat n))" for n by (rule set_format_nat [of _ n]) simp
  have start: "parse_int 64 (format_nat (nat (iv_start iv))) = Some (iv_start iv)"
    "parse_int 64 (format_nat (nat (iv_end iv))) = Some (iv_end iv)"
    using assms parse_int_format_int [of 64 "iv_start iv"] parse_int_format_int [of 64 "iv_end iv"] nat by auto
  show ?thesis
  proof (cases "iv_end iv = iv_start iv")
    case True
    have "\<lparr>iv_start = iv_start iv, iv_end = iv_start iv\<rparr> = iv" using True by (cases iv) simp
    then show ?thesis using True assms(1) start(1) last set_format_nat
      by (intro exI [of _ "format_nat (nat (iv_start iv))"])
        (auto simp: interval_string_def nat parseInterval_def split_on_no_sep no)
  next
    case False
    have "split_on CHR ''-'' (format_nat (nat (iv_start iv)) @ CHR ''-'' # format_nat (nat (iv_end iv))) =
        [format_nat (nat (iv_start iv)), format_nat (nat (iv_end iv))]"
      using no by (simp add: split_on_append_sep split_on_no_sep)
    then show ?thesis using False assms(1) start last set_format_nat
      by (intro exI [of _ "format_nat (nat (iv_start iv)) @ CHR ''-'' # format_nat (nat (iv_end iv))"])
        (auto simp: interval_string_def nat parseInterval_def)
  qed
qed

definition interval_text :: "interval \<Rightarrow> string" where
  "interval_text iv = tl (interval_string iv)"

lemma interval_text_props:
  assumes "0 < iv_start iv" "iv_start iv \<le> iv_end iv" "iv_end iv < 2 ^ 63"
  shows "interval_string iv = CHR '':'' # interval_text iv" "parseInterval (interval_text iv) = Inr iv"
    "\<forall>c \<in> set (interval_text iv). is_digit c \<or> c = CHR ''-''" "interval_text iv \<noteq> []"
    "is_digit (last (interval_text iv))"
  using interval_text_ex [OF assms] by (auto simp: interval_text_def)

lemma digit_plain: "is_digit c \<or> c = CHR ''-'' \<Longrightarrow>
    c \<noteq> CHR '','' \<and> c \<noteq> CHR '':'' \<and> of_char c \<in> {33..126 :: nat}"
  unfolding is_digit_def by (simp, elim disjE; simp)

lemma parse_intervals_text:
  "\<forall>iv \<in> set ivs. 0 < iv_start iv \<and> iv_start iv \<le> iv_end iv \<and> iv_end iv < 2 ^ 63 \<Longrightarrow>
     parse_intervals (map interval_text ivs) = Inr ivs"
  by (induction ivs) (auto simp: interval_text_props)

lemma ivs_ok_sorted: "ivs_ok lo ivs \<Longrightarrow> sorted (map iv_start ivs) \<and> (\<forall>iv \<in> set ivs. lo \<le> iv_start iv)"
  by (induction ivs arbitrary: lo) fastforce+

definition uuid_text :: "SID \<times> interval list \<Rightarrow> string" where
  "uuid_text p = SID_String (fst p) @ concat (map interval_string (snd p))"

lemma join_with_head: "join_with sep ((c # a) # ps) = c # join_with sep (a # ps)"
  by (cases ps) simp_all

lemma uuid_text_parts:
  assumes "\<forall>iv \<in> set ivs. 0 < iv_start iv \<and> iv_start iv \<le> iv_end iv \<and> iv_end iv < 2 ^ 63"
  shows "uuid_text (sid, ivs) = join_with '':'' (SID_String sid # map interval_text ivs)"
proof -
  have "a @ concat (map interval_string ivs) = join_with '':'' (a # map interval_text ivs)" for a
    using assms by (induction ivs arbitrary: a) (auto simp: interval_text_props join_with_head)
  then show ?thesis by (simp add: uuid_text_def)
qed

lemma uuid_text_split:
  assumes "\<forall>iv \<in> set ivs. 0 < iv_start iv \<and> iv_start iv \<le> iv_end iv \<and> iv_end iv < 2 ^ 63"
  shows "split_on CHR '':'' (uuid_text (sid, ivs)) = SID_String sid # map interval_text ivs"
  unfolding uuid_text_parts [OF assms]
proof (rule split_on_join)
  have "CHR '':'' \<notin> set (SID_String sid)" using SID_String_chars hex_chars_plain by blast
  moreover have "CHR '':'' \<notin> set (interval_text iv)" if "iv \<in> set ivs" for iv
    using assms interval_text_props(3) digit_plain that by blast
  ultimately show "\<forall>p \<in> set (SID_String sid # map interval_text ivs). CHR '':'' \<notin> set p" by auto
qed simp

lemma set_interval_string:
  assumes "\<forall>iv \<in> set ivs. 0 < iv_start iv \<and> iv_start iv \<le> iv_end iv \<and> iv_end iv < 2 ^ 63"
    "c \<in> set (concat (map interval_string ivs))"
  shows "c = CHR '':'' \<or> is_digit c \<or> c = CHR ''-''"
proof -
  obtain iv where "iv \<in> set ivs" "c \<in> set (interval_string iv)" using assms(2) by auto
  with assms(1) interval_text_props(1,3) [of iv] show ?thesis by (metis set_ConsD)
qed

lemma uuid_text_plain:
  assumes "\<forall>iv \<in> set ivs. 0 < iv_start iv \<and> iv_start iv \<le> iv_end iv \<and> iv_end iv < 2 ^ 63"
    "length sid = 16"
  shows "CHR '','' \<notin> set (uuid_text (sid, ivs))" "trim_space (uuid_text (sid, ivs)) = uuid_text (sid, ivs)"
    "uuid_text (sid, ivs) \<noteq> []"
proof -
  have c: "c \<noteq> CHR '','' \<and> of_char c \<in> {33..126 :: nat}" if "c \<in> set (uuid_text (sid, ivs))" for c
  proof -
    from that consider "c \<in> set (SID_String sid)" | "c \<in> set (concat (map interval_string ivs))"
      by (auto simp: uuid_text_def)
    then show ?thesis
    proof cases
      case 1
      then show ?thesis using SID_String_chars hex_chars_plain by blast
    next
      case 2
      from set_interval_string [OF assms(1) this] digit_plain [of c] show ?thesis by auto
    qed
  qed
  show ne: "uuid_text (sid, ivs) \<noteq> []" by (simp add: uuid_text_def SID_String_def)
  show "CHR '','' \<notin> set (uuid_text (sid, ivs))" using c by blast
  show "trim_space (uuid_text (sid, ivs)) = uuid_text (sid, ivs)"
    using c [of "hd (uuid_text (sid, ivs))"] c [of "last (uuid_text (sid, ivs))"] ne
    by (intro trim_space_id) auto
qed

lemma parse_uuid_sets_text:
  assumes "\<forall>(sid, ivs) \<in> set ps. length sid = 16 \<and> ivs \<noteq> [] \<and> ivs_ok 0 ivs"
    "distinct (map fst (s @ ps))"
  shows "parse_uuid_sets (map uuid_text ps) s = Inr (s @ ps)"
  using assms
proof (induction ps arbitrary: s)
  case (Cons p ps)
  obtain sid ivs where p: "p = (sid, ivs)" by (cases p)
  with Cons.prems have ok: "length sid = 16" "ivs \<noteq> []" "ivs_ok 0 ivs" and new: "sid \<notin> fst ` set s" by auto
  note range = ivs_ok_range [OF ok(3) order.refl]
  have "parse_uuid_sets (map uuid_text ps) (s @ [p]) = Inr ((s @ [p]) @ ps)"
    using Cons.prems by (intro Cons.IH) auto
  moreover have "sort_key iv_start ivs = ivs" using ivs_ok_sorted [OF ok(3)] by (simp add: sort_key_id_if_sorted)
  ultimately show ?case using ok new p range
    by (simp add: uuid_text_plain [OF range ok(1)] uuid_text_split [OF range] ParseSID_String
      parse_intervals_text [OF range] update_absent Let_def)
qed simp

lemma Mysql56GTIDSet_String_eq: "Mysql56GTIDSet_String s = join_with '','' (map uuid_text (by_sid s))"
  by (simp add: Mysql56GTIDSet_String_def by_sid_def uuid_text_def comp_def)

lemma String56_roundtrip:
  assumes "set56_ok s"
  shows "parseMysql56GTIDSet (Mysql56GTIDSet_String s) = Inr (Mysql56Set (by_sid s))"
proof (cases "s = []")
  case True
  then show ?thesis
    by (simp add: Mysql56GTIDSet_String_def by_sid_def SIDs_def parseMysql56GTIDSet_def trim_space_def Let_def)
next
  case False
  have ok: "\<forall>(sid, ivs) \<in> set (by_sid s). length sid = 16 \<and> ivs \<noteq> [] \<and> ivs_ok 0 ivs"
    using by_sid_ok [OF assms] by blast
  have "split_on CHR '','' (Mysql56GTIDSet_String s) = map uuid_text (by_sid s)"
    unfolding Mysql56GTIDSet_String_eq
  proof (rule split_on_join)
    show "map uuid_text (by_sid s) \<noteq> []" using False length_SIDs [of s] by (auto simp: by_sid_def simp del: length_SIDs)
    show "\<forall>p \<in> set (map uuid_text (by_sid s)). CHR '','' \<notin> set p"
      using ok uuid_text_plain(1) [OF ivs_ok_range] by fastforce
  qed
  moreover have "parse_uuid_sets (map uuid_text (by_sid s)) [] = Inr ([] @ by_sid s)"
    using ok distinct_SIDs [OF assms] by (intro parse_uuid_sets_text) auto
  ultimately show ?thesis by (simp add: parseMysql56GTIDSet_def)
qed

subsection \<open>The interface\<close>

interpretation set56: canonical_gtid_set set56_ok gtid56_ok gtids56 tx56 "\<lambda>g. {tx56 g}"
    "\<lambda>s g. Mysql56GTIDSet_ContainsGTID s (Some (Mysql56 g))"
    "\<lambda>s t. Mysql56GTIDSet_Contains s (Some (Mysql56Set t))"
    "\<lambda>s t. Mysql56GTIDSet_Equal s (Some (Mysql56Set t))"
    "\<lambda>s g. Mysql56GTIDSet_AddGTID s (Some (Mysql56 g))" Mysql56GTID_GTIDSet
  by unfold_locales
    (simp_all only: ContainsGTID56_iff Contains56_iff Equal56_iff AddGTID56 GTIDSet56 Un_insert_right
      Un_empty_right insertI1 simp_thms)

subsection \<open>Properties\<close>

text \<open>
  C11. On sets in normal form a \<^verbatim>\<open>Mysql56GTIDSet\<close> behaves as the set of transactions it stands for:
  \<^verbatim>\<open>ContainsGTID\<close> is membership, \<^verbatim>\<open>Contains\<close> is inclusion, \<^verbatim>\<open>Equal\<close> is equality, and \<^verbatim>\<open>AddGTID\<close> inserts
  the transaction and returns a set in normal form again.
\<close>

theorem Mysql56GTIDSet_operations:
  assumes "set56_ok s" "set56_ok t" "gtid56_ok g"
  shows "(Mysql56GTIDSet_ContainsGTID s (Some (Mysql56 g)) \<longleftrightarrow> (Server56 g, Sequence56 g) \<in> gtids56 s) \<and>
    (Mysql56GTIDSet_Contains s (Some (Mysql56Set t)) \<longleftrightarrow> gtids56 t \<subseteq> gtids56 s) \<and>
    (Mysql56GTIDSet_Equal s (Some (Mysql56Set t)) \<longleftrightarrow> gtids56 s = gtids56 t) \<and>
    set56_ok (Mysql56GTIDSet_AddGTID s (Some (Mysql56 g))) \<and>
    gtids56 (Mysql56GTIDSet_AddGTID s (Some (Mysql56 g))) = insert (Server56 g, Sequence56 g) (gtids56 s)"
  using assms by (simp add: ContainsGTID56_iff Contains56_iff Equal56_iff AddGTID56)

theorem Mysql56GTIDSet_operations_witness:
  "gtids56 (Mysql56GTIDSet_AddGTID
       [(replicate 16 7, [\<lparr>iv_start = 1, iv_end = 5\<rparr>, \<lparr>iv_start = 7, iv_end = 9\<rparr>])]
       (Some (Mysql56 \<lparr>Server56 = replicate 16 7, Sequence56 = 6\<rparr>))) =
     insert (replicate 16 7, 6)
       (gtids56 [(replicate 16 7, [\<lparr>iv_start = 1, iv_end = 5\<rparr>, \<lparr>iv_start = 7, iv_end = 9\<rparr>])])"
  using Mysql56GTIDSet_operations [of
      "[(replicate 16 7, [\<lparr>iv_start = 1, iv_end = 5\<rparr>, \<lparr>iv_start = 7, iv_end = 9\<rparr>])]" "[]"
      "\<lparr>Server56 = replicate 16 7, Sequence56 = 6\<rparr>"]
  by (simp add: set56_ok_def gtid56_ok_def)

text \<open>
  C27. A set in normal form survives its two encodings: parsing its text gives the same Go map, and
  so does decoding its binary SID block. The block counts servers and intervals in 64 bits.
\<close>

theorem Mysql56GTIDSet_roundtrips:
  assumes "set56_ok s" "length s < 2 ^ 64" "\<forall>(sid, ivs) \<in> set s. length ivs < 2 ^ 64"
  shows "(\<exists>s'. parseMysql56GTIDSet (Mysql56GTIDSet_String s) = Inr (Mysql56Set s') \<and> map_of s' = map_of s) \<and>
    (\<exists>s'. NewMysql56GTIDSetFromSIDBlock (SIDBlock s) = Inr s' \<and> map_of s' = map_of s)"
  using String56_roundtrip SIDBlock_roundtrip map_of_by_sid assms by blast

theorem Mysql56GTIDSet_roundtrips_witness:
  "(\<exists>s'. NewMysql56GTIDSetFromSIDBlock (SIDBlock
       [(replicate 16 7, [\<lparr>iv_start = 1, iv_end = 2 ^ 63 - 1\<rparr>]), (replicate 16 3, [\<lparr>iv_start = 4, iv_end = 4\<rparr>])]) =
     Inr s' \<and> map_of s' (replicate 16 3) = Some [\<lparr>iv_start = 4, iv_end = 4\<rparr>])"
  using Mysql56GTIDSet_roundtrips [of
      "[(replicate 16 7, [\<lparr>iv_start = 1, iv_end = 2 ^ 63 - 1\<rparr>]), (replicate 16 3, [\<lparr>iv_start = 4, iv_end = 4\<rparr>])]"]
  by (auto simp: set56_ok_def)

text \<open>
  \<^verbatim>\<open>parseMysql56GTIDSet\<close> sorts the intervals of a server but does not join those that touch, so what
  it returns need not be in normal form, and \<^verbatim>\<open>Contains\<close> misses intervals that span two of them.
\<close>

theorem parseMysql56GTIDSet_adjacent:
  "parse_intervals [''1-5'', ''6-10''] = Inr [\<lparr>iv_start = 1, iv_end = 5\<rparr>, \<lparr>iv_start = 6, iv_end = 10\<rparr>] \<and>
   \<not> Mysql56GTIDSet_Contains [(sid, [\<lparr>iv_start = 1, iv_end = 5\<rparr>, \<lparr>iv_start = 6, iv_end = 10\<rparr>])]
       (Some (Mysql56Set [(sid, [\<lparr>iv_start = 1, iv_end = 10\<rparr>])])) \<and>
   gtids56 [(sid, [\<lparr>iv_start = 1, iv_end = 5\<rparr>, \<lparr>iv_start = 6, iv_end = 10\<rparr>])] =
     gtids56 [(sid, [\<lparr>iv_start = 1, iv_end = 10\<rparr>])]"
  by (auto simp: parseInterval_def parse_int_def is_digit_def dec_val_def digit_val_def Let_def
      Mysql56GTIDSet_Contains_def interval_contains_def intervals_of_def gtids56_def split: if_splits)

end
