(* ===== verification/Gtid_Mariadb.thy ===== *)
theory Gtid_Mariadb
  imports Gtid_Mysql56
begin

text \<open>
  The GTIDs and GTID sets of MariaDB, \<^verbatim>\<open>src/mysql/mariadb_gtid.go\<close>. A set holds the last GTID of each
  domain; it stands for that transaction and all before it in the domain.

  \<^verbatim>\<open>AddGTID\<close> writes into the array of its receiver. \<open>MariadbGTIDSet_AddGTID\<close> is therefore given on
  slices in a store of arrays; \<open>add_mariadb\<close> is the value it returns, and \<open>AddGTID_contents\<close> relates
  the two. The capacity that \<^verbatim>\<open>append\<close> chooses when it allocates is the parameter \<open>grow\<close>.
\<close>

subsection \<open>GTIDs\<close>

definition parseMariadbGTID :: "string \<Rightarrow> gtid_error + MariadbGTID" where
  "parseMariadbGTID s =
     (let parts = split_on CHR ''-'' s in
      if length parts \<noteq> 3 then Inl ExpectedDomainServerSequence
      else
        (case parse_uint 32 (parts ! 0) of
           None \<Rightarrow> Inl InvalidDomain
         | Some domain \<Rightarrow>
             (case parse_uint 32 (parts ! 1) of
                None \<Rightarrow> Inl InvalidServer
              | Some server \<Rightarrow>
                  (case parse_uint 64 (parts ! 2) of
                     None \<Rightarrow> Inl InvalidSequence
                   | Some sequence \<Rightarrow>
                       Inr \<lparr>Domain = of_nat domain, Server = of_nat server, Sequence = of_nat sequence\<rparr>))))"

definition MariadbGTID_String :: "MariadbGTID \<Rightarrow> string" where
  "MariadbGTID_String gtid =
     format_nat (unat (Domain gtid)) @ ''-'' @ format_nat (unat (Server gtid)) @ ''-'' @
     format_nat (unat (Sequence gtid))"

definition MariadbGTID_GTIDSet :: "MariadbGTID \<Rightarrow> MariadbGTIDSet" where
  "MariadbGTID_GTIDSet gtid = [gtid]"

subsection \<open>GTID sets\<close>

fun parse_gtids :: "string list \<Rightarrow> gtid_error + MariadbGTID list" where
  "parse_gtids [] = Inr []"
| "parse_gtids (s # ss) =
     (case parseMariadbGTID s of
        Inl err \<Rightarrow> Inl err
      | Inr gtid \<Rightarrow>
          (case parse_gtids ss of Inl err \<Rightarrow> Inl err | Inr gtids \<Rightarrow> Inr (gtid # gtids)))"

definition parseMariadbGTIDSet :: "string \<Rightarrow> gtid_error + GTIDSet" where
  "parseMariadbGTIDSet s =
     (case parse_gtids (split_on CHR '','' s) of
        Inl err \<Rightarrow> Inl err
      | Inr gtidSet \<Rightarrow> Inr (MariadbSet gtidSet))"

definition MariadbGTIDSet_String :: "MariadbGTIDSet \<Rightarrow> string" where
  "MariadbGTIDSet_String gtidSet = join_with '','' (map MariadbGTID_String gtidSet)"

fun domain_contains :: "MariadbGTID list \<Rightarrow> MariadbGTID \<Rightarrow> bool" where
  "domain_contains [] mdbOther = False"
| "domain_contains (gtid # gtids) mdbOther =
     (if Domain gtid \<noteq> Domain mdbOther then domain_contains gtids mdbOther
      else Sequence gtid \<ge> Sequence mdbOther)"

definition MariadbGTIDSet_ContainsGTID :: "MariadbGTIDSet \<Rightarrow> GTID option \<Rightarrow> bool" where
  "MariadbGTIDSet_ContainsGTID gtidSet other =
     (case other of
        None \<Rightarrow> True
      | Some (Mariadb mdbOther) \<Rightarrow> domain_contains gtidSet mdbOther
      | Some _ \<Rightarrow> False)"

definition MariadbGTIDSet_Contains :: "MariadbGTIDSet \<Rightarrow> GTIDSet option \<Rightarrow> bool" where
  "MariadbGTIDSet_Contains gtidSet other =
     (case other of
        None \<Rightarrow> True
      | Some (MariadbSet mdbOther) \<Rightarrow>
          list_all (\<lambda>gtid. MariadbGTIDSet_ContainsGTID gtidSet (Some (Mariadb gtid))) mdbOther
      | Some _ \<Rightarrow> False)"

definition MariadbGTIDSet_Equal :: "MariadbGTIDSet \<Rightarrow> GTIDSet option \<Rightarrow> bool" where
  "MariadbGTIDSet_Equal gtidSet other =
     (case other of
        Some (MariadbSet mdbOther) \<Rightarrow>
          length gtidSet = length mdbOther \<and> list_all2 (\<lambda>gtid gtid'. gtid = gtid') gtidSet mdbOther
      | _ \<Rightarrow> False)"

subsection \<open>Adding a GTID in place\<close>

text \<open>
  A slice is the address of an array and a length; the array of the store is as long as the
  capacity.
\<close>

type_synonym mdb_store = "MariadbGTID list list"

record mdb_slice =
  arr :: nat
  len :: nat

definition contents :: "mdb_store \<Rightarrow> mdb_slice \<Rightarrow> MariadbGTID list" where
  "contents st sl = take (len sl) (st ! arr sl)"

definition zero_gtid :: MariadbGTID where
  "zero_gtid = \<lparr>Domain = 0, Server = 0, Sequence = 0\<rparr>"

definition append_gtid :: "(nat \<Rightarrow> nat) \<Rightarrow> mdb_store \<Rightarrow> mdb_slice \<Rightarrow> MariadbGTID \<Rightarrow> mdb_store \<times> mdb_slice" where
  "append_gtid grow st sl g =
     (if len sl < length (st ! arr sl)
      then (st[arr sl := (st ! arr sl)[len sl := g]], sl\<lparr>len := len sl + 1\<rparr>)
      else
        (st @ [contents st sl @ g # replicate (grow (len sl)) zero_gtid],
         \<lparr>arr = length st, len = len sl + 1\<rparr>))"

fun find_domain :: "MariadbGTID list \<Rightarrow> MariadbGTID \<Rightarrow> nat \<Rightarrow> nat option" where
  "find_domain [] mdbOther i = None"
| "find_domain (gtid # gtids) mdbOther i =
     (if Domain mdbOther = Domain gtid then Some i else find_domain gtids mdbOther (Suc i))"

definition MariadbGTIDSet_AddGTID ::
  "(nat \<Rightarrow> nat) \<Rightarrow> mdb_store \<Rightarrow> mdb_slice \<Rightarrow> GTID option \<Rightarrow> mdb_store \<times> mdb_slice" where
  "MariadbGTIDSet_AddGTID grow st gtidSet other =
     (case other of
        Some (Mariadb mdbOther) \<Rightarrow>
          (case find_domain (contents st gtidSet) mdbOther 0 of
             Some i \<Rightarrow>
               if Sequence mdbOther > Sequence (contents st gtidSet ! i)
               then (st[arr gtidSet := (st ! arr gtidSet)[i := mdbOther]], gtidSet)
               else (st, gtidSet)
           | None \<Rightarrow> append_gtid grow st gtidSet mdbOther)
      | _ \<Rightarrow> (st, gtidSet))"

text \<open>The set that \<^verbatim>\<open>AddGTID\<close> returns, as a value.\<close>

fun add_mariadb :: "MariadbGTIDSet \<Rightarrow> MariadbGTID \<Rightarrow> MariadbGTIDSet" where
  "add_mariadb [] g = [g]"
| "add_mariadb (x # xs) g =
     (if Domain g = Domain x then (if Sequence g > Sequence x then g # xs else x # xs)
      else x # add_mariadb xs g)"

lemma find_domain_Some:
  "find_domain xs g i = Some j \<Longrightarrow> i \<le> j \<and> j - i < length xs \<and>
     add_mariadb xs g = (if Sequence g > Sequence (xs ! (j - i)) then xs[j - i := g] else xs)"
proof (induction xs arbitrary: i)
  case (Cons x xs)
  show ?case
  proof (cases "Domain g = Domain x")
    case False
    with Cons.prems have "find_domain xs g (Suc i) = Some j" by simp
    from Cons.IH [OF this] False have "Suc i \<le> j \<and> j - Suc i < length xs \<and> add_mariadb (x # xs) g =
        x # (if Sequence g > Sequence (xs ! (j - Suc i)) then xs[j - Suc i := g] else xs)" by simp
    moreover from this have "j - i = Suc (j - Suc i)" by linarith
    ultimately show ?thesis by simp
  qed (use Cons.prems in auto)
qed simp

lemma find_domain_None: "find_domain xs g i = None \<Longrightarrow> add_mariadb xs g = xs @ [g]"
  by (induction xs arbitrary: i) (auto split: if_splits)

definition slice_ok :: "mdb_store \<Rightarrow> mdb_slice \<Rightarrow> bool" where
  "slice_ok st sl \<longleftrightarrow> arr sl < length st \<and> len sl \<le> length (st ! arr sl)"

lemma append_gtid_contents:
  assumes "slice_ok st sl" "append_gtid grow st sl g = (st', sl')"
  shows "slice_ok st' sl' \<and> contents st' sl' = contents st sl @ [g]"
proof (cases "len sl < length (st ! arr sl)")
  case True
  with assms have "st' = st[arr sl := (st ! arr sl)[len sl := g]]" "sl' = sl\<lparr>len := len sl + 1\<rparr>"
    by (simp_all add: append_gtid_def)
  with assms(1) True show ?thesis by (simp add: slice_ok_def contents_def take_Suc_conv_app_nth)
next
  case False
  with assms have "st' = st @ [contents st sl @ g # replicate (grow (len sl)) zero_gtid]"
    "sl' = \<lparr>arr = length st, len = len sl + 1\<rparr>"
    by (simp_all add: append_gtid_def)
  with assms(1) False show ?thesis by (simp add: slice_ok_def contents_def)
qed

lemma AddGTID_contents:
  assumes "slice_ok st sl" "MariadbGTIDSet_AddGTID grow st sl (Some (Mariadb g)) = (st', sl')"
  shows "slice_ok st' sl'" "contents st' sl' = add_mariadb (contents st sl) g"
proof -
  have "slice_ok st' sl' \<and> contents st' sl' = add_mariadb (contents st sl) g"
  proof (cases "find_domain (contents st sl) g 0")
    case None
    then have "append_gtid grow st sl g = (st', sl')"
      using assms(2) by (simp add: MariadbGTIDSet_AddGTID_def)
    moreover note find_domain_None [OF None]
    ultimately show ?thesis
      using assms(1) append_gtid_contents [of st sl] by simp
  next
    case (Some i)
    from find_domain_Some [OF this] assms Some show ?thesis
      by (auto simp: MariadbGTIDSet_AddGTID_def contents_def slice_ok_def take_update_swap split: if_splits)
  qed
  then show "slice_ok st' sl'" "contents st' sl' = add_mariadb (contents st sl) g" by auto
qed

subsection \<open>The transactions of a set\<close>

definition mdb_ok :: "MariadbGTIDSet \<Rightarrow> bool" where
  "mdb_ok s \<longleftrightarrow> distinct (map Domain s)"

abbreviation mdb_tx :: "MariadbGTID \<Rightarrow> uint32 \<times> uint64" where
  "mdb_tx g \<equiv> (Domain g, Sequence g)"

definition mdb_down :: "MariadbGTID \<Rightarrow> (uint32 \<times> uint64) set" where
  "mdb_down g = {(d, n). d = Domain g \<and> n \<le> Sequence g}"

definition mdb_gtids :: "MariadbGTIDSet \<Rightarrow> (uint32 \<times> uint64) set" where
  "mdb_gtids s = (\<Union>g \<in> set s. mdb_down g)"

lemma mdb_simps [simp]:
  "mdb_ok []" "mdb_gtids [] = {}" "mdb_gtids (g # s) = mdb_down g \<union> mdb_gtids s"
  "mdb_ok (g # s) \<longleftrightarrow> Domain g \<notin> Domain ` set s \<and> mdb_ok s"
  by (auto simp: mdb_ok_def mdb_gtids_def)

lemma mdb_gtids_domain: "(d, n) \<in> mdb_gtids s \<Longrightarrow> d \<in> Domain ` set s"
  by (auto simp: mdb_gtids_def mdb_down_def)

lemma domain_contains_iff: "mdb_ok s \<Longrightarrow> domain_contains s g \<longleftrightarrow> mdb_tx g \<in> mdb_gtids s"
  by (induction s) (auto simp: mdb_down_def dest: mdb_gtids_domain)

lemma mdb_down_subset: "mdb_down g \<subseteq> mdb_gtids s \<longleftrightarrow> mdb_tx g \<in> mdb_gtids s"
  by (fastforce simp: mdb_down_def mdb_gtids_def)

lemma Contains_mdb_iff:
  "mdb_ok s \<Longrightarrow> MariadbGTIDSet_Contains s (Some (MariadbSet t)) \<longleftrightarrow> mdb_gtids t \<subseteq> mdb_gtids s"
  by (induction t)
    (auto simp: MariadbGTIDSet_Contains_def MariadbGTIDSet_ContainsGTID_def domain_contains_iff
      mdb_down_subset [symmetric])

lemma add_mariadb_domains: "Domain ` set (add_mariadb s g) = insert (Domain g) (Domain ` set s)"
  by (induction s) auto

lemma add_mariadb_ok: "mdb_ok s \<Longrightarrow> mdb_ok (add_mariadb s g)"
  by (induction s) (auto simp: add_mariadb_domains)

lemma mdb_down_mono: "Domain x = Domain g \<Longrightarrow> Sequence x \<le> Sequence g \<Longrightarrow> mdb_down x \<subseteq> mdb_down g"
  by (auto simp: mdb_down_def)

lemma add_mariadb_gtids: "mdb_gtids (add_mariadb s g) = mdb_gtids s \<union> mdb_down g"
proof (induction s)
  case (Cons x s)
  consider "Domain g \<noteq> Domain x" | "Domain x = Domain g" "Sequence x < Sequence g"
    | "Domain g = Domain x" "Sequence g \<le> Sequence x" by fastforce
  then show ?case
  proof cases
    case 2
    then have "mdb_down x \<subseteq> mdb_down g" by (intro mdb_down_mono) auto
    with 2 show ?thesis by auto
  next
    case 3
    then have "mdb_down g \<subseteq> mdb_down x" by (intro mdb_down_mono) auto
    with 3 show ?thesis by auto
  qed (use Cons in auto)
qed simp

lemma Equal_mdb_iff: "MariadbGTIDSet_Equal s (Some (MariadbSet t)) \<longleftrightarrow> s = t"
  by (auto simp: MariadbGTIDSet_Equal_def list.rel_eq)

interpretation mdb: gtid_set mdb_ok "\<lambda>_. True" mdb_gtids mdb_tx mdb_down
    "\<lambda>s g. MariadbGTIDSet_ContainsGTID s (Some (Mariadb g))"
    "\<lambda>s t. MariadbGTIDSet_Contains s (Some (MariadbSet t))"
    "\<lambda>s t. MariadbGTIDSet_Equal s (Some (MariadbSet t))" add_mariadb MariadbGTID_GTIDSet
  by unfold_locales
    (simp_all add: MariadbGTIDSet_ContainsGTID_def domain_contains_iff Contains_mdb_iff Equal_mdb_iff
      add_mariadb_ok add_mariadb_gtids MariadbGTID_GTIDSet_def, simp add: mdb_down_def)

subsection \<open>Round trips\<close>

lemma MariadbGTID_String_parse: "parseMariadbGTID (MariadbGTID_String g) = Inr g"
proof -
  have no: "CHR ''-'' \<notin> set (format_nat n)" for n using set_format_nat by (fastforce simp: is_digit_def)
  have "split_on CHR ''-'' (MariadbGTID_String g) =
      [format_nat (unat (Domain g)), format_nat (unat (Server g)), format_nat (unat (Sequence g))]"
    by (simp add: MariadbGTID_String_def split_on_append_sep split_on_no_sep no)
  moreover have "unat (Domain g) < 2 ^ 32" "unat (Server g) < 2 ^ 32" "unat (Sequence g) < 2 ^ 64"
    using unsigned_less [of "Domain g"] unsigned_less [of "Server g"] unsigned_less [of "Sequence g"] by simp_all
  ultimately show ?thesis by (simp add: parseMariadbGTID_def)
qed

lemma parse_gtids_text: "parse_gtids (map MariadbGTID_String s) = Inr s"
  by (induction s) (simp_all add: MariadbGTID_String_parse)

lemma MariadbGTID_String_no_comma: "CHR '','' \<notin> set (MariadbGTID_String g)"
proof -
  have "CHR '','' \<notin> set (format_nat n)" for n using set_format_nat by (fastforce simp: is_digit_def)
  then show ?thesis by (simp add: MariadbGTID_String_def)
qed

lemma String_mdb_roundtrip: "s \<noteq> [] \<Longrightarrow> parseMariadbGTIDSet (MariadbGTIDSet_String s) = Inr (MariadbSet s)"
  by (simp add: parseMariadbGTIDSet_def MariadbGTIDSet_String_def split_on_join MariadbGTID_String_no_comma
      parse_gtids_text)

subsection \<open>Properties\<close>

text \<open>
  C28. \<^verbatim>\<open>AddGTID\<close> on a MariaDB set with one entry per domain returns a slice whose contents again
  have one entry per domain and stand for the transactions of the receiver and those up to the new
  GTID; the result is sound for \<^verbatim>\<open>ContainsGTID\<close>, whatever array \<^verbatim>\<open>append\<close> allocates.
\<close>

theorem MariadbGTIDSet_AddGTID_transactions:
  assumes "slice_ok st sl" "mdb_ok (contents st sl)"
    "MariadbGTIDSet_AddGTID grow st sl (Some (Mariadb g)) = (st', sl')"
  shows "mdb_ok (contents st' sl') \<and>
    mdb_gtids (contents st' sl') = mdb_gtids (contents st sl) \<union> mdb_down g \<and>
    (\<forall>h. MariadbGTIDSet_ContainsGTID (contents st' sl') (Some (Mariadb h)) \<longleftrightarrow>
      MariadbGTIDSet_ContainsGTID (contents st sl) (Some (Mariadb h)) \<or>
      Domain h = Domain g \<and> Sequence h \<le> Sequence g)"
proof -
  have eq: "contents st' sl' = add_mariadb (contents st sl) g"
    by (rule AddGTID_contents(2) [OF assms(1,3)])
  have "mdb_tx h \<in> mdb_down g \<longleftrightarrow> Domain h = Domain g \<and> Sequence h \<le> Sequence g" for h
    by (simp add: mdb_down_def)
  then show ?thesis
    using assms(2)
    by (simp add: eq add_mariadb_ok add_mariadb_gtids MariadbGTIDSet_ContainsGTID_def domain_contains_iff)
qed

theorem MariadbGTIDSet_AddGTID_transactions_witness:
  "\<exists>st' sl'. MariadbGTIDSet_AddGTID id [[\<lparr>Domain = 1, Server = 2, Sequence = 3\<rparr>, \<lparr>Domain = 4, Server = 2, Sequence = 5\<rparr>]]
       \<lparr>arr = 0, len = 2\<rparr> (Some (Mariadb \<lparr>Domain = 1, Server = 7, Sequence = 9\<rparr>)) = (st', sl') \<and>
     mdb_ok (contents st' sl') \<and>
     MariadbGTIDSet_ContainsGTID (contents st' sl') (Some (Mariadb \<lparr>Domain = 1, Server = 2, Sequence = 8\<rparr>)) \<and>
     \<not> MariadbGTIDSet_ContainsGTID (contents st' sl') (Some (Mariadb \<lparr>Domain = 4, Server = 2, Sequence = 6\<rparr>)) \<and>
     mdb_gtids (contents st' sl') =
       mdb_gtids [\<lparr>Domain = 1, Server = 2, Sequence = 3\<rparr>, \<lparr>Domain = 4, Server = 2, Sequence = 5\<rparr>] \<union>
       mdb_down \<lparr>Domain = 1, Server = 7, Sequence = 9\<rparr>"
proof -
  let ?s = "[\<lparr>Domain = 1, Server = 2, Sequence = 3\<rparr>, \<lparr>Domain = 4, Server = 2, Sequence = 5\<rparr>] :: MariadbGTIDSet"
  let ?g = "\<lparr>Domain = 1, Server = 7, Sequence = 9\<rparr> :: MariadbGTID"
  obtain st' sl' where run: "MariadbGTIDSet_AddGTID id [?s] \<lparr>arr = 0, len = 2\<rparr> (Some (Mariadb ?g)) = (st', sl')" by fastforce
  have ok: "slice_ok [?s] \<lparr>arr = 0, len = 2\<rparr>" "contents [?s] \<lparr>arr = 0, len = 2\<rparr> = ?s" by (simp_all add: slice_ok_def contents_def)
  show ?thesis
    using MariadbGTIDSet_AddGTID_transactions [OF ok(1) _ run] run
    by (auto simp: ok(2) MariadbGTIDSet_ContainsGTID_def)
qed

text \<open>
  The receiver is not left alone: a position that shares its array with the one it was made from
  sees the new GTID as well.
\<close>

theorem MariadbGTIDSet_AddGTID_mutates:
  "\<exists>st sl st' sl'. slice_ok st sl \<and> mdb_ok (contents st sl) \<and>
     MariadbGTIDSet_AddGTID grow st sl (Some (Mariadb \<lparr>Domain = 1, Server = 2, Sequence = 9\<rparr>)) = (st', sl') \<and>
     contents st sl = [\<lparr>Domain = 1, Server = 2, Sequence = 3\<rparr>] \<and>
     contents st' sl = [\<lparr>Domain = 1, Server = 2, Sequence = 9\<rparr>]"
  by (intro exI [of _ "[[\<lparr>Domain = 1, Server = 2, Sequence = 3\<rparr>]]"] exI [of _ "\<lparr>arr = 0, len = 1\<rparr>"]
      exI [of _ "[[\<lparr>Domain = 1, Server = 2, Sequence = 9\<rparr>]]"])
    (simp add: slice_ok_def contents_def MariadbGTIDSet_AddGTID_def)

end
