(* ===== verification/Replication_Position.thy ===== *)
theory Replication_Position
  imports Gtid_Mariadb
begin

text \<open>
  The registries of GTID parsers and the replication position: \<^verbatim>\<open>src/mysql/gtid.go\<close> and
  \<^verbatim>\<open>src/mysql/replication_position.go\<close>. Method calls on the interfaces \<^verbatim>\<open>GTID\<close> and \<^verbatim>\<open>GTIDSet\<close> are
  dispatched by the constructor. A \<^verbatim>\<open>Position\<close> is its GTID set; \<open>None\<close> is the zero position.
\<close>

subsection \<open>Dispatch on the flavor\<close>

definition mysql56FlavorID :: string where
  "mysql56FlavorID = ''MySQL56''"

definition mariadbFlavorID :: string where
  "mariadbFlavorID = ''MariaDB''"

fun GTID_Flavor :: "GTID \<Rightarrow> string" where
  "GTID_Flavor (Mysql56 g) = mysql56FlavorID"
| "GTID_Flavor (Mariadb g) = mariadbFlavorID"

fun GTID_String :: "GTID \<Rightarrow> string" where
  "GTID_String (Mysql56 g) = Mysql56GTID_String g"
| "GTID_String (Mariadb g) = MariadbGTID_String g"

fun GTID_GTIDSet :: "GTID \<Rightarrow> GTIDSet" where
  "GTID_GTIDSet (Mysql56 g) = Mysql56Set (Mysql56GTID_GTIDSet g)"
| "GTID_GTIDSet (Mariadb g) = MariadbSet (MariadbGTID_GTIDSet g)"

fun GTIDSet_Flavor :: "GTIDSet \<Rightarrow> string" where
  "GTIDSet_Flavor (Mysql56Set s) = mysql56FlavorID"
| "GTIDSet_Flavor (MariadbSet s) = mariadbFlavorID"

fun GTIDSet_String :: "GTIDSet \<Rightarrow> string" where
  "GTIDSet_String (Mysql56Set s) = Mysql56GTIDSet_String s"
| "GTIDSet_String (MariadbSet s) = MariadbGTIDSet_String s"

fun GTIDSet_ContainsGTID :: "GTIDSet \<Rightarrow> GTID option \<Rightarrow> bool" where
  "GTIDSet_ContainsGTID (Mysql56Set s) g = Mysql56GTIDSet_ContainsGTID s g"
| "GTIDSet_ContainsGTID (MariadbSet s) g = MariadbGTIDSet_ContainsGTID s g"

fun GTIDSet_Contains :: "GTIDSet \<Rightarrow> GTIDSet option \<Rightarrow> bool" where
  "GTIDSet_Contains (Mysql56Set s) t = Mysql56GTIDSet_Contains s t"
| "GTIDSet_Contains (MariadbSet s) t = MariadbGTIDSet_Contains s t"

fun GTIDSet_Equal :: "GTIDSet \<Rightarrow> GTIDSet option \<Rightarrow> bool" where
  "GTIDSet_Equal (Mysql56Set s) t = Mysql56GTIDSet_Equal s t"
| "GTIDSet_Equal (MariadbSet s) t = MariadbGTIDSet_Equal s t"

fun GTIDSet_AddGTID :: "GTIDSet \<Rightarrow> GTID option \<Rightarrow> GTIDSet" where
  "GTIDSet_AddGTID (Mysql56Set s) g = Mysql56Set (Mysql56GTIDSet_AddGTID s g)"
| "GTIDSet_AddGTID (MariadbSet s) g =
     MariadbSet (case g of Some (Mariadb m) \<Rightarrow> add_mariadb s m | _ \<Rightarrow> s)"

subsection \<open>GTIDs and their parsers\<close>

definition ParseGTID :: "string \<Rightarrow> string \<Rightarrow> gtid_error + GTID" where
  "ParseGTID flavor value =
     (if flavor = mysql56FlavorID then parseMysql56GTID value
      else if flavor = mariadbFlavorID then map_sum id Mariadb (parseMariadbGTID value)
      else Inl (UnknownFlavor flavor))"

definition MustParseGTID :: "string \<Rightarrow> string \<Rightarrow> GTID go" where
  "MustParseGTID flavor value = (case ParseGTID flavor value of Inl err \<Rightarrow> Panic | Inr gtid \<Rightarrow> Ret gtid)"

definition EncodeGTID :: "GTID option \<Rightarrow> string" where
  "EncodeGTID gtid =
     (case gtid of None \<Rightarrow> [] | Some g \<Rightarrow> GTID_Flavor g @ ''/'' @ GTID_String g)"

definition DecodeGTID :: "string \<Rightarrow> gtid_error + GTID option" where
  "DecodeGTID s =
     (if s = [] then Inr None
      else
        (let parts = split2 CHR ''/'' s in
         if length parts \<noteq> 2 then map_sum id Some (ParseGTID [] s)
         else map_sum id Some (ParseGTID (parts ! 0) (parts ! 1))))"

definition MustDecodeGTID :: "string \<Rightarrow> GTID option go" where
  "MustDecodeGTID s = (case DecodeGTID s of Inl err \<Rightarrow> Panic | Inr gtid \<Rightarrow> Ret gtid)"

subsection \<open>Positions\<close>

type_synonym Position = "GTIDSet option"

definition Position_Equal :: "Position \<Rightarrow> Position \<Rightarrow> bool" where
  "Position_Equal rp other =
     (case rp of None \<Rightarrow> other = None | Some set' \<Rightarrow> GTIDSet_Equal set' other)"

definition Position_AtLeast :: "Position \<Rightarrow> Position \<Rightarrow> bool" where
  "Position_AtLeast rp other =
     (case rp of None \<Rightarrow> other = None | Some set' \<Rightarrow> GTIDSet_Contains set' other)"

definition Position_String :: "Position \<Rightarrow> string" where
  "Position_String rp = (case rp of None \<Rightarrow> ''<nil>'' | Some set' \<Rightarrow> GTIDSet_String set')"

definition Position_IsZero :: "Position \<Rightarrow> bool" where
  "Position_IsZero rp \<longleftrightarrow> rp = None"

definition AppendGTID :: "Position \<Rightarrow> GTID option \<Rightarrow> Position" where
  "AppendGTID rp gtid =
     (case gtid of
        None \<Rightarrow> rp
      | Some g \<Rightarrow>
          (case rp of
             None \<Rightarrow> Some (GTID_GTIDSet g)
           | Some set' \<Rightarrow> Some (GTIDSet_AddGTID set' gtid)))"

definition ParsePosition :: "string \<Rightarrow> string \<Rightarrow> gtid_error + Position" where
  "ParsePosition flavor value =
     (if flavor = mysql56FlavorID then map_sum id Some (parseMysql56GTIDSet value)
      else if flavor = mariadbFlavorID then map_sum id Some (parseMariadbGTIDSet value)
      else Inl (UnknownFlavor flavor))"

definition MustParsePosition :: "string \<Rightarrow> string \<Rightarrow> Position go" where
  "MustParsePosition flavor value = (case ParsePosition flavor value of Inl err \<Rightarrow> Panic | Inr rp \<Rightarrow> Ret rp)"

definition EncodePosition :: "Position \<Rightarrow> string" where
  "EncodePosition rp =
     (case rp of None \<Rightarrow> [] | Some set' \<Rightarrow> GTIDSet_Flavor set' @ ''/'' @ GTIDSet_String set')"

definition DecodePosition :: "string \<Rightarrow> gtid_error + Position" where
  "DecodePosition s =
     (if s = [] then Inr None
      else
        (let parts = split2 CHR ''/'' s in
         if length parts \<noteq> 2 then ParsePosition [] s
         else ParsePosition (parts ! 0) (parts ! 1)))"

subsection \<open>Positions in normal form\<close>

fun set_ok :: "GTIDSet \<Rightarrow> bool" where
  "set_ok (Mysql56Set s) = set56_ok s"
| "set_ok (MariadbSet s) = (mdb_ok s \<and> s \<noteq> [])"

fun gtid_ok :: "GTID \<Rightarrow> bool" where
  "gtid_ok (Mysql56 g) = gtid56_ok g"
| "gtid_ok (Mariadb g) = True"

lemma flavors_simps [simp]:
  "mariadbFlavorID \<noteq> mysql56FlavorID" "CHR ''/'' \<notin> set mysql56FlavorID" "CHR ''/'' \<notin> set mariadbFlavorID"
  "mysql56FlavorID \<noteq> []" "mariadbFlavorID \<noteq> []"
  by (simp_all add: mysql56FlavorID_def mariadbFlavorID_def)

lemma add_mariadb_not_Nil [simp]: "add_mariadb s g \<noteq> []"
  by (cases s) auto

lemma GTID_GTIDSet_flavor [simp]: "GTIDSet_Flavor (GTID_GTIDSet g) = GTID_Flavor g"
  by (cases g) auto

lemma GTID_GTIDSet_ok: "gtid_ok g \<Longrightarrow> set_ok (GTID_GTIDSet g)"
  by (cases g) (auto simp: GTIDSet56 MariadbGTID_GTIDSet_def)

lemma AddGTID_flavor [simp]: "GTIDSet_Flavor (GTIDSet_AddGTID s g) = GTIDSet_Flavor s"
  by (cases s) auto

text \<open>A set and a GTID of one flavor are a pair of the one or of the other implementation.\<close>

lemma same_flavor:
  assumes "GTID_Flavor g = GTIDSet_Flavor s"
  obtains s' g' where "s = Mysql56Set s'" "g = Mysql56 g'" | s' g' where "s = MariadbSet s'" "g = Mariadb g'"
  using assms by (cases s; cases g) (auto simp: flavors_simps(1) flavors_simps(1) [symmetric])

lemma same_flavor_sets:
  assumes "GTIDSet_Flavor t = GTIDSet_Flavor s"
  obtains s' t' where "s = Mysql56Set s'" "t = Mysql56Set t'" | s' t' where "s = MariadbSet s'" "t = MariadbSet t'"
  using assms by (cases s; cases t) (auto simp: flavors_simps(1) flavors_simps(1) [symmetric])

lemma AddGTID_ok:
  "set_ok s \<Longrightarrow> gtid_ok g \<Longrightarrow> GTID_Flavor g = GTIDSet_Flavor s \<Longrightarrow> set_ok (GTIDSet_AddGTID s (Some g))"
  by (erule same_flavor) (auto simp: AddGTID56 add_mariadb_ok)

lemma AddGTID_contains:
  "set_ok s \<Longrightarrow> gtid_ok g \<Longrightarrow> GTID_Flavor g = GTIDSet_Flavor s \<Longrightarrow>
     GTIDSet_ContainsGTID (GTIDSet_AddGTID s (Some g)) (Some g) \<and>
     GTIDSet_Contains (GTIDSet_AddGTID s (Some g)) (Some s)"
  by (erule same_flavor)
    (simp_all add: set56.add_contains_gtid set56.add_extends mdb.add_contains_gtid mdb.add_extends)

lemma Contains_trans:
  assumes "set_ok s" "set_ok t" "set_ok u" "GTIDSet_Contains s (Some t)" "GTIDSet_Contains t (Some u)"
  shows "GTIDSet_Contains s (Some u)"
  using assms
  by (cases s; cases t; cases u)
    (auto simp: Contains56_iff Contains_mdb_iff Mysql56GTIDSet_Contains_def [of _ "Some (MariadbSet _)"]
      MariadbGTIDSet_Contains_def [of _ "Some (Mysql56Set _)"])

lemma Contains_refl: "set_ok s \<Longrightarrow> GTIDSet_Contains s (Some s)"
  by (cases s) (simp_all add: set56.contains_refl mdb.contains_refl)

definition replicate_gtids :: "Position \<Rightarrow> GTID list \<Rightarrow> Position" where
  "replicate_gtids rp gs = foldl (\<lambda>rp g. AppendGTID rp (Some g)) rp gs"

lemma replicate_Cons [simp]: "replicate_gtids rp (g # gs) = replicate_gtids (AppendGTID rp (Some g)) gs"
  by (simp add: replicate_gtids_def)

lemma replicate56:
  "replicate_gtids (Some (Mysql56Set s)) (map Mysql56 gs) =
     Some (Mysql56Set (foldl (\<lambda>s g. Mysql56GTIDSet_AddGTID s (Some (Mysql56 g))) s gs))"
  unfolding replicate_gtids_def by (induction gs arbitrary: s) (simp_all add: AppendGTID_def)

lemma replicate_mdb:
  "replicate_gtids (Some (MariadbSet s)) (map Mariadb gs) = Some (MariadbSet (foldl add_mariadb s gs))"
  unfolding replicate_gtids_def by (induction gs arbitrary: s) (simp_all add: AppendGTID_def)

text \<open>Positions and GTIDs of one flavor, in normal form.\<close>

definition position_ok :: "string \<Rightarrow> Position \<Rightarrow> bool" where
  "position_ok flavor rp = (case rp of None \<Rightarrow> True | Some s \<Rightarrow> set_ok s \<and> GTIDSet_Flavor s = flavor)"

definition gtids_ok :: "string \<Rightarrow> GTID list \<Rightarrow> bool" where
  "gtids_ok flavor gs = list_all (\<lambda>g. gtid_ok g \<and> GTID_Flavor g = flavor) gs"

lemma gtids_ok_cases:
  assumes "gtids_ok flavor gs" "flavor = mysql56FlavorID \<or> flavor = mariadbFlavorID"
  obtains gs' where "flavor = mysql56FlavorID" "gs = map Mysql56 gs'" "list_all gtid56_ok gs'"
    | gs' where "flavor = mariadbFlavorID" "gs = map Mariadb gs'"
proof -
  have "\<exists>gs'. gs = map Mysql56 gs' \<and> list_all gtid56_ok gs'" if "gtids_ok mysql56FlavorID gs" for gs
    using that
  proof (induction gs)
    case (Cons g gs)
    then obtain gs' g' where "gs = map Mysql56 gs'" "list_all gtid56_ok gs'" "g = Mysql56 g'" "gtid56_ok g'"
      by (cases g) (auto simp: gtids_ok_def)
    then show ?case by (intro exI [of _ "g' # gs'"]) simp
  qed simp
  moreover have "\<exists>gs'. gs = map Mariadb gs'" if "gtids_ok mariadbFlavorID gs" for gs
    using that
  proof (induction gs)
    case (Cons g gs)
    then obtain gs' g' where "gs = map Mariadb gs'" "g = Mariadb g'"
      by (cases g) (auto simp: gtids_ok_def flavors_simps(1) [symmetric])
    then show ?case by (intro exI [of _ "g' # gs'"]) simp
  qed simp
  ultimately show ?thesis using assms that by blast
qed

lemma position_ok_flavors:
  "position_ok mysql56FlavorID (Some s) \<longleftrightarrow> (\<exists>s'. s = Mysql56Set s' \<and> set56_ok s')"
  "position_ok mariadbFlavorID (Some s) \<longleftrightarrow> (\<exists>s'. s = MariadbSet s' \<and> mdb_ok s' \<and> s' \<noteq> [])"
  by (cases s; auto simp: position_ok_def flavors_simps(1) [symmetric])+

lemma set_map_subset: "inj f \<Longrightarrow> set (map f xs) \<subseteq> set (map f ys) \<longleftrightarrow> set xs \<subseteq> set ys"
  by (simp add: inj_image_subset_iff)

lemma inj_flavors: "inj Mysql56" "inj Mariadb"
  by (simp_all add: inj_def)

text \<open>The positions that replicas reach, one of which has applied all that the other one has.\<close>

lemma replicate_AtLeast_Some:
  assumes "position_ok flavor (Some s)" "position_ok flavor (Some t)" "flavor = mysql56FlavorID \<or> flavor = mariadbFlavorID"
    and "Position_AtLeast (Some s) (Some t)" "gtids_ok flavor gs" "gtids_ok flavor hs" "set hs \<subseteq> set gs"
  shows "Position_AtLeast (replicate_gtids (Some s) gs) (replicate_gtids (Some t) hs)"
  using assms(5,3)
proof (cases rule: gtids_ok_cases)
  case (1 gs')
  obtain hs' where hs: "hs = map Mysql56 hs'" using gtids_ok_cases [OF assms(6,3)] 1(1) by (metis flavors_simps(1))
  obtain s' t' where st: "s = Mysql56Set s'" "t = Mysql56Set t'" "set56_ok s'" "set56_ok t'"
    using assms(1,2) 1(1) by (auto simp: position_ok_flavors)
  have "set hs' \<subseteq> set gs'" using assms(7) unfolding hs 1(2) set_map_subset [OF inj_flavors(1)] .
  then show ?thesis
    using set56.replay_contains [OF st(3,4) _ 1(3)] assms(4) by (simp add: hs 1(2) st(1,2) replicate56 Position_AtLeast_def)
next
  case (2 gs')
  obtain hs' where hs: "hs = map Mariadb hs'" using gtids_ok_cases [OF assms(6,3)] 2(1) by (metis flavors_simps(1))
  obtain s' t' where st: "s = MariadbSet s'" "t = MariadbSet t'" "mdb_ok s'" "mdb_ok t'"
    using assms(1,2) 2(1) by (auto simp: position_ok_flavors)
  have "set hs' \<subseteq> set gs'" using assms(7) unfolding hs 2(2) set_map_subset [OF inj_flavors(2)] .
  then show ?thesis
    using mdb.replay_contains [OF st(3,4)] assms(4) by (simp add: hs 2(2) st(1,2) replicate_mdb Position_AtLeast_def list_all_iff)
qed

lemma replicate_AtLeast_None:
  assumes "flavor = mysql56FlavorID \<or> flavor = mariadbFlavorID" "gtids_ok flavor gs" "gtids_ok flavor hs" "set hs = set gs"
  shows "Position_AtLeast (replicate_gtids None gs) (replicate_gtids None hs)"
proof (cases gs)
  case Nil
  then show ?thesis using assms(4) by (simp add: replicate_gtids_def Position_AtLeast_def)
next
  case (Cons g gs1)
  then obtain h hs1 where hs: "hs = h # hs1" using assms(4) by (cases hs) auto
  show ?thesis using assms(2,1)
  proof (cases rule: gtids_ok_cases)
    case (1 gs')
    obtain hs' where hs': "hs = map Mysql56 hs'" using gtids_ok_cases [OF assms(3,1)] 1(1) by (metis flavors_simps(1))
    obtain g1 gr h1 hr where parts: "gs' = g1 # gr" "hs' = h1 # hr" using 1(2) hs' Cons hs by (cases gs'; cases hs') auto
    have "set hs' \<subseteq> set gs'" using assms(4) unfolding hs' 1(2) set_map_subset [OF inj_flavors(1), symmetric] by simp
    then show ?thesis using set56.replay_first_contains [of g1 gr h1 hr] 1(3)
      by (simp add: hs' 1(2) parts AppendGTID_def replicate56 Position_AtLeast_def)
  next
    case (2 gs')
    obtain hs' where hs': "hs = map Mariadb hs'" using gtids_ok_cases [OF assms(3,1)] 2(1) by (metis flavors_simps(1))
    obtain g1 gr h1 hr where parts: "gs' = g1 # gr" "hs' = h1 # hr" using 2(2) hs' Cons hs by (cases gs'; cases hs') auto
    have "set hs' \<subseteq> set gs'" using assms(4) unfolding hs' 2(2) set_map_subset [OF inj_flavors(2), symmetric] by simp
    then show ?thesis using mdb.replay_first_contains [of g1 gr h1 hr]
      by (simp add: hs' 2(2) parts AppendGTID_def replicate_mdb Position_AtLeast_def list_all_iff)
  qed
qed

lemma AtLeast_zero: "Position_AtLeast None rq \<longleftrightarrow> rq = None"
  by (auto simp: Position_AtLeast_def)

lemma replicate_AtLeast:
  assumes "position_ok flavor rp" "position_ok flavor rq" "flavor = mysql56FlavorID \<or> flavor = mariadbFlavorID"
    and "Position_AtLeast rp rq" "Position_AtLeast rq rp" "gtids_ok flavor gs" "set gs = set hs"
  shows "Position_AtLeast (replicate_gtids rp gs) (replicate_gtids rq hs)"
proof -
  have hs: "gtids_ok flavor hs" using assms(6,7) by (simp add: gtids_ok_def list_all_iff)
  show ?thesis
    using replicate_AtLeast_None [OF assms(3,6) hs] replicate_AtLeast_Some [OF _ _ assms(3) _ assms(6) hs] assms(1,2,4,5,7)
    by (cases rp; cases rq) (auto simp: AtLeast_zero)
qed

text \<open>For MySQL 5.6, positions that are at least each other are equal.\<close>

lemma replicate_flavor:
  assumes "position_ok flavor rp" "gtids_ok flavor gs"
  shows "position_ok flavor (replicate_gtids rp gs)"
  using assms
proof (induction gs arbitrary: rp)
  case (Cons g gs)
  have "position_ok flavor (AppendGTID rp (Some g))"
    using Cons.prems GTID_GTIDSet_ok [of g] AddGTID_ok [of _ g]
    by (cases rp) (auto simp: position_ok_def gtids_ok_def AppendGTID_def)
  then show ?case using Cons by (simp add: gtids_ok_def)
qed (simp add: replicate_gtids_def)

lemma AtLeast_Equal56:
  assumes "position_ok mysql56FlavorID rp" "position_ok mysql56FlavorID rq" "Position_AtLeast rp rq" "Position_AtLeast rq rp"
  shows "Position_Equal rp rq"
proof (cases rp; cases rq)
  fix s t assume st: "rp = Some s" "rq = Some t"
  then obtain s' t' where "s = Mysql56Set s'" "t = Mysql56Set t'" "set56_ok s'" "set56_ok t'"
    using assms(1,2) by (auto simp: position_ok_flavors)
  then show ?thesis using assms(3,4) st set56.equal_iff [of s' t'] by (simp add: Position_AtLeast_def Position_Equal_def)
qed (use assms in \<open>auto simp: AtLeast_zero Position_Equal_def\<close>)

subsection \<open>Round trips\<close>

lemma Mysql56GTID_String_parse:
  assumes "gtid56_ok g"
  shows "parseMysql56GTID (Mysql56GTID_String g) = Inr (Mysql56 g)"
proof -
  have "CHR '':'' \<notin> set (SID_String (Server56 g))" using SID_String_chars hex_chars_plain by blast
  moreover have "CHR '':'' \<notin> set (format_int (Sequence56 g))"
    using set_format_int [of "CHR '':''" "Sequence56 g"] by (auto simp: is_digit_def)
  ultimately have "split_on CHR '':'' (Mysql56GTID_String g) =
      [SID_String (Server56 g), format_int (Sequence56 g)]"
    by (simp add: Mysql56GTID_String_def split_on_append_sep split_on_no_sep)
  moreover have "parse_int 64 (format_int (Sequence56 g)) = Some (Sequence56 g)"
    using assms by (intro parse_int_format_int) (auto simp: gtid56_ok_def)
  ultimately show ?thesis
    using assms by (simp add: parseMysql56GTID_def ParseSID_String gtid56_ok_def)
qed

lemma DecodeGTID_EncodeGTID:
  assumes "\<And>g'. g = Some (Mysql56 g') \<Longrightarrow> gtid56_ok g'"
  shows "DecodeGTID (EncodeGTID g) = Inr g"
proof (cases g)
  case (Some g')
  with assms show ?thesis
    by (cases g') (simp_all add: EncodeGTID_def DecodeGTID_def ParseGTID_def Mysql56GTID_String_parse
        MariadbGTID_String_parse)
qed (simp add: EncodeGTID_def DecodeGTID_def)

fun same_position :: "Position \<Rightarrow> Position \<Rightarrow> bool" where
  "same_position (Some (Mysql56Set s)) (Some (Mysql56Set t)) = (map_of s = map_of t)"
| "same_position p q = (p = q)"

lemma DecodePosition_EncodePosition:
  assumes "\<And>s. rp = Some (Mysql56Set s) \<Longrightarrow> set56_ok s" "rp \<noteq> Some (MariadbSet [])"
  shows "\<exists>rp'. DecodePosition (EncodePosition rp) = Inr rp' \<and> same_position rp' rp"
proof (cases rp)
  case (Some s)
  with assms show ?thesis
    by (cases s) (simp_all add: EncodePosition_def DecodePosition_def ParsePosition_def String56_roundtrip
        String_mdb_roundtrip map_of_by_sid)
qed (simp add: EncodePosition_def DecodePosition_def)

lemma DecodePosition_empty_mdb: "\<exists>err. DecodePosition (EncodePosition (Some (MariadbSet []))) = Inl err"
  by (simp add: EncodePosition_def DecodePosition_def ParsePosition_def MariadbGTIDSet_String_def parseMariadbGTIDSet_def
      parseMariadbGTID_def split_on_no_sep)

subsection \<open>Properties\<close>

text \<open>
  Appending a GTID of the position's flavor moves it forward: the new position contains the
  GTID and is at least the old one, and \<^verbatim>\<open>AtLeast\<close> is a preorder on positions that are not zero.
\<close>

theorem AppendGTID_moves_forward:
  assumes "set_ok s" "set_ok t" "set_ok u" "gtid_ok g" "GTID_Flavor g = GTIDSet_Flavor s"
  shows "(\<exists>s'. AppendGTID (Some s) (Some g) = Some s' \<and> set_ok s' \<and> GTIDSet_ContainsGTID s' (Some g) \<and>
      Position_AtLeast (Some s') (Some s)) \<and>
    Position_AtLeast (Some s) (Some s) \<and>
    (Position_AtLeast (Some s) (Some t) \<longrightarrow> Position_AtLeast (Some t) (Some u) \<longrightarrow>
      Position_AtLeast (Some s) (Some u))"
  using AddGTID_ok [OF assms(1,4,5)] AddGTID_contains [OF assms(1,4,5)] Contains_refl [OF assms(1)]
    Contains_trans [OF assms(1-3)]
  by (simp add: AppendGTID_def Position_AtLeast_def)

theorem AppendGTID_moves_forward_witness:
  "\<exists>s'. AppendGTID (Some (MariadbSet [\<lparr>Domain = 1, Server = 2, Sequence = 3\<rparr>]))
      (Some (Mariadb \<lparr>Domain = 4, Server = 2, Sequence = 9\<rparr>)) = Some s' \<and>
    Position_AtLeast (Some s') (Some (MariadbSet [\<lparr>Domain = 1, Server = 2, Sequence = 3\<rparr>]))"
  using AppendGTID_moves_forward [of "MariadbSet [\<lparr>Domain = 1, Server = 2, Sequence = 3\<rparr>]"
      "MariadbSet [\<lparr>Domain = 1, Server = 2, Sequence = 3\<rparr>]" "MariadbSet [\<lparr>Domain = 1, Server = 2, Sequence = 3\<rparr>]"
      "Mariadb \<lparr>Domain = 4, Server = 2, Sequence = 9\<rparr>"]
  by auto

text \<open>
  C12. Two replicas with positions of the same flavor, in normal form and at least each other (or both zero), apply the same transactions
  of that flavor, each in an order of its own and with repetitions. Then their positions are at least each other again, and for MySQL
  5.6 they are \<^verbatim>\<open>Equal\<close>. (For MariaDB \<^verbatim>\<open>Equal\<close> also asks for the same order of the domains, which the replicas need not have.)
\<close>

theorem replicas_converge:
  assumes "flavor = mysql56FlavorID \<or> flavor = mariadbFlavorID"
    and "position_ok flavor rp" "position_ok flavor rq" "Position_AtLeast rp rq" "Position_AtLeast rq rp"
    and "gtids_ok flavor gs" "set gs = set hs"
  shows "Position_AtLeast (replicate_gtids rp gs) (replicate_gtids rq hs) \<and>
    Position_AtLeast (replicate_gtids rq hs) (replicate_gtids rp gs) \<and>
    (flavor = mysql56FlavorID \<longrightarrow> Position_Equal (replicate_gtids rp gs) (replicate_gtids rq hs))"
proof -
  have hs: "gtids_ok flavor hs" using assms(6,7) by (simp add: gtids_ok_def list_all_iff)
  note pq = replicate_AtLeast [OF assms(2,3,1,4-7)] and qp = replicate_AtLeast [OF assms(3,2,1,5,4) hs assms(7) [symmetric]]
  then show ?thesis
    using AtLeast_Equal56 replicate_flavor [OF assms(2,6)] replicate_flavor [OF assms(3) hs] by blast
qed

theorem replicas_converge_witness:
  "Position_Equal
    (replicate_gtids None [Mysql56 \<lparr>Server56 = replicate 16 1, Sequence56 = 2\<rparr>, Mysql56 \<lparr>Server56 = replicate 16 1, Sequence56 = 1\<rparr>])
    (replicate_gtids None [Mysql56 \<lparr>Server56 = replicate 16 1, Sequence56 = 1\<rparr>, Mysql56 \<lparr>Server56 = replicate 16 1, Sequence56 = 2\<rparr>,
      Mysql56 \<lparr>Server56 = replicate 16 1, Sequence56 = 1\<rparr>]) \<and>
   Position_AtLeast
    (replicate_gtids (Some (MariadbSet [\<lparr>Domain = 9, Server = 1, Sequence = 1\<rparr>]))
      [Mariadb \<lparr>Domain = 1, Server = 2, Sequence = 3\<rparr>, Mariadb \<lparr>Domain = 4, Server = 2, Sequence = 5\<rparr>])
    (replicate_gtids (Some (MariadbSet [\<lparr>Domain = 9, Server = 1, Sequence = 1\<rparr>]))
      [Mariadb \<lparr>Domain = 4, Server = 2, Sequence = 5\<rparr>, Mariadb \<lparr>Domain = 1, Server = 2, Sequence = 3\<rparr>])"
proof
  let ?a = "Mysql56 \<lparr>Server56 = replicate 16 1, Sequence56 = 1\<rparr>" and ?b = "Mysql56 \<lparr>Server56 = replicate 16 1, Sequence56 = 2\<rparr>"
  show "Position_Equal (replicate_gtids None [?b, ?a]) (replicate_gtids None [?a, ?b, ?a])"
    using replicas_converge [of mysql56FlavorID None None "[?b, ?a]" "[?a, ?b, ?a]"]
    by (auto simp: position_ok_def gtids_ok_def gtid56_ok_def AtLeast_zero)
  let ?p = "Some (MariadbSet [\<lparr>Domain = 9, Server = 1, Sequence = 1\<rparr>])"
  let ?c = "Mariadb \<lparr>Domain = 1, Server = 2, Sequence = 3\<rparr>" and ?d = "Mariadb \<lparr>Domain = 4, Server = 2, Sequence = 5\<rparr>"
  have "Position_AtLeast ?p ?p" by (simp add: Position_AtLeast_def mdb.contains_refl)
  then show "Position_AtLeast (replicate_gtids ?p [?c, ?d]) (replicate_gtids ?p [?d, ?c])"
    using replicas_converge [of mariadbFlavorID ?p ?p "[?c, ?d]" "[?d, ?c]"]
    by (auto simp: position_ok_flavors gtids_ok_def)
qed

text \<open>The two MariaDB replicas of the witness are at least each other, and not \<^verbatim>\<open>Equal\<close>.\<close>

lemma MariaDB_order_matters:
  "\<not> Position_Equal
    (replicate_gtids None [Mariadb \<lparr>Domain = 1, Server = 2, Sequence = 3\<rparr>, Mariadb \<lparr>Domain = 4, Server = 2, Sequence = 5\<rparr>])
    (replicate_gtids None [Mariadb \<lparr>Domain = 4, Server = 2, Sequence = 5\<rparr>, Mariadb \<lparr>Domain = 1, Server = 2, Sequence = 3\<rparr>])"
  by (simp add: replicate_gtids_def AppendGTID_def MariadbGTID_GTIDSet_def Position_Equal_def Equal_mdb_iff)

text \<open>
  C29. For every GTID (of MySQL 5.6: with a server id of 16 bytes and a number from 1 to 2^63 - 1), and for nil, \<^verbatim>\<open>DecodeGTID\<close> gives back
  what \<^verbatim>\<open>EncodeGTID\<close> was given. \<^verbatim>\<open>DecodePosition\<close> gives back the position that \<^verbatim>\<open>EncodePosition\<close> was given, for the zero position, for MySQL
  5.6 sets in normal form and for all MariaDB sets but the empty one, whose text is refused.
\<close>

theorem position_roundtrip:
  assumes "\<And>s. rp = Some (Mysql56Set s) \<Longrightarrow> set56_ok s" "\<And>g'. g = Some (Mysql56 g') \<Longrightarrow> gtid56_ok g'"
  shows "DecodeGTID (EncodeGTID g) = Inr g \<and>
    (if rp = Some (MariadbSet []) then \<exists>err. DecodePosition (EncodePosition rp) = Inl err
     else \<exists>rp'. DecodePosition (EncodePosition rp) = Inr rp' \<and> same_position rp' rp)"
  using DecodeGTID_EncodeGTID [of g] DecodePosition_EncodePosition [of rp] DecodePosition_empty_mdb assms
  by (auto split: option.splits)

theorem position_roundtrip_witness:
  "let g = \<lparr>Domain = 1, Server = 2, Sequence = 3\<rparr>; rp = Some (MariadbSet [g, \<lparr>Domain = 1, Server = 5, Sequence = 9\<rparr>]) in
   DecodeGTID (EncodeGTID (Some (Mariadb g))) = Inr (Some (Mariadb g)) \<and> DecodePosition (EncodePosition rp) = Inr rp"
  using position_roundtrip [of "Some (MariadbSet [\<lparr>Domain = 1, Server = 2, Sequence = 3\<rparr>, \<lparr>Domain = 1, Server = 5, Sequence = 9\<rparr>])"
      "Some (Mariadb \<lparr>Domain = 1, Server = 2, Sequence = 3\<rparr>)"]
  by auto

text \<open>
  The flavors disagree on the zero position: every MariaDB position is at least the zero position,
  but no MySQL 5.6 position is, not even the one that the first GTID makes of it.
\<close>

theorem AtLeast_zero_position:
  "Position_AtLeast (Some (MariadbSet s)) None \<and> \<not> Position_AtLeast (Some (Mysql56Set t)) None \<and>
   \<not> Position_AtLeast (AppendGTID None (Some (Mysql56 g))) None"
  by (simp add: Position_AtLeast_def AppendGTID_def MariadbGTIDSet_Contains_def Mysql56GTIDSet_Contains_def)

end
