(* ===== verification/Sql_Type.thy ===== *)
theory Sql_Type
  imports Prelude
begin

text \<open>
  The types of SQL values, \<^verbatim>\<open>src/sqltypes/type.go\<close>. A \<^verbatim>\<open>querypb.Type\<close> is a number whose bits above the
  low byte classify the type (\<^verbatim>\<open>querypb.Flag\<close>); the constants are those of
  \<^verbatim>\<open>src/vt/proto/query/query.pb.go\<close>. The maps between MySQL's type numbers and the types are
  association lists.
\<close>

subsection \<open>The types\<close>

type_synonym sql_type = int

abbreviation (input) T_Null :: sql_type where "T_Null \<equiv> 0"
abbreviation (input) T_Int8 :: sql_type where "T_Int8 \<equiv> 257"
abbreviation (input) T_Uint8 :: sql_type where "T_Uint8 \<equiv> 770"
abbreviation (input) T_Int16 :: sql_type where "T_Int16 \<equiv> 259"
abbreviation (input) T_Uint16 :: sql_type where "T_Uint16 \<equiv> 772"
abbreviation (input) T_Int24 :: sql_type where "T_Int24 \<equiv> 261"
abbreviation (input) T_Uint24 :: sql_type where "T_Uint24 \<equiv> 774"
abbreviation (input) T_Int32 :: sql_type where "T_Int32 \<equiv> 263"
abbreviation (input) T_Uint32 :: sql_type where "T_Uint32 \<equiv> 776"
abbreviation (input) T_Int64 :: sql_type where "T_Int64 \<equiv> 265"
abbreviation (input) T_Uint64 :: sql_type where "T_Uint64 \<equiv> 778"
abbreviation (input) T_Float32 :: sql_type where "T_Float32 \<equiv> 1035"
abbreviation (input) T_Float64 :: sql_type where "T_Float64 \<equiv> 1036"
abbreviation (input) T_Timestamp :: sql_type where "T_Timestamp \<equiv> 2061"
abbreviation (input) T_Date :: sql_type where "T_Date \<equiv> 2062"
abbreviation (input) T_Time :: sql_type where "T_Time \<equiv> 2063"
abbreviation (input) T_Datetime :: sql_type where "T_Datetime \<equiv> 2064"
abbreviation (input) T_Year :: sql_type where "T_Year \<equiv> 785"
abbreviation (input) T_Decimal :: sql_type where "T_Decimal \<equiv> 18"
abbreviation (input) T_Text :: sql_type where "T_Text \<equiv> 6163"
abbreviation (input) T_Blob :: sql_type where "T_Blob \<equiv> 10260"
abbreviation (input) T_VarChar :: sql_type where "T_VarChar \<equiv> 6165"
abbreviation (input) T_VarBinary :: sql_type where "T_VarBinary \<equiv> 10262"
abbreviation (input) T_Char :: sql_type where "T_Char \<equiv> 6167"
abbreviation (input) T_Binary :: sql_type where "T_Binary \<equiv> 10264"
abbreviation (input) T_Bit :: sql_type where "T_Bit \<equiv> 2073"
abbreviation (input) T_Enum :: sql_type where "T_Enum \<equiv> 2074"
abbreviation (input) T_Set :: sql_type where "T_Set \<equiv> 2075"
abbreviation (input) T_Tuple :: sql_type where "T_Tuple \<equiv> 28"
abbreviation (input) T_Geometry :: sql_type where "T_Geometry \<equiv> 2077"
abbreviation (input) T_JSON :: sql_type where "T_JSON \<equiv> 2078"
abbreviation (input) T_Expression :: sql_type where "T_Expression \<equiv> 31"

definition flagIsIntegral :: int where "flagIsIntegral = 256"
definition flagIsUnsigned :: int where "flagIsUnsigned = 512"
definition flagIsFloat :: int where "flagIsFloat = 1024"
definition flagIsQuoted :: int where "flagIsQuoted = 2048"
definition flagIsText :: int where "flagIsText = 4096"
definition flagIsBinary :: int where "flagIsBinary = 8192"

definition IsIntegral :: "sql_type \<Rightarrow> bool" where
  "IsIntegral t \<longleftrightarrow> t AND flagIsIntegral = flagIsIntegral"

definition IsSigned :: "sql_type \<Rightarrow> bool" where
  "IsSigned t \<longleftrightarrow> t AND (flagIsIntegral OR flagIsUnsigned) = flagIsIntegral"

definition IsUnsigned :: "sql_type \<Rightarrow> bool" where
  "IsUnsigned t \<longleftrightarrow> t AND (flagIsIntegral OR flagIsUnsigned) = (flagIsIntegral OR flagIsUnsigned)"

definition IsFloat :: "sql_type \<Rightarrow> bool" where
  "IsFloat t \<longleftrightarrow> t AND flagIsFloat = flagIsFloat"

definition IsQuoted :: "sql_type \<Rightarrow> bool" where
  "IsQuoted t \<longleftrightarrow> t AND flagIsQuoted = flagIsQuoted \<and> t \<noteq> T_Bit"

definition IsText :: "sql_type \<Rightarrow> bool" where
  "IsText t \<longleftrightarrow> t AND flagIsText = flagIsText"

definition IsBinary :: "sql_type \<Rightarrow> bool" where
  "IsBinary t \<longleftrightarrow> t AND flagIsBinary = flagIsBinary"

definition isNumber :: "sql_type \<Rightarrow> bool" where
  "isNumber t \<longleftrightarrow> IsIntegral t \<or> IsFloat t \<or> t = T_Decimal"

lemmas flag_defs = flagIsIntegral_def flagIsUnsigned_def flagIsFloat_def flagIsQuoted_def
  flagIsText_def flagIsBinary_def

lemmas type_tests = IsIntegral_def IsSigned_def IsUnsigned_def IsFloat_def IsQuoted_def IsText_def
  IsBinary_def isNumber_def flag_defs

subsection \<open>MySQL's type numbers\<close>

definition mysqlUnsigned :: int where "mysqlUnsigned = 32"
definition mysqlBinary :: int where "mysqlBinary = 128"
definition mysqlEnum :: int where "mysqlEnum = 256"
definition mysqlSet :: int where "mysqlSet = 2048"

lemmas mysql_flag_defs = mysqlUnsigned_def mysqlBinary_def mysqlEnum_def mysqlSet_def

definition mysqlToType :: "(int \<times> sql_type) list" where
  "mysqlToType =
     [(1, T_Int8), (2, T_Int16), (3, T_Int32), (4, T_Float32), (5, T_Float64), (6, T_Null),
      (7, T_Timestamp), (8, T_Int64), (9, T_Int24), (10, T_Date), (11, T_Time), (12, T_Datetime),
      (13, T_Year), (16, T_Bit), (245, T_JSON), (246, T_Decimal), (249, T_Text), (250, T_Text),
      (251, T_Text), (252, T_Text), (253, T_VarChar), (254, T_Char), (255, T_Geometry)]"

definition modifyType :: "sql_type \<Rightarrow> int \<Rightarrow> sql_type" where
  "modifyType typ flags =
     (if typ = T_Int8 then (if flags AND mysqlUnsigned \<noteq> 0 then T_Uint8 else T_Int8)
      else if typ = T_Int16 then (if flags AND mysqlUnsigned \<noteq> 0 then T_Uint16 else T_Int16)
      else if typ = T_Int32 then (if flags AND mysqlUnsigned \<noteq> 0 then T_Uint32 else T_Int32)
      else if typ = T_Int64 then (if flags AND mysqlUnsigned \<noteq> 0 then T_Uint64 else T_Int64)
      else if typ = T_Int24 then (if flags AND mysqlUnsigned \<noteq> 0 then T_Uint24 else T_Int24)
      else if typ = T_Text then (if flags AND mysqlBinary \<noteq> 0 then T_Blob else T_Text)
      else if typ = T_VarChar then (if flags AND mysqlBinary \<noteq> 0 then T_VarBinary else T_VarChar)
      else if typ = T_Char then
        (if flags AND mysqlBinary \<noteq> 0 then T_Binary
         else if flags AND mysqlEnum \<noteq> 0 then T_Enum
         else if flags AND mysqlSet \<noteq> 0 then T_Set
         else T_Char)
      else typ)"

definition MySQLToType :: "int \<Rightarrow> int \<Rightarrow> int + sql_type" where
  "MySQLToType mysqlType flags =
     (case map_of mysqlToType mysqlType of
        None \<Rightarrow> Inl mysqlType
      | Some result \<Rightarrow> Inr (modifyType result flags))"

definition typeToMySQL :: "(sql_type \<times> int \<times> int) list" where
  "typeToMySQL =
     [(T_Int8, 1, 0), (T_Uint8, 1, mysqlUnsigned), (T_Int16, 2, 0), (T_Uint16, 2, mysqlUnsigned),
      (T_Int32, 3, 0), (T_Uint32, 3, mysqlUnsigned), (T_Float32, 4, 0), (T_Float64, 5, 0),
      (T_Null, 6, mysqlBinary), (T_Timestamp, 7, 0), (T_Int64, 8, 0), (T_Uint64, 8, mysqlUnsigned),
      (T_Int24, 9, 0), (T_Uint24, 9, mysqlUnsigned), (T_Date, 10, mysqlBinary),
      (T_Time, 11, mysqlBinary), (T_Datetime, 12, mysqlBinary), (T_Year, 13, mysqlUnsigned),
      (T_Bit, 16, mysqlUnsigned), (T_JSON, 245, 0), (T_Decimal, 246, 0), (T_Text, 252, 0),
      (T_Blob, 252, mysqlBinary), (T_VarChar, 253, 0), (T_VarBinary, 253, mysqlBinary),
      (T_Char, 254, 0), (T_Binary, 254, mysqlBinary), (T_Enum, 254, mysqlEnum),
      (T_Set, 254, mysqlSet), (T_Geometry, 255, 0)]"

text \<open>A type that is not in the map gives the zero value of the pair.\<close>

definition TypeToMySQL :: "sql_type \<Rightarrow> int \<times> int" where
  "TypeToMySQL typ = (case map_of typeToMySQL typ of None \<Rightarrow> (0, 0) | Some v \<Rightarrow> v)"

subsection \<open>The classification\<close>

definition value_types :: "sql_type list" where
  "value_types =
     [T_Null, T_Int8, T_Uint8, T_Int16, T_Uint16, T_Int24, T_Uint24, T_Int32, T_Uint32, T_Int64,
      T_Uint64, T_Float32, T_Float64, T_Timestamp, T_Date, T_Time, T_Datetime, T_Year, T_Decimal,
      T_Text, T_Blob, T_VarChar, T_VarBinary, T_Char, T_Binary, T_Bit, T_Enum, T_Set, T_Geometry,
      T_JSON, T_Expression]"

definition categories :: "sql_type \<Rightarrow> bool list" where
  "categories t =
     [IsSigned t, IsUnsigned t, IsFloat t, IsQuoted t, t = T_Null, t = T_Decimal, t = T_Expression,
      t = T_Bit]"

subsection \<open>Properties\<close>

text \<open>
  C30. The classification of the types is what the comment on the constants says: the tests
  \<^verbatim>\<open>IsSigned\<close>, \<^verbatim>\<open>IsUnsigned\<close>, \<^verbatim>\<open>IsFloat\<close>, \<^verbatim>\<open>IsQuoted\<close> and the types Null, Decimal, Expression and Bit are
  exclusive and cover every type; \<^verbatim>\<open>IsIntegral\<close> is \<^verbatim>\<open>IsSigned\<close> or \<^verbatim>\<open>IsUnsigned\<close>; binary and text types
  are quoted. Every type other than Expression survives the way to MySQL's type and flags and back.
\<close>

theorem sql_types_classified:
  "list_all (\<lambda>t. length (filter id (categories t)) = 1 \<and>
      (IsIntegral t \<longleftrightarrow> IsSigned t \<or> IsUnsigned t) \<and> (IsBinary t \<or> IsText t \<longrightarrow> IsQuoted t) \<and>
      (t \<noteq> T_Expression \<longrightarrow> (case TypeToMySQL t of (typ, flags) \<Rightarrow> MySQLToType typ flags = Inr t)))
    value_types"
  by (simp add: value_types_def categories_def type_tests TypeToMySQL_def typeToMySQL_def MySQLToType_def
      mysqlToType_def modifyType_def mysql_flag_defs)

theorem sql_types_classified_witness:
  "IsQuoted T_Blob \<and> (case TypeToMySQL T_Blob of (typ, flags) \<Rightarrow> MySQLToType typ flags = Inr T_Blob)"
  using sql_types_classified [unfolded list_all_iff, THEN bspec, of T_Blob]
  by (simp add: value_types_def IsBinary_def flag_defs)

end
