(* ===== verification/Sql_Value.thy ===== *)
theory Sql_Value
  imports Sql_Type Go_Strings
begin

text \<open>
  SQL values and bind variables: \<^verbatim>\<open>src/sqltypes/value.go\<close> and the conversions of
  \<^verbatim>\<open>src/sqltypes/bind_variables.go\<close>. The bytes of a value are a \<open>string\<close> (characters are bytes); a nil
  slice is the empty one. Floating point numbers are a parameter: the type \<open>'f\<close> with the operations
  \<open>'f float_ops\<close> that the code uses.
\<close>

subsection \<open>Floating point numbers\<close>

record 'f float_ops =
  f_of_int :: "int \<Rightarrow> 'f"
  f_add :: "'f \<Rightarrow> 'f \<Rightarrow> 'f"
  f_eq :: "'f \<Rightarrow> 'f \<Rightarrow> bool"
  f_less :: "'f \<Rightarrow> 'f \<Rightarrow> bool"
  f_parse :: "string \<Rightarrow> 'f option"
  f_format :: "char \<Rightarrow> 'f \<Rightarrow> string"

subsection \<open>Values\<close>

record Value =
  vtyp :: sql_type
  vval :: string

datatype value_error =
    ParseError string
  | InvalidTypeForValue sql_type
  | TupleToValue
  | NilBindVariable
  | EmptyTuple
  | NestedTuple
  | NotComparable sql_type sql_type
  | ExpressionCast sql_type
  | NegativeToUnsigned int
  | OverflowsInt64 uint64
  | NegativePlusUnsigned uint64 int
  | UnexpectedConversion sql_type
  | ConversionToNonNumeric sql_type

definition NULL_value :: Value where
  "NULL_value = \<lparr>vtyp = T_Null, vval = []\<rparr>"

definition MakeTrusted :: "sql_type \<Rightarrow> string \<Rightarrow> Value" where
  "MakeTrusted t v = (if t = T_Null then NULL_value else \<lparr>vtyp = t, vval = v\<rparr>)"

definition NewValue :: "'f float_ops \<Rightarrow> sql_type \<Rightarrow> string \<Rightarrow> value_error + Value" where
  "NewValue F t v =
     (if IsSigned t then
        (case parse_int0 64 v of None \<Rightarrow> Inl (ParseError v) | Some _ \<Rightarrow> Inr (MakeTrusted t v))
      else if IsUnsigned t then
        (case parse_uint0 64 v of None \<Rightarrow> Inl (ParseError v) | Some _ \<Rightarrow> Inr (MakeTrusted t v))
      else if IsFloat t \<or> t = T_Decimal then
        (case f_parse F v of None \<Rightarrow> Inl (ParseError v) | Some _ \<Rightarrow> Inr (MakeTrusted t v))
      else if IsQuoted t \<or> t = T_Bit \<or> t = T_Null then Inr (MakeTrusted t v)
      else Inl (InvalidTypeForValue t))"

definition NewInt64 :: "int \<Rightarrow> Value" where
  "NewInt64 v = MakeTrusted T_Int64 (format_int v)"

definition NewInt8 :: "int \<Rightarrow> Value" where
  "NewInt8 v = MakeTrusted T_Int8 (format_int v)"

definition NewInt32 :: "int \<Rightarrow> Value" where
  "NewInt32 v = MakeTrusted T_Int32 (format_int v)"

definition NewUint64 :: "uint64 \<Rightarrow> Value" where
  "NewUint64 v = MakeTrusted T_Uint64 (format_nat (unat v))"

definition NewUint32 :: "uint32 \<Rightarrow> Value" where
  "NewUint32 v = MakeTrusted T_Uint32 (format_nat (unat v))"

definition NewFloat64 :: "'f float_ops \<Rightarrow> 'f \<Rightarrow> Value" where
  "NewFloat64 F v = MakeTrusted T_Float64 (f_format F CHR ''g'' v)"

definition NewVarChar :: "string \<Rightarrow> Value" where
  "NewVarChar v = MakeTrusted T_VarChar v"

definition NewVarBinary :: "string \<Rightarrow> Value" where
  "NewVarBinary v = MakeTrusted T_VarBinary v"

definition NewIntegral :: "string \<Rightarrow> value_error + Value" where
  "NewIntegral v =
     (case parse_int0 64 v of
        Some i \<Rightarrow> Inr (MakeTrusted T_Int64 (format_int i))
      | None \<Rightarrow>
          (case parse_uint0 64 v of
             None \<Rightarrow> Inl (ParseError v)
           | Some u \<Rightarrow> Inr (MakeTrusted T_Uint64 (format_nat u))))"

definition Value_ToBytes :: "Value \<Rightarrow> string" where
  "Value_ToBytes v = (if vtyp v = T_Expression then [] else vval v)"

definition Value_ToString :: "Value \<Rightarrow> string" where
  "Value_ToString v = (if vtyp v = T_Expression then [] else vval v)"

definition Value_IsNull :: "Value \<Rightarrow> bool" where
  "Value_IsNull v \<longleftrightarrow> vtyp v = T_Null"

subsection \<open>Values in SQL text\<close>

definition encodeRef :: "(char \<times> char) list" where
  "encodeRef =
     [(char_of (0 :: nat), CHR ''0''), (CHR 0x27, CHR 0x27), (CHR 0x22, CHR 0x22),
      (char_of (8 :: nat), CHR ''b''), (char_of (10 :: nat), CHR ''n''), (char_of (13 :: nat), CHR ''r''),
      (char_of (9 :: nat), CHR ''t''), (char_of (26 :: nat), CHR ''Z''), (CHR 0x5C, CHR 0x5C)]"

text \<open>The arrays \<^verbatim>\<open>SQLEncodeMap\<close> and \<^verbatim>\<open>SQLDecodeMap\<close>; \<open>None\<close> is \<^verbatim>\<open>DontEscape\<close>.\<close>

definition SQLEncodeMap :: "char \<Rightarrow> char option" where
  "SQLEncodeMap c = map_of encodeRef c"

definition SQLDecodeMap :: "char \<Rightarrow> char option" where
  "SQLDecodeMap c = map_of (map (\<lambda>(a, b). (b, a)) encodeRef) c"

definition encode_char :: "char \<Rightarrow> string" where
  "encode_char ch = (case SQLEncodeMap ch of None \<Rightarrow> [ch] | Some e \<Rightarrow> [CHR 0x5C, e])"

definition encodeBytesSQL :: "string \<Rightarrow> string" where
  "encodeBytesSQL v = [CHR 0x27] @ concat (map encode_char v) @ [CHR 0x27]"

definition byte_bits :: "char \<Rightarrow> string" where
  "byte_bits ch = map (\<lambda>i. if bit (of_char ch :: nat) i then CHR ''1'' else CHR ''0'') (rev [0..<8])"

definition encodeBytesSQLBits :: "string \<Rightarrow> string" where
  "encodeBytesSQLBits v = CHR ''b'' # CHR 0x27 # concat (map byte_bits v) @ [CHR 0x27]"

definition EncodeSQL :: "Value \<Rightarrow> string" where
  "EncodeSQL v =
     (if vtyp v = T_Null then ''null''
      else if IsQuoted (vtyp v) then encodeBytesSQL (vval v)
      else if vtyp v = T_Bit then encodeBytesSQLBits (vval v)
      else vval v)"

subsection \<open>Bind variables\<close>

text \<open>A bind variable: type and bytes, and the values of a tuple.\<close>

record BindVariable =
  bv_Type :: sql_type
  bv_Value :: string
  bv_Values :: "Value list"

definition ValueBindVariable :: "Value \<Rightarrow> BindVariable" where
  "ValueBindVariable v = \<lparr>bv_Type = vtyp v, bv_Value = vval v, bv_Values = []\<rparr>"

definition BindVariableToValue :: "BindVariable \<Rightarrow> value_error + Value" where
  "BindVariableToValue bv =
     (if bv_Type bv = T_Tuple then Inl TupleToValue else Inr (MakeTrusted (bv_Type bv) (bv_Value bv)))"

fun validate_values :: "'f float_ops \<Rightarrow> Value list \<Rightarrow> value_error option" where
  "validate_values F [] = None"
| "validate_values F (v # vs) =
     (if vtyp v = T_Tuple then Some NestedTuple
      else
        (case NewValue F (vtyp v) (vval v) of
           Inl err \<Rightarrow> Some err
         | Inr _ \<Rightarrow> validate_values F vs))"

definition ValidateBindVariable :: "'f float_ops \<Rightarrow> BindVariable option \<Rightarrow> value_error option" where
  "ValidateBindVariable F bv =
     (case bv of
        None \<Rightarrow> Some NilBindVariable
      | Some b \<Rightarrow>
          if bv_Type b = T_Tuple then
            (if length (bv_Values b) = 0 then Some EmptyTuple else validate_values F (bv_Values b))
          else
            (case NewValue F (bv_Type b) (bv_Value b) of Inl err \<Rightarrow> Some err | Inr _ \<Rightarrow> None))"

subsection \<open>Escapes\<close>

lemma SQLDecodeMap_Encode: "SQLEncodeMap c = Some e \<Longrightarrow> SQLDecodeMap e = Some c"
  by (auto simp: SQLEncodeMap_def SQLDecodeMap_def encodeRef_def split: if_splits)

lemma SQLEncodeMap_None: "SQLEncodeMap c = None \<Longrightarrow> c \<noteq> CHR 0x27 \<and> c \<noteq> CHR 0x5C \<and> c \<noteq> CHR 0x22"
  by (auto simp: SQLEncodeMap_def encodeRef_def split: if_splits)

lemma MakeTrusted_sel [simp]:
  "vtyp (MakeTrusted t v) = t" "t \<noteq> T_Null \<Longrightarrow> vval (MakeTrusted t v) = v"
  by (simp_all add: MakeTrusted_def NULL_value_def)

end
