(* ===== verification/Sql_Arithmetic.thy ===== *)
theory Sql_Arithmetic
  imports Sql_Value
begin

text \<open>
  Arithmetic and comparison of SQL values, \<^verbatim>\<open>src/sqltypes/arithmetic.go\<close>, which vtgate uses to merge
  and aggregate the rows of several shards. The struct \<^verbatim>\<open>numeric\<close> is a tagged union: \<open>numeric\<close> has
  one constructor per tag, so the \<^verbatim>\<open>panic("unreachable")\<close> of the switches has no counterpart.

  \<open>num_val\<close> is the number a \<open>numeric\<close> stands for. On integers the comparison is exact for every mix
  of signed and unsigned operands, and the sum is exact or becomes a floating point number, with the
  one exception of twice the smallest integer.
\<close>

subsection \<open>Numbers\<close>

datatype 'f numeric = NInt int | NUint uint64 | NFloat 'f

definition newNumeric :: "'f float_ops \<Rightarrow> Value \<Rightarrow> value_error + 'f numeric" where
  "newNumeric F v =
     (let str = Value_ToString v in
      if IsSigned (vtyp v) then
        (case parse_int 64 str of None \<Rightarrow> Inl (ParseError str) | Some i \<Rightarrow> Inr (NInt i))
      else if IsUnsigned (vtyp v) then
        (case parse_uint 64 str of None \<Rightarrow> Inl (ParseError str) | Some u \<Rightarrow> Inr (NUint (of_nat u)))
      else if IsFloat (vtyp v) then
        (case f_parse F str of None \<Rightarrow> Inl (ParseError str) | Some f \<Rightarrow> Inr (NFloat f))
      else
        (case parse_int 64 str of
           Some i \<Rightarrow> Inr (NInt i)
         | None \<Rightarrow>
             (case f_parse F str of
                Some f \<Rightarrow> Inr (NFloat f)
              | None \<Rightarrow> Inl (ParseError str))))"

definition newIntegralNumeric :: "Value \<Rightarrow> value_error + 'f numeric" where
  "newIntegralNumeric v =
     (let str = Value_ToString v in
      if IsSigned (vtyp v) then
        (case parse_int 64 str of None \<Rightarrow> Inl (ParseError str) | Some i \<Rightarrow> Inr (NInt i))
      else if IsUnsigned (vtyp v) then
        (case parse_uint 64 str of None \<Rightarrow> Inl (ParseError str) | Some u \<Rightarrow> Inr (NUint (of_nat u)))
      else
        (case parse_int 64 str of
           Some i \<Rightarrow> Inr (NInt i)
         | None \<Rightarrow>
             (case parse_uint 64 str of
                Some u \<Rightarrow> Inr (NUint (of_nat u))
              | None \<Rightarrow> Inl (ParseError str))))"

subsection \<open>Addition\<close>

definition prioritize :: "'f numeric \<Rightarrow> 'f numeric \<Rightarrow> 'f numeric \<times> 'f numeric" where
  "prioritize v1 v2 =
     (case v1 of
        NInt _ \<Rightarrow> (case v2 of NInt _ \<Rightarrow> (v1, v2) | _ \<Rightarrow> (v2, v1))
      | NUint _ \<Rightarrow> (case v2 of NFloat _ \<Rightarrow> (v2, v1) | _ \<Rightarrow> (v1, v2))
      | NFloat _ \<Rightarrow> (v1, v2))"

definition intPlusInt :: "'f float_ops \<Rightarrow> int \<Rightarrow> int \<Rightarrow> 'f numeric" where
  "intPlusInt F v1 v2 =
     (let result = int64 (v1 + v2) in
      if (v1 > 0 \<and> v2 > 0 \<and> result < 0) \<or> (v1 < 0 \<and> v2 < 0 \<and> result > 0)
      then NFloat (f_add F (f_of_int F v1) (f_of_int F v2))
      else NInt result)"

definition uintPlusUint :: "'f float_ops \<Rightarrow> uint64 \<Rightarrow> uint64 \<Rightarrow> 'f numeric" where
  "uintPlusUint F v1 v2 =
     (let result = v1 + v2 in
      if result < v2 then NFloat (f_add F (f_of_int F (uint v1)) (f_of_int F (uint v2)))
      else NUint result)"

definition uintPlusInt :: "'f float_ops \<Rightarrow> uint64 \<Rightarrow> int \<Rightarrow> value_error + 'f numeric" where
  "uintPlusInt F v1 v2 =
     (if v2 < 0 then Inl (NegativePlusUnsigned v1 v2) else Inr (uintPlusUint F v1 (word_of_int v2)))"

fun to_float :: "'f float_ops \<Rightarrow> 'f numeric \<Rightarrow> 'f" where
  "to_float F (NInt i) = f_of_int F i"
| "to_float F (NUint u) = f_of_int F (uint u)"
| "to_float F (NFloat f) = f"

definition floatPlusAny :: "'f float_ops \<Rightarrow> 'f \<Rightarrow> 'f numeric \<Rightarrow> 'f numeric" where
  "floatPlusAny F v1 v2 = NFloat (f_add F v1 (to_float F v2))"

text \<open>
  After \<^verbatim>\<open>prioritize\<close> the first operand has the higher type; the cases in which it has not are the
  unreachable ones.
\<close>

definition addNumeric :: "'f float_ops \<Rightarrow> 'f numeric \<Rightarrow> 'f numeric \<Rightarrow> (value_error + 'f numeric) go" where
  "addNumeric F x y =
     (case prioritize x y of (v1, v2) \<Rightarrow>
        (case v1 of
           NInt i \<Rightarrow> (case v2 of NInt j \<Rightarrow> Ret (Inr (intPlusInt F i j)) | _ \<Rightarrow> Panic)
         | NUint u \<Rightarrow>
             (case v2 of
                NInt j \<Rightarrow> Ret (uintPlusInt F u j)
              | NUint w \<Rightarrow> Ret (Inr (uintPlusUint F u w))
              | NFloat _ \<Rightarrow> Panic)
         | NFloat f \<Rightarrow> Ret (Inr (floatPlusAny F f v2))))"

definition castFromNumeric :: "'f float_ops \<Rightarrow> 'f numeric \<Rightarrow> sql_type \<Rightarrow> value_error + Value" where
  "castFromNumeric F v resultType =
     (if IsSigned resultType then
        (case v of
           NInt i \<Rightarrow> Inr (MakeTrusted resultType (format_int i))
         | _ \<Rightarrow> Inl (UnexpectedConversion resultType))
      else if IsUnsigned resultType then
        (case v of
           NUint u \<Rightarrow> Inr (MakeTrusted resultType (format_nat (unat u)))
         | _ \<Rightarrow> Inl (UnexpectedConversion resultType))
      else if IsFloat resultType \<or> resultType = T_Decimal then
        (case v of
           NInt i \<Rightarrow> Inr (MakeTrusted resultType (format_int i))
         | NUint u \<Rightarrow> Inr (MakeTrusted resultType (format_nat (unat u)))
         | NFloat f \<Rightarrow>
             Inr (MakeTrusted resultType
               (f_format F (if resultType = T_Decimal then CHR ''f'' else CHR ''g'') f)))
      else Inl (ConversionToNonNumeric resultType))"

definition NullsafeAdd ::
  "'f float_ops \<Rightarrow> Value \<Rightarrow> Value \<Rightarrow> sql_type \<Rightarrow> (value_error + Value) go" where
  "NullsafeAdd F v1 v2 resultType =
     (if Value_IsNull v1 then Ret (Inr v2)
      else if Value_IsNull v2 then Ret (Inr v1)
      else
        (case newNumeric F v1 of
           Inl err \<Rightarrow> Ret (Inl err)
         | Inr lv1 \<Rightarrow>
             (case newNumeric F v2 of
                Inl err \<Rightarrow> Ret (Inl err)
              | Inr lv2 \<Rightarrow>
                  go_bind (addNumeric F lv1 lv2) (\<lambda>r.
                    case r of
                      Inl err \<Rightarrow> Ret (Inl err)
                    | Inr lresult \<Rightarrow> Ret (castFromNumeric F lresult resultType)))))"

subsection \<open>Comparison\<close>

definition order_of :: "bool \<Rightarrow> bool \<Rightarrow> int" where
  "order_of eq lt = (if eq then 0 else if lt then - 1 else 1)"

definition compareNumeric :: "'f float_ops \<Rightarrow> 'f numeric \<Rightarrow> 'f numeric \<Rightarrow> int" where
  "compareNumeric F v1 v2 =
     (case (v1, v2) of
        (NInt i, NInt j) \<Rightarrow> order_of (i = j) (i < j)
      | (NInt i, NUint w) \<Rightarrow>
          if i < 0 then - 1
          else (let u = word_of_int i in order_of (u = w) (u < w))
      | (NInt i, NFloat g) \<Rightarrow> order_of (f_eq F (f_of_int F i) g) (f_less F (f_of_int F i) g)
      | (NUint u, NInt j) \<Rightarrow>
          if j < 0 then 1
          else (let w = word_of_int j in order_of (u = w) (u < w))
      | (NUint u, NUint w) \<Rightarrow> order_of (u = w) (u < w)
      | (NUint u, NFloat g) \<Rightarrow> order_of (f_eq F (f_of_int F (uint u)) g) (f_less F (f_of_int F (uint u)) g)
      | (NFloat f, _) \<Rightarrow> order_of (f_eq F f (to_float F v2)) (f_less F f (to_float F v2)))"

definition isByteComparable :: "Value \<Rightarrow> bool" where
  "isByteComparable v \<longleftrightarrow>
     IsBinary (vtyp v) \<or> vtyp v \<in> {T_Timestamp, T_Date, T_Time, T_Datetime}"

definition compare_strings :: "string \<Rightarrow> string \<Rightarrow> int" where
  "compare_strings a b = order_of (a = b) (a < b)"

definition NullsafeCompare :: "'f float_ops \<Rightarrow> Value \<Rightarrow> Value \<Rightarrow> value_error + int" where
  "NullsafeCompare F v1 v2 =
     (if Value_IsNull v1 then (if Value_IsNull v2 then Inr 0 else Inr (- 1))
      else if Value_IsNull v2 then Inr 1
      else if isNumber (vtyp v1) \<or> isNumber (vtyp v2) then
        (case newNumeric F v1 of
           Inl err \<Rightarrow> Inl err
         | Inr lv1 \<Rightarrow>
             (case newNumeric F v2 of
                Inl err \<Rightarrow> Inl err
              | Inr lv2 \<Rightarrow> Inr (compareNumeric F lv1 lv2)))
      else if isByteComparable v1 \<and> isByteComparable v2 then
        Inr (compare_strings (Value_ToBytes v1) (Value_ToBytes v2))
      else Inl (NotComparable (vtyp v1) (vtyp v2)))"

definition minmax :: "'f float_ops \<Rightarrow> Value \<Rightarrow> Value \<Rightarrow> bool \<Rightarrow> value_error + Value" where
  "minmax F v1 v2 is_min =
     (if Value_IsNull v1 then Inr v2
      else if Value_IsNull v2 then Inr v1
      else
        (case NullsafeCompare F v1 v2 of
           Inl err \<Rightarrow> Inl err
         | Inr n \<Rightarrow> if is_min = (n < 0) then Inr v1 else Inr v2))"

definition Min_value :: "'f float_ops \<Rightarrow> Value \<Rightarrow> Value \<Rightarrow> value_error + Value" where
  "Min_value F v1 v2 = minmax F v1 v2 True"

definition Max_value :: "'f float_ops \<Rightarrow> Value \<Rightarrow> Value \<Rightarrow> value_error + Value" where
  "Max_value F v1 v2 = minmax F v1 v2 False"

subsection \<open>Conversions\<close>

definition Cast :: "'f float_ops \<Rightarrow> Value \<Rightarrow> sql_type \<Rightarrow> value_error + Value" where
  "Cast F v t =
     (if vtyp v = t \<or> Value_IsNull v then Inr v
      else if IsSigned t \<and> IsSigned (vtyp v) then Inr (MakeTrusted t (Value_ToBytes v))
      else if IsUnsigned t \<and> IsUnsigned (vtyp v) then Inr (MakeTrusted t (Value_ToBytes v))
      else if (IsFloat t \<or> t = T_Decimal) \<and>
          (IsIntegral (vtyp v) \<or> IsFloat (vtyp v) \<or> vtyp v = T_Decimal)
        then Inr (MakeTrusted t (Value_ToBytes v))
      else if IsQuoted t \<and>
          (IsIntegral (vtyp v) \<or> IsFloat (vtyp v) \<or> vtyp v = T_Decimal \<or> IsQuoted (vtyp v))
        then Inr (MakeTrusted t (Value_ToBytes v))
      else if vtyp v = T_Expression then Inl (ExpressionCast t)
      else NewValue F t (Value_ToBytes v))"

definition ToUint64 :: "Value \<Rightarrow> (value_error + uint64) go" where
  "ToUint64 v =
     (case newIntegralNumeric v :: value_error + unit numeric of
        Inl err \<Rightarrow> Ret (Inl err)
      | Inr (NInt i) \<Rightarrow> if i < 0 then Ret (Inl (NegativeToUnsigned i)) else Ret (Inr (word_of_int i))
      | Inr (NUint u) \<Rightarrow> Ret (Inr u)
      | Inr (NFloat _) \<Rightarrow> Panic)"

definition ToInt64 :: "Value \<Rightarrow> (value_error + int) go" where
  "ToInt64 v =
     (case newIntegralNumeric v :: value_error + unit numeric of
        Inl err \<Rightarrow> Ret (Inl err)
      | Inr (NInt i) \<Rightarrow> Ret (Inr i)
      | Inr (NUint u) \<Rightarrow> if sint u < 0 then Ret (Inl (OverflowsInt64 u)) else Ret (Inr (sint u))
      | Inr (NFloat _) \<Rightarrow> Panic)"

definition ToFloat64 :: "'f float_ops \<Rightarrow> Value \<Rightarrow> value_error + 'f" where
  "ToFloat64 F v =
     (case newNumeric F v of Inl err \<Rightarrow> Inl err | Inr num \<Rightarrow> Inr (to_float F num))"

subsection \<open>Integers\<close>

fun num_val :: "'f numeric \<Rightarrow> int" where
  "num_val (NInt i) = i"
| "num_val (NUint u) = uint u"
| "num_val (NFloat _) = 0"

fun integral :: "'f numeric \<Rightarrow> bool" where
  "integral (NInt i) = (- (2 ^ 63) \<le> i \<and> i < 2 ^ 63)"
| "integral (NUint u) = True"
| "integral (NFloat _) = False"

lemma uint_word_of_int64: "0 \<le> i \<Longrightarrow> i < 2 ^ 63 \<Longrightarrow> uint (word_of_int i :: uint64) = i"
  by (simp add: unsigned_of_int take_bit_int_eq_self)

lemma order_of_uint: "order_of (u = w) (u < w) = order_of (uint u = uint w) (uint u < uint (w :: uint64))"
  by (simp add: word_less_def word_uint_eq_iff)

text \<open>The comparison of integers is the comparison of the numbers.\<close>

lemma compareNumeric_integral:
  assumes "integral a" "integral b"
  shows "compareNumeric F a b = sgn (num_val a - num_val b)"
proof -
  have neg: "i < uint w" "\<not> uint w < i" if "i < 0" for i and w :: uint64
  proof -
    have "0 \<le> uint w" by simp
    with that show "i < uint w" "\<not> uint w < i" by linarith+
  qed
  show ?thesis
    using assms
    by (cases a; cases b)
      (auto simp: compareNumeric_def order_of_def word_less_def word_uint_eq_iff uint_word_of_int64 Let_def
        dest: neg)
qed

lemma int64_wrap:
  assumes "- (2 ^ 64) \<le> x" "x < 2 ^ 64"
  shows "int64 x = (if x < - (2 ^ 63) then x + 2 ^ 64 else if x < 2 ^ 63 then x else x - 2 ^ 64)"
proof -
  have eq: "int64 x = (x + 2 ^ 63) mod 2 ^ 64 - 2 ^ 63"
    by (simp add: int64_def signed_take_bit_eq_take_bit_shift take_bit_eq_mod)
  consider "x < - (2 ^ 63)" | "- (2 ^ 63) \<le> x" "x < 2 ^ 63" | "2 ^ 63 \<le> x" by linarith
  then show ?thesis
  proof cases
    case 1
    have "(x + 2 ^ 63) mod 2 ^ 64 = (x + 2 ^ 63 + 2 ^ 64) mod 2 ^ 64" by (simp only: mod_add_self2)
    also have "\<dots> = x + 2 ^ 63 + 2 ^ 64" using assms 1 by (intro mod_pos_pos_trivial) auto
    finally show ?thesis using 1 eq by simp
  next
    case 2
    then have "(x + 2 ^ 63) mod 2 ^ 64 = x + 2 ^ 63" by (intro mod_pos_pos_trivial) auto
    then show ?thesis using 2 eq by simp
  next
    case 3
    have "(x + 2 ^ 63) mod 2 ^ 64 = (x + 2 ^ 63 - 2 ^ 64) mod 2 ^ 64" by (simp only: minus_mod_self2)
    also have "\<dots> = x + 2 ^ 63 - 2 ^ 64" using assms 3 by (intro mod_pos_pos_trivial) auto
    finally show ?thesis using 3 eq by simp
  qed
qed

lemma intPlusInt_eq:
  assumes "- (2 ^ 63) \<le> i" "i < 2 ^ 63" "- (2 ^ 63) \<le> j" "j < 2 ^ 63"
  shows "intPlusInt F i j =
    (if - (2 ^ 63) \<le> i + j \<and> i + j < 2 ^ 63 then NInt (i + j)
     else if i = - (2 ^ 63) \<and> j = - (2 ^ 63) then NInt 0
     else NFloat (f_add F (f_of_int F i) (f_of_int F j)))"
  using assms int64_wrap [of "i + j"] by (auto simp: intPlusInt_def Let_def)

lemma uintPlusUint_eq:
  "uintPlusUint F u w =
    (if uint u + uint w < 2 ^ 64 then NUint (u + w)
     else NFloat (f_add F (f_of_int F (uint u)) (f_of_int F (uint w))))"
  "uint u + uint w < 2 ^ 64 \<Longrightarrow> uint (u + w) = uint u + uint w"
proof -
  have bounds: "0 \<le> uint u" "uint u < 2 ^ 64" "0 \<le> uint w" "uint w < 2 ^ 64"
    using unsigned_less [of u] unsigned_less [of w] by simp_all
  have eq: "uint (u + w) = (uint u + uint w) mod 2 ^ 64" by (simp add: uint_word_ariths)
  have fits: "uint (u + w) = uint u + uint w" if "uint u + uint w < 2 ^ 64"
    using eq that bounds by simp
  have "uint (u + w) = uint u + uint w - 2 ^ 64" if "\<not> uint u + uint w < 2 ^ 64"
  proof -
    have "(uint u + uint w) mod 2 ^ 64 = (uint u + uint w - 2 ^ 64) mod 2 ^ 64" by (simp only: minus_mod_self2)
    also have "\<dots> = uint u + uint w - 2 ^ 64" using bounds that by (intro mod_pos_pos_trivial) auto
    finally show ?thesis using eq by simp
  qed
  then have "u + w < w \<longleftrightarrow> \<not> uint u + uint w < 2 ^ 64"
    using fits bounds unfolding word_less_def by (cases "uint u + uint w < 2 ^ 64") auto
  then show "uintPlusUint F u w =
    (if uint u + uint w < 2 ^ 64 then NUint (u + w)
     else NFloat (f_add F (f_of_int F (uint u)) (f_of_int F (uint w))))"
    by (simp add: uintPlusUint_def Let_def)
  show "uint u + uint w < 2 ^ 64 \<Longrightarrow> uint (u + w) = uint u + uint w" by (rule fits)
qed

text \<open>
  What a sum of integers is to be: of the type of the operands, unsigned if one of them is, when the sum fits in 64 bits of that
  type, and else a floating point number.
\<close>

fun both_signed :: "'f numeric \<Rightarrow> 'f numeric \<Rightarrow> bool" where
  "both_signed (NInt _) (NInt _) = True"
| "both_signed _ _ = False"

definition float_sum :: "'f float_ops \<Rightarrow> 'f numeric \<Rightarrow> 'f numeric \<Rightarrow> 'f numeric" where
  "float_sum F a b = (case prioritize a b of (x, y) \<Rightarrow> NFloat (f_add F (to_float F x) (to_float F y)))"

definition exact_sum :: "'f float_ops \<Rightarrow> 'f numeric \<Rightarrow> 'f numeric \<Rightarrow> 'f numeric" where
  "exact_sum F a b =
     (let s = num_val a + num_val b in
      if both_signed a b then (if - (2 ^ 63) \<le> s \<and> s < 2 ^ 63 then NInt s else float_sum F a b)
      else if s < 2 ^ 64 then NUint (word_of_int s) else float_sum F a b)"

fun signs_clash :: "'f numeric \<Rightarrow> 'f numeric \<Rightarrow> bool" where
  "signs_clash (NInt i) (NUint _) = (i < 0)"
| "signs_clash (NUint _) (NInt j) = (j < 0)"
| "signs_clash _ _ = False"

lemma intPlusInt_sum:
  "integral (NInt i :: 'f numeric) \<Longrightarrow> integral (NInt j :: 'f numeric) \<Longrightarrow> (i, j) \<noteq> (- (2 ^ 63), - (2 ^ 63)) \<Longrightarrow>
     intPlusInt (F :: 'f float_ops) i j = exact_sum F (NInt i) (NInt j)"
  by (auto simp: intPlusInt_eq exact_sum_def float_sum_def prioritize_def Let_def)

lemma uintPlusUint_sum: "uintPlusUint F u w = exact_sum F (NUint u) (NUint w)"
  by (simp add: uintPlusUint_eq(1) exact_sum_def float_sum_def prioritize_def Let_def)

lemma uintPlusInt_sum:
  assumes "integral (NInt j :: 'f numeric)" "0 \<le> j"
  shows "uintPlusUint (F :: 'f float_ops) u (word_of_int j) = exact_sum F (NUint u) (NInt j)"
    "uintPlusUint F u (word_of_int j) = exact_sum F (NInt j) (NUint u)"
proof -
  have j: "uint (word_of_int j :: uint64) = j" using assms by (simp add: uint_word_of_int64)
  show "uintPlusUint F u (word_of_int j) = exact_sum F (NUint u) (NInt j)"
    "uintPlusUint F u (word_of_int j) = exact_sum F (NInt j) (NUint u)"
    unfolding uintPlusUint_eq(1) by (simp_all add: exact_sum_def float_sum_def prioritize_def Let_def j add.commute)
qed

lemma addNumeric_sum:
  assumes "integral a" "integral b" "\<not> signs_clash a b" "\<not> (a = NInt (- (2 ^ 63)) \<and> b = NInt (- (2 ^ 63)))"
  shows "addNumeric F a b = Ret (Inr (exact_sum F a b))"
  using assms intPlusInt_sum [of _ _ F] uintPlusInt_sum [of _ F]
  by (cases a; cases b) (auto simp: addNumeric_def prioritize_def uintPlusInt_def uintPlusUint_sum)

subsection \<open>Values that hold integers\<close>

text \<open>
  An integer value holds the decimal text of its number, as MySQL returns it.
\<close>

definition int_value :: "Value \<Rightarrow> int \<Rightarrow> bool" where
  "int_value v i \<longleftrightarrow>
     (IsSigned (vtyp v) \<and> - (2 ^ 63) \<le> i \<and> i < 2 ^ 63 \<and> vval v = format_int i) \<or>
     (IsUnsigned (vtyp v) \<and> 0 \<le> i \<and> i < 2 ^ 64 \<and> vval v = format_int i)"

lemma signed_types: "IsSigned t \<Longrightarrow> t \<noteq> T_Null \<and> t \<noteq> T_Expression \<and> IsIntegral t \<and> \<not> IsUnsigned t"
proof -
  assume s: "IsSigned t"
  have "t AND 256 = (t AND 768) AND 256" by (simp add: and.assoc)
  with s have "IsIntegral t" "\<not> IsUnsigned t"
    by (simp_all add: IsSigned_def IsIntegral_def IsUnsigned_def flag_defs)
  moreover have "t \<noteq> T_Null" "t \<noteq> T_Expression" using s by (auto simp: IsSigned_def flag_defs)
  ultimately show ?thesis by simp
qed

lemma unsigned_types: "IsUnsigned t \<Longrightarrow> t \<noteq> T_Null \<and> t \<noteq> T_Expression \<and> IsIntegral t \<and> \<not> IsSigned t"
proof -
  assume s: "IsUnsigned t"
  have "t AND 256 = (t AND 768) AND 256" by (simp add: and.assoc)
  with s have "IsIntegral t" "\<not> IsSigned t"
    by (simp_all add: IsSigned_def IsIntegral_def IsUnsigned_def flag_defs)
  moreover have "t \<noteq> T_Null" "t \<noteq> T_Expression" using s by (auto simp: IsUnsigned_def flag_defs)
  ultimately show ?thesis by simp
qed

lemma format_int_nat: "0 \<le> i \<Longrightarrow> format_int i = format_nat (nat i)"
  by (simp add: format_int_def)

lemma int_value_numeric:
  assumes "int_value v i"
  shows "\<exists>n :: 'f numeric. newNumeric F v = Inr n \<and> integral n \<and> num_val n = i"
    "\<not> Value_IsNull v" "isNumber (vtyp v)"
proof -
  consider (s) "IsSigned (vtyp v)" "- (2 ^ 63) \<le> i" "i < 2 ^ 63" "vval v = format_int i"
    | (u) "IsUnsigned (vtyp v)" "0 \<le> i" "i < 2 ^ 64" "vval v = format_int i"
    using assms by (auto simp: int_value_def)
  then have "(\<exists>n :: 'f numeric. newNumeric F v = Inr n \<and> integral n \<and> num_val n = i) \<and>
      \<not> Value_IsNull v \<and> isNumber (vtyp v)"
  proof cases
    case s
    then have "parse_int 64 (format_int i) = Some i" by (intro parse_int_format_int) auto
    with s signed_types [OF s(1)] show ?thesis
      by (simp add: newNumeric_def Value_ToString_def Value_IsNull_def isNumber_def)
  next
    case u
    have "nat i < 2 ^ 64" using u by (simp add: nat_less_iff)
    then have "parse_uint 64 (format_int i) = Some (nat i)" using u by (simp add: format_int_nat)
    moreover have "uint (of_nat (nat i) :: uint64) = i"
      using u by (simp add: unsigned_of_int take_bit_int_eq_self)
    ultimately show ?thesis using u unsigned_types [OF u(1)]
      by (simp add: newNumeric_def Value_ToString_def Value_IsNull_def isNumber_def)
  qed
  then show "\<exists>n :: 'f numeric. newNumeric F v = Inr n \<and> integral n \<and> num_val n = i"
    "\<not> Value_IsNull v" "isNumber (vtyp v)" by auto
qed

lemma NullsafeCompare_ints:
  assumes "int_value v i" "int_value w j"
  shows "NullsafeCompare F v w = Inr (sgn (i - j))"
proof -
  obtain m n where "newNumeric F v = Inr m" "integral m" "num_val m = i"
    "newNumeric F w = Inr n" "integral n" "num_val n = j"
    using int_value_numeric(1) [OF assms(1), of F] int_value_numeric(1) [OF assms(2), of F] by auto
  moreover have "\<not> Value_IsNull v" "\<not> Value_IsNull w" "isNumber (vtyp v)"
    using int_value_numeric(2,3) [OF assms(1)] int_value_numeric(2) [OF assms(2)] by auto
  ultimately show ?thesis by (simp add: NullsafeCompare_def compareNumeric_integral)
qed

lemma ToUint64_returns: "\<exists>r. ToUint64 v = Ret r"
  by (auto simp: ToUint64_def newIntegralNumeric_def Let_def split: option.splits)

subsection \<open>Properties\<close>

text \<open>
  C31. Comparing two integer values, of any signed and unsigned types, gives the sign of the
  difference of their numbers; hence \<^verbatim>\<open>Min\<close> and \<^verbatim>\<open>Max\<close> give one of the two values, with the smaller
  and the larger number.
\<close>

theorem integer_comparison_exact:
  assumes "int_value v i" "int_value w j"
  shows "NullsafeCompare F v w = Inr (sgn (i - j)) \<and>
    (\<exists>m. Min_value F v w = Inr m \<and> m \<in> {v, w} \<and> int_value m (min i j)) \<and>
    (\<exists>m. Max_value F v w = Inr m \<and> m \<in> {v, w} \<and> int_value m (max i j))"
proof -
  have "\<not> Value_IsNull v" "\<not> Value_IsNull w"
    using int_value_numeric(2) [OF assms(1)] int_value_numeric(2) [OF assms(2)] by auto
  then show ?thesis
    using NullsafeCompare_ints [OF assms, of F] assms
    by (auto simp: Min_value_def Max_value_def minmax_def min_def max_def)
qed

theorem integer_comparison_exact_witness:
  "NullsafeCompare (undefined :: unit float_ops) (NewInt64 (- 3)) (NewUint64 7) = Inr (- 1)"
  using integer_comparison_exact [of "NewInt64 (- 3)" "- 3" "NewUint64 7" 7 "undefined :: unit float_ops"]
  by (simp add: int_value_def NewInt64_def NewUint64_def type_tests format_int_nat)

text \<open>
  C32. The sum of two integers, signed or unsigned, is refused exactly when a negative number meets an unsigned one. Otherwise it is
  the exact sum, of the type of the operands (unsigned if one of them is), when that type can hold it, and the sum of the operands as
  floating point numbers when it cannot. The one exception is the smallest integer added to itself, which gives 0.
\<close>

theorem integer_sum_exact:
  assumes "integral a" "integral b"
  shows "(if signs_clash a b then \<exists>err. addNumeric F a b = Ret (Inl err)
     else if a = NInt (- (2 ^ 63)) \<and> b = NInt (- (2 ^ 63)) then addNumeric F a b = Ret (Inr (NInt 0))
     else addNumeric F a b = Ret (Inr (exact_sum F a b)))"
proof (cases "signs_clash a b")
  case True
  then show ?thesis by (cases a; cases b) (auto simp: addNumeric_def prioritize_def uintPlusInt_def)
qed (use addNumeric_sum [OF assms, of F] in \<open>auto simp: addNumeric_def prioritize_def intPlusInt_eq\<close>)

theorem integer_sum_exact_witness:
  "addNumeric (undefined :: unit float_ops) (NUint 9223372036854775807) (NInt 5) = Ret (Inr (NUint 9223372036854775812)) \<and>
   addNumeric (undefined :: unit float_ops) (NInt (- 7)) (NInt 5) = Ret (Inr (NInt (- 2))) \<and>
   (\<exists>f. addNumeric (undefined :: unit float_ops) (NInt 9223372036854775807) (NInt 1) = Ret (Inr (NFloat f)))"
  using integer_sum_exact [of "NUint 9223372036854775807" "NInt 5" "undefined :: unit float_ops"]
    integer_sum_exact [of "NInt (- 7)" "NInt 5" "undefined :: unit float_ops"]
    integer_sum_exact [of "NInt 9223372036854775807" "NInt 1" "undefined :: unit float_ops"]
  by (simp add: exact_sum_def float_sum_def prioritize_def)

text \<open>
  The overflow test for negative numbers asks for a positive result, but the result can be zero:
  the sum of the smallest integer with itself is 0, not a floating point number.
\<close>

theorem smallest_integer_twice: "addNumeric F (NInt (- (2 ^ 63))) (NInt (- (2 ^ 63))) = Ret (Inr (NInt 0))"
  by (simp add: addNumeric_def prioritize_def intPlusInt_eq)

end
