(* ===== verification/Query_Rules.thy ===== *)
theory Query_Rules
  imports Sql_Arithmetic "HOL-Library.AList"
begin

text \<open>
  The query rules of vttablet, \<^verbatim>\<open>src/vt/vttablet/tabletserver/rules/rules.go\<close> and \<^verbatim>\<open>map.go\<close>: rules with
  conditions on the client, the query, its plan, its table and its bind variables, and the action of
  the first rule that matches. \<^verbatim>\<open>PlanByName\<close> is from \<^verbatim>\<open>src/vt/vttablet/tabletserver/planbuilder/plan.go\<close>.

  Regular expressions are a parameter: the type \<open>'re\<close> with \<open>'re re_ops\<close>, which has what the code uses
  of the package \<^verbatim>\<open>regexp\<close>. A nil slice is \<open>None\<close>: a rule without a list of plans or tables matches all
  of them. A decoded JSON document is a \<open>json\<close> value; a Go map is an association list, in the order
  in which a \<^verbatim>\<open>range\<close> loop visits it. The bind variables of a query are not nil pointers.
\<close>

subsection \<open>Data\<close>

record 're re_ops =
  re_compile :: "string \<Rightarrow> 're option"
  re_match :: "'re \<Rightarrow> string \<Rightarrow> bool"
  re_string :: "'re \<Rightarrow> string"

datatype Action = QRContinue | QRFail | QRFailRetry

datatype Operator =
    QRNoOp | QREqual | QRNotEqual | QRLessThan | QRGreaterEqual | QRGreaterThan | QRLessEqual
  | QRMatch | QRNoMatch

primrec op_code :: "Operator \<Rightarrow> nat" where
  "op_code QRNoOp = 0"
| "op_code QREqual = 1"
| "op_code QRNotEqual = 2"
| "op_code QRLessThan = 3"
| "op_code QRGreaterEqual = 4"
| "op_code QRGreaterThan = 5"
| "op_code QRLessEqual = 6"
| "op_code QRMatch = 7"
| "op_code QRNoMatch = 8"

datatype 're bvcValue = Bvcuint64 uint64 | Bvcint64 int | Bvcstring string | Bvcre 're

record 're BindVarCond =
  cond_name :: string
  onAbsent :: bool
  onMismatch :: bool
  cond_op :: Operator
  cond_value :: "'re bvcValue option"

record 're namedRegexp =
  nr_name :: string
  nr_Regexp :: "'re option"

record 're Rule =
  Description :: string
  rule_Name :: string
  requestIP :: "'re namedRegexp"
  rule_user :: "'re namedRegexp"
  rule_query :: "'re namedRegexp"
  plans :: "nat list option"
  tableNames :: "string list option"
  bindVarConds :: "'re BindVarCond list option"
  act :: Action

type_synonym 're Rules = "'re Rule list"

datatype rule_error =
    ReError string
  | OperandNotAllowed
  | InvalidOperatorForType Operator
  | InvalidOperator string
  | WantString string
  | WantList string
  | UnrecognizedTag string
  | InvalidPlan string
  | InvalidAction string
  | WantObject
  | Missing string
  | WantBool string
  | WantNumber string
  | WantStringOrNumber
  | SourceNotValid string

subsection \<open>Rules\<close>

definition no_regexp :: "'re namedRegexp" where
  "no_regexp = \<lparr>nr_name = [], nr_Regexp = None\<rparr>"

definition NewQueryRule :: "string \<Rightarrow> string \<Rightarrow> Action \<Rightarrow> 're Rule" where
  "NewQueryRule description name a =
     \<lparr>Description = description, rule_Name = name, requestIP = no_regexp, rule_user = no_regexp,
      rule_query = no_regexp, plans = None, tableNames = None, bindVarConds = None, act = a\<rparr>"

definition namedRegexp_Equal :: "'re re_ops \<Rightarrow> 're namedRegexp \<Rightarrow> 're namedRegexp \<Rightarrow> bool" where
  "namedRegexp_Equal R nr other =
     (case (nr_Regexp nr, nr_Regexp other) of
        (Some a, Some b) \<Rightarrow> nr_name nr = nr_name other \<and> re_string R a = re_string R b
      | (a, b) \<Rightarrow> a = None \<and> b = None \<and> nr_name nr = nr_name other)"

definition Rule_Equal :: "'re re_ops \<Rightarrow> 're Rule \<Rightarrow> 're Rule \<Rightarrow> bool" where
  "Rule_Equal R qr other \<longleftrightarrow>
     Description qr = Description other \<and> rule_Name qr = rule_Name other \<and>
     namedRegexp_Equal R (requestIP qr) (requestIP other) \<and>
     namedRegexp_Equal R (rule_user qr) (rule_user other) \<and>
     namedRegexp_Equal R (rule_query qr) (rule_query other) \<and>
     plans qr = plans other \<and> tableNames qr = tableNames other \<and>
     bindVarConds qr = bindVarConds other \<and> act qr = act other"

definition Rule_Copy :: "'re Rule \<Rightarrow> 're Rule" where
  "Rule_Copy qr =
     \<lparr>Description = Description qr, rule_Name = rule_Name qr, requestIP = requestIP qr,
      rule_user = rule_user qr, rule_query = rule_query qr, plans = plans qr,
      tableNames = tableNames qr, bindVarConds = bindVarConds qr, act = act qr\<rparr>"

definition makeExact :: "string \<Rightarrow> string" where
  "makeExact pattern = ''^'' @ pattern @ ''$''"

definition SetIPCond :: "'re re_ops \<Rightarrow> 're Rule \<Rightarrow> string \<Rightarrow> bool \<times> 're Rule" where
  "SetIPCond R qr pattern =
     (let re = re_compile R (makeExact pattern) in
      (re \<noteq> None, qr\<lparr>requestIP := \<lparr>nr_name = pattern, nr_Regexp = re\<rparr>\<rparr>))"

definition SetUserCond :: "'re re_ops \<Rightarrow> 're Rule \<Rightarrow> string \<Rightarrow> bool \<times> 're Rule" where
  "SetUserCond R qr pattern =
     (let re = re_compile R (makeExact pattern) in
      (re \<noteq> None, qr\<lparr>rule_user := \<lparr>nr_name = pattern, nr_Regexp = re\<rparr>\<rparr>))"

definition SetQueryCond :: "'re re_ops \<Rightarrow> 're Rule \<Rightarrow> string \<Rightarrow> bool \<times> 're Rule" where
  "SetQueryCond R qr pattern =
     (let re = re_compile R (makeExact pattern) in
      (re \<noteq> None, qr\<lparr>rule_query := \<lparr>nr_name = pattern, nr_Regexp = re\<rparr>\<rparr>))"

definition append_opt :: "'a list option \<Rightarrow> 'a \<Rightarrow> 'a list option" where
  "append_opt xs x = Some ((case xs of None \<Rightarrow> [] | Some ys \<Rightarrow> ys) @ [x])"

definition AddPlanCond :: "'re Rule \<Rightarrow> nat \<Rightarrow> 're Rule" where
  "AddPlanCond qr planType = qr\<lparr>plans := append_opt (plans qr) planType\<rparr>"

definition AddTableCond :: "'re Rule \<Rightarrow> string \<Rightarrow> 're Rule" where
  "AddTableCond qr tableName = qr\<lparr>tableNames := append_opt (tableNames qr) tableName\<rparr>"

text \<open>The operand of a condition: what \<^verbatim>\<open>interface{}\<close> can hold in the type switch.\<close>

datatype operand = OpUint uint64 | OpInt int | OpString string | OpOther

definition add_cond ::
  "'re Rule \<Rightarrow> string \<Rightarrow> bool \<Rightarrow> bool \<Rightarrow> Operator \<Rightarrow> 're bvcValue option \<Rightarrow> 're Rule" where
  "add_cond qr name absent mismatch op converted =
     qr\<lparr>bindVarConds := append_opt (bindVarConds qr)
       \<lparr>cond_name = name, onAbsent = absent, onMismatch = mismatch, cond_op = op, cond_value = converted\<rparr>\<rparr>"

definition AddBindVarCond ::
  "'re re_ops \<Rightarrow> 're Rule \<Rightarrow> string \<Rightarrow> bool \<Rightarrow> bool \<Rightarrow> Operator \<Rightarrow> operand \<Rightarrow> rule_error + 're Rule" where
  "AddBindVarCond R qr name absent mismatch op operand =
     (let comparison = (op_code QREqual \<le> op_code op \<and> op_code op \<le> op_code QRLessEqual) in
      if op = QRNoOp then Inr (add_cond qr name absent mismatch op None)
      else
        (case operand of
           OpUint v \<Rightarrow>
             if \<not> comparison then Inl (InvalidOperatorForType op)
             else Inr (add_cond qr name absent mismatch op (Some (Bvcuint64 v)))
         | OpInt v \<Rightarrow>
             if \<not> comparison then Inl (InvalidOperatorForType op)
             else Inr (add_cond qr name absent mismatch op (Some (Bvcint64 v)))
         | OpString v \<Rightarrow>
             if comparison then Inr (add_cond qr name absent mismatch op (Some (Bvcstring v)))
             else if op_code QRMatch \<le> op_code op \<and> op_code op \<le> op_code QRNoMatch then
               (case re_compile R (makeExact v) of
                  None \<Rightarrow> Inl (ReError v)
                | Some re \<Rightarrow> Inr (add_cond qr name absent mismatch op (Some (Bvcre re))))
             else Inl (InvalidOperatorForType op)
         | OpOther \<Rightarrow> Inl OperandNotAllowed))"

subsection \<open>Matching\<close>

datatype qr_status = QROK | QRMismatch | QROutOfRange

definition getuint64 :: "BindVariable \<Rightarrow> (uint64 \<times> qr_status) go" where
  "getuint64 bv =
     (case BindVariableToValue bv of
        Inl err \<Rightarrow> Ret (0, QROutOfRange)
      | Inr v \<Rightarrow>
          go_bind (ToUint64 v) (\<lambda>r.
            case r of Inl err \<Rightarrow> Ret (0, QROutOfRange) | Inr n \<Rightarrow> Ret (n, QROK)))"

definition getint64 :: "BindVariable \<Rightarrow> (int \<times> qr_status) go" where
  "getint64 bv =
     (case BindVariableToValue bv of
        Inl err \<Rightarrow> Ret (0, QROutOfRange)
      | Inr v \<Rightarrow>
          go_bind (ToInt64 v) (\<lambda>r.
            case r of Inl err \<Rightarrow> Ret (0, QROutOfRange) | Inr n \<Rightarrow> Ret (n, QROK)))"

definition getstring :: "BindVariable \<Rightarrow> string \<times> qr_status" where
  "getstring bv =
     (if IsIntegral (bv_Type bv) \<or> IsFloat (bv_Type bv) \<or> IsText (bv_Type bv) \<or> IsBinary (bv_Type bv)
      then (bv_Value bv, QROK)
      else ([], QRMismatch))"

definition on_status :: "qr_status \<Rightarrow> bool \<Rightarrow> bool \<Rightarrow> bool \<Rightarrow> bool go" where
  "on_status status ok out mismatch =
     Ret (case status of QROK \<Rightarrow> ok | QROutOfRange \<Rightarrow> out | QRMismatch \<Rightarrow> mismatch)"

definition bvcuint64_eval :: "uint64 \<Rightarrow> BindVariable \<Rightarrow> Operator \<Rightarrow> bool \<Rightarrow> bool go" where
  "bvcuint64_eval uval bv op mismatch =
     go_bind (getuint64 bv) (\<lambda>(num, status).
       case op of
         QREqual \<Rightarrow> on_status status (num = uval) False mismatch
       | QRNotEqual \<Rightarrow> on_status status (num \<noteq> uval) True mismatch
       | QRLessThan \<Rightarrow> on_status status (num < uval) True mismatch
       | QRGreaterEqual \<Rightarrow> on_status status (num \<ge> uval) False mismatch
       | QRGreaterThan \<Rightarrow> on_status status (num > uval) False mismatch
       | QRLessEqual \<Rightarrow> on_status status (num \<le> uval) True mismatch
       | _ \<Rightarrow> Panic)"

definition bvcint64_eval :: "int \<Rightarrow> BindVariable \<Rightarrow> Operator \<Rightarrow> bool \<Rightarrow> bool go" where
  "bvcint64_eval ival bv op mismatch =
     go_bind (getint64 bv) (\<lambda>(num, status).
       case op of
         QREqual \<Rightarrow> on_status status (num = ival) False mismatch
       | QRNotEqual \<Rightarrow> on_status status (num \<noteq> ival) True mismatch
       | QRLessThan \<Rightarrow> on_status status (num < ival) False mismatch
       | QRGreaterEqual \<Rightarrow> on_status status (num \<ge> ival) True mismatch
       | QRGreaterThan \<Rightarrow> on_status status (num > ival) True mismatch
       | QRLessEqual \<Rightarrow> on_status status (num \<le> ival) False mismatch
       | _ \<Rightarrow> Panic)"

definition bvcstring_eval :: "string \<Rightarrow> BindVariable \<Rightarrow> Operator \<Rightarrow> bool \<Rightarrow> bool go" where
  "bvcstring_eval sval bv op mismatch =
     (case getstring bv of (str, status) \<Rightarrow>
        if status \<noteq> QROK then Ret mismatch
        else
          (case op of
             QREqual \<Rightarrow> Ret (str = sval)
           | QRNotEqual \<Rightarrow> Ret (str \<noteq> sval)
           | QRLessThan \<Rightarrow> Ret (str < sval)
           | QRGreaterEqual \<Rightarrow> Ret (str \<ge> sval)
           | QRGreaterThan \<Rightarrow> Ret (str > sval)
           | QRLessEqual \<Rightarrow> Ret (str \<le> sval)
           | _ \<Rightarrow> Panic))"

definition bvcre_eval :: "'re re_ops \<Rightarrow> 're \<Rightarrow> BindVariable \<Rightarrow> Operator \<Rightarrow> bool \<Rightarrow> bool go" where
  "bvcre_eval R re bv op mismatch =
     (case getstring bv of (str, status) \<Rightarrow>
        if status \<noteq> QROK then Ret mismatch
        else
          (case op of
             QRMatch \<Rightarrow> Ret (re_match R re str)
           | QRNoMatch \<Rightarrow> Ret (\<not> re_match R re str)
           | _ \<Rightarrow> Panic))"

fun bvc_eval :: "'re re_ops \<Rightarrow> 're bvcValue \<Rightarrow> BindVariable \<Rightarrow> Operator \<Rightarrow> bool \<Rightarrow> bool go" where
  "bvc_eval R (Bvcuint64 v) bv op mismatch = bvcuint64_eval v bv op mismatch"
| "bvc_eval R (Bvcint64 v) bv op mismatch = bvcint64_eval v bv op mismatch"
| "bvc_eval R (Bvcstring v) bv op mismatch = bvcstring_eval v bv op mismatch"
| "bvc_eval R (Bvcre re) bv op mismatch = bvcre_eval R re bv op mismatch"

text \<open>A call through the nil \<^verbatim>\<open>value\<close> of a condition without an operator would panic.\<close>

definition bvMatch :: "'re re_ops \<Rightarrow> 're BindVarCond \<Rightarrow> (string \<rightharpoonup> BindVariable) \<Rightarrow> bool go" where
  "bvMatch R bvcond bindVars =
     (case bindVars (cond_name bvcond) of
        None \<Rightarrow> Ret (onAbsent bvcond)
      | Some bv \<Rightarrow>
          if cond_op bvcond = QRNoOp then Ret (\<not> onAbsent bvcond)
          else
            (case cond_value bvcond of
               None \<Rightarrow> Panic
             | Some v \<Rightarrow> bvc_eval R v bv (cond_op bvcond) (onMismatch bvcond)))"

definition reMatch :: "'re re_ops \<Rightarrow> 're option \<Rightarrow> string \<Rightarrow> bool" where
  "reMatch R re v = (case re of None \<Rightarrow> True | Some r \<Rightarrow> re_match R r v)"

definition planMatch :: "nat list option \<Rightarrow> nat \<Rightarrow> bool" where
  "planMatch ps plan = (case ps of None \<Rightarrow> True | Some xs \<Rightarrow> list_ex (\<lambda>p. p = plan) xs)"

definition tableMatch :: "string list option \<Rightarrow> string \<Rightarrow> bool" where
  "tableMatch ts tableName = (case ts of None \<Rightarrow> True | Some xs \<Rightarrow> list_ex (\<lambda>t. t = tableName) xs)"

definition Rule_FilterByPlan ::
  "'re re_ops \<Rightarrow> 're Rule \<Rightarrow> string \<Rightarrow> nat \<Rightarrow> string \<Rightarrow> 're Rule option" where
  "Rule_FilterByPlan R qr query planid tableName =
     (if \<not> reMatch R (nr_Regexp (rule_query qr)) query then None
      else if \<not> planMatch (plans qr) planid then None
      else if \<not> tableMatch (tableNames qr) tableName then None
      else Some ((Rule_Copy qr)\<lparr>rule_query := no_regexp, plans := None, tableNames := None\<rparr>))"

fun conds_match :: "'re re_ops \<Rightarrow> 're BindVarCond list \<Rightarrow> (string \<rightharpoonup> BindVariable) \<Rightarrow> bool go" where
  "conds_match R [] bindVars = Ret True"
| "conds_match R (c # cs) bindVars =
     go_bind (bvMatch R c bindVars) (\<lambda>m. if \<not> m then Ret False else conds_match R cs bindVars)"

definition conds :: "'re Rule \<Rightarrow> 're BindVarCond list" where
  "conds qr = (case bindVarConds qr of None \<Rightarrow> [] | Some cs \<Rightarrow> cs)"

definition Rule_GetAction ::
  "'re re_ops \<Rightarrow> 're Rule \<Rightarrow> string \<Rightarrow> string \<Rightarrow> (string \<rightharpoonup> BindVariable) \<Rightarrow> Action go" where
  "Rule_GetAction R qr ip user bindVars =
     (if \<not> reMatch R (nr_Regexp (requestIP qr)) ip then Ret QRContinue
      else if \<not> reMatch R (nr_Regexp (rule_user qr)) user then Ret QRContinue
      else
        go_bind (conds_match R (conds qr) bindVars) (\<lambda>m. if m then Ret (act qr) else Ret QRContinue))"

subsection \<open>Lists of rules\<close>

definition Rules_Equal :: "'re re_ops \<Rightarrow> 're Rules \<Rightarrow> 're Rules \<Rightarrow> bool" where
  "Rules_Equal R qrs other \<longleftrightarrow> length qrs = length other \<and> list_all2 (Rule_Equal R) qrs other"

definition Rules_Copy :: "'re Rules \<Rightarrow> 're Rules" where
  "Rules_Copy qrs = map Rule_Copy qrs"

definition Rules_Append :: "'re Rules \<Rightarrow> 're Rules \<Rightarrow> 're Rules" where
  "Rules_Append qrs other = qrs @ other"

definition Rules_Add :: "'re Rules \<Rightarrow> 're Rule \<Rightarrow> 're Rules" where
  "Rules_Add qrs qr = qrs @ [qr]"

definition Rules_Find :: "'re Rules \<Rightarrow> string \<Rightarrow> 're Rule option" where
  "Rules_Find qrs name = find (\<lambda>qr. rule_Name qr = name) qrs"

text \<open>
  The loop of \<^verbatim>\<open>Delete\<close> moves the elements from index \<open>i\<close> on, while \<^verbatim>\<open>j < len(qrs.rules)-i-1\<close>; then the
  last element is cut off.
\<close>

fun find_rule :: "'re Rules \<Rightarrow> string \<Rightarrow> nat \<Rightarrow> (nat \<times> 're Rule) option" where
  "find_rule [] name i = None"
| "find_rule (qr # qrs) name i = (if rule_Name qr = name then Some (i, qr) else find_rule qrs name (Suc i))"

definition delete_at :: "'a list \<Rightarrow> nat \<Rightarrow> 'a list" where
  "delete_at xs i =
     butlast (foldl (\<lambda>ys j. ys[j := ys ! (j + 1)]) xs [i ..< length xs - i - 1])"

definition Rules_Delete :: "'re Rules \<Rightarrow> string \<Rightarrow> 're Rule option \<times> 're Rules" where
  "Rules_Delete qrs name =
     (case find_rule qrs name 0 of
        None \<Rightarrow> (None, qrs)
      | Some (i, qr) \<Rightarrow> (Some qr, delete_at qrs i))"

definition Rules_FilterByPlan :: "'re re_ops \<Rightarrow> 're Rules \<Rightarrow> string \<Rightarrow> nat \<Rightarrow> string \<Rightarrow> 're Rules" where
  "Rules_FilterByPlan R qrs query planid tableName =
     List.map_filter (\<lambda>qr. Rule_FilterByPlan R qr query planid tableName) qrs"

fun Rules_GetAction ::
  "'re re_ops \<Rightarrow> 're Rules \<Rightarrow> string \<Rightarrow> string \<Rightarrow> (string \<rightharpoonup> BindVariable) \<Rightarrow> (Action \<times> string) go" where
  "Rules_GetAction R [] ip user bindVars = Ret (QRContinue, [])"
| "Rules_GetAction R (qr # qrs) ip user bindVars =
     go_bind (Rule_GetAction R qr ip user bindVars) (\<lambda>a.
       if a \<noteq> QRContinue then Ret (a, Description qr)
       else Rules_GetAction R qrs ip user bindVars)"

subsection \<open>Rules from JSON\<close>

datatype json =
    JNull
  | JBool bool
  | JNumber string
  | JString string
  | JList "json list"
  | JObject "(string \<times> json) list"

definition opmap :: "(string \<times> Operator) list" where
  "opmap =
     [([], QRNoOp), (''=='', QREqual), (''!='', QRNotEqual), (''<'', QRLessThan),
      (''>='', QRGreaterEqual), (''>'', QRGreaterThan), (''<='', QRLessEqual),
      (''MATCH'', QRMatch), (''NOMATCH'', QRNoMatch)]"

definition MapStrOperator :: "string \<Rightarrow> rule_error + Operator" where
  "MapStrOperator strop =
     (case map_of opmap strop of Some op \<Rightarrow> Inr op | None \<Rightarrow> Inl (InvalidOperator strop))"

definition planName :: "string list" where
  "planName =
     [''PASS_SELECT'', ''SELECT_LOCK'', ''NEXTVAL'', ''PASS_DML'', ''DML_PK'', ''DML_SUBQUERY'',
      ''INSERT_PK'', ''INSERT_SUBQUERY'', ''UPSERT_PK'', ''INSERT_MESSAGE'', ''SET'', ''DDL'',
      ''SELECT_STREAM'', ''OTHER_READ'', ''OTHER_ADMIN'', ''MESSAGE_STREAM'', ''SELECT_IMPOSSIBLE'']"

fun plan_index :: "string list \<Rightarrow> string \<Rightarrow> nat \<Rightarrow> nat option" where
  "plan_index [] s i = None"
| "plan_index (v # vs) s i = (if v = s then Some i else plan_index vs s (Suc i))"

definition PlanByName :: "string \<Rightarrow> nat option" where
  "PlanByName s = plan_index planName s 0"

definition condition_value :: "Operator \<Rightarrow> json \<Rightarrow> rule_error + operand" where
  "condition_value op v =
     (if op_code QREqual \<le> op_code op \<and> op_code op \<le> op_code QRLessEqual then
        (case v of
           JNumber s \<Rightarrow>
             (case parse_int 64 s of
                Some i \<Rightarrow> Inr (OpInt i)
              | None \<Rightarrow>
                  (case parse_uint 64 s of
                     Some u \<Rightarrow> Inr (OpUint (of_nat u))
                   | None \<Rightarrow> Inl (WantNumber s)))
         | JString s \<Rightarrow> Inr (OpString s)
         | _ \<Rightarrow> Inl WantStringOrNumber)
      else if op = QRMatch \<or> op = QRNoMatch then
        (case v of JString s \<Rightarrow> Inr (OpString s) | _ \<Rightarrow> Inl (WantString ''Value''))
      else Inr OpOther)"

definition buildBindVarCondition :: "json \<Rightarrow> rule_error + string \<times> bool \<times> bool \<times> Operator \<times> operand" where
  "buildBindVarCondition bvc =
     (case bvc of
        JObject info \<Rightarrow>
          (case map_of info ''Name'' of
             None \<Rightarrow> Inl (Missing ''Name'')
           | Some (JString name) \<Rightarrow>
               (case map_of info ''OnAbsent'' of
                  None \<Rightarrow> Inl (Missing ''OnAbsent'')
                | Some (JBool absent) \<Rightarrow>
                    (case map_of info ''Operator'' of
                       None \<Rightarrow> Inl (Missing ''Operator'')
                     | Some (JString strop) \<Rightarrow>
                         (case MapStrOperator strop of
                            Inl err \<Rightarrow> Inl err
                          | Inr op \<Rightarrow>
                              if op = QRNoOp then Inr (name, absent, False, op, OpOther)
                              else
                                (case map_of info ''Value'' of
                                   None \<Rightarrow> Inl (Missing ''Value'')
                                 | Some v \<Rightarrow>
                                     (case condition_value op v of
                                        Inl err \<Rightarrow> Inl err
                                      | Inr operand \<Rightarrow>
                                          (case map_of info ''OnMismatch'' of
                                             None \<Rightarrow> Inl (Missing ''OnMismatch'')
                                           | Some (JBool mismatch) \<Rightarrow>
                                               Inr (name, absent, mismatch, op, operand)
                                           | Some _ \<Rightarrow> Inl (WantBool ''OnMismatch'')))))
                     | Some _ \<Rightarrow> Inl (WantString ''Operator''))
                | Some _ \<Rightarrow> Inl (WantBool ''OnAbsent''))
           | Some _ \<Rightarrow> Inl (WantString ''Name''))
      | _ \<Rightarrow> Inl WantObject)"

fun build_plans :: "json list \<Rightarrow> 're Rule \<Rightarrow> rule_error + 're Rule" where
  "build_plans [] qr = Inr qr"
| "build_plans (p # ps) qr =
     (case p of
        JString pv \<Rightarrow>
          (case PlanByName pv of
             None \<Rightarrow> Inl (InvalidPlan pv)
           | Some pt \<Rightarrow> build_plans ps (AddPlanCond qr pt))
      | _ \<Rightarrow> Inl (WantString ''Plans''))"

fun build_tables :: "json list \<Rightarrow> 're Rule \<Rightarrow> rule_error + 're Rule" where
  "build_tables [] qr = Inr qr"
| "build_tables (t # ts) qr =
     (case t of
        JString tableName \<Rightarrow> build_tables ts (AddTableCond qr tableName)
      | _ \<Rightarrow> Inl (WantString ''TableNames''))"

fun build_conds :: "'re re_ops \<Rightarrow> json list \<Rightarrow> 're Rule \<Rightarrow> rule_error + 're Rule" where
  "build_conds R [] qr = Inr qr"
| "build_conds R (bvc # bvcs) qr =
     (case buildBindVarCondition bvc of
        Inl err \<Rightarrow> Inl err
      | Inr (name, absent, mismatch, op, operand) \<Rightarrow>
          (case AddBindVarCond R qr name absent mismatch op operand of
             Inl err \<Rightarrow> Inl err
           | Inr qr' \<Rightarrow> build_conds R bvcs qr'))"

definition set_cond :: "bool \<times> 're Rule \<Rightarrow> string \<Rightarrow> rule_error + 're Rule" where
  "set_cond r sv = (if fst r then Inr (snd r) else Inl (ReError sv))"

definition build_string_tag :: "'re re_ops \<Rightarrow> string \<Rightarrow> string \<Rightarrow> 're Rule \<Rightarrow> rule_error + 're Rule" where
  "build_string_tag R k sv qr =
     (if k = ''Name'' then Inr (qr\<lparr>rule_Name := sv\<rparr>)
      else if k = ''Description'' then Inr (qr\<lparr>Description := sv\<rparr>)
      else if k = ''RequestIP'' then set_cond (SetIPCond R qr sv) sv
      else if k = ''User'' then set_cond (SetUserCond R qr sv) sv
      else if k = ''Query'' then set_cond (SetQueryCond R qr sv) sv
      else if sv = ''FAIL'' then Inr (qr\<lparr>act := QRFail\<rparr>)
      else if sv = ''FAIL_RETRY'' then Inr (qr\<lparr>act := QRFailRetry\<rparr>)
      else Inl (InvalidAction sv))"

definition build_list_tag :: "'re re_ops \<Rightarrow> string \<Rightarrow> json list \<Rightarrow> 're Rule \<Rightarrow> rule_error + 're Rule" where
  "build_list_tag R k lv qr =
     (if k = ''Plans'' then build_plans lv qr
      else if k = ''TableNames'' then build_tables lv qr
      else build_conds R lv qr)"

definition string_tags :: "string list" where
  "string_tags = [''Name'', ''Description'', ''RequestIP'', ''User'', ''Query'', ''Action'']"

definition list_tags :: "string list" where
  "list_tags = [''Plans'', ''BindVarConds'', ''TableNames'']"

definition build_tag :: "'re re_ops \<Rightarrow> string \<Rightarrow> json \<Rightarrow> 're Rule \<Rightarrow> rule_error + 're Rule" where
  "build_tag R k v qr =
     (if k \<in> set string_tags then
        (case v of JString sv \<Rightarrow> build_string_tag R k sv qr | _ \<Rightarrow> Inl (WantString k))
      else if k \<in> set list_tags then
        (case v of JList lv \<Rightarrow> build_list_tag R k lv qr | _ \<Rightarrow> Inl (WantList k))
      else Inl (UnrecognizedTag k))"

fun build_tags :: "'re re_ops \<Rightarrow> (string \<times> json) list \<Rightarrow> 're Rule \<Rightarrow> rule_error + 're Rule" where
  "build_tags R [] qr = Inr qr"
| "build_tags R ((k, v) # kvs) qr =
     (case build_tag R k v qr of Inl err \<Rightarrow> Inl err | Inr qr' \<Rightarrow> build_tags R kvs qr')"

definition BuildQueryRule :: "'re re_ops \<Rightarrow> (string \<times> json) list \<Rightarrow> rule_error + 're Rule" where
  "BuildQueryRule R ruleInfo = build_tags R ruleInfo (NewQueryRule [] [] QRFail)"

text \<open>\<^verbatim>\<open>UnmarshalJSON\<close> after the decoding: the rules before an error stay in the receiver.\<close>

fun Rules_UnmarshalJSON ::
  "'re re_ops \<Rightarrow> (string \<times> json) list list \<Rightarrow> 're Rules \<Rightarrow> rule_error option \<times> 're Rules" where
  "Rules_UnmarshalJSON R [] qrs = (None, qrs)"
| "Rules_UnmarshalJSON R (ruleInfo # infos) qrs =
     (case BuildQueryRule R ruleInfo of
        Inl err \<Rightarrow> (Some err, qrs)
      | Inr qr \<Rightarrow> Rules_UnmarshalJSON R infos (Rules_Add qrs qr))"

subsection \<open>Sources of rules\<close>

type_synonym 're rule_map = "(string \<times> 're Rules) list"

definition RegisterSource :: "'re rule_map \<Rightarrow> string \<Rightarrow> 're rule_map go" where
  "RegisterSource qri ruleSource =
     (if map_of qri ruleSource \<noteq> None then Panic else Ret (AList.update ruleSource [] qri))"

definition UnRegisterSource :: "'re rule_map \<Rightarrow> string \<Rightarrow> 're rule_map" where
  "UnRegisterSource qri ruleSource = AList.delete ruleSource qri"

definition SetRules :: "'re rule_map \<Rightarrow> string \<Rightarrow> 're Rules option \<Rightarrow> rule_error option \<times> 're rule_map" where
  "SetRules qri ruleSource newRules =
     (let new = (case newRules of None \<Rightarrow> [] | Some r \<Rightarrow> r) in
      if map_of qri ruleSource \<noteq> None then (None, AList.update ruleSource (Rules_Copy new) qri)
      else (Some (SourceNotValid ruleSource), qri))"

definition Get_rules :: "'re rule_map \<Rightarrow> string \<Rightarrow> 're Rules \<times> rule_error option" where
  "Get_rules qri ruleSource =
     (case map_of qri ruleSource of
        Some ruleset \<Rightarrow> (Rules_Copy ruleset, None)
      | None \<Rightarrow> ([], Some (SourceNotValid ruleSource)))"

definition Map_FilterByPlan :: "'re re_ops \<Rightarrow> 're rule_map \<Rightarrow> string \<Rightarrow> nat \<Rightarrow> string \<Rightarrow> 're Rules" where
  "Map_FilterByPlan R qri query planid tableName =
     foldl (\<lambda>newqrs (src, rules). Rules_Append newqrs (Rules_FilterByPlan R rules query planid tableName))
       [] qri"

subsection \<open>Rules that the constructors build\<close>

fun cond_ok :: "Operator \<Rightarrow> 're bvcValue option \<Rightarrow> bool" where
  "cond_ok op None = (op = QRNoOp)"
| "cond_ok op (Some (Bvcre _)) = (op = QRMatch \<or> op = QRNoMatch)"
| "cond_ok op (Some _) = (op_code QREqual \<le> op_code op \<and> op_code op \<le> op_code QRLessEqual)"

definition rule_ok :: "'re Rule \<Rightarrow> bool" where
  "rule_ok qr \<longleftrightarrow> list_all (\<lambda>c. cond_ok (cond_op c) (cond_value c)) (conds qr)"

lemma conds_simps [simp]:
  "conds (qr\<lparr>Description := d\<rparr>) = conds qr" "conds (qr\<lparr>rule_Name := n\<rparr>) = conds qr"
  "conds (qr\<lparr>requestIP := re\<rparr>) = conds qr" "conds (qr\<lparr>rule_user := re\<rparr>) = conds qr"
  "conds (qr\<lparr>rule_query := re\<rparr>) = conds qr" "conds (qr\<lparr>plans := ps\<rparr>) = conds qr"
  "conds (qr\<lparr>tableNames := ts\<rparr>) = conds qr" "conds (qr\<lparr>act := a\<rparr>) = conds qr"
  "conds (AddPlanCond qr p) = conds qr" "conds (AddTableCond qr t) = conds qr"
  "conds (Rule_Copy qr) = conds qr" "conds (NewQueryRule d n a) = []"
  by (simp_all add: conds_def AddPlanCond_def AddTableCond_def Rule_Copy_def NewQueryRule_def)

lemma conds_add_cond [simp]:
  "conds (add_cond qr n ab mm op v) =
     conds qr @ [\<lparr>cond_name = n, onAbsent = ab, onMismatch = mm, cond_op = op, cond_value = v\<rparr>]"
  by (simp add: conds_def add_cond_def append_opt_def)

lemma AddBindVarCond_ok:
  assumes "rule_ok qr" "AddBindVarCond R qr n ab mm op v = Inr qr'"
  shows "rule_ok qr'"
proof -
  have m: "7 \<le> op_code op \<Longrightarrow> op = QRMatch \<or> op = QRNoMatch" by (cases op) auto
  show ?thesis
    using assms
    by (cases v) (auto simp: AddBindVarCond_def rule_ok_def Let_def split: if_splits option.splits dest: m)
qed

lemma build_plans_conds: "build_plans ps qr = Inr qr' \<Longrightarrow> conds qr' = conds qr"
  by (induction ps qr rule: build_plans.induct) (auto split: json.splits option.splits)

lemma build_tables_conds: "build_tables ts qr = Inr qr' \<Longrightarrow> conds qr' = conds qr"
  by (induction ts qr rule: build_tables.induct) (auto split: json.splits)

lemma build_conds_ok: "rule_ok qr \<Longrightarrow> build_conds R cs qr = Inr qr' \<Longrightarrow> rule_ok qr'"
proof (induction cs arbitrary: qr)
  case (Cons c cs)
  show ?case
  proof (cases "buildBindVarCondition c")
    case (Inl err)
    with Cons.prems show ?thesis by simp
  next
    case (Inr b)
    obtain name ab mm op v where b: "b = (name, ab, mm, op, v)" by (cases b)
    show ?thesis
    proof (cases "AddBindVarCond R qr name ab mm op v")
      case (Inl err)
      with Inr b Cons.prems show ?thesis by simp
    next
      case added: (Inr qr1)
      with Inr b Cons.prems have "build_conds R cs qr1 = Inr qr'" by simp
      then show ?thesis using AddBindVarCond_ok [OF Cons.prems(1) added] by (rule Cons.IH [rotated])
    qed
  qed
qed simp

lemma build_string_tag_conds: "build_string_tag R k sv qr = Inr qr' \<Longrightarrow> conds qr' = conds qr"
  unfolding build_string_tag_def set_cond_def SetIPCond_def SetUserCond_def SetQueryCond_def Let_def
  by (auto split: if_split_asm)

lemma build_list_tag_ok: "rule_ok qr \<Longrightarrow> build_list_tag R k lv qr = Inr qr' \<Longrightarrow> rule_ok qr'"
  unfolding build_list_tag_def
  by (auto simp: rule_ok_def split: if_split_asm dest: build_plans_conds build_tables_conds
      build_conds_ok [unfolded rule_ok_def])

lemma build_tag_ok:
  assumes "rule_ok qr" "build_tag R k v qr = Inr qr'"
  shows "rule_ok qr'"
proof -
  have "(\<exists>sv. build_string_tag R k sv qr = Inr qr') \<or> (\<exists>lv. build_list_tag R k lv qr = Inr qr')"
    using assms(2) unfolding build_tag_def by (cases v) (auto split: if_split_asm)
  then show ?thesis
  proof (elim disjE exE)
    fix sv assume "build_string_tag R k sv qr = Inr qr'"
    from build_string_tag_conds [OF this] assms(1) show ?thesis by (simp add: rule_ok_def)
  qed (rule build_list_tag_ok [OF assms(1)])
qed

lemma build_tags_ok: "rule_ok qr \<Longrightarrow> build_tags R kvs qr = Inr qr' \<Longrightarrow> rule_ok qr'"
  by (induction R kvs qr rule: build_tags.induct) (auto split: sum.splits dest: build_tag_ok)

lemma BuildQueryRule_ok: "BuildQueryRule R info = Inr qr \<Longrightarrow> rule_ok qr"
  unfolding BuildQueryRule_def by (rule build_tags_ok) (auto simp: rule_ok_def)

subsection \<open>What a rule matches\<close>

lemma newIntegralNumeric_not_float: "newIntegralNumeric v \<noteq> Inr (NFloat f)"
  by (auto simp: newIntegralNumeric_def Let_def split: option.splits)

lemma ToInt64_returns: "\<exists>r. ToInt64 v = Ret r"
  using newIntegralNumeric_not_float [of v "()"]
  by (auto simp: ToInt64_def split: sum.splits numeric.splits)

lemma getuint64_returns: "\<exists>n st. getuint64 bv = Ret (n, st) \<and> st \<noteq> QRMismatch"
proof (cases "BindVariableToValue bv")
  case (Inr v)
  then show ?thesis using ToUint64_returns [of v] by (auto simp: getuint64_def split: sum.splits)
qed (simp add: getuint64_def)

lemma getint64_returns: "\<exists>n st. getint64 bv = Ret (n, st) \<and> st \<noteq> QRMismatch"
proof (cases "BindVariableToValue bv")
  case (Inr v)
  then show ?thesis using ToInt64_returns [of v] by (auto simp: getint64_def split: sum.splits)
qed (simp add: getint64_def)

lemma bvc_eval_returns: "cond_ok op (Some v) \<Longrightarrow> \<exists>b. bvc_eval R v bv op m = Ret b"
  using getuint64_returns [of bv] getint64_returns [of bv]
  by (cases v; cases op)
    (auto simp: bvcuint64_eval_def bvcint64_eval_def bvcstring_eval_def bvcre_eval_def on_status_def
      split: prod.split)

lemma bvMatch_returns: "cond_ok (cond_op c) (cond_value c) \<Longrightarrow> \<exists>b. bvMatch R c bvs = Ret b"
proof (cases "bvs (cond_name c)")
  case (Some bv)
  assume ok: "cond_ok (cond_op c) (cond_value c)"
  show ?thesis
  proof (cases "cond_value c")
    case None
    with Some ok show ?thesis by (simp add: bvMatch_def)
  next
    case (Some v)
    with \<open>bvs (cond_name c) = Some bv\<close> ok bvc_eval_returns [of "cond_op c" v R bv "onMismatch c"]
    show ?thesis by (simp add: bvMatch_def)
  qed
qed (simp add: bvMatch_def)

lemma conds_match_eq:
  "list_all (\<lambda>c. cond_ok (cond_op c) (cond_value c)) cs \<Longrightarrow>
     conds_match R cs bvs = Ret (list_all (\<lambda>c. bvMatch R c bvs = Ret True) cs)"
proof (induction cs)
  case (Cons c cs)
  then obtain b where "bvMatch R c bvs = Ret b" using bvMatch_returns [of c R bvs] by auto
  with Cons show ?case by (cases b) simp_all
qed simp

definition client_matches ::
  "'re re_ops \<Rightarrow> 're Rule \<Rightarrow> string \<Rightarrow> string \<Rightarrow> (string \<rightharpoonup> BindVariable) \<Rightarrow> bool" where
  "client_matches R qr ip user bvs \<longleftrightarrow>
     reMatch R (nr_Regexp (requestIP qr)) ip \<and> reMatch R (nr_Regexp (rule_user qr)) user \<and>
     list_all (\<lambda>c. bvMatch R c bvs = Ret True) (conds qr)"

definition query_matches :: "'re re_ops \<Rightarrow> 're Rule \<Rightarrow> string \<Rightarrow> nat \<Rightarrow> string \<Rightarrow> bool" where
  "query_matches R qr query planid tableName \<longleftrightarrow>
     reMatch R (nr_Regexp (rule_query qr)) query \<and> planMatch (plans qr) planid \<and>
     tableMatch (tableNames qr) tableName"

lemma Rule_GetAction_eq:
  "rule_ok qr \<Longrightarrow>
     Rule_GetAction R qr ip user bvs = Ret (if client_matches R qr ip user bvs then act qr else QRContinue)"
  by (simp add: Rule_GetAction_def client_matches_def rule_ok_def conds_match_eq)

lemma Rule_FilterByPlan_eq:
  "Rule_FilterByPlan R qr query planid tableName =
     (if query_matches R qr query planid tableName
      then Some (qr\<lparr>rule_query := no_regexp, plans := None, tableNames := None\<rparr>) else None)"
  by (simp add: Rule_FilterByPlan_def query_matches_def Rule_Copy_def)

lemma stripped_rule [simp]:
  "client_matches R (qr\<lparr>rule_query := n, plans := p, tableNames := t\<rparr>) ip user bvs = client_matches R qr ip user bvs"
  "rule_ok (qr\<lparr>rule_query := n, plans := p, tableNames := t\<rparr>) = rule_ok qr"
  by (simp_all add: client_matches_def rule_ok_def)

lemma filtered_action:
  "list_all rule_ok qrs \<Longrightarrow>
   Rules_GetAction R (Rules_FilterByPlan R qrs query planid tableName) ip user bvs =
     Ret (case find (\<lambda>qr. query_matches R qr query planid tableName \<and> client_matches R qr ip user bvs \<and>
                 act qr \<noteq> QRContinue) qrs of
            None \<Rightarrow> (QRContinue, [])
          | Some qr \<Rightarrow> (act qr, Description qr))"
  by (induction qrs)
    (auto simp: Rules_FilterByPlan_def map_filter_simps Rule_FilterByPlan_eq Rule_GetAction_eq)

subsection \<open>Conditions on integers\<close>

definition int_bind_var :: "BindVariable \<Rightarrow> int \<Rightarrow> bool" where
  "int_bind_var bv n \<longleftrightarrow> int_value \<lparr>vtyp = bv_Type bv, vval = bv_Value bv\<rparr> n"

fun compare_op :: "Operator \<Rightarrow> int \<Rightarrow> int \<Rightarrow> bool" where
  "compare_op QREqual a b = (a = b)"
| "compare_op QRNotEqual a b = (a \<noteq> b)"
| "compare_op QRLessThan a b = (a < b)"
| "compare_op QRGreaterEqual a b = (a \<ge> b)"
| "compare_op QRGreaterThan a b = (a > b)"
| "compare_op QRLessEqual a b = (a \<le> b)"
| "compare_op _ a b = False"

lemma sint_word64: "sint (word_of_int n :: uint64) = int64 n"
  by (simp add: signed_of_int int64_def)

lemma int_bind_var_numeric:
  assumes "int_bind_var bv n"
  shows "\<exists>v num. BindVariableToValue bv = Inr v \<and> (newIntegralNumeric v :: value_error + unit numeric) = Inr num \<and>
    (num = NInt n \<and> - (2 ^ 63) \<le> n \<and> n < 2 ^ 63 \<or> num = NUint (word_of_int n) \<and> 0 \<le> n \<and> n < 2 ^ 64)"
proof -
  consider (s) "IsSigned (bv_Type bv)" "- (2 ^ 63) \<le> n" "n < 2 ^ 63" "bv_Value bv = format_int n"
    | (u) "IsUnsigned (bv_Type bv)" "0 \<le> n" "n < 2 ^ 64" "bv_Value bv = format_int n"
    using assms by (auto simp: int_bind_var_def int_value_def)
  then show ?thesis
  proof cases
    case s
    then have "parse_int 64 (format_int n) = Some n" by (intro parse_int_format_int) auto
    moreover have "bv_Type bv \<noteq> T_Tuple" using s(1) by (auto simp: IsSigned_def flag_defs)
    ultimately show ?thesis using s signed_types [OF s(1)]
      by (simp add: BindVariableToValue_def newIntegralNumeric_def Value_ToString_def)
  next
    case u
    have "nat n < 2 ^ 64" using u by (simp add: nat_less_iff)
    then have "parse_uint 64 (format_int n) = Some (nat n)" using u by (simp add: format_int_nat)
    moreover have "bv_Type bv \<noteq> T_Tuple" using u(1) by (auto simp: IsUnsigned_def flag_defs)
    ultimately show ?thesis using u unsigned_types [OF u(1)]
      by (simp add: BindVariableToValue_def newIntegralNumeric_def Value_ToString_def)
  qed
qed

lemma getint64_int:
  assumes "int_bind_var bv n"
  shows "getint64 bv = Ret (if n < 2 ^ 63 then (n, QROK) else (0, QROutOfRange))" "n < 2 ^ 64"
proof -
  obtain v num where v: "BindVariableToValue bv = Inr v" "(newIntegralNumeric v :: value_error + unit numeric) = Inr num"
    and num: "num = NInt n \<and> - (2 ^ 63) \<le> n \<and> n < 2 ^ 63 \<or> num = NUint (word_of_int n) \<and> 0 \<le> n \<and> n < 2 ^ 64"
    using int_bind_var_numeric [OF assms] by blast
  from num v int64_wrap [of n] show "getint64 bv = Ret (if n < 2 ^ 63 then (n, QROK) else (0, QROutOfRange))"
    by (auto simp: getint64_def ToInt64_def sint_word64)
  from num show "n < 2 ^ 64" by auto
qed

lemma getuint64_int:
  assumes "int_bind_var bv n"
  shows "getuint64 bv = Ret (if 0 \<le> n then (word_of_int n, QROK) else (0, QROutOfRange))"
    "0 \<le> n \<Longrightarrow> uint (word_of_int n :: uint64) = n"
proof -
  obtain v num where v: "BindVariableToValue bv = Inr v" "(newIntegralNumeric v :: value_error + unit numeric) = Inr num"
    and num: "num = NInt n \<and> - (2 ^ 63) \<le> n \<and> n < 2 ^ 63 \<or> num = NUint (word_of_int n) \<and> 0 \<le> n \<and> n < 2 ^ 64"
    using int_bind_var_numeric [OF assms] by blast
  from num v show "getuint64 bv = Ret (if 0 \<le> n then (word_of_int n, QROK) else (0, QROutOfRange))"
    by (auto simp: getuint64_def ToUint64_def)
  from num show "0 \<le> n \<Longrightarrow> uint (word_of_int n :: uint64) = n"
    by (auto simp: unsigned_of_int take_bit_int_eq_self)
qed

subsection \<open>Properties\<close>

text \<open>
  C33. The rules of a query plan, filtered once when the plan is made, act on each execution as the
  whole list of rules would: the action is that of the first rule whose conditions on query, plan,
  table, client and bind variables all hold, and there is a result (no panic) for every rule that
  \<^verbatim>\<open>BuildQueryRule\<close> can make.
\<close>

theorem filtered_rules_act_alike:
  assumes "list_all (\<lambda>qr. \<exists>info. BuildQueryRule R info = Inr qr) qrs"
  shows "Rules_GetAction R (Rules_FilterByPlan R qrs query planid tableName) ip user bvs =
    Ret (case find (\<lambda>qr. query_matches R qr query planid tableName \<and> client_matches R qr ip user bvs \<and>
                act qr \<noteq> QRContinue) qrs of
           None \<Rightarrow> (QRContinue, [])
         | Some qr \<Rightarrow> (act qr, Description qr))"
  using assms by (intro filtered_action) (auto simp: list_all_iff dest: BuildQueryRule_ok)

theorem filtered_rules_act_alike_witness:
  "Rules_GetAction (undefined :: unit re_ops)
     (Rules_FilterByPlan undefined [NewQueryRule [] [] QRFail] ''select 1'' 0 ''t'') ''ip'' ''u'' (\<lambda>_. None) =
   Ret (QRFail, [])"
proof -
  have "BuildQueryRule (undefined :: unit re_ops) [] = Inr (NewQueryRule [] [] QRFail)"
    by (simp add: BuildQueryRule_def)
  then show ?thesis
    using filtered_rules_act_alike [of "undefined :: unit re_ops" "[NewQueryRule [] [] QRFail]" "''select 1''" 0
        "''t''" "''ip''" "''u''" "\<lambda>_. None"]
    by (simp add: query_matches_def client_matches_def reMatch_def planMatch_def tableMatch_def conds_def
        NewQueryRule_def no_regexp_def) blast
qed

text \<open>
  A condition with an integer operand, signed or unsigned, compares the numbers themselves, for
  every integer bind variable: also when the bind variable does not fit the type of the operand.
\<close>

theorem integer_conditions_exact:
  assumes "int_bind_var bv n" "op_code QREqual \<le> op_code op" "op_code op \<le> op_code QRLessEqual"
    "- (2 ^ 63) \<le> k" "k < 2 ^ 63"
  shows "bvcint64_eval k bv op mismatch = Ret (compare_op op n k) \<and>
    bvcuint64_eval u bv op mismatch = Ret (compare_op op n (uint u))"
proof -
  have neg: "n < uint u" if "n < 0" using that by (rule less_le_trans) simp
  note facts = getint64_int [OF assms(1)] getuint64_int [OF assms(1)]
  have "bvcint64_eval k bv op mismatch = Ret (compare_op op n k)"
    using assms facts(1) by (cases op) (auto simp: bvcint64_eval_def on_status_def)
  moreover have "bvcuint64_eval u bv op mismatch = Ret (compare_op op n (uint u))"
    using assms facts(3,4) neg
    by (cases "0 \<le> n"; cases op)
      (auto simp: bvcuint64_eval_def on_status_def word_uint_eq_iff word_less_def word_le_def)
  ultimately show ?thesis by simp
qed

theorem integer_conditions_exact_witness:
  "bvcint64_eval 5 (ValueBindVariable (NewUint64 (2 ^ 64 - 1))) QRGreaterThan False = Ret True"
proof -
  have "unat (2 ^ 64 - 1 :: uint64) = 2 ^ 64 - 1" by simp
  then have "int_bind_var (ValueBindVariable (NewUint64 (2 ^ 64 - 1))) (2 ^ 64 - 1)"
    by (simp add: int_bind_var_def int_value_def ValueBindVariable_def NewUint64_def MakeTrusted_def type_tests
        format_int_nat)
  from integer_conditions_exact [OF this, of QRGreaterThan 5 False] show ?thesis by simp
qed

text \<open>
  The value of \<^verbatim>\<open>onMismatch\<close> plays no role for an integer operand: a bind variable of another type is
  taken for one that is out of range.
\<close>

theorem integer_conditions_ignore_onMismatch:
  "bvcint64_eval k bv op True = bvcint64_eval k bv op False \<and>
   bvcuint64_eval u bv op True = bvcuint64_eval u bv op False"
proof -
  obtain n st where "getint64 bv = Ret (n, st)" "st \<noteq> QRMismatch" using getint64_returns by blast
  moreover obtain m st' where "getuint64 bv = Ret (m, st')" "st' \<noteq> QRMismatch" using getuint64_returns by blast
  ultimately show ?thesis
    by (cases st; cases st'; cases op) (simp_all add: bvcint64_eval_def bvcuint64_eval_def on_status_def)
qed

text \<open>
  \<^verbatim>\<open>Delete\<close> of a rule that is neither the first nor the last one returns that rule but keeps it; the
  last rule is gone.
\<close>

theorem Rules_Delete_wrong_rule:
  "Rules_Delete [NewQueryRule [] ''a'' QRFail, NewQueryRule [] ''b'' QRFail, NewQueryRule [] ''c'' QRFail] ''b'' =
     (Some (NewQueryRule [] ''b'' QRFail), [NewQueryRule [] ''a'' QRFail, NewQueryRule [] ''b'' QRFail])"
  by (simp add: Rules_Delete_def delete_at_def NewQueryRule_def)

end
