(* ===== verification/Sql_Comments.thy ===== *)
theory Sql_Comments
  imports Go_Strings "HOL-Library.AList"
begin

text \<open>
  Comments around and inside SQL text, \<^verbatim>\<open>src/vt/sqlparser/comments.go\<close>. Text is a list of bytes; the loops
  that move an index forward or backward through the text are recursions on the part that is left.
  A decimal digit in the version of a MySQL comment is an ASCII digit here.

  \<^verbatim>\<open>StripComments\<close> can run forever, so its loop is a partial function: \<open>None\<close> is a loop that does not end.
\<close>

subsection \<open>Searching in text\<close>

fun index_of :: "string \<Rightarrow> string \<Rightarrow> nat option" where
  "index_of pat [] = (if pat = [] then Some 0 else None)"
| "index_of pat (c # cs) = (if starts_with pat (c # cs) then Some 0 else map_option Suc (index_of pat cs))"

fun last_index :: "string \<Rightarrow> string \<Rightarrow> nat option" where
  "last_index pat [] = (if pat = [] then Some 0 else None)"
| "last_index pat (c # cs) =
     (case last_index pat cs of
        Some i \<Rightarrow> Some (Suc i)
      | None \<Rightarrow> if starts_with pat (c # cs) then Some 0 else None)"

definition trim_left :: "string \<Rightarrow> string" where
  "trim_left s = trim_front white_space (length s) s"

definition trim_right :: "string \<Rightarrow> string" where
  "trim_right s = rev (trim_front (map rev white_space) (length s) (rev s))"

text \<open>\<^verbatim>\<open>strings.IndexFunc(s, isNonSpace)\<close>; \<open>None\<close> is -1.\<close>

definition index_nonspace :: "string \<Rightarrow> nat option" where
  "index_nonspace s = (if trim_left s = [] then None else Some (length s - length (trim_left s)))"

text \<open>
  The width of the last character of a text in UTF-8, as \<^verbatim>\<open>utf8.DecodeLastRuneInString\<close> finds it: a byte
  that ends no valid encoding counts as a character of its own.
\<close>

definition between :: "nat \<Rightarrow> nat \<Rightarrow> char \<Rightarrow> bool" where
  "between lo hi c \<longleftrightarrow> lo \<le> of_char c \<and> of_char c \<le> hi"

fun utf8_valid :: "string \<Rightarrow> bool" where
  "utf8_valid [a, b] = (between 0xC2 0xDF a \<and> between 0x80 0xBF b)"
| "utf8_valid [a, b, c] =
     ((between 0xE0 0xE0 a \<and> between 0xA0 0xBF b \<or> between 0xE1 0xEC a \<and> between 0x80 0xBF b \<or>
       between 0xED 0xED a \<and> between 0x80 0x9F b \<or> between 0xEE 0xEF a \<and> between 0x80 0xBF b) \<and>
      between 0x80 0xBF c)"
| "utf8_valid [a, b, c, d] =
     ((between 0xF0 0xF0 a \<and> between 0x90 0xBF b \<or> between 0xF1 0xF3 a \<and> between 0x80 0xBF b \<or>
       between 0xF4 0xF4 a \<and> between 0x80 0x8F b) \<and>
      between 0x80 0xBF c \<and> between 0x80 0xBF d)"
| "utf8_valid _ = False"

definition last_rune_width :: "string \<Rightarrow> nat" where
  "last_rune_width s =
     (case find (\<lambda>w. w \<le> length s \<and> utf8_valid (drop (length s - w) s)) [2, 3, 4] of
        None \<Rightarrow> 1
      | Some w \<Rightarrow> w)"

text \<open>\<^verbatim>\<open>strings.LastIndexFunc(s, isNonSpace) + 1\<close>: one more than where the last visible character starts.\<close>

definition last_nonspace :: "string \<Rightarrow> nat" where
  "last_nonspace s =
     (let t = trim_right s in if t = [] then 0 else length t - last_rune_width t + 1)"

subsection \<open>Facts about trimming\<close>

definition spaces :: "string \<Rightarrow> bool" where
  "spaces s \<longleftrightarrow> (\<exists>ws. set ws \<subseteq> set white_space \<and> s = concat ws)"

lemma spaces_Nil [simp]: "spaces []"
  unfolding spaces_def by (intro exI [of _ "[]"]) simp

lemma starts_with_take: "starts_with p s \<Longrightarrow> s = p @ drop (length p) s"
  by (induction p s rule: starts_with.induct) auto

lemma starts_with_append [simp]: "starts_with p (p @ s)"
  by (induction p) auto

lemma trim_front_split: "\<exists>ws. set ws \<subseteq> set W \<and> s = concat ws @ trim_front W n s"
proof (induction n arbitrary: s)
  case 0
  show ?case by (intro exI [of _ "[]"]) simp
next
  case (Suc n)
  show ?case
  proof (cases "leading_space W s")
    case None
    then show ?thesis by (intro exI [of _ "[]"]) simp
  next
    case (Some w)
    then have w: "w \<in> set W" "s = w @ drop (length w) s"
      by (auto simp: leading_space_def find_Some_iff intro: starts_with_take)
    obtain ws where ws: "set ws \<subseteq> set W" "drop (length w) s = concat ws @ trim_front W n (drop (length w) s)"
      using Suc.IH by blast
    then have "s = concat (w # ws) @ trim_front W (Suc n) s" using w Some by simp
    with ws(1) w(1) show ?thesis by (intro exI [of _ "w # ws"]) auto
  qed
qed

lemma trim_left_split: "\<exists>a. spaces a \<and> s = a @ trim_left s"
  using trim_front_split [of white_space s "length s"] by (auto simp: spaces_def trim_left_def)

lemma trim_right_split: "\<exists>a. spaces a \<and> s = trim_right s @ a"
proof -
  obtain ws where ws: "set ws \<subseteq> rev ` set white_space"
    "rev s = concat ws @ trim_front (map rev white_space) (length s) (rev s)"
    using trim_front_split [of "map rev white_space" "rev s" "length s"] by auto
  then have "s = trim_right s @ concat (map rev (rev ws))"
    unfolding trim_right_def by (metis rev_append rev_concat rev_map rev_rev_ident)
  moreover have "set (map rev (rev ws)) \<subseteq> set white_space" using ws(1) by auto
  ultimately show ?thesis unfolding spaces_def by blast
qed

lemma length_trim_left: "length (trim_left s) \<le> length s"
  using trim_left_split [of s] by (metis le_add2 length_append)

lemma length_trim_right: "length (trim_right s) \<le> length s"
  using trim_right_split [of s] by (metis le_add1 length_append)

lemma last_rune_width_bounds: "s \<noteq> [] \<Longrightarrow> 1 \<le> last_rune_width s \<and> last_rune_width s \<le> length s"
  by (auto simp: last_rune_width_def Suc_le_eq split: if_splits)

lemma last_nonspace_le: "last_nonspace s \<le> length s"
proof (cases "trim_right s = []")
  case False
  with last_rune_width_bounds [OF this] length_trim_right [of s] show ?thesis
    by (auto simp: last_nonspace_def Let_def)
qed (simp add: last_nonspace_def)

lemma index_of_le: "index_of pat s = Some i \<Longrightarrow> i + length pat \<le> length s"
proof (induction pat s arbitrary: i rule: index_of.induct)
  case (2 pat c cs)
  show ?case
  proof (cases "starts_with pat (c # cs)")
    case True
    with 2 starts_with_take [OF True] show ?thesis
      by (metis add_0 index_of.simps(2) le_add1 length_append option.inject)
  next
    case False
    with 2 show ?thesis by fastforce
  qed
qed (auto split: if_splits)

lemma last_index_less: "last_index pat s = Some i \<Longrightarrow> pat \<noteq> [] \<Longrightarrow> i < length s"
  by (induction pat s arbitrary: i rule: last_index.induct) (auto split: option.splits if_splits)

subsection \<open>Comments at the margins\<close>

function lead_loop :: "string \<Rightarrow> nat \<Rightarrow> bool \<Rightarrow> nat \<times> bool" where
  "lead_loop s pos hasComment =
     (if s = [] then (pos, hasComment)
      else
        (case index_nonspace s of
           None \<Rightarrow> (pos, hasComment)
         | Some off \<Rightarrow>
             (let remainingText = drop off s in
              if length remainingText < 4 \<or> take 2 remainingText \<noteq> ''/*'' then (pos + off, hasComment)
              else
                (case index_of ''*/'' (drop 2 remainingText) of
                   None \<Rightarrow> (pos + off, hasComment)
                 | Some k \<Rightarrow> lead_loop (drop (4 + k) remainingText) (pos + off + (4 + k)) True))))"
  by pat_completeness auto
termination by (relation "measure (\<lambda>(s, pos, h). length s)") auto

definition leadingCommentEnd :: "string \<Rightarrow> nat" where
  "leadingCommentEnd text = (case lead_loop text 0 False of (pos, hasComment) \<Rightarrow> if hasComment then pos else 0)"

function trail_loop :: "string \<Rightarrow> bool \<Rightarrow> nat \<times> bool" where
  "trail_loop s hasComment =
     (if s = [] then (0, hasComment)
      else
        (let n = last_nonspace s in
         if n = 0 then (length s, hasComment)
         else if n < 4 \<or> drop (n - 2) (take n s) \<noteq> ''*/'' then (n, hasComment)
         else
           (case last_index ''/*'' (take (n - 2) s) of
              None \<Rightarrow> (n, hasComment)
            | Some k \<Rightarrow> trail_loop (take k s) True)))"
  by pat_completeness auto
termination
  by (relation "measure (\<lambda>(s, h). length s)") (auto dest!: last_index_less)

definition trailingCommentStart :: "string \<Rightarrow> nat" where
  "trailingCommentStart text =
     (case trail_loop text False of (reducedLen, hasComment) \<Rightarrow>
        if hasComment then reducedLen else length text)"

record MarginComments =
  Leading :: string
  Trailing :: string

text \<open>The slice expressions panic when the indices are out of order.\<close>

definition SplitMarginComments :: "string \<Rightarrow> (string \<times> MarginComments) go" where
  "SplitMarginComments sql =
     (let trailingStart = trailingCommentStart sql;
          leadingEnd = leadingCommentEnd (take trailingStart sql) in
      if trailingStart > length sql \<or> leadingEnd > trailingStart then Panic
      else
        Ret (trim_right (trim_left (drop leadingEnd (take trailingStart sql))),
             \<lparr>Leading = trim_left (take leadingEnd sql), Trailing = trim_right (drop trailingStart sql)\<rparr>))"

declare lead_loop.simps [simp del] trail_loop.simps [simp del]

lemma lead_loop_le: "lead_loop s pos h = (p, h') \<Longrightarrow> p \<le> pos + length s"
proof (induction s pos h arbitrary: p h' rule: lead_loop.induct)
  case (1 s pos h)
  have off: "off \<le> length s" if "index_nonspace s = Some off" for off
    using that by (auto simp: index_nonspace_def split: if_splits)
  have k: "4 + k \<le> length (drop off s)" if "index_of ''*/'' (drop 2 (drop off s)) = Some k" for off k
    using index_of_le [OF that] by simp
  show ?case
  proof (cases "s = [] \<or> index_nonspace s = None")
    case True
    with 1(2) show ?thesis by (subst (asm) lead_loop.simps) (auto split: option.splits)
  next
    case False
    then obtain o' where o': "s \<noteq> []" "index_nonspace s = Some o'" by auto
    show ?thesis
    proof (cases "length (drop o' s) < 4 \<or> take 2 (drop o' s) \<noteq> ''/*'' \<or> index_of ''*/'' (drop 2 (drop o' s)) = None")
      case True
      with o' 1(2) have "p = pos + o'" by (subst (asm) lead_loop.simps) (auto simp: Let_def split: if_splits option.splits)
      with off [OF o'(2)] show ?thesis by simp
    next
      case False
      then obtain k' where k': "index_of ''*/'' (drop 2 (drop o' s)) = Some k'" by auto
      with False o' 1(2) have "lead_loop (drop (4 + k') (drop o' s)) (pos + o' + (4 + k')) True = (p, h')"
        by (subst (asm) lead_loop.simps) (auto simp: Let_def)
      from 1(1) [OF o'(1) o'(2) refl _ k' this] False k [OF k'] off [OF o'(2)] show ?thesis by auto
    qed
  qed
qed

lemma trail_loop_le: "trail_loop s h = (n, h') \<Longrightarrow> n \<le> length s"
proof (induction s h arbitrary: n h' rule: trail_loop.induct)
  case (1 s h)
  show ?case
  proof (cases "s = [] \<or> last_nonspace s = 0 \<or> last_nonspace s < 4 \<or>
      drop (last_nonspace s - 2) (take (last_nonspace s) s) \<noteq> ''*/'' \<or>
      last_index ''/*'' (take (last_nonspace s - 2) s) = None")
    case True
    with 1(2) last_nonspace_le [of s] show ?thesis
      by (subst (asm) trail_loop.simps) (auto simp: Let_def split: if_splits)
  next
    case False
    then obtain k where k: "last_index ''/*'' (take (last_nonspace s - 2) s) = Some k" by auto
    with False 1(2) have "trail_loop (take k s) True = (n, h')"
      by (subst (asm) trail_loop.simps) (auto simp: Let_def)
    from 1(1) [OF _ refl _ _ k this] False show ?thesis by auto
  qed
qed

lemma leadingCommentEnd_le: "leadingCommentEnd s \<le> length s"
  using lead_loop_le [of s 0 False] by (auto simp: leadingCommentEnd_def split: prod.split)

lemma trailingCommentStart_le: "trailingCommentStart s \<le> length s"
  using trail_loop_le [of s False] by (auto simp: trailingCommentStart_def split: prod.split)

subsection \<open>Stripping comments\<close>

definition hasCommentPrefix :: "string \<Rightarrow> bool" where
  "hasCommentPrefix sql \<longleftrightarrow>
     length sql > 1 \<and>
     (sql ! 0 = CHR ''/'' \<and> sql ! 1 = CHR ''*'' \<or> sql ! 0 = CHR ''-'' \<and> sql ! 1 = CHR ''-'')"

lemma trim_space_eq: "trim_space s = trim_right (trim_left s)"
  by (simp add: trim_space_def trim_right_def trim_left_def Let_def)

lemma length_trim_space: "length (trim_space s) \<le> length s"
  using length_trim_right [of "trim_left s"] length_trim_left [of s] by (simp add: trim_space_eq)

function strip_leading :: "string \<Rightarrow> string" where
  "strip_leading sql =
     (if \<not> hasCommentPrefix sql then sql
      else if sql ! 0 = CHR ''/'' then
        (case index_of ''*/'' sql of
           None \<Rightarrow> sql
         | Some index \<Rightarrow>
             if index \<le> 1 then sql
             else if length sql > 2 \<and> sql ! 2 = CHR ''!'' then sql
             else strip_leading (trim_space (drop (index + 2) sql)))
      else
        (case index_of [char_of (10 :: nat)] sql of
           None \<Rightarrow> []
         | Some index \<Rightarrow> strip_leading (trim_space (drop (index + 1) sql))))"
  by pat_completeness auto
termination
proof (relation "measure length", goal_cases)
  case (2 sql index)
  then have "length sql > 0" by (auto simp: hasCommentPrefix_def)
  with length_trim_space [of "drop (index + 2) sql"] show ?case unfolding in_measure length_drop by linarith
next
  case (3 sql index)
  then have "length sql > 0" by (auto simp: hasCommentPrefix_def)
  with length_trim_space [of "drop (index + 1) sql"] show ?case unfolding in_measure length_drop by linarith
qed simp

definition StripLeadingComments :: "string \<Rightarrow> string" where
  "StripLeadingComments sql = strip_leading (trim_space sql)"

partial_function (option) strip_loop :: "string \<Rightarrow> string option" where
  "strip_loop sql =
     (case index_of ''/*'' sql of
        None \<Rightarrow> Some sql
      | Some start \<Rightarrow>
          (case index_of ''*/'' sql of
             None \<Rightarrow> Some sql
           | Some end' \<Rightarrow>
               if end' \<le> 1 then Some sql
               else strip_loop (take start sql @ drop (end' + 2) sql)))"

definition StripComments :: "string \<Rightarrow> string option" where
  "StripComments sql = map_option trim_space (strip_loop (StripLeadingComments sql))"

subsection \<open>Comments for MySQL\<close>

text \<open>
  The digits of a version number are the ASCII ones: comments that start with one of the other decimal digits of
  Unicode, which \<^verbatim>\<open>unicode.IsDigit\<close> accepts too, are outside the model.
\<close>

definition version_end :: "string \<Rightarrow> nat option" where
  "version_end sql = (let i = min (length (takeWhile is_digit sql)) 5 in if i < length sql then Some i else None)"

text \<open>An index of -1 makes the slice expression \<^verbatim>\<open>sql[0:endOfVersionIndex]\<close> panic.\<close>

definition ExtractMysqlComment :: "string \<Rightarrow> (string \<times> string) go" where
  "ExtractMysqlComment comment =
     (if length comment < 5 then Panic
      else
        (let sql = take (length comment - 5) (drop 3 comment) in
         case version_end sql of
           None \<Rightarrow> Panic
         | Some i \<Rightarrow> Ret (take i sql, trim_space (drop i sql))))"

lemma ExtractMysqlComment_length:
  "ExtractMysqlComment s = Ret (version, sql) \<Longrightarrow> length sql + 5 \<le> length s"
proof -
  assume "ExtractMysqlComment s = Ret (version, sql)"
  then obtain i where "5 \<le> length s" "sql = trim_space (drop i (take (length s - 5) (drop 3 s)))"
    by (auto simp: ExtractMysqlComment_def Let_def split: if_splits option.splits)
  with length_trim_space [of "drop i (take (length s - 5) (drop 3 s))"] show ?thesis by auto
qed

subsection \<open>Directives\<close>

datatype directive_value = DBool bool | DInt int | DString string

fun split_word :: "string \<Rightarrow> string \<times> string" where
  "split_word [] = ([], [])"
| "split_word (c # cs) =
     (if leading_space white_space (c # cs) \<noteq> None then ([], c # cs)
      else (case split_word cs of (w, r) \<Rightarrow> (c # w, r)))"

text \<open>\<^verbatim>\<open>strings.Fields\<close>: a text has no more words than bytes.\<close>

fun fields_n :: "nat \<Rightarrow> string \<Rightarrow> string list" where
  "fields_n 0 s = []"
| "fields_n (Suc n) s =
     (let t = trim_left s in
      if t = [] then []
      else (case split_word t of (w, r) \<Rightarrow> w # fields_n n r))"

definition fields :: "string \<Rightarrow> string list" where
  "fields s = fields_n (length s) s"

definition parse_bool :: "string \<Rightarrow> bool option" where
  "parse_bool s =
     (if s \<in> set [''1'', ''t'', ''T'', ''true'', ''TRUE'', ''True''] then Some True
      else if s \<in> set [''0'', ''f'', ''F'', ''false'', ''FALSE'', ''False''] then Some False
      else None)"

definition directive :: "string \<Rightarrow> string \<times> directive_value" where
  "directive d =
     (case index_of ''='' d of
        None \<Rightarrow> (d, DBool True)
      | Some sep \<Rightarrow>
          (let strVal = drop (sep + 1) d; name = take sep d in
           case parse_int 64 strVal of
             Some i \<Rightarrow> (name, DInt i)
           | None \<Rightarrow>
               (case parse_bool strVal of
                  Some b \<Rightarrow> (name, DBool b)
                | None \<Rightarrow> (name, DString strVal))))"

definition commentDirectivePreamble :: string where
  "commentDirectivePreamble = ''/*vt+''"

type_synonym directives = "(string \<times> directive_value) list"

fun extract_directives :: "string list \<Rightarrow> directives option \<Rightarrow> directives option go" where
  "extract_directives [] vals = Ret vals"
| "extract_directives (comment # comments) vals =
     (if length comment < 5 then Panic
      else if take 5 comment \<noteq> commentDirectivePreamble then extract_directives comments vals
      else
        (let ds = map directive (butlast (tl (fields comment)));
             vs = (case vals of None \<Rightarrow> [] | Some vs \<Rightarrow> vs) in
         extract_directives comments (Some (foldl (\<lambda>m (k, v). AList.update k v m) vs ds))))"

definition ExtractCommentDirectives :: "string list option \<Rightarrow> directives option go" where
  "ExtractCommentDirectives comments =
     (case comments of None \<Rightarrow> Ret None | Some cs \<Rightarrow> extract_directives cs None)"

definition IsSet :: "directives option \<Rightarrow> string \<Rightarrow> bool" where
  "IsSet d key =
     (case d of
        None \<Rightarrow> False
      | Some m \<Rightarrow>
          (case map_of m key of
             None \<Rightarrow> False
           | Some (DBool b) \<Rightarrow> b
           | Some (DInt i) \<Rightarrow> i = 1
           | Some (DString _) \<Rightarrow> False))"

subsection \<open>A text on which the loop does not end\<close>

definition closed_then_open :: "nat \<Rightarrow> string" where
  "closed_then_open n = ''xx*/'' @ replicate (Suc n) CHR '' '' @ ''/*''"

lemma index_of_replicate:
  "index_of ''/*'' (replicate n CHR '' '' @ ''/*'') = Some n"
  by (induction n) auto

lemma closed_then_open_index:
  "index_of ''/*'' (closed_then_open n) = Some (5 + n)" "index_of ''*/'' (closed_then_open n) = Some 2"
  using index_of_replicate [of "Suc n"] by (simp_all add: closed_then_open_def)

lemma closed_then_open_step:
  "take (5 + n) (closed_then_open n) @ drop (2 + 2) (closed_then_open n) = closed_then_open (2 * n + 1)"
proof -
  have "closed_then_open n = (''xx*/'' @ replicate (Suc n) CHR '' '') @ ''/*''"
    by (simp add: closed_then_open_def)
  moreover have "5 + n = length (''xx*/'' @ replicate (Suc n) CHR '' '')" by simp
  ultimately have "take (5 + n) (closed_then_open n) = ''xx*/'' @ replicate (Suc n) CHR '' ''"
    by (metis append_eq_conv_conj)
  moreover have "drop (2 + 2) (closed_then_open n) = replicate (Suc n) CHR '' '' @ ''/*''"
    by (simp add: closed_then_open_def)
  moreover have "replicate (Suc n) CHR '' '' @ replicate (Suc n) CHR '' '' = replicate (Suc (2 * n + 1)) CHR '' ''"
    by (simp only: replicate_add [symmetric]) (simp add: mult_2)
  ultimately show ?thesis unfolding closed_then_open_def by (metis append_assoc)
qed

lemma strip_loop_not_open: "strip_loop sql = Some r \<Longrightarrow> sql \<noteq> closed_then_open n"
proof (induction arbitrary: n rule: strip_loop.raw_induct [rotated 1, consumes 1, case_names step])
  case (step loop sql r)
  show ?case
  proof
    assume sql: "sql = closed_then_open n"
    then have "loop (closed_then_open (2 * n + 1)) = Some r"
      using step.hyps closed_then_open_index closed_then_open_step [of n] by simp
    from step.IH [OF this, of "2 * n + 1"] show False by simp
  qed
qed

lemma strip_loop_diverges: "strip_loop (closed_then_open n) = None"
  using strip_loop_not_open [of "closed_then_open n" _ n] by (cases "strip_loop (closed_then_open n)") auto

subsection \<open>Properties\<close>

text \<open>
  \<^verbatim>\<open>SplitMarginComments\<close> never panics and loses nothing but white space: leading comments, query and
  trailing comments, in this order and with white space around them, are the text.
\<close>

theorem SplitMarginComments_lossless:
  "\<exists>query m a b c d. SplitMarginComments sql = Ret (query, m) \<and>
     sql = a @ Leading m @ b @ query @ c @ Trailing m @ d \<and> spaces a \<and> spaces b \<and> spaces c \<and> spaces d"
proof -
  define e where "e = trailingCommentStart sql"
  define l where "l = leadingCommentEnd (take e sql)"
  have e: "e \<le> length sql" by (simp add: e_def trailingCommentStart_le)
  have l: "l \<le> e" using leadingCommentEnd_le [of "take e sql"] e by (simp add: l_def)
  let ?mid = "drop l (take e sql)"
  obtain a where a: "spaces a" "take l sql = a @ trim_left (take l sql)" using trim_left_split by blast
  obtain b where b: "spaces b" "?mid = b @ trim_left ?mid" using trim_left_split by blast
  obtain c where c: "spaces c" "trim_left ?mid = trim_right (trim_left ?mid) @ c" using trim_right_split by blast
  obtain d where d: "spaces d" "drop e sql = trim_right (drop e sql) @ d" using trim_right_split by blast
  have "sql = take l sql @ ?mid @ drop e sql"
    using l by (metis append_assoc append_take_drop_id min.absorb1 take_take)
  then have "sql = a @ trim_left (take l sql) @ b @ trim_right (trim_left ?mid) @ c @ trim_right (drop e sql) @ d"
    using a(2) b(2) c(2) d(2) by (metis append_assoc)
  moreover have "SplitMarginComments sql = Ret (trim_right (trim_left ?mid),
      \<lparr>Leading = trim_left (take l sql), Trailing = trim_right (drop e sql)\<rparr>)"
    using e l by (simp add: SplitMarginComments_def Let_def e_def l_def)
  ultimately show ?thesis using a(1) b(1) c(1) d(1) by force
qed

text \<open>
  \<^verbatim>\<open>StripComments\<close> does not return when the text closes a comment before it opens one: the loop
  then puts the part between the two back each time and the text grows.
\<close>

lemma StripComments_diverges: "StripComments ''xx*/ /*'' = None"
proof -
  have "trim_space ''xx*/ /*'' = ''xx*/ /*''" by (rule trim_space_id) simp_all
  then have "StripLeadingComments ''xx*/ /*'' = closed_then_open 0"
    by (simp add: StripLeadingComments_def hasCommentPrefix_def closed_then_open_def)
  then show ?thesis by (simp add: StripComments_def strip_loop_diverges)
qed

text \<open>
  The functions that look into a comment panic on short ones: the extraction of a MySQL comment
  exactly when its text consists of at most five digits, that of directives exactly when some
  comment has fewer than five bytes.
\<close>

theorem short_comments_panic:
  "(ExtractMysqlComment (''/*!'' @ sql @ ''*/'') = Panic \<longleftrightarrow> list_all is_digit sql \<and> length sql \<le> 5) \<and>
   (ExtractCommentDirectives (Some cs) = Panic \<longleftrightarrow> list_ex (\<lambda>c. length c < 5) cs)"
proof
  have "version_end sql = None \<longleftrightarrow> list_all is_digit sql \<and> length sql \<le> 5"
  proof (cases "list_all is_digit sql")
    case True
    then have "length (takeWhile is_digit sql) = length sql"
      by (metis list_all_iff takeWhile_eq_all_conv)
    with True show ?thesis by (auto simp: version_end_def Let_def)
  next
    case False
    then have "takeWhile is_digit sql \<noteq> sql" by (auto simp: list_all_iff dest: takeWhile_eq_all_conv [THEN iffD1])
    then have "length (takeWhile is_digit sql) < length sql"
      using length_takeWhile_le [of is_digit sql]
      by (metis le_neq_implies_less takeWhile_eq_take take_all_iff order_refl)
    with False show ?thesis by (auto simp: version_end_def Let_def)
  qed
  then show "ExtractMysqlComment (''/*!'' @ sql @ ''*/'') = Panic \<longleftrightarrow> list_all is_digit sql \<and> length sql \<le> 5"
    by (cases "version_end sql") (auto simp: ExtractMysqlComment_def)
  have "extract_directives cs vals = Panic \<longleftrightarrow> list_ex (\<lambda>c. length c < 5) cs" for vals
    by (induction cs arbitrary: vals) (auto simp: Let_def)
  then show "ExtractCommentDirectives (Some cs) = Panic \<longleftrightarrow> list_ex (\<lambda>c. length c < 5) cs"
    by (simp add: ExtractCommentDirectives_def)
qed

end
