(* ===== verification/Tokenizer.thy ===== *)
theory Tokenizer
  imports Sql_Value Sql_Comments
begin

text \<open>
  The tokenizer of SQL text, \<^verbatim>\<open>src/vt/sqlparser/token.go\<close>, for text in a string (no \<^verbatim>\<open>InStream\<close>). The state
  is the record \<open>tkn\<close>: the character that was read last and the bytes not read yet; 0 is the character
  before the first read and \<open>eofChar\<close> the one after the end.

  A comment \<^verbatim>\<open>/*! ... */\<close> makes a tokenizer of its own, in the field \<^verbatim>\<open>specialComment\<close>, which may have one
  in turn: a tokenizer is the list of these, the outermost first, and the empty list is nil. A call of
  \<^verbatim>\<open>consumeNext\<close> is made only after a test that the text has not ended, so its panic has no counterpart.

  Every token that is not the end consumes text (\<open>Scan_progress\<close>), and the SQL text that
  \<^verbatim>\<open>sqltypes.Value\<close> writes for a quoted value is read back as one string token with its bytes.
\<close>

subsection \<open>Tokens\<close>

definition tok_LEX_ERROR :: nat where "tok_LEX_ERROR = 57346"
definition tok_UNUSED :: nat where "tok_UNUSED = 57593"
definition tok_ID :: nat where "tok_ID = 57396"
definition tok_HEX :: nat where "tok_HEX = 57397"
definition tok_STRING :: nat where "tok_STRING = 57398"
definition tok_INTEGRAL :: nat where "tok_INTEGRAL = 57399"
definition tok_FLOAT :: nat where "tok_FLOAT = 57400"
definition tok_HEXNUM :: nat where "tok_HEXNUM = 57401"
definition tok_VALUE_ARG :: nat where "tok_VALUE_ARG = 57402"
definition tok_LIST_ARG :: nat where "tok_LIST_ARG = 57403"
definition tok_COMMENT :: nat where "tok_COMMENT = 57404"
definition tok_BIT_LITERAL :: nat where "tok_BIT_LITERAL = 57406"
definition tok_OR :: nat where "tok_OR = 57411"
definition tok_AND :: nat where "tok_AND = 57412"
definition tok_LE :: nat where "tok_LE = 57420"
definition tok_GE :: nat where "tok_GE = 57421"
definition tok_NE :: nat where "tok_NE = 57422"
definition tok_NULL_SAFE_EQUAL :: nat where "tok_NULL_SAFE_EQUAL = 57423"
definition tok_SHIFT_LEFT :: nat where "tok_SHIFT_LEFT = 57428"
definition tok_SHIFT_RIGHT :: nat where "tok_SHIFT_RIGHT = 57429"
definition tok_JSON_EXTRACT_OP :: nat where "tok_JSON_EXTRACT_OP = 57438"
definition tok_JSON_UNQUOTE_EXTRACT_OP :: nat where "tok_JSON_UNQUOTE_EXTRACT_OP = 57439"

lemmas tok_defs = tok_LEX_ERROR_def tok_UNUSED_def tok_ID_def tok_HEX_def tok_STRING_def
  tok_INTEGRAL_def tok_FLOAT_def tok_HEXNUM_def tok_VALUE_ARG_def tok_LIST_ARG_def tok_COMMENT_def
  tok_BIT_LITERAL_def tok_OR_def tok_AND_def tok_LE_def tok_GE_def tok_NE_def
  tok_NULL_SAFE_EQUAL_def tok_SHIFT_LEFT_def tok_SHIFT_RIGHT_def tok_JSON_EXTRACT_OP_def
  tok_JSON_UNQUOTE_EXTRACT_OP_def

subsection \<open>Keywords\<close>

definition keywords_1 :: "(string \<times> nat) list" where
  "keywords_1 = [
    (''accessible'', 57593), (''action'', 57460), (''add'', 57445), (''against'', 57587),
    (''all'', 57362), (''alter'', 57441), (''analyze'', 57444), (''and'', 57412),
    (''as'', 57364), (''asc'', 57366), (''asensitive'', 57593), (''auto_increment'', 57534),
    (''before'', 57593), (''begin'', 57487), (''between'', 57414), (''bigint'', 57498),
    (''binary'', 57434), (''_binary'', 57435), (''_utf8mb4'', 57436), (''bit'', 57492),
    (''blob'', 57519), (''bool'', 57511), (''boolean'', 57588), (''both'', 57593),
    (''by'', 57358), (''call'', 57593), (''cascade'', 57461), (''case'', 57415),
    (''cast'', 57579), (''change'', 57593), (''char'', 57509), (''character'', 57512),
    (''charset'', 57556), (''check'', 57593), (''collate'', 57433), (''collation'', 57539),
    (''column'', 57456), (''columns'', 57551), (''comment'', 57405), (''committed'', 57565),
    (''commit'', 57490), (''condition'', 57593), (''constraint'', 57462), (''continue'', 57593),
    (''convert'', 57578), (''substr'', 57580), (''substring'', 57581), (''create'', 57440),
    (''cross'', 57390), (''current_date'', 57570), (''current_time'', 57571),
    (''current_timestamp'', 57568), (''current_user'', 57593), (''cursor'', 57593),
    (''database'', 57569), (''databases'', 57540), (''day_hour'', 57593),
    (''day_microsecond'', 57593), (''day_minute'', 57593), (''day_second'', 57593),
    (''date'', 57470), (''datetime'', 57507), (''dec'', 57593), (''decimal'', 57503),
    (''declare'', 57593), (''default'', 57371), (''delayed'', 57593), (''delete'', 57352),
    (''desc'', 57367), (''describe'', 57468), (''deterministic'', 57593), (''distinct'', 57363),
    (''distinctrow'', 57593), (''div'', 57430), (''double'', 57501), (''drop'', 57442),
    (''duplicate'', 57369), (''each'', 57593), (''else'', 57418), (''elseif'', 57593),
    (''enclosed'', 57593), (''end'', 57419), (''engines'', 57553), (''enum'', 57524),
    (''escape'', 57471), (''escaped'', 57593), (''exists'', 57365), (''exit'', 57593),
    (''explain'', 57469), (''expansion'', 57592), (''false'', 57409), (''fetch'', 57593),
    (''fields'', 57552), (''float'', 57502), (''float4'', 57593), (''float8'', 57593),
    (''flush'', 57446), (''for'', 57361), (''force'', 57393), (''foreign'', 57463),
    (''from'', 57353), (''full'', 57549), (''fulltext'', 57458), (''generated'', 57593),
    (''geometry'', 57525), (''geometrycollection'', 57529), (''get'', 57593), (''global'', 57557)]"

definition keywords_2 :: "(string \<times> nat) list" where
  "keywords_2 = [
    (''grant'', 57593), (''group'', 57355), (''group_concat'', 57582), (''having'', 57356),
    (''high_priority'', 57593), (''hour_microsecond'', 57593), (''hour_minute'', 57593),
    (''hour_second'', 57593), (''if'', 57453), (''ignore'', 57452), (''in'', 57427),
    (''index'', 57449), (''infile'', 57593), (''inout'', 57593), (''inner'', 57388),
    (''insensitive'', 57593), (''insert'', 57350), (''int'', 57496), (''int1'', 57593),
    (''int2'', 57593), (''int3'', 57593), (''int4'', 57593), (''int8'', 57593),
    (''integer'', 57497), (''interval'', 57437), (''into'', 57368), (''io_after_gtids'', 57593),
    (''is'', 57424), (''isolation'', 57559), (''iterate'', 57593), (''join'', 57384),
    (''json'', 57523), (''key'', 57370), (''keys'', 57375), (''key_block_size'', 57459),
    (''kill'', 57593), (''language'', 57589), (''last_insert_id'', 57377), (''leading'', 57593),
    (''leave'', 57593), (''left'', 57386), (''less'', 57478), (''level'', 57560),
    (''like'', 57425), (''limit'', 57359), (''linear'', 57593), (''lines'', 57593),
    (''linestring'', 57527), (''load'', 57593), (''localtime'', 57572),
    (''localtimestamp'', 57573), (''lock'', 57373), (''long'', 57593), (''longblob'', 57522),
    (''longtext'', 57518), (''loop'', 57593), (''low_priority'', 57593),
    (''master_bind'', 57593), (''match'', 57586), (''maxvalue'', 57475), (''mediumblob'', 57521),
    (''mediumint'', 57495), (''mediumtext'', 57517), (''middleint'', 57593),
    (''minute_microsecond'', 57593), (''minute_second'', 57593), (''mod'', 57431),
    (''mode'', 57381), (''modifies'', 57593), (''multilinestring'', 57531),
    (''multipoint'', 57530), (''multipolygon'', 57532), (''names'', 57555), (''natural'', 57391),
    (''nchar'', 57514), (''next'', 57378), (''no'', 57464), (''not'', 57413),
    (''no_write_to_binlog'', 57593), (''null'', 57407), (''numeric'', 57504), (''off'', 57410),
    (''offset'', 57360), (''on'', 57394), (''only'', 57563), (''optimize'', 57473),
    (''optimizer_costs'', 57593), (''option'', 57593), (''optionally'', 57593), (''or'', 57411),
    (''order'', 57357), (''out'', 57593), (''outer'', 57389), (''outfile'', 57593),
    (''partition'', 57476), (''plugins'', 57554), (''point'', 57526), (''polygon'', 57528),
    (''precision'', 57593), (''primary'', 57455), (''processlist'', 57550),
    (''procedure'', 57480), (''query'', 57591), (''range'', 57593), (''read'', 57561),
    (''reads'', 57593), (''read_write'', 57593), (''real'', 57500)]"

definition keywords_3 :: "(string \<times> nat) list" where
  "keywords_3 = [
    (''references'', 57465), (''regexp'', 57426), (''release'', 57593), (''rename'', 57443),
    (''reorganize'', 57477), (''repair'', 57472), (''repeat'', 57593), (''repeatable'', 57564),
    (''replace'', 57577), (''require'', 57593), (''resignal'', 57593), (''restrict'', 57466),
    (''return'', 57593), (''revoke'', 57593), (''right'', 57387), (''rlike'', 57426),
    (''rollback'', 57491), (''schema'', 57447), (''schemas'', 57541),
    (''second_microsecond'', 57593), (''select'', 57348), (''sensitive'', 57593),
    (''separator'', 57583), (''serializable'', 57567), (''session'', 57558), (''set'', 57372),
    (''share'', 57380), (''show'', 57467), (''signal'', 57593), (''signed'', 57536),
    (''smallint'', 57494), (''spatial'', 57457), (''specific'', 57593), (''sql'', 57593),
    (''sqlexception'', 57593), (''sqlstate'', 57593), (''sqlwarning'', 57593),
    (''sql_big_result'', 57593), (''sql_cache'', 57383), (''sql_calc_found_rows'', 57593),
    (''sql_no_cache'', 57382), (''sql_small_result'', 57593), (''ssl'', 57593),
    (''start'', 57488), (''starting'', 57593), (''status'', 57484), (''stored'', 57593),
    (''straight_join'', 57385), (''stream'', 57349), (''table'', 57448), (''tables'', 57542),
    (''terminated'', 57593), (''text'', 57515), (''than'', 57479), (''then'', 57417),
    (''time'', 57505), (''timestamp'', 57506), (''timestampadd'', 57584),
    (''timestampdiff'', 57585), (''tinyblob'', 57520), (''tinyint'', 57493),
    (''tinytext'', 57516), (''to'', 57451), (''trailing'', 57593), (''transaction'', 57489),
    (''trigger'', 57481), (''true'', 57408), (''truncate'', 57474), (''uncommitted'', 57566),
    (''undo'', 57593), (''union'', 57347), (''unique'', 57454), (''unlock'', 57374),
    (''unsigned'', 57537), (''update'', 57351), (''usage'', 57593), (''use'', 57392),
    (''using'', 57395), (''utc_date'', 57574), (''utc_time'', 57575), (''utc_timestamp'', 57576),
    (''values'', 57376), (''variables'', 57485), (''varbinary'', 57513), (''varchar'', 57510),
    (''varcharacter'', 57593), (''varying'', 57593), (''virtual'', 57593), (''vindex'', 57482),
    (''vindexes'', 57483), (''view'', 57450), (''vitess_keyspaces'', 57543),
    (''vitess_shards'', 57544), (''vitess_tablets'', 57545), (''vitess_target'', 57548),
    (''vschema'', 57546), (''vschema_tables'', 57547), (''warnings'', 57486), (''when'', 57416),
    (''where'', 57354), (''while'', 57593), (''with'', 57590), (''write'', 57562),
    (''xor'', 57593), (''year'', 57508), (''year_month'', 57593), (''zerofill'', 57538)]"

definition keyword_table :: "(string \<times> nat) list" where
  "keyword_table = keywords_1 @ keywords_2 @ keywords_3"

subsection \<open>Characters\<close>

abbreviation (input) code :: "char \<Rightarrow> nat" where
  "code c \<equiv> of_char c"

definition eofChar :: nat where
  "eofChar = 0x100"

definition isLetter :: "nat \<Rightarrow> bool" where
  "isLetter ch \<longleftrightarrow>
     97 \<le> ch \<and> ch \<le> 122 \<or> 65 \<le> ch \<and> ch \<le> 90 \<or> ch = code CHR ''_'' \<or> ch = code CHR ''@''"

definition isCarat :: "nat \<Rightarrow> bool" where
  "isCarat ch \<longleftrightarrow> ch = code CHR ''.'' \<or> ch = code CHR 0x27 \<or> ch = code CHR 0x22 \<or> ch = code CHR 0x60"

definition digitVal :: "nat \<Rightarrow> nat" where
  "digitVal ch =
     (if 48 \<le> ch \<and> ch \<le> 57 then ch - 48
      else if 97 \<le> ch \<and> ch \<le> 102 then ch - 97 + 10
      else if 65 \<le> ch \<and> ch \<le> 70 then ch - 65 + 10
      else 16)"

definition isDigit :: "nat \<Rightarrow> bool" where
  "isDigit ch \<longleftrightarrow> 48 \<le> ch \<and> ch \<le> 57"

definition to_lower :: "string \<Rightarrow> string" where
  "to_lower s = map (\<lambda>c. if 65 \<le> code c \<and> code c \<le> 90 then char_of (code c + 32) else c) s"

subsection \<open>The state\<close>

record tkn =
  lastChar :: nat
  Position :: nat
  posVarIndex :: nat
  buf :: string
  multi :: bool
  SkipSpecialComments :: bool

definition NewStringTokenizer :: "string \<Rightarrow> tkn" where
  "NewStringTokenizer sql =
     \<lparr>lastChar = 0, Position = 0, posVarIndex = 0, buf = sql, multi = False, SkipSpecialComments = False\<rparr>"

definition next_char :: "tkn \<Rightarrow> tkn" where
  "next_char t =
     (case buf t of
        [] \<Rightarrow>
          if lastChar t \<noteq> eofChar then t\<lparr>Position := Position t + 1, lastChar := eofChar\<rparr> else t
      | c # cs \<Rightarrow> t\<lparr>Position := Position t + 1, lastChar := code c, buf := cs\<rparr>)"

definition tkn_rem :: "tkn \<Rightarrow> nat" where
  "tkn_rem t = length (buf t) + (if lastChar t = eofChar then 0 else 1)"

lemma code_not_eof [simp]: "code c \<noteq> eofChar" "eofChar \<noteq> code c"
  unfolding eofChar_def using nat_of_char_less_256 [of c] by linarith+

lemma next_rem: "lastChar t \<noteq> eofChar \<Longrightarrow> tkn_rem (next_char t) < tkn_rem t"
  by (cases "buf t") (auto simp: next_char_def tkn_rem_def)

lemma next_rem_le: "tkn_rem (next_char t) \<le> tkn_rem t"
  by (cases "buf t") (auto simp: next_char_def tkn_rem_def)

lemma next_next_rem: "lastChar t \<noteq> eofChar \<Longrightarrow> tkn_rem (next_char (next_char t)) < tkn_rem t"
  by (rule le_less_trans [OF next_rem_le next_rem])

subsection \<open>Scanning the parts of a token\<close>

function skipBlank :: "tkn \<Rightarrow> tkn" where
  "skipBlank t = (if lastChar t \<in> {32, 10, 13, 9} then skipBlank (next_char t) else t)"
  by pat_completeness auto
termination
  by (relation "measure tkn_rem") (auto intro!: next_rem simp: eofChar_def)

function take_chars :: "(nat \<Rightarrow> bool) \<Rightarrow> tkn \<Rightarrow> string \<times> tkn" where
  "take_chars P t =
     (if lastChar t \<noteq> eofChar \<and> P (lastChar t)
      then (case take_chars P (next_char t) of (s, t') \<Rightarrow> (char_of (lastChar t) # s, t'))
      else ([], t))"
  by pat_completeness auto
termination
  by (relation "measure (\<lambda>(P, t). tkn_rem t)") (auto intro: next_rem)

definition consumeNext :: "string \<Rightarrow> tkn \<Rightarrow> string \<times> tkn" where
  "consumeNext buffer t = (buffer @ [char_of (lastChar t)], next_char t)"

definition scanIdentifier :: "char \<Rightarrow> bool \<Rightarrow> tkn \<Rightarrow> nat \<times> string \<times> tkn" where
  "scanIdentifier firstByte isDbSystemVariable t =
     (case take_chars (\<lambda>c. isLetter c \<or> isDigit c \<or> isDbSystemVariable \<and> isCarat c) t of (s, t') \<Rightarrow>
        (let buffer = firstByte # s; lowered = to_lower buffer in
         case map_of keyword_table lowered of
           Some keywordID \<Rightarrow> (keywordID, lowered, t')
         | None \<Rightarrow>
             if lowered = ''dual'' then (tok_ID, lowered, t') else (tok_ID, buffer, t')))"

definition scanMantissa :: "nat \<Rightarrow> tkn \<Rightarrow> string \<times> tkn" where
  "scanMantissa base t = take_chars (\<lambda>c. digitVal c < base) t"

definition scanHex :: "tkn \<Rightarrow> nat \<times> string \<times> tkn" where
  "scanHex t =
     (case scanMantissa 16 t of (buffer, t1) \<Rightarrow>
        if lastChar t1 \<noteq> code CHR 0x27 then (tok_LEX_ERROR, buffer, t1)
        else if length buffer mod 2 \<noteq> 0 then (tok_LEX_ERROR, buffer, next_char t1)
        else (tok_HEX, buffer, next_char t1))"

definition scanBitLiteral :: "tkn \<Rightarrow> nat \<times> string \<times> tkn" where
  "scanBitLiteral t =
     (case scanMantissa 2 t of (buffer, t1) \<Rightarrow>
        if lastChar t1 \<noteq> code CHR 0x27 then (tok_LEX_ERROR, buffer, t1)
        else (tok_BIT_LITERAL, buffer, next_char t1))"

function literal_loop :: "bool \<Rightarrow> string \<Rightarrow> tkn \<Rightarrow> nat \<times> string \<times> tkn" where
  "literal_loop backTickSeen buffer t =
     (if backTickSeen then
        (if lastChar t \<noteq> code CHR 0x60 then
           (if length buffer = 0 then (tok_LEX_ERROR, buffer, t) else (tok_ID, buffer, t))
         else literal_loop False (buffer @ [CHR 0x60]) (next_char t))
      else if lastChar t = code CHR 0x60 then literal_loop True buffer (next_char t)
      else if lastChar t = eofChar then (tok_LEX_ERROR, buffer, t)
      else literal_loop False (buffer @ [char_of (lastChar t)]) (next_char t))"
  by pat_completeness auto
termination
  by (relation "measure (\<lambda>(b, s, t). tkn_rem t)") (auto intro!: next_rem simp: eofChar_def)

definition scanLiteralIdentifier :: "tkn \<Rightarrow> nat \<times> string \<times> tkn" where
  "scanLiteralIdentifier t = literal_loop False [] t"

definition scanBindVar :: "tkn \<Rightarrow> nat \<times> string \<times> tkn" where
  "scanBindVar t =
     (let b0 = [char_of (lastChar t)]; t1 = next_char t;
          (token, buffer, t2) =
            (if lastChar t1 = code CHR '':'' then (tok_LIST_ARG, b0 @ [char_of (lastChar t1)], next_char t1)
             else (tok_VALUE_ARG, b0, t1)) in
      if \<not> isLetter (lastChar t2) then (tok_LEX_ERROR, buffer, t2)
      else
        (case take_chars (\<lambda>c. isLetter c \<or> isDigit c \<or> c = code CHR ''.'') t2 of (s, t3) \<Rightarrow>
           (token, buffer @ s, t3)))"

definition number_exit :: "nat \<Rightarrow> string \<Rightarrow> tkn \<Rightarrow> nat \<times> string \<times> tkn" where
  "number_exit token buffer t =
     (if isLetter (lastChar t) then (tok_LEX_ERROR, buffer, t) else (token, buffer, t))"

definition number_exponent :: "nat \<Rightarrow> string \<Rightarrow> tkn \<Rightarrow> nat \<times> string \<times> tkn" where
  "number_exponent token buffer t =
     (if lastChar t = code CHR ''e'' \<or> lastChar t = code CHR ''E'' then
        (let (b1, t1) = consumeNext buffer t;
             (b2, t2) =
               (if lastChar t1 = code CHR ''+'' \<or> lastChar t1 = code CHR ''-'' then consumeNext b1 t1
                else (b1, t1));
             (s, t3) = scanMantissa 10 t2 in
         number_exit tok_FLOAT (b2 @ s) t3)
      else number_exit token buffer t)"

definition number_digits :: "string \<Rightarrow> tkn \<Rightarrow> nat \<times> string \<times> tkn" where
  "number_digits buffer t =
     (let (s, t1) = scanMantissa 10 t; b1 = buffer @ s in
      if lastChar t1 = code CHR ''.'' then
        (let (b2, t2) = consumeNext b1 t1; (s', t3) = scanMantissa 10 t2 in
         number_exponent tok_FLOAT (b2 @ s') t3)
      else number_exponent tok_INTEGRAL b1 t1)"

definition scanNumber :: "bool \<Rightarrow> tkn \<Rightarrow> nat \<times> string \<times> tkn" where
  "scanNumber seenDecimalPoint t =
     (if seenDecimalPoint then
        (case scanMantissa 10 t of (s, t1) \<Rightarrow> number_exponent tok_FLOAT (CHR ''.'' # s) t1)
      else if lastChar t = code CHR ''0'' then
        (let (b1, t1) = consumeNext [] t in
         if lastChar t1 = code CHR ''x'' \<or> lastChar t1 = code CHR ''X'' then
           (let (b2, t2) = consumeNext b1 t1; (s, t3) = scanMantissa 16 t2 in
            number_exit tok_HEXNUM (b2 @ s) t3)
         else number_digits b1 t1)
      else number_digits [] t)"

text \<open>
  The loop of \<^verbatim>\<open>scanString\<close>. The fast path copies the bytes up to the next delimiter or backslash out of
  the buffer and goes on behind it; both paths then look at the character after \<open>ch\<close>.
\<close>

definition plain :: "nat \<Rightarrow> char \<Rightarrow> bool" where
  "plain delim c \<longleftrightarrow> code c \<noteq> delim \<and> code c \<noteq> code CHR 0x5C"

definition decode_char :: "nat \<Rightarrow> char" where
  "decode_char ch = (case SQLDecodeMap (char_of ch) of None \<Rightarrow> char_of ch | Some d \<Rightarrow> d)"

definition skip_plain :: "nat \<Rightarrow> tkn \<Rightarrow> tkn" where
  "skip_plain delim t =
     t\<lparr>Position := Position t + length (takeWhile (plain delim) (buf t)),
       buf := dropWhile (plain delim) (buf t)\<rparr>"

definition drop_one :: "tkn \<Rightarrow> tkn" where
  "drop_one t = t\<lparr>buf := tl (buf t), Position := Position t + 1\<rparr>"

definition scan_ahead :: "nat \<Rightarrow> string \<Rightarrow> tkn \<Rightarrow> string \<times> nat option \<times> tkn" where
  "scan_ahead delim buffer t =
     (let ch = lastChar t in
      if ch \<noteq> delim \<and> ch \<noteq> code CHR 0x5C then
        (let buffer1 = buffer @ char_of ch # takeWhile (plain delim) (buf t); t1 = skip_plain delim t in
         case buf t1 of
           [] \<Rightarrow> (buffer1, None, next_char t1)
         | c # _ \<Rightarrow> (buffer1, Some (code c), next_char (drop_one t1)))
      else (buffer, Some ch, next_char t))"

lemma skip_plain_rem: "tkn_rem (skip_plain delim t) \<le> tkn_rem t"
  by (simp add: skip_plain_def tkn_rem_def length_dropWhile_le)

lemma drop_one_rem: "tkn_rem (drop_one t) \<le> tkn_rem t"
  by (simp add: drop_one_def tkn_rem_def)

lemma keep_lastChar [simp]: "lastChar (skip_plain delim t) = lastChar t" "lastChar (drop_one t) = lastChar t"
  by (simp_all add: skip_plain_def drop_one_def)

lemma scan_ahead_rem:
  assumes "lastChar t \<noteq> eofChar" and "scan_ahead delim b t = (b', r, t')"
  shows "tkn_rem t' < tkn_rem t"
  using assms next_rem [of t] next_rem [of "skip_plain delim t"] next_rem [of "drop_one (skip_plain delim t)"]
    skip_plain_rem [of delim t] drop_one_rem [of "skip_plain delim t"]
  by (auto simp: scan_ahead_def Let_def split: if_splits list.splits)

function scanString :: "nat \<Rightarrow> nat \<Rightarrow> string \<Rightarrow> tkn \<Rightarrow> nat \<times> string \<times> tkn" where
  "scanString delim typ buffer t =
     (if lastChar t = eofChar then (tok_LEX_ERROR, buffer, t)
      else
        (case scan_ahead delim buffer t of (buffer1, r, t1) \<Rightarrow>
           case r of
             None \<Rightarrow> scanString delim typ buffer1 t1
           | Some ch \<Rightarrow>
               if ch = code CHR 0x5C then
                 (if lastChar t1 = eofChar then (tok_LEX_ERROR, buffer1, t1)
                  else scanString delim typ (buffer1 @ [decode_char (lastChar t1)]) (next_char t1))
               else if ch = delim \<and> lastChar t1 \<noteq> delim then (typ, buffer1, t1)
               else scanString delim typ (buffer1 @ [char_of ch]) (next_char t1)))"
  by pat_completeness auto
termination
  by (relation "measure (\<lambda>(d, ty, b, t). tkn_rem t)")
    (auto dest: scan_ahead_rem [OF _ sym] intro: le_less_trans [OF next_rem_le])

function line_comment :: "string \<Rightarrow> tkn \<Rightarrow> string \<times> tkn" where
  "line_comment buffer t =
     (if lastChar t = eofChar then (buffer, t)
      else if lastChar t = 10 then consumeNext buffer t
      else (case consumeNext buffer t of (b, t') \<Rightarrow> line_comment b t'))"
  by pat_completeness auto
termination
  by (relation "measure (\<lambda>(b, t). tkn_rem t)") (auto intro: next_rem simp: consumeNext_def)

definition scanCommentType1 :: "string \<Rightarrow> tkn \<Rightarrow> nat \<times> string \<times> tkn" where
  "scanCommentType1 prefix t = (case line_comment prefix t of (buffer, t') \<Rightarrow> (tok_COMMENT, buffer, t'))"

text \<open>The loop that \<^verbatim>\<open>scanCommentType2\<close> and \<^verbatim>\<open>scanMySQLSpecificComment\<close> have in common: whether the comment ends.\<close>

function block_comment :: "string \<Rightarrow> tkn \<Rightarrow> bool \<times> string \<times> tkn" where
  "block_comment buffer t =
     (if lastChar t = code CHR ''*'' then
        (case consumeNext buffer t of (b, t') \<Rightarrow>
           if lastChar t' = code CHR ''/'' then (True, consumeNext b t') else block_comment b t')
      else if lastChar t = eofChar then (False, buffer, t)
      else (case consumeNext buffer t of (b, t') \<Rightarrow> block_comment b t'))"
  by pat_completeness auto
termination
  by (relation "measure (\<lambda>(b, t). tkn_rem t)")
    (auto intro!: next_rem simp: consumeNext_def eofChar_def)

definition scanCommentType2 :: "tkn \<Rightarrow> nat \<times> string \<times> tkn" where
  "scanCommentType2 t =
     (case block_comment ''/*'' t of (ended, buffer, t') \<Rightarrow>
        (if ended then tok_COMMENT else tok_LEX_ERROR, buffer, t'))"

subsection \<open>Scan\<close>

text \<open>
  What a tokenizer without a special comment does: it returns a token, or it meets a special comment whose
  SQL is to be scanned next.
\<close>

datatype scanned = Tok nat string | Special string

abbreviation token :: "nat \<times> string \<times> tkn \<Rightarrow> (scanned \<times> tkn) go" where
  "token r \<equiv> (case r of (typ, val, t) \<Rightarrow> Ret (Tok typ val, t))"

definition scanMySQLSpecificComment :: "tkn \<Rightarrow> (scanned \<times> tkn) go" where
  "scanMySQLSpecificComment t =
     (case block_comment ''/*!'' (next_char t) of (ended, buffer, t') \<Rightarrow>
        if \<not> ended then Ret (Tok tok_LEX_ERROR buffer, t')
        else go_bind (ExtractMysqlComment buffer) (\<lambda>(_, sql). Ret (Special sql, t')))"

definition scan_word :: "nat \<Rightarrow> tkn \<Rightarrow> nat \<times> string \<times> tkn" where
  "scan_word ch t =
     (if (ch = code CHR ''X'' \<or> ch = code CHR ''x'') \<and> lastChar t = code CHR 0x27 then scanHex (next_char t)
      else if (ch = code CHR ''B'' \<or> ch = code CHR ''b'') \<and> lastChar t = code CHR 0x27 then
        scanBitLiteral (next_char t)
      else scanIdentifier (char_of ch) (ch = code CHR ''@'' \<and> lastChar t = code CHR ''@'') t)"

text \<open>The switch on one character \<open>ch\<close>; \<open>t\<close> has gone on to the character after it.\<close>

definition scan_less :: "tkn \<Rightarrow> nat \<times> string \<times> tkn" where
  "scan_less t =
     (if lastChar t = code CHR ''>'' then (tok_NE, [], next_char t)
      else if lastChar t = code CHR ''<'' then (tok_SHIFT_LEFT, [], next_char t)
      else if lastChar t = code CHR ''='' then
        (let t' = next_char t in
         if lastChar t' = code CHR ''>'' then (tok_NULL_SAFE_EQUAL, [], next_char t') else (tok_LE, [], t'))
      else (code CHR ''<'', [], t))"

definition scan_minus :: "tkn \<Rightarrow> nat \<times> string \<times> tkn" where
  "scan_minus t =
     (if lastChar t = code CHR ''-'' then scanCommentType1 ''--'' (next_char t)
      else if lastChar t = code CHR ''>'' then
        (let t' = next_char t in
         if lastChar t' = code CHR ''>'' then (tok_JSON_UNQUOTE_EXTRACT_OP, [], next_char t')
         else (tok_JSON_EXTRACT_OP, [], t'))
      else (code CHR ''-'', [], t))"

definition scan_operator :: "nat \<Rightarrow> tkn \<Rightarrow> nat \<times> string \<times> tkn" where
  "scan_operator ch t =
     (if ch \<in> set (map of_char ''=,()+*%^~'') then (ch, [], t)
      else if ch = code CHR ''&'' then
        (if lastChar t = code CHR ''&'' then (tok_AND, [], next_char t) else (ch, [], t))
      else if ch = code CHR ''|'' then
        (if lastChar t = code CHR ''|'' then (tok_OR, [], next_char t) else (ch, [], t))
      else if ch = code CHR ''?'' then
        (tok_VALUE_ARG, '':v'' @ format_nat (posVarIndex t + 1), t\<lparr>posVarIndex := posVarIndex t + 1\<rparr>)
      else if ch = code CHR ''.'' then
        (if isDigit (lastChar t) then scanNumber True t else (ch, [], t))
      else if ch = code CHR ''#'' then scanCommentType1 ''#'' t
      else if ch = code CHR ''-'' then scan_minus t
      else if ch = code CHR ''<'' then scan_less t
      else if ch = code CHR ''>'' then
        (if lastChar t = code CHR ''='' then (tok_GE, [], next_char t)
         else if lastChar t = code CHR ''>'' then (tok_SHIFT_RIGHT, [], next_char t)
         else (ch, [], t))
      else if ch = code CHR ''!'' then
        (if lastChar t = code CHR ''='' then (tok_NE, [], next_char t) else (ch, [], t))
      else if ch = code CHR 0x27 \<or> ch = code CHR 0x22 then scanString ch tok_STRING [] t
      else if ch = code CHR 0x60 then scanLiteralIdentifier t
      else (tok_LEX_ERROR, [char_of ch], t))"

definition scan_slash :: "tkn \<Rightarrow> (scanned \<times> tkn) go" where
  "scan_slash t =
     (if lastChar t = code CHR ''/'' then token (scanCommentType1 ''//'' (next_char t))
      else if lastChar t = code CHR ''*'' then
        (let t' = next_char t in
         if lastChar t' = code CHR ''!'' \<and> \<not> SkipSpecialComments t' then scanMySQLSpecificComment t'
         else token (scanCommentType2 t'))
      else Ret (Tok (code CHR ''/'') [], t))"

definition scan_one :: "tkn \<Rightarrow> (scanned \<times> tkn) go" where
  "scan_one t0 =
     (let t = skipBlank (if lastChar t0 = 0 then next_char t0 else t0); ch = lastChar t in
      if isLetter ch then token (scan_word ch (next_char t))
      else if isDigit ch then token (scanNumber False t)
      else if ch = code CHR '':'' then token (scanBindVar t)
      else if ch = code CHR '';'' then
        (if multi t then Ret (Tok 0 [], t) else Ret (Tok ch [], next_char t))
      else if ch = eofChar then Ret (Tok 0 [], t)
      else if ch = code CHR ''/'' then scan_slash (next_char t)
      else token (scan_operator ch (next_char t)))"

subsubsection \<open>Scanning consumes text\<close>

declare skipBlank.simps [simp del] take_chars.simps [simp del] literal_loop.simps [simp del]
  scanString.simps [simp del] line_comment.simps [simp del] block_comment.simps [simp del]

lemma take_chars_rem: "tkn_rem (snd (take_chars P t)) \<le> tkn_rem t"
proof (induction P t rule: take_chars.induct)
  case (1 P t)
  then show ?case using next_rem [of t] by (subst take_chars.simps) (auto split: prod.splits)
qed

lemma skipBlank_rem: "tkn_rem (skipBlank t) \<le> tkn_rem t"
proof (induction t rule: skipBlank.induct)
  case (1 t)
  then show ?case using next_rem_le [of t] by (subst skipBlank.simps) auto
qed

lemma scanMantissa_rem: "scanMantissa base t = (s, t') \<Longrightarrow> tkn_rem t' \<le> tkn_rem t"
  using take_chars_rem [of "\<lambda>c. digitVal c < base" t] by (simp add: scanMantissa_def)

lemma consumeNext_rem: "consumeNext b t = (b', t') \<Longrightarrow> tkn_rem t' \<le> tkn_rem t"
  using next_rem_le [of t] by (auto simp: consumeNext_def)

abbreviation result_rem :: "nat \<times> string \<times> tkn \<Rightarrow> nat" where
  "result_rem r \<equiv> tkn_rem (snd (snd r))"

lemma scanIdentifier_rem: "result_rem (scanIdentifier c db t) \<le> tkn_rem t"
  using take_chars_rem [of "\<lambda>c. isLetter c \<or> isDigit c \<or> db \<and> isCarat c" t]
  by (auto simp: scanIdentifier_def Let_def split: prod.splits option.splits)

lemma scanHex_rem: "result_rem (scanHex t) \<le> tkn_rem t"
  by (auto simp: scanHex_def split: prod.splits dest!: scanMantissa_rem intro: order_trans [OF next_rem_le])

lemma scanBitLiteral_rem: "result_rem (scanBitLiteral t) \<le> tkn_rem t"
  by (auto simp: scanBitLiteral_def split: prod.splits dest!: scanMantissa_rem intro: order_trans [OF next_rem_le])

lemma literal_loop_rem: "result_rem (literal_loop seen b t) \<le> tkn_rem t"
proof (induction seen b t rule: literal_loop.induct)
  case (1 seen b t)
  show ?case
    using 1 next_rem_le [of t] by (subst literal_loop.simps) (auto intro: order_trans)
qed

lemma number_exit_rem: "result_rem (number_exit ty b t) = tkn_rem t"
  by (simp add: number_exit_def)

lemma number_exponent_rem: "result_rem (number_exponent ty b t) \<le> tkn_rem t"
  by (fastforce simp: number_exponent_def number_exit_rem Let_def split: prod.splits if_splits
      dest!: scanMantissa_rem consumeNext_rem)

lemma number_digits_rem: "result_rem (number_digits b t) \<le> tkn_rem t"
  by (fastforce simp: number_digits_def Let_def split: prod.splits dest!: scanMantissa_rem consumeNext_rem
      intro: order_trans [OF number_exponent_rem])

lemma scanString_rem: "result_rem (scanString delim ty b t) \<le> tkn_rem t"
proof (induction delim ty b t rule: scanString.induct)
  case (1 delim ty b t)
  show ?case
  proof (cases "lastChar t = eofChar")
    case False
    obtain b1 r t1 where a: "scan_ahead delim b t = (b1, r, t1)" by (rule prod_cases3)
    note le = scan_ahead_rem [OF False a]
    show ?thesis
    proof (cases r)
      case None
      then show ?thesis
        using 1(1) [OF False a [symmetric] refl None] False le by (subst scanString.simps) (simp add: a)
    next
      case (Some ch)
      note h = 1(2) [OF False a [symmetric] refl Some] 1(3) [OF False a [symmetric] refl Some]
      show ?thesis
        using h False le next_rem_le [of t1]
        by (subst scanString.simps) (auto simp: a Some)
    qed
  qed (simp add: scanString.simps)
qed

lemma line_comment_rem: "tkn_rem (snd (line_comment b t)) \<le> tkn_rem t"
proof (induction b t rule: line_comment.induct)
  case (1 b t)
  then show ?case
    using next_rem_le [of t] by (subst line_comment.simps) (auto simp: consumeNext_def)
qed

lemma scanCommentType1_rem: "result_rem (scanCommentType1 p t) \<le> tkn_rem t"
  using line_comment_rem [of p t] by (simp add: scanCommentType1_def split: prod.splits)

text \<open>A comment takes at least as many bytes of the text as it adds to the buffer.\<close>

lemma block_comment_bytes:
  "block_comment b t = (ended, b', t') \<Longrightarrow>
     tkn_rem t' + length b' \<le> tkn_rem t + length b \<and> length b \<le> length b'"
proof (induction b t rule: block_comment.induct)
  case (1 b t)
  show ?case
  proof (cases "lastChar t = eofChar")
    case True
    then show ?thesis using "1.prems" by (subst (asm) block_comment.simps) (auto simp: eofChar_def)
  next
    case False
    note lt = next_rem [OF False]
    show ?thesis
    proof (cases "lastChar t = code CHR ''*''")
      case star: True
      show ?thesis
      proof (cases "lastChar (next_char t) = code CHR ''/''")
        case True
        then have "tkn_rem (next_char (next_char t)) < tkn_rem (next_char t)"
          by (intro next_rem) (simp add: eofChar_def)
        with "1.prems" star True lt show ?thesis
          by (subst (asm) block_comment.simps) (auto simp: consumeNext_def)
      next
        case False
        with "1.prems" star have "block_comment (b @ [char_of (lastChar t)]) (next_char t) = (ended, b', t')"
          by (subst (asm) block_comment.simps) (simp add: consumeNext_def)
        from 1(1) [OF star consumeNext_def [symmetric] False this] lt show ?thesis by simp
      qed
    next
      case other: False
      with "1.prems" False have "block_comment (b @ [char_of (lastChar t)]) (next_char t) = (ended, b', t')"
        by (subst (asm) block_comment.simps) (simp add: consumeNext_def)
      from 1(2) [OF other False consumeNext_def [symmetric] this] lt show ?thesis by simp
    qed
  qed
qed

lemmas block_comment_rem = conjunct1 [OF block_comment_bytes]
lemmas block_comment_buffer = conjunct2 [OF block_comment_bytes]

lemma scanCommentType2_rem: "result_rem (scanCommentType2 t) \<le> tkn_rem t"
proof -
  obtain e b t' where b: "block_comment ''/*'' t = (e, b, t')" by (rule prod_cases3)
  show ?thesis
    using block_comment_rem [OF b] block_comment_buffer [OF b] by (simp add: scanCommentType2_def b)
qed

lemma scanMySQLSpecificComment_rem:
  assumes "scanMySQLSpecificComment t = Ret (r, t')" and "lastChar t \<noteq> eofChar"
  shows "tkn_rem t' < tkn_rem t" and "r = Special sql \<Longrightarrow> tkn_rem t' + length sql + 3 \<le> tkn_rem t"
proof -
  obtain e b u where b: "block_comment ''/*!'' (next_char t) = (e, b, u)" by (rule prod_cases3)
  have u: "u = t'" using assms(1) by (auto simp: scanMySQLSpecificComment_def b go_bind_Ret_iff split: if_splits)
  note rem = block_comment_rem [OF b] block_comment_buffer [OF b] next_rem [OF assms(2)]
  then show "tkn_rem t' < tkn_rem t" by (simp add: u)
  assume "r = Special sql"
  with assms(1) obtain v where "ExtractMysqlComment b = Ret (v, sql)"
    by (auto simp: scanMySQLSpecificComment_def b go_bind_Ret_iff split: if_splits)
  from ExtractMysqlComment_length [OF this] rem show "tkn_rem t' + length sql + 3 \<le> tkn_rem t"
    by (simp add: u)
qed

lemma number_rem: "lastChar t = code CHR ''0'' \<or> isDigit (lastChar t) \<Longrightarrow> result_rem (scanNumber False t) < tkn_rem t"
proof -
  assume d: "lastChar t = code CHR ''0'' \<or> isDigit (lastChar t)"
  then have n: "lastChar t \<noteq> eofChar" by (auto simp: isDigit_def eofChar_def)
  note lt = next_rem [OF n]
  have digits: "result_rem (number_digits b t) < tkn_rem t" if "isDigit (lastChar t)" for b
  proof -
    obtain s t1 where s: "take_chars (\<lambda>c. digitVal c < 10) (next_char t) = (s, t1)" by (rule prod.exhaust)
    have m: "scanMantissa 10 t = (char_of (lastChar t) # s, t1)"
      using that n s unfolding scanMantissa_def
      by (subst take_chars.simps) (auto simp: isDigit_def digitVal_def)
    have "tkn_rem t1 < tkn_rem t" using take_chars_rem [of "\<lambda>c. digitVal c < 10" "next_char t"] s lt by simp
    then show ?thesis
      by (fastforce simp: number_digits_def m Let_def split: prod.splits
          dest!: scanMantissa_rem consumeNext_rem intro: le_less_trans [OF number_exponent_rem])
  qed
  show ?thesis
  proof (cases "lastChar t = code CHR ''0''")
    case True
    obtain b1 where c: "consumeNext [] t = (b1, next_char t)" by (simp add: consumeNext_def)
    have hex: "result_rem (number_exit ty (b2 @ s) t3) < tkn_rem t"
      if "consumeNext b1 (next_char t) = (b2, t2)" "scanMantissa 16 t2 = (s, t3)" for ty b2 s t2 t3
      using lt consumeNext_rem [OF that(1)] scanMantissa_rem [OF that(2)] by (simp add: number_exit_rem)
    have dec: "result_rem (number_digits b1 (next_char t)) < tkn_rem t"
      using le_less_trans [OF number_digits_rem lt] .
    show ?thesis
      using hex dec True by (auto simp: scanNumber_def c Let_def split: prod.splits)
  next
    case False
    then show ?thesis using d digits [of "[]"] by (simp add: scanNumber_def)
  qed
qed

lemma scanNumber_point_rem: "result_rem (scanNumber True t) \<le> tkn_rem t"
  by (auto simp: scanNumber_def split: prod.splits dest!: scanMantissa_rem
      intro: order_trans [OF number_exponent_rem])

lemma scanBindVar_rem: "lastChar t \<noteq> eofChar \<Longrightarrow> result_rem (scanBindVar t) < tkn_rem t"
proof -
  assume "lastChar t \<noteq> eofChar"
  note lt = next_rem [OF this]
  let ?P = "\<lambda>c. isLetter c \<or> isDigit c \<or> c = code CHR ''.''"
  show ?thesis
    using lt next_rem_le [of "next_char t"] take_chars_rem [of ?P "next_char t"]
      take_chars_rem [of ?P "next_char (next_char t)"]
    by (auto simp: scanBindVar_def Let_def split: prod.splits if_splits)
qed

lemma scan_word_rem: "result_rem (scan_word ch t) \<le> tkn_rem t"
  using scanHex_rem [of "next_char t"] scanBitLiteral_rem [of "next_char t"] next_rem_le [of t]
  by (auto simp: scan_word_def scanIdentifier_rem intro: order_trans)

lemma scan_less_rem: "result_rem (scan_less t) \<le> tkn_rem t"
  using next_rem_le [of t] next_rem_le [of "next_char t"] by (simp add: scan_less_def Let_def)

lemma scan_minus_rem: "result_rem (scan_minus t) \<le> tkn_rem t"
  using next_rem_le [of t] next_rem_le [of "next_char t"] scanCommentType1_rem [of "''--''" "next_char t"]
  by (simp add: scan_minus_def Let_def)

lemma scan_operator_rem: "result_rem (scan_operator ch t) \<le> tkn_rem t"
proof -
  have "tkn_rem (t\<lparr>posVarIndex := n\<rparr>) = tkn_rem t" for n by (simp add: tkn_rem_def)
  then show ?thesis
    unfolding scan_operator_def
    using next_rem_le [of t] scanNumber_point_rem [of t] scanCommentType1_rem [of "''#''" t] scan_minus_rem [of t]
      scan_less_rem [of t] scanString_rem [of ch tok_STRING "[]" t] literal_loop_rem [of False "[]" t]
    by (simp add: scanLiteralIdentifier_def)
qed

lemma scan_slash_rem:
  assumes "scan_slash t = Ret (r, t')"
  shows "tkn_rem t' \<le> tkn_rem t" and "r = Special sql \<Longrightarrow> tkn_rem t' + length sql + 4 \<le> tkn_rem t"
proof -
  have "tkn_rem t' \<le> tkn_rem t \<and> (r = Special sql \<longrightarrow> tkn_rem t' + length sql + 4 \<le> tkn_rem t)"
  proof (cases "lastChar t = code CHR ''*'' \<and> lastChar (next_char t) = code CHR ''!'' \<and>
      \<not> SkipSpecialComments (next_char t)")
    case True
    then have s: "scanMySQLSpecificComment (next_char t) = Ret (r, t')"
      using assms by (simp add: scan_slash_def Let_def)
    have "tkn_rem (next_char t) < tkn_rem t" using True by (intro next_rem) (simp add: eofChar_def)
    with scanMySQLSpecificComment_rem [OF s] True show ?thesis by (auto simp: eofChar_def)
  next
    case False
    then show ?thesis
      using assms next_rem_le [of t] scanCommentType1_rem [of "''//''" "next_char t"]
        scanCommentType2_rem [of "next_char t"]
      by (auto simp: scan_slash_def Let_def split: if_splits prod.splits)
  qed
  then show "tkn_rem t' \<le> tkn_rem t" "r = Special sql \<Longrightarrow> tkn_rem t' + length sql + 4 \<le> tkn_rem t" by auto
qed

lemma scan_one_rem:
  assumes "scan_one t0 = Ret (r, t')"
  shows "tkn_rem t' \<le> tkn_rem t0" and "r = Tok ty v \<Longrightarrow> ty \<noteq> 0 \<Longrightarrow> tkn_rem t' < tkn_rem t0"
    and "r = Special sql \<Longrightarrow> tkn_rem t' + length sql + 5 \<le> tkn_rem t0"
proof -
  define t where "t = skipBlank (if lastChar t0 = 0 then next_char t0 else t0)"
  have t: "tkn_rem t \<le> tkn_rem t0"
    using skipBlank_rem [of "next_char t0"] skipBlank_rem [of t0] next_rem_le [of t0] by (auto simp: t_def)
  have one: "scan_one t0 =
      (if isLetter (lastChar t) then token (scan_word (lastChar t) (next_char t))
       else if isDigit (lastChar t) then token (scanNumber False t)
       else if lastChar t = code CHR '':'' then token (scanBindVar t)
       else if lastChar t = code CHR '';'' then
         (if multi t then Ret (Tok 0 [], t) else Ret (Tok (lastChar t) [], next_char t))
       else if lastChar t = eofChar then Ret (Tok 0 [], t)
       else if lastChar t = code CHR ''/'' then scan_slash (next_char t)
       else token (scan_operator (lastChar t) (next_char t)))"
    by (simp only: scan_one_def t_def Let_def)
  have "tkn_rem t' \<le> tkn_rem t \<and> (r = Tok ty v \<longrightarrow> ty \<noteq> 0 \<longrightarrow> tkn_rem t' < tkn_rem t) \<and>
    (r = Special sql \<longrightarrow> tkn_rem t' + length sql + 5 \<le> tkn_rem t)"
  proof (cases "lastChar t = eofChar")
    case True
    then show ?thesis using assms unfolding one by (auto simp: eofChar_def isLetter_def isDigit_def)
  next
    case False
    note lt = next_rem [OF False]
    have word: "result_rem (scan_word c (next_char t)) < tkn_rem t" for c
      using le_less_trans [OF scan_word_rem lt] .
    have operator: "result_rem (scan_operator c (next_char t)) < tkn_rem t" for c
      using le_less_trans [OF scan_operator_rem lt] .
    note slash = scan_slash_rem [of "next_char t" r t']
    show ?thesis
      using assms False lt word [of "lastChar t"] operator [of "lastChar t"] slash number_rem [of t]
        scanBindVar_rem [OF False]
      unfolding one by (auto split: if_splits prod.splits)
  qed
  with t show "tkn_rem t' \<le> tkn_rem t0" "r = Tok ty v \<Longrightarrow> ty \<noteq> 0 \<Longrightarrow> tkn_rem t' < tkn_rem t0"
    "r = Special sql \<Longrightarrow> tkn_rem t' + length sql + 5 \<le> tkn_rem t0"
    by auto
qed

subsubsection \<open>Special comments\<close>

definition tkns_rem :: "tkn list \<Rightarrow> nat" where
  "tkns_rem ts = sum_list (map (\<lambda>t. tkn_rem t + 1) ts)"

lemma tkns_rem_simps [simp]: "tkns_rem [] = 0" "tkns_rem (t # ts) = tkn_rem t + 1 + tkns_rem ts"
  by (simp_all add: tkns_rem_def)

lemma NewStringTokenizer_rem [simp]: "tkn_rem (NewStringTokenizer sql) = length sql + 1"
  by (simp add: tkn_rem_def NewStringTokenizer_def eofChar_def)

function Scan :: "tkn list \<Rightarrow> (nat \<times> string \<times> tkn list) go" where
  "Scan [] = Ret (0, [], [])"
| "Scan (t # ts) =
     go_bind (Scan ts) (\<lambda>(tok, val, ts').
       if tok \<noteq> 0 then Ret (tok, val, t # ts')
       else
         go_bind (scan_one t) (\<lambda>(r, t').
           case r of
             Tok typ val' \<Rightarrow> Ret (typ, val', [t'])
           | Special sql \<Rightarrow> Scan [t', NewStringTokenizer sql]))"
  by pat_completeness auto
termination
  by (relation "measure tkns_rem") (auto dest: scan_one_rem(3) [OF _ refl])

lemma Scan_rem:
  "Scan ts = Ret (tok, val, ts') \<Longrightarrow> tkns_rem ts' \<le> tkns_rem ts \<and> (tok \<noteq> 0 \<longrightarrow> tkns_rem ts' < tkns_rem ts)"
proof (induction ts arbitrary: tok val ts' rule: Scan.induct)
  case 1
  then show ?case by simp
next
  case (2 t ts)
  from "2.prems" obtain tok0 val0 ts0 where s: "Scan ts = Ret (tok0, val0, ts0)"
    by (auto simp: go_bind_Ret_iff)
  show ?case
  proof (cases "tok0 = 0")
    case False
    then show ?thesis using "2.prems" "2.IH"(1) [OF s] by (auto simp: s)
  next
    case True
    with "2.prems" obtain r t' where o: "scan_one t = Ret (r, t')" by (auto simp: s go_bind_Ret_iff)
    show ?thesis
    proof (cases r)
      case (Tok ty v)
      then show ?thesis using "2.prems" True scan_one_rem(1,2) [OF o] by (auto simp: s o)
    next
      case (Special sql)
      then have "Scan [t', NewStringTokenizer sql] = Ret (tok, val, ts')"
        using "2.prems" True by (simp add: s o)
      from "2.IH"(2) [OF s refl refl _ o refl Special this] True scan_one_rem(3) [OF o Special]
      show ?thesis by auto
    qed
  qed
qed

subsection \<open>Lex\<close>

text \<open>\<^verbatim>\<open>KeywordString\<close>. The table is made by a loop over a Go map, so of two words for a token either may win.\<close>

definition KeywordStrings :: "nat \<Rightarrow> string list" where
  "KeywordStrings k = (if k = tok_UNUSED then [] else map fst (filter (\<lambda>(_, i). i = k) keyword_table))"

text \<open>The fields of \<^verbatim>\<open>Tokenizer\<close> that the parser uses; \<open>'d\<close> stands for \<^verbatim>\<open>DDL\<close>, and no bytes are nil.\<close>

record 'd lexer =
  tkns :: "tkn list"
  AllowComments :: bool
  SkipToEnd :: bool
  lastToken :: string
  LastError :: string
  partialDDL :: "'d option"

function skip_tokens :: "tkn list \<Rightarrow> (nat \<times> tkn list) go" where
  "skip_tokens ts =
     go_bind (Scan ts) (\<lambda>(typ, _, ts').
       if typ = 0 \<or> typ = code CHR '';'' \<or> typ = tok_LEX_ERROR then Ret (typ, ts') else skip_tokens ts')"
  by pat_completeness auto
termination
  by (relation "measure tkns_rem") (auto dest: Scan_rem)

definition skipStatement :: "'d lexer \<Rightarrow> (nat \<times> 'd lexer) go" where
  "skipStatement x =
     go_bind (skip_tokens (tkns x)) (\<lambda>(typ, ts). Ret (typ, x\<lparr>SkipToEnd := False, tkns := ts\<rparr>))"

function scan_comments :: "bool \<Rightarrow> tkn list \<Rightarrow> (nat \<times> string \<times> tkn list) go" where
  "scan_comments allow ts =
     go_bind (Scan ts) (\<lambda>(typ, val, ts').
       if typ = tok_COMMENT \<and> \<not> allow then scan_comments allow ts' else Ret (typ, val, ts'))"
  by pat_completeness auto
termination
  by (relation "measure (\<lambda>(a, ts). tkns_rem ts)") (auto simp: tok_COMMENT_def dest!: Scan_rem)

definition Lex :: "'d lexer \<Rightarrow> (nat \<times> string \<times> 'd lexer) go" where
  "Lex x =
     (if SkipToEnd x then go_bind (skipStatement x) (\<lambda>(typ, x'). Ret (typ, [], x'))
      else
        go_bind (scan_comments (AllowComments x) (tkns x)) (\<lambda>(typ, val, ts).
          let x1 = x\<lparr>tkns := ts\<rparr>;
              x2 = (if typ = 0 \<or> typ = code CHR '';'' \<or> typ = tok_LEX_ERROR then x1\<lparr>partialDDL := None\<rparr> else x1) in
          Ret (typ, val, x2\<lparr>lastToken := val\<rparr>)))"

definition Error :: "string \<Rightarrow> 'd lexer \<Rightarrow> 'd lexer go" where
  "Error err x =
     (let at = err @ '' at position '' @ format_nat (Position (hd (tkns x)));
          msg = (if lastToken x \<noteq> [] then at @ '' near '' @ [CHR 0x27] @ lastToken x @ [CHR 0x27] else at) in
      go_bind (skipStatement (x\<lparr>LastError := msg\<rparr>)) (\<lambda>(_, x'). Ret x'))"

definition reset :: "'d lexer \<Rightarrow> 'd lexer" where
  "reset x =
     x\<lparr>partialDDL := None, tkns := map (\<lambda>t. t\<lparr>posVarIndex := 0\<rparr>) (take 1 (tkns x)), SkipToEnd := False\<rparr>"

declare skip_tokens.simps [simp del] scan_comments.simps [simp del]

text \<open>All tokens of a text, as \<^verbatim>\<open>Scan\<close> returns them until the end.\<close>

function Scans :: "tkn list \<Rightarrow> (nat \<times> string) list go" where
  "Scans ts =
     go_bind (Scan ts) (\<lambda>(typ, val, ts').
       if typ = 0 then Ret [] else go_bind (Scans ts') (\<lambda>toks. Ret ((typ, val) # toks)))"
  by pat_completeness auto
termination
  by (relation "measure tkns_rem") (auto dest: Scan_rem)

declare Scans.simps [simp del]

lemma Scans_bound: "Scans ts = Ret toks \<Longrightarrow> length toks \<le> tkns_rem ts"
proof (induction ts arbitrary: toks rule: Scans.induct)
  case (1 ts)
  from "1.prems" obtain ty val ts' where s: "Scan ts = Ret (ty, val, ts')"
    by (subst (asm) Scans.simps) (auto simp: go_bind_Ret_iff)
  show ?case
  proof (cases "ty = 0")
    case True
    then show ?thesis using "1.prems" by (subst (asm) Scans.simps) (simp add: s)
  next
    case False
    with "1.prems" obtain rest where r: "Scans ts' = Ret rest" "toks = (ty, val) # rest"
      by (subst (asm) Scans.simps) (auto simp: s go_bind_Ret_iff)
    from "1.IH" [OF s refl refl False r(1)] Scan_rem [OF s] False r(2) show ?thesis by simp
  qed
qed

lemma skip_tokens_ends:
  "skip_tokens ts = Ret (typ, ts') \<Longrightarrow> typ = 0 \<or> typ = code CHR '';'' \<or> typ = tok_LEX_ERROR"
proof (induction ts rule: skip_tokens.induct)
  case (1 ts)
  from "1.prems" obtain ty v us where s: "Scan ts = Ret (ty, v, us)"
    by (subst (asm) skip_tokens.simps) (auto simp: go_bind_Ret_iff)
  show ?case
  proof (cases "ty = 0 \<or> ty = code CHR '';'' \<or> ty = tok_LEX_ERROR")
    case True
    then show ?thesis using "1.prems" by (subst (asm) skip_tokens.simps) (auto simp: s)
  next
    case False
    then have "skip_tokens us = Ret (typ, ts')" using "1.prems" by (subst (asm) skip_tokens.simps) (simp add: s)
    from "1.IH" [OF s refl refl False this] show ?thesis .
  qed
qed

subsection \<open>Strings\<close>

text \<open>The reference for \<open>scanString\<close>: one character at a time, without the scan ahead.\<close>

function scan_chars :: "nat \<Rightarrow> nat \<Rightarrow> string \<Rightarrow> tkn \<Rightarrow> nat \<times> string \<times> tkn" where
  "scan_chars delim ty b t =
     (let ch = lastChar t; t1 = next_char t in
      if ch = eofChar then (tok_LEX_ERROR, b, t)
      else if ch = code CHR 0x5C then
        (if lastChar t1 = eofChar then (tok_LEX_ERROR, b, t1)
         else scan_chars delim ty (b @ [decode_char (lastChar t1)]) (next_char t1))
      else if ch = delim then
        (if lastChar t1 \<noteq> delim then (ty, b, t1) else scan_chars delim ty (b @ [char_of ch]) (next_char t1))
      else scan_chars delim ty (b @ [char_of ch]) t1)"
  by pat_completeness auto
termination
  by (relation "measure (\<lambda>(d, ty, b, t). tkn_rem t)")
    (auto intro!: next_rem next_next_rem)

declare scan_chars.simps [simp del]

lemma next_lastChar: "lastChar t \<noteq> eofChar \<Longrightarrow> c \<noteq> eofChar \<Longrightarrow> next_char (t\<lparr>lastChar := c\<rparr>) = next_char t"
  by (cases "buf t") (simp_all add: next_char_def)

lemma skip_plain_stays: "buf t = [] \<or> \<not> plain delim (hd (buf t)) \<Longrightarrow> skip_plain delim t = t"
  by (cases t; cases "buf t") (auto simp: skip_plain_def)

lemma scan_ahead_plain:
  assumes "lastChar t \<noteq> eofChar" "lastChar t \<noteq> delim" "lastChar t \<noteq> code CHR 0x5C"
  shows "buf t = [] \<Longrightarrow> scan_ahead delim b t = (b @ [char_of (lastChar t)], None, next_char t)"
    and "buf t \<noteq> [] \<Longrightarrow> scan_ahead delim b t = scan_ahead delim (b @ [char_of (lastChar t)]) (next_char t)"
proof -
  show "scan_ahead delim b t = (b @ [char_of (lastChar t)], None, next_char t)" if "buf t = []"
    using assms that by (simp add: scan_ahead_def skip_plain_stays Let_def)
  show "scan_ahead delim b t = scan_ahead delim (b @ [char_of (lastChar t)]) (next_char t)" if ne: "buf t \<noteq> []"
  proof -
    obtain d ds where d: "buf t = d # ds" using ne by (cases "buf t") auto
    let ?u = "next_char t"
    have u: "lastChar ?u = code d" "buf ?u = ds" by (simp_all add: next_char_def d)
    show ?thesis
    proof (cases "plain delim d")
      case True
      have skip: "skip_plain delim ?u = (skip_plain delim t)\<lparr>lastChar := code d\<rparr>"
        using True by (simp add: skip_plain_def next_char_def d)
      have drop: "drop_one (x\<lparr>lastChar := code d\<rparr>) = (drop_one x)\<lparr>lastChar := code d\<rparr>" for x
        by (simp add: drop_one_def)
      have n: "next_char (x\<lparr>lastChar := code d\<rparr>) = next_char x" if "lastChar x \<noteq> eofChar" for x
        using that by (rule next_lastChar) simp
      show ?thesis
        using True assms by (auto simp: scan_ahead_def Let_def u skip drop n d plain_def split: list.splits)
    next
      case False
      have "next_char (drop_one t) = next_char ?u"
        using assms(1) d by (cases ds) (simp_all add: next_char_def drop_one_def)
      moreover have "skip_plain delim t = t" using False by (simp add: skip_plain_stays d)
      ultimately show ?thesis
        using False assms by (auto simp: scan_ahead_def Let_def u d plain_def)
    qed
  qed
qed

lemma scanString_plain:
  assumes "lastChar t \<noteq> eofChar" "lastChar t \<noteq> delim" "lastChar t \<noteq> code CHR 0x5C"
  shows "scanString delim ty b t = scanString delim ty (b @ [char_of (lastChar t)]) (next_char t)"
proof (cases "buf t = []")
  case True
  then show ?thesis
    using assms(1) by (subst scanString.simps) (simp add: scan_ahead_plain(1) [OF assms])
next
  case False
  then have "lastChar (next_char t) \<noteq> eofChar" by (cases "buf t") (simp_all add: next_char_def)
  then show ?thesis
    using assms(1) scan_ahead_plain(2) [OF assms False, of b]
    by (simp add: scanString.simps [of delim ty b t] scanString.simps [of delim ty "b @ _" "next_char t"])
qed

lemma scanString_scan_chars: "scanString delim ty b t = scan_chars delim ty b t"
proof (induction delim ty b t rule: scan_chars.induct)
  case (1 delim ty b t)
  note IH = 1 [OF refl refl]
  let ?ch = "lastChar t"
  consider "?ch = eofChar" | "?ch \<noteq> eofChar" "?ch = code CHR 0x5C"
    | "?ch \<noteq> eofChar" "?ch \<noteq> code CHR 0x5C" "?ch = delim"
    | "?ch \<noteq> eofChar" "?ch \<noteq> code CHR 0x5C" "?ch \<noteq> delim" by blast
  then show ?case
  proof cases
    case 1
    then show ?thesis by (simp add: scanString.simps [of _ _ _ t] scan_chars.simps [of _ _ _ t] Let_def)
  next
    case 2
    then have a: "scan_ahead delim b t = (b, Some ?ch, next_char t)" by (simp add: scan_ahead_def Let_def)
    show ?thesis
      using 2 IH(1) by (simp add: scanString.simps [of _ _ _ t] scan_chars.simps [of _ _ _ t] Let_def a)
  next
    case 3
    then have a: "scan_ahead delim b t = (b, Some ?ch, next_char t)" by (simp add: scan_ahead_def Let_def)
    show ?thesis
      using 3 IH(2) by (simp add: scanString.simps [of _ _ _ t] scan_chars.simps [of _ _ _ t] Let_def a)
  next
    case 4
    then show ?thesis
      using IH(3) scanString_plain [of t delim ty b] by (simp add: scan_chars.simps [of _ _ _ t] Let_def)
  qed
qed

text \<open>The text that is left, from the last character on.\<close>

definition reads :: "tkn \<Rightarrow> string \<Rightarrow> bool" where
  "reads t s \<longleftrightarrow> (if s = [] then lastChar t = eofChar else lastChar t = code (hd s)) \<and> buf t = tl s"

lemma reads_next: "reads t (c # s) \<Longrightarrow> reads (next_char t) s"
  by (cases s) (auto simp: reads_def next_char_def)

lemma reads_lastChar: "reads t (c # s) \<Longrightarrow> lastChar t = code c"
  by (simp add: reads_def)

lemma reads_new: "reads (next_char (NewStringTokenizer s)) s"
  by (cases s) (simp_all add: reads_def next_char_def NewStringTokenizer_def eofChar_def)

lemma reads_differs: "reads t rest \<Longrightarrow> rest = [] \<or> hd rest \<noteq> c \<Longrightarrow> lastChar t \<noteq> code c"
  by (auto simp: reads_def split: if_splits)

lemma decode_encoded: "SQLEncodeMap c = Some e \<Longrightarrow> decode_char (code e) = c"
  by (simp add: decode_char_def SQLDecodeMap_Encode)

lemma scan_chars_encoded:
  assumes "reads t (concat (map encode_char v) @ CHR 0x27 # rest)" "rest = [] \<or> hd rest \<noteq> CHR 0x27"
  shows "\<exists>t'. scan_chars (code CHR 0x27) ty b t = (ty, b @ v, t') \<and> reads t' rest"
  using assms(1)
proof (induction v arbitrary: b t)
  case Nil
  then have "lastChar t = code CHR 0x27" "reads (next_char t) rest"
    by (auto dest: reads_lastChar reads_next)
  with reads_differs [OF this(2) assms(2)] show ?case
    by (subst scan_chars.simps) (simp add: Let_def eofChar_def)
next
  case (Cons c v)
  show ?case
  proof (cases "SQLEncodeMap c")
    case None
    then have t: "lastChar t = code c" "reads (next_char t) (concat (map encode_char v) @ CHR 0x27 # rest)"
      using Cons.prems by (auto simp: encode_char_def [of c] dest: reads_lastChar reads_next)
    have "code c \<noteq> code CHR 0x27" "code c \<noteq> code CHR 0x5C" using SQLEncodeMap_None [OF None] by (auto simp only: of_char_eq_iff)
    then have "scan_chars (code CHR 0x27) ty b t = scan_chars (code CHR 0x27) ty (b @ [c]) (next_char t)"
      using t(1) by (subst scan_chars.simps) (simp add: Let_def)
    with Cons.IH [OF t(2), of "b @ [c]"] show ?thesis by simp
  next
    case (Some e)
    then have r: "reads t (CHR 0x5C # e # concat (map encode_char v) @ CHR 0x27 # rest)"
      using Cons.prems by (simp add: encode_char_def [of c])
    note t1 = reads_next [OF r]
    have "scan_chars (code CHR 0x27) ty b t =
        scan_chars (code CHR 0x27) ty (b @ [c]) (next_char (next_char t))"
      using reads_lastChar [OF r] reads_lastChar [OF t1] decode_encoded [OF Some]
      by (subst scan_chars.simps) (simp add: Let_def, simp add: eofChar_def)
    with Cons.IH [OF reads_next [OF t1], of "b @ [c]"] show ?thesis by simp
  qed
qed

lemma scan_one_encoded:
  assumes "lastChar t = 0" "reads (next_char t) (encodeBytesSQL v @ rest)" "rest = [] \<or> hd rest \<noteq> CHR 0x27"
  shows "\<exists>t'. scan_one t = Ret (Tok tok_STRING v, t') \<and> reads t' rest"
proof -
  let ?t = "next_char t"
  have r: "reads ?t (CHR 0x27 # concat (map encode_char v) @ CHR 0x27 # rest)"
    using assms(2) by (simp add: encodeBytesSQL_def)
  then have q: "lastChar ?t = 39" by (simp add: reads_lastChar)
  have "skipBlank ?t = ?t" using q by (subst skipBlank.simps) simp
  moreover have "scan_operator 39 (next_char ?t) = scanString 39 tok_STRING [] (next_char ?t)"
    by (simp add: scan_operator_def)
  ultimately have one: "scan_one t = token (scanString 39 tok_STRING [] (next_char ?t))"
    using assms(1) q by (simp add: scan_one_def Let_def isLetter_def isDigit_def eofChar_def)
  obtain t' where "scan_chars 39 tok_STRING [] (next_char ?t) = (tok_STRING, v, t')" "reads t' rest"
    using scan_chars_encoded [OF reads_next [OF r] assms(3), of tok_STRING "[]"] by auto
  then show ?thesis by (simp add: one scanString_scan_chars)
qed

lemma Scan_one: "Scan [t] = Ret (typ, val, [t'])" if "scan_one t = Ret (Tok typ val, t')"
  using that by simp

text \<open>Running the tokenizer on a given text.\<close>

lemmas scan_defs = scan_one_def Let_def next_char_def NewStringTokenizer_def eofChar_def isLetter_def isDigit_def
  scan_operator_def skipBlank.simps tok_defs

lemma char_of_codes:
  "char_of (42 :: nat) = CHR ''*''" "char_of (47 :: nat) = CHR ''/''" "char_of (63 :: nat) = CHR ''?''"
  using char_of_char [of "CHR ''*''", where 'a = nat] char_of_char [of "CHR ''/''", where 'a = nat] char_of_char [of "CHR ''?''", where 'a = nat] by simp_all

lemmas scan_run = scan_defs Scans.simps scan_slash_def scanMySQLSpecificComment_def block_comment.simps
  consumeNext_def char_of_codes

subsection \<open>Properties\<close>

text \<open>
  C34. Every text is tokenized in finitely many calls: a call of \<^verbatim>\<open>Scan\<close> that returns a token other than the
  end (0), also out of special comments, leaves less text, the calls up to the end return at most two tokens
  more than the text has bytes, and \<^verbatim>\<open>skipStatement\<close>, if no special comment makes it panic, stops at the end, at a
  semicolon or at an error.
\<close>

theorem Scan_progress:
  "(Scan ts = Ret (ty, val, ts') \<and> ty \<noteq> 0 \<longrightarrow> tkns_rem ts' < tkns_rem ts) \<and>
   (Scans [NewStringTokenizer sql] = Ret toks \<longrightarrow> length toks \<le> length sql + 2) \<and>
   (skipStatement (x :: 'd lexer) = Ret (stop, x') \<longrightarrow>
      stop \<in> {0, code CHR '';'', tok_LEX_ERROR} \<and> \<not> SkipToEnd x')"
  using Scans_bound [of "[NewStringTokenizer sql]" toks]
  by (auto simp: skipStatement_def go_bind_Ret_iff dest: Scan_rem skip_tokens_ends)

theorem Scan_progress_witness:
  "let t = NewStringTokenizer ''?;?''; x = \<lparr>tkns = [t], AllowComments = False, SkipToEnd = True, lastToken = [],
       LastError = [], partialDDL = Some ()\<rparr> in
   case Scan [t] of
     Panic \<Rightarrow> False
   | Ret (ty, val, ts') \<Rightarrow> ty \<noteq> 0 \<and> tkns_rem ts' < tkns_rem [t] \<and>
       (case Scans [t] of
          Panic \<Rightarrow> False
        | Ret toks \<Rightarrow> length toks = 3 \<and> length toks \<le> length ''?;?'' + 2) \<and>
       (case skipStatement x of
          Panic \<Rightarrow> False
        | Ret (stop, x') \<Rightarrow> stop = code CHR '';'' \<and> stop \<in> {0, code CHR '';'', tok_LEX_ERROR} \<and> \<not> SkipToEnd x')"
proof -
  let ?t = "NewStringTokenizer ''?;?''"
  let ?x = "\<lparr>tkns = [?t], AllowComments = False, SkipToEnd = True, lastToken = [], LastError = [],
    partialDDL = Some ()\<rparr>"
  have "case Scan [?t] of Panic \<Rightarrow> False | Ret (ty, val, ts') \<Rightarrow> ty \<noteq> 0"
    by (simp add: scan_run)
  then obtain ty val ts' where s: "Scan [?t] = Ret (ty, val, ts')" "ty \<noteq> 0" by (auto split: go.splits)
  have "case Scans [?t] of Panic \<Rightarrow> False | Ret toks \<Rightarrow> length toks = 3"
    by (simp add: scan_run)
  then obtain toks where toks: "Scans [?t] = Ret toks" "length toks = 3" by (auto split: go.splits)
  have "case skipStatement ?x of Panic \<Rightarrow> False | Ret (stop, x') \<Rightarrow> stop = code CHR '';''"
    by (simp add: scan_run skipStatement_def skip_tokens.simps)
  then obtain stop x' where x: "skipStatement ?x = Ret (stop, x')" "stop = code CHR '';''" by (auto split: go.splits)
  show ?thesis
    using Scan_progress [of "[?t]" ty val ts' "''?;?''" toks ?x stop x'] s toks x by (simp add: Let_def)
qed

text \<open>
  C35. The fast path of \<^verbatim>\<open>scanString\<close>, which copies the bytes up to the next delimiter or backslash out of the
  buffer at once, changes nothing: from every state, token, value and state after it are those of reading one
  character at a time.
\<close>

theorem scanString_fast_path: "scanString delim ty b t = scan_chars delim ty b t"
  by (rule scanString_scan_chars)

text \<open>
  C7. A quoted value cannot break out of its quotes: whatever bytes it has, the tokenizer reads the SQL text that
  \<^verbatim>\<open>Value.EncodeSQL\<close> writes for it, followed by any text that does not start with a single quote, as one string
  token whose value is exactly these bytes, and goes on with the text that follows.
\<close>

theorem EncodeSQL_one_token:
  assumes "IsQuoted (vtyp v)" and "rest = [] \<or> hd rest \<noteq> CHR 0x27"
  shows "\<exists>t'. Scan [NewStringTokenizer (EncodeSQL v @ rest)] = Ret (tok_STRING, vval v, [t']) \<and> reads t' rest"
proof -
  have "\<not> IsQuoted T_Null" by code_simp
  then have "EncodeSQL v = encodeBytesSQL (vval v)" using assms(1) by (auto simp: EncodeSQL_def)
  then obtain t' where "scan_one (NewStringTokenizer (EncodeSQL v @ rest)) = Ret (Tok tok_STRING (vval v), t')"
      "reads t' rest"
    using scan_one_encoded [of "NewStringTokenizer (EncodeSQL v @ rest)" "vval v" rest] assms(2)
      reads_new [of "EncodeSQL v @ rest"]
    by (auto simp: NewStringTokenizer_def)
  then show ?thesis using Scan_one by blast
qed

theorem EncodeSQL_one_token_witness:
  "\<exists>t'. Scan [NewStringTokenizer (EncodeSQL (MakeTrusted T_VarBinary (CHR 0x27 # '' or 1 -- '')) @ '' and'')] =
     Ret (tok_STRING, CHR 0x27 # '' or 1 -- '', [t']) \<and> reads t' '' and''"
proof -
  let ?v = "MakeTrusted T_VarBinary (CHR 0x27 # '' or 1 -- '')"
  have v: "vval ?v = CHR 0x27 # '' or 1 -- ''" by code_simp
  have "IsQuoted (vtyp ?v)" by code_simp
  from EncodeSQL_one_token [OF this, of "'' and''"] show ?thesis by (simp add: v)
qed

text \<open>Two placeholders, one of them in a special comment, get the same name.\<close>

lemma special_comment_placeholder:
  "Scans [NewStringTokenizer ''?/*!?*/''] = Ret [(tok_VALUE_ARG, '':v1''), (tok_VALUE_ARG, '':v1'')]"
proof -
  have "ExtractMysqlComment ''/*!?*/'' = Ret ([], ''?'')" "format_nat (Suc 0) = ''1''" by code_simp+
  then show ?thesis by (simp add: scan_run)
qed

text \<open>A short special comment stops the tokenizer with a panic.\<close>

lemma short_special_comment: "Scans [NewStringTokenizer ''/*!*/''] = Panic"
proof -
  have "ExtractMysqlComment ''/*!*/'' = Panic" by code_simp
  then show ?thesis by (simp add: scan_run)
qed

end
