(* ===== verification/Sql_Identifier.thy ===== *)
theory Sql_Identifier
  imports Tokenizer
begin

text \<open>
  Writing identifiers into SQL: \<^verbatim>\<open>formatID\<close> and \<^verbatim>\<open>compliantName\<close> of \<^verbatim>\<open>src/vt/sqlparser/ast.go\<close>, which \<^verbatim>\<open>ColIdent\<close> and
  \<^verbatim>\<open>TableIdent\<close> use. Both loop over the runes of a string: a rune is modelled by its bytes, one byte that is no
  ASCII character being an invalid one.

  What \<^verbatim>\<open>formatID\<close> writes is read back as the same identifier, for every identifier in UTF-8 whose characters
  have 16 bits. The conversion \<^verbatim>\<open>uint16(c)\<close> cuts the others.
\<close>

subsection \<open>Runes\<close>

definition rune_len :: "string \<Rightarrow> nat" where
  "rune_len s =
     (if s = [] \<or> code (hd s) < 0x80 then 1
      else case find (\<lambda>w. w \<le> length s \<and> utf8_valid (take w s)) [2, 3, 4] of None \<Rightarrow> 1 | Some w \<Rightarrow> w)"

lemma rune_len_pos: "0 < rune_len s"
  by (simp add: rune_len_def)

function runes :: "string \<Rightarrow> string list" where
  "runes s = (if s = [] then [] else take (rune_len s) s # runes (drop (rune_len s) s))"
  by pat_completeness auto
termination
  by (relation "measure length") (simp_all add: rune_len_pos)

declare runes.simps [simp del]

fun rune_val :: "string \<Rightarrow> nat" where
  "rune_val [a] = (if code a < 0x80 then code a else 0xFFFD)"
| "rune_val [a, b] = (code a - 0xC0) * 64 + (code b - 0x80)"
| "rune_val [a, b, c] = (code a - 0xE0) * 4096 + (code b - 0x80) * 64 + (code c - 0x80)"
| "rune_val [a, b, c, d] =
     (code a - 0xF0) * 262144 + (code b - 0x80) * 4096 + (code c - 0x80) * 64 + (code d - 0x80)"
| "rune_val _ = 0xFFFD"

definition WriteRune :: "string \<Rightarrow> string" where
  "WriteRune r = (case r of [a] \<Rightarrow> if code a < 0x80 then r else [CHR 0xEF, CHR 0xBF, CHR 0xBD] | _ \<Rightarrow> r)"

definition uint16 :: "nat \<Rightarrow> nat" where
  "uint16 n = n mod 65536"

subsection \<open>formatID and compliantName\<close>

definition bad_rune :: "bool \<Rightarrow> bool \<Rightarrow> string \<Rightarrow> bool" where
  "bad_rune db first r \<longleftrightarrow>
     \<not> isLetter (uint16 (rune_val r)) \<and> (\<not> db \<or> \<not> isCarat (uint16 (rune_val r))) \<and>
     (first \<or> \<not> isDigit (uint16 (rune_val r)))"

definition system_variable :: "string \<Rightarrow> bool" where
  "system_variable s \<longleftrightarrow> 1 < length s \<and> take 2 s = ''@@''"

definition mustEscape :: "string \<Rightarrow> string \<Rightarrow> bool" where
  "mustEscape original lowered \<longleftrightarrow>
     (case runes original of
        [] \<Rightarrow> False
      | r # rs \<Rightarrow> bad_rune (system_variable original) True r \<or>
          list_ex (bad_rune (system_variable original) False) rs) \<or>
     map_of keyword_table lowered \<noteq> None"

definition escape_rune :: "string \<Rightarrow> string" where
  "escape_rune r = WriteRune r @ (if rune_val r = code CHR 0x60 then [CHR 0x60] else [])"

definition formatID :: "string \<Rightarrow> string \<Rightarrow> string" where
  "formatID original lowered =
     (if mustEscape original lowered
      then CHR 0x60 # concat (map escape_rune (runes original)) @ [CHR 0x60]
      else original)"

definition compliant_rune :: "bool \<Rightarrow> string \<Rightarrow> string" where
  "compliant_rune first r =
     (if \<not> isLetter (uint16 (rune_val r)) \<and> (first \<or> \<not> isDigit (uint16 (rune_val r))) then ''_'' else WriteRune r)"

definition compliantName :: "string \<Rightarrow> string" where
  "compliantName s =
     (case runes s of [] \<Rightarrow> [] | r # rs \<Rightarrow> compliant_rune True r @ concat (map (compliant_rune False) rs))"

subsection \<open>Identifiers in UTF-8\<close>

text \<open>An identifier is well-formed when it is valid UTF-8 and each character has 16 bits.\<close>

definition rune_ok :: "string \<Rightarrow> bool" where
  "rune_ok r \<longleftrightarrow> (length r = 1 \<longrightarrow> code (hd r) < 0x80) \<and> rune_val r < 65536"

definition utf8_16 :: "string \<Rightarrow> bool" where
  "utf8_16 s \<longleftrightarrow> list_all rune_ok (runes s)"

lemma runes_concat: "concat (runes s) = s"
proof (induction s rule: runes.induct)
  case (1 s)
  then show ?case by (subst runes.simps) simp
qed

text \<open>A rune of a string is one byte or a valid sequence of two to four.\<close>

definition rune_form :: "string \<Rightarrow> bool" where
  "rune_form r \<longleftrightarrow> length r = 1 \<or> utf8_valid r"

lemma rune_len_form: "s \<noteq> [] \<Longrightarrow> rune_form (take (rune_len s) s)"
  by (cases s) (auto simp: rune_len_def rune_form_def split: if_splits)

lemma runes_form: "r \<in> set (runes s) \<Longrightarrow> rune_form r"
proof (induction s rule: runes.induct)
  case (1 s)
  then show ?case
    by (cases "s = []") (auto simp: runes.simps [of s] runes.simps [of "[]"] intro: rune_len_form)
qed

lemma utf8_valid_bytes: "utf8_valid r \<Longrightarrow> c \<in> set r \<Longrightarrow> 0x80 \<le> code c"
  by (cases r rule: utf8_valid.cases) (auto simp: between_def)

lemma utf8_valid_length: "utf8_valid r \<Longrightarrow> length r \<noteq> 1"
  by (cases r rule: utf8_valid.cases) auto

lemma utf8_valid_val: "utf8_valid r \<Longrightarrow> 0x80 \<le> rune_val r"
  by (cases r rule: utf8_valid.cases) (auto simp: between_def)

lemma WriteRune_ok: "rune_form r \<Longrightarrow> rune_ok r \<Longrightarrow> WriteRune r = r"
  by (auto simp: WriteRune_def rune_form_def rune_ok_def split: list.splits)

text \<open>A character below 128 is the byte itself.\<close>

lemma rune_ascii:
  assumes "rune_form r" "rune_ok r" "rune_val r < 0x80"
  shows "\<exists>c. r = [c] \<and> rune_val r = code c"
proof -
  have "length r = 1" using assms utf8_valid_val [of r] by (auto simp: rune_form_def)
  then obtain c where "r = [c]" by (auto simp: length_Suc_conv)
  with assms(2) show ?thesis by (simp add: rune_ok_def)
qed

lemma name_chars_ascii: "isLetter n \<or> isDigit n \<or> isCarat n \<Longrightarrow> n < 0x80"
  by (auto simp: isLetter_def isDigit_def isCarat_def)

definition double_tick :: "char \<Rightarrow> string" where
  "double_tick c = (if c = CHR 0x60 then [c, c] else [c])"

lemma escape_rune_bytes:
  assumes "rune_form r" "rune_ok r"
  shows "escape_rune r = concat (map double_tick r)"
proof (cases "length r = 1")
  case True
  then obtain c where c: "r = [c]" by (auto simp: length_Suc_conv)
  have "code c < 0x80" using assms(2) by (simp add: rune_ok_def c)
  moreover have "code c = 96 \<longleftrightarrow> c = CHR 0x60" using of_char_eq_iff [of c "CHR 0x60", where 'a = nat] by simp
  ultimately show ?thesis using WriteRune_ok [OF assms] by (simp add: escape_rune_def c double_tick_def)
next
  case False
  then have v: "utf8_valid r" using assms(1) by (simp add: rune_form_def)
  have "double_tick c = [c]" if "c \<in> set r" for c
    using utf8_valid_bytes [OF v that] by (auto simp: double_tick_def)
  then have "concat (map double_tick r) = r" by (induction r) auto
  moreover have "rune_val r \<noteq> 96" using utf8_valid_val [OF v] by simp
  ultimately show ?thesis using WriteRune_ok [OF assms] by (simp add: escape_rune_def)
qed

lemma concat_map_concat: "concat (map (\<lambda>r. concat (map f r)) rs) = concat (map f (concat rs))"
  by (induction rs) simp_all

lemma escaped_bytes:
  assumes "utf8_16 s"
  shows "concat (map escape_rune (runes s)) = concat (map double_tick s)"
proof -
  have "map escape_rune (runes s) = map (\<lambda>r. concat (map double_tick r)) (runes s)"
    using assms by (auto simp: utf8_16_def list_all_iff intro!: escape_rune_bytes runes_form)
  then have "concat (map escape_rune (runes s)) = concat (map double_tick (concat (runes s)))"
    by (simp only: concat_map_concat)
  then show ?thesis by (simp add: runes_concat)
qed

subsection \<open>Reading them back\<close>

lemma literal_loop_reads:
  assumes "reads t (concat (map double_tick s) @ CHR 0x60 # rest)" "rest = [] \<or> hd rest \<noteq> CHR 0x60"
  shows "\<exists>t'. literal_loop False b t = (if b @ s = [] then tok_LEX_ERROR else tok_ID, b @ s, t') \<and> reads t' rest"
  using assms(1)
proof (induction s arbitrary: b t)
  case Nil
  then have "lastChar t = code CHR 0x60" and n: "reads (next_char t) rest"
    by (auto dest: reads_lastChar reads_next)
  with reads_differs [OF n assms(2)] show ?case
    by (simp add: literal_loop.simps [of _ _ t] literal_loop.simps [of True _ "next_char t"])
next
  case (Cons c s)
  show ?case
  proof (cases "c = CHR 0x60")
    case True
    then have r: "reads t (CHR 0x60 # CHR 0x60 # concat (map double_tick s) @ CHR 0x60 # rest)"
      using Cons.prems by (simp add: double_tick_def [of "CHR 0x60"])
    have "literal_loop False b t = literal_loop False (b @ [c]) (next_char (next_char t))"
      using reads_lastChar [OF r] reads_lastChar [OF reads_next [OF r]] True
      by (simp add: literal_loop.simps [of _ _ t] literal_loop.simps [of True _ "next_char t"])
    with Cons.IH [OF reads_next [OF reads_next [OF r]], of "b @ [c]"] show ?thesis by simp
  next
    case False
    then have r: "reads t (c # concat (map double_tick s) @ CHR 0x60 # rest)"
      using Cons.prems by (simp add: double_tick_def [of c])
    have "code c \<noteq> code CHR 0x60" using False by (simp only: of_char_eq_iff not_False_eq_True)
    then have "literal_loop False b t = literal_loop False (b @ [c]) (next_char t)"
      using reads_lastChar [OF r] by (simp add: literal_loop.simps [of _ _ t])
    with Cons.IH [OF reads_next [OF r], of "b @ [c]"] show ?thesis by simp
  qed
qed

lemma take_chars_reads:
  assumes "reads t (s @ rest)" "list_all (\<lambda>c. P (code c)) s" "rest = [] \<or> \<not> P (code (hd rest))"
  shows "\<exists>t'. take_chars P t = (s, t') \<and> reads t' rest"
  using assms(1,2)
proof (induction s arbitrary: t)
  case Nil
  then have "lastChar t = eofChar \<or> \<not> P (lastChar t)" using assms(3) by (auto simp: reads_def split: if_splits)
  then show ?case using Nil by (subst take_chars.simps) auto
next
  case (Cons c s)
  then have r: "reads t (c # s @ rest)" by simp
  from Cons.IH [OF reads_next [OF r]] Cons.prems(2) obtain t'
    where t': "take_chars P (next_char t) = (s, t')" "reads t' rest" by auto
  show ?case
    using t' reads_lastChar [OF r] Cons.prems(2) by (subst take_chars.simps) simp
qed

text \<open>What may follow an identifier without changing how it is read.\<close>

definition id_ends :: "string \<Rightarrow> string \<Rightarrow> bool" where
  "id_ends s rest \<longleftrightarrow>
     rest = [] \<or>
     \<not> isLetter (code (hd rest)) \<and> \<not> isDigit (code (hd rest)) \<and>
     hd rest \<notin> {CHR 0x27, CHR 0x60} \<and> (system_variable s \<longrightarrow> \<not> isCarat (code (hd rest)))"

lemma runes_all_ascii:
  assumes "utf8_16 s" "\<forall>r\<in>set (runes s). rune_val r < 0x80"
  shows "runes s = map (\<lambda>c. [c]) s" and "c \<in> set s \<Longrightarrow> rune_val [c] = code c"
proof -
  have one: "\<exists>c. r = [c] \<and> rune_val r = code c" if "r \<in> set (runes s)" for r
    using assms that by (auto simp: utf8_16_def list_all_iff intro!: rune_ascii runes_form)
  have "rs = map (\<lambda>c. [c]) (concat rs) \<and> (\<forall>c\<in>set (concat rs). rune_val [c] = code c)"
    if "\<And>r. r \<in> set rs \<Longrightarrow> \<exists>c. r = [c] \<and> rune_val r = code c" for rs
    using that by (induction rs) fastforce+
  from this [of "runes s"] one have "runes s = map (\<lambda>c. [c]) s \<and> (\<forall>c\<in>set s. rune_val [c] = code c)"
    by (simp add: runes_concat)
  then show "runes s = map (\<lambda>c. [c]) s" "c \<in> set s \<Longrightarrow> rune_val [c] = code c" by auto
qed

lemma not_escaped:
  assumes "utf8_16 (c # s)" "\<not> mustEscape (c # s) lowered"
  shows "isLetter (code c)" and "map_of keyword_table lowered = None"
    and "list_all (\<lambda>d. isLetter (code d) \<or> isDigit (code d) \<or> system_variable (c # s) \<and> isCarat (code d)) s"
proof -
  let ?db = "system_variable (c # s)"
  obtain r rs where rs: "runes (c # s) = r # rs" using runes.simps [of "c # s"] by simp
  have ok: "\<And>x. x \<in> set (r # rs) \<Longrightarrow> uint16 (rune_val x) = rune_val x"
    using assms(1) by (auto simp: utf8_16_def list_all_iff rs rune_ok_def uint16_def)
  have good: "\<not> bad_rune ?db True r" "\<And>x. x \<in> set rs \<Longrightarrow> \<not> bad_rune ?db False x"
    using assms(2) by (auto simp: mustEscape_def rs list_ex_iff)
  have "rune_val x < 0x80" if "x \<in> set (r # rs)" for x
  proof -
    have "\<not> bad_rune ?db (x = r) x \<or> \<not> bad_rune ?db False x" using that good by auto
    then have "isLetter (rune_val x) \<or> isDigit (rune_val x) \<or> isCarat (rune_val x)"
      using ok [OF that] by (auto simp: bad_rune_def)
    then show ?thesis by (rule name_chars_ascii)
  qed
  then have a: "runes (c # s) = map (\<lambda>c. [c]) (c # s)" "\<And>d. d \<in> set (c # s) \<Longrightarrow> rune_val [d] = code d"
    using runes_all_ascii [OF assms(1)] by (auto simp: rs)
  then have r: "r = [c]" "rs = map (\<lambda>c. [c]) s" using rs by auto
  have v: "uint16 (rune_val [d]) = code d" if "d \<in> set (c # s)" for d
    using ok [of "[d]"] a(2) [OF that] that r by auto
  show "map_of keyword_table lowered = None" using assms(2) by (simp add: mustEscape_def)
  show "list_all (\<lambda>d. isLetter (code d) \<or> isDigit (code d) \<or> ?db \<and> isCarat (code d)) s"
  proof (unfold list_all_iff, intro ballI)
    fix d
    assume "d \<in> set s"
    then show "isLetter (code d) \<or> isDigit (code d) \<or> ?db \<and> isCarat (code d)"
      using good(2) [of "[d]"] v [of d] r(2) by (auto simp: bad_rune_def)
  qed
  have "isLetter (code c) \<or> ?db \<and> isCarat (code c)" using good(1) v r by (auto simp: bad_rune_def)
  then show "isLetter (code c)" by (auto simp: system_variable_def isLetter_def)
qed

lemma scanIdentifier_reads:
  assumes "reads t (s @ rest)" "list_all (\<lambda>d. isLetter (code d) \<or> isDigit (code d) \<or> db \<and> isCarat (code d)) s"
    and "rest = [] \<or> \<not> isLetter (code (hd rest)) \<and> \<not> isDigit (code (hd rest)) \<and> (db \<longrightarrow> \<not> isCarat (code (hd rest)))"
    and "map_of keyword_table (to_lower (c # s)) = None"
  shows "\<exists>v t'. scanIdentifier c db t = (tok_ID, v, t') \<and> reads t' rest \<and>
    v = (if to_lower (c # s) = ''dual'' then ''dual'' else c # s)"
proof -
  obtain t' where "take_chars (\<lambda>d. isLetter d \<or> isDigit d \<or> db \<and> isCarat d) t = (s, t')" "reads t' rest"
    using take_chars_reads [OF assms(1), of "\<lambda>d. isLetter d \<or> isDigit d \<or> db \<and> isCarat d"] assms(2,3) by auto
  then show ?thesis using assms(4) by (auto simp: scanIdentifier_def Let_def)
qed

lemma at_code: "code c = 64 \<longleftrightarrow> c = CHR ''@''"
  using of_char_eq_iff [of c "CHR ''@''", where 'a = nat] by simp

lemma scan_word_reads:
  assumes "reads t (s @ rest)" "id_ends (c # s) rest" "isLetter (code c)"
    and "list_all (\<lambda>d. isLetter (code d) \<or> isDigit (code d) \<or> system_variable (c # s) \<and> isCarat (code d)) s"
    and "map_of keyword_table (to_lower (c # s)) = None"
  shows "\<exists>v t'. scan_word (code c) t = (tok_ID, v, t') \<and> reads t' rest \<and>
    v = (if to_lower (c # s) = ''dual'' then ''dual'' else c # s)"
proof -
  let ?db = "system_variable (c # s)"
  have at: "(code c = 64 \<and> lastChar t = 64) = ?db"
    using assms(1,2) by (cases s; cases rest)
      (auto simp: reads_def system_variable_def at_code id_ends_def isLetter_def eofChar_def)
  have quote: "lastChar t \<noteq> 39" if "c \<noteq> CHR ''@''"
  proof (cases s)
    case Nil
    then show ?thesis using assms(1,2) reads_differs [of t rest "CHR 0x27"] by (auto simp: id_ends_def)
  next
    case (Cons d s')
    have "\<not> ?db" using that by (auto simp: system_variable_def)
    then have "isLetter (code d) \<or> isDigit (code d)" using assms(4) Cons by simp
    then show ?thesis using assms(1) Cons by (auto simp: reads_def isLetter_def isDigit_def)
  qed
  have "scan_word (code c) t = scanIdentifier c ?db t"
  proof (cases "c = CHR ''@''")
    case True
    moreover have "char_of (64 :: nat) = CHR ''@''" using char_of_char [of "CHR ''@''", where 'a = nat] by simp
    ultimately show ?thesis using at by (simp add: scan_word_def)
  next
    case False
    then show ?thesis using at quote by (simp add: scan_word_def)
  qed
  moreover have "rest = [] \<or> \<not> isLetter (code (hd rest)) \<and> \<not> isDigit (code (hd rest)) \<and> (?db \<longrightarrow> \<not> isCarat (code (hd rest)))"
    using assms(2) by (auto simp: id_ends_def)
  ultimately show ?thesis using scanIdentifier_reads [OF assms(1,4) _ assms(5)] by simp
qed

lemma skipBlank_none: "lastChar t \<notin> {32, 10, 13, 9} \<Longrightarrow> skipBlank t = t"
  by (subst skipBlank.simps) simp

lemma scan_one_letter:
  assumes "lastChar t = 0" "lastChar (next_char t) = ch" "isLetter ch"
  shows "scan_one t = token (scan_word ch (next_char (next_char t)))"
proof -
  have "ch \<notin> {32, 10, 13, 9}" using assms(3) by (auto simp: isLetter_def)
  then have "skipBlank (next_char t) = next_char t" using assms(2) by (intro skipBlank_none) simp
  then show ?thesis using assms by (simp add: scan_one_def)
qed

lemma scan_one_tick:
  assumes "lastChar t = 0" "lastChar (next_char t) = 96"
  shows "scan_one t = token (scanLiteralIdentifier (next_char (next_char t)))"
proof -
  have "skipBlank (next_char t) = next_char t" using assms(2) by (intro skipBlank_none) simp
  moreover have "scan_operator 96 u = scanLiteralIdentifier u" for u by (simp add: scan_operator_def)
  ultimately show ?thesis using assms by (simp add: scan_one_def isLetter_def isDigit_def eofChar_def)
qed

lemma lastChar_new [simp]: "lastChar (NewStringTokenizer s) = 0"
  by (simp add: NewStringTokenizer_def)

subsection \<open>Properties\<close>

text \<open>
  C36. What \<^verbatim>\<open>formatID\<close> writes for an identifier that is not empty and valid UTF-8 with 16-bit characters, whatever it
  contains (backticks, blanks, keywords), is read back by the tokenizer as one ID token with the same name, followed by the rest of
  the text, provided that the rest does not go on like the identifier (\<open>id_ends\<close>) and that the second argument is the name in
  lower case where the name is not quoted. Only \<^verbatim>\<open>DUAL\<close>, when it is not quoted, comes back in lower case.
\<close>

theorem formatID_roundtrip:
  assumes "s \<noteq> []" "utf8_16 s" "id_ends s rest" "mustEscape s lowered \<or> lowered = to_lower s"
  shows "\<exists>t'. reads t' rest \<and> Scan [NewStringTokenizer (formatID s lowered @ rest)] =
    Ret (tok_ID, if to_lower s = ''dual'' \<and> \<not> mustEscape s lowered then ''dual'' else s, [t'])"
proof (cases "mustEscape s lowered")
  case True
  let ?t = "NewStringTokenizer (formatID s lowered @ rest)"
  have r: "reads (next_char ?t) (CHR 0x60 # concat (map double_tick s) @ CHR 0x60 # rest)"
    using reads_new [of "formatID s lowered @ rest"] True escaped_bytes [OF assms(2)] by (simp add: formatID_def)
  obtain t' where "literal_loop False [] (next_char (next_char ?t)) = (tok_ID, s, t')" "reads t' rest"
    using literal_loop_reads [OF reads_next [OF r], of "[]"] assms(1,3) by (auto simp: id_ends_def)
  then show ?thesis
    using scan_one_tick [of ?t] reads_lastChar [OF r] True by (auto simp: scanLiteralIdentifier_def)
next
  case False
  let ?t = "NewStringTokenizer (formatID s lowered @ rest)"
  obtain c u where s: "s = c # u" using assms(1) by (cases s) auto
  have r: "reads (next_char ?t) (c # u @ rest)"
    using reads_new [of "formatID s lowered @ rest"] False by (simp add: formatID_def s)
  note n = not_escaped [of c u lowered, folded s, OF assms(2) False, unfolded s]
  have "map_of keyword_table (to_lower (c # u)) = None" using n(2) assms(4) False by (simp add: s)
  with scan_word_reads [OF reads_next [OF r] assms(3) [unfolded s] n(1) n(3)]
  obtain t' where "scan_word (code c) (next_char (next_char ?t)) = (tok_ID, if to_lower s = ''dual'' then ''dual'' else s, t')" "reads t' rest"
    by (auto simp: s)
  then show ?thesis
    using scan_one_letter [of ?t, OF lastChar_new reads_lastChar [OF r] n(1)] False by auto
qed

theorem formatID_roundtrip_witness:
  "\<exists>t'. reads t' ''.b'' \<and> Scan [NewStringTokenizer (formatID [CHR ''a'', CHR 0x60, CHR '' ''] [CHR ''a'', CHR 0x60, CHR '' ''] @ ''.b'')] =
     Ret (tok_ID, [CHR ''a'', CHR 0x60, CHR '' ''], [t'])"
proof -
  let ?s = "[CHR ''a'', CHR 0x60, CHR '' '']"
  have "to_lower ?s = ?s" "\<not> to_lower ?s = ''dual''" by (simp_all add: to_lower_def)
  moreover have "utf8_16 ?s" by (simp add: utf8_16_def runes.simps rune_len_def rune_ok_def)
  moreover have "id_ends ?s ''.b''" by (simp add: id_ends_def isLetter_def isDigit_def system_variable_def)
  ultimately show ?thesis using formatID_roundtrip [of ?s "''.b''" ?s] by auto
qed

text \<open>A character beyond 16 bits: U+10041 is written without quotes, as \<^verbatim>\<open>uint16\<close> makes it the letter A.\<close>

lemma formatID_wide_character:
  "formatID [CHR 0xF0, CHR 0x90, CHR 0x81, CHR 0x81] [CHR 0xF0, CHR 0x90, CHR 0x81, CHR 0x81] =
     [CHR 0xF0, CHR 0x90, CHR 0x81, CHR 0x81]"
proof -
  let ?s = "[CHR 0xF0, CHR 0x90, CHR 0x81, CHR 0x81]"
  have "list_all (\<lambda>(k, _). hd k \<noteq> CHR 0xF0) keyword_table"
    by (simp add: keyword_table_def keywords_1_def keywords_2_def keywords_3_def)
  then have "map_of keyword_table ?s = None" by (force simp: map_of_eq_None_iff list_all_iff)
  then show ?thesis
    by (simp add: formatID_def mustEscape_def runes.simps rune_len_def between_def bad_rune_def uint16_def isLetter_def)
qed

end
