(* ===== verification/Lru_Cache.thy ===== *)
theory Lru_Cache
  imports Prelude "HOL-Library.AList"
begin

text \<open>
  The cache of \<^verbatim>\<open>src/cache/lru_cache.go\<close>. The elements of the \<^verbatim>\<open>container/list\<close> are addresses into a store, so that the
  list and the table share them the way the pointers do; \<open>order\<close> is the list, front first. The method
  \<^verbatim>\<open>Size()\<close> of the values is the parameter \<open>S\<close>, and \<open>now\<close> what \<^verbatim>\<open>time.Now()\<close> returns.

  The contract is a plain list of keys and values in order of use, cut off behind so that it fits
  (\<open>fit\<close>). Every sequence of calls has the results and the contents that the contract gives
  (\<open>lru_refines\<close>), for sizes and capacities that an \<^verbatim>\<open>int64\<close> can add.
\<close>

subsection \<open>The cache\<close>

record 'v entry =
  ekey :: string
  evalue :: 'v
  esize :: int
  timeAccessed :: int

record 'v LRUCache =
  order :: "nat list"
  store :: "nat \<Rightarrow> 'v entry"
  fresh :: nat
  ltable :: "(string \<times> nat) list"
  lsize :: int
  capacity :: int
  evictions :: int

definition NewLRUCache :: "int \<Rightarrow> 'v LRUCache" where
  "NewLRUCache cap =
     \<lparr>order = [], store = \<lambda>_. undefined, fresh = 0, ltable = [], lsize = 0, capacity = cap, evictions = 0\<rparr>"

function checkCapacity :: "'v LRUCache \<Rightarrow> 'v LRUCache go" where
  "checkCapacity lru =
     (if lsize lru > capacity lru then
        (if order lru = [] then Panic
         else
           (let delElem = last (order lru); delValue = store lru delElem in
            checkCapacity
              (lru\<lparr>order := butlast (order lru), ltable := AList.delete (ekey delValue) (ltable lru),
                   lsize := int64 (lsize lru - esize delValue), evictions := int64 (evictions lru + 1)\<rparr>)))
      else Ret lru)"
  by pat_completeness auto
termination
  by (relation "measure (\<lambda>lru. length (order lru))") auto

declare checkCapacity.simps [simp del]

definition moveToFront :: "nat \<Rightarrow> int \<Rightarrow> 'v LRUCache \<Rightarrow> 'v LRUCache" where
  "moveToFront element now lru =
     lru\<lparr>order := element # remove1 element (order lru),
         store := (store lru)(element := (store lru element)\<lparr>timeAccessed := now\<rparr>)\<rparr>"

definition updateInplace :: "('v \<Rightarrow> int) \<Rightarrow> nat \<Rightarrow> 'v \<Rightarrow> int \<Rightarrow> 'v LRUCache \<Rightarrow> 'v LRUCache go" where
  "updateInplace S element value now lru =
     (let valueSize = int64 (S value);
          sizeDiff = int64 (valueSize - esize (store lru element));
          lru1 = lru\<lparr>store := (store lru)(element := (store lru element)\<lparr>evalue := value, esize := valueSize\<rparr>),
                     lsize := int64 (lsize lru + sizeDiff)\<rparr> in
      checkCapacity (moveToFront element now lru1))"

definition addNew :: "('v \<Rightarrow> int) \<Rightarrow> string \<Rightarrow> 'v \<Rightarrow> int \<Rightarrow> 'v LRUCache \<Rightarrow> 'v LRUCache go" where
  "addNew S key value now lru =
     (let newEntry = \<lparr>ekey = key, evalue = value, esize = int64 (S value), timeAccessed = now\<rparr>;
          element = fresh lru in
      checkCapacity
        (lru\<lparr>fresh := element + 1, store := (store lru)(element := newEntry), order := element # order lru,
             ltable := AList.update key element (ltable lru), lsize := int64 (lsize lru + esize newEntry)\<rparr>))"

definition Get :: "string \<Rightarrow> int \<Rightarrow> 'v LRUCache \<Rightarrow> 'v option \<times> 'v LRUCache" where
  "Get key now lru =
     (case map_of (ltable lru) key of
        None \<Rightarrow> (None, lru)
      | Some element \<Rightarrow> (Some (evalue (store lru element)), moveToFront element now lru))"

definition Peek :: "string \<Rightarrow> 'v LRUCache \<Rightarrow> 'v option" where
  "Peek key lru = map_option (\<lambda>element. evalue (store lru element)) (map_of (ltable lru) key)"

definition Set :: "('v \<Rightarrow> int) \<Rightarrow> string \<Rightarrow> 'v \<Rightarrow> int \<Rightarrow> 'v LRUCache \<Rightarrow> 'v LRUCache go" where
  "Set S key value now lru =
     (case map_of (ltable lru) key of
        Some element \<Rightarrow> updateInplace S element value now lru
      | None \<Rightarrow> addNew S key value now lru)"

definition SetIfAbsent :: "('v \<Rightarrow> int) \<Rightarrow> string \<Rightarrow> 'v \<Rightarrow> int \<Rightarrow> 'v LRUCache \<Rightarrow> 'v LRUCache go" where
  "SetIfAbsent S key value now lru =
     (case map_of (ltable lru) key of
        Some element \<Rightarrow> Ret (moveToFront element now lru)
      | None \<Rightarrow> addNew S key value now lru)"

definition Delete :: "string \<Rightarrow> 'v LRUCache \<Rightarrow> bool \<times> 'v LRUCache" where
  "Delete key lru =
     (case map_of (ltable lru) key of
        None \<Rightarrow> (False, lru)
      | Some element \<Rightarrow>
          (True,
           lru\<lparr>order := remove1 element (order lru), ltable := AList.delete key (ltable lru),
               lsize := int64 (lsize lru - esize (store lru element))\<rparr>))"

definition Clear :: "'v LRUCache \<Rightarrow> 'v LRUCache" where
  "Clear lru = lru\<lparr>order := [], ltable := [], lsize := 0\<rparr>"

definition SetCapacity :: "int \<Rightarrow> 'v LRUCache \<Rightarrow> 'v LRUCache go" where
  "SetCapacity cap lru = checkCapacity (lru\<lparr>capacity := cap\<rparr>)"

text \<open>The zero time is \<open>None\<close>.\<close>

definition Oldest :: "'v LRUCache \<Rightarrow> int option" where
  "Oldest lru = (if order lru = [] then None else Some (timeAccessed (store lru (last (order lru)))))"

definition Stats :: "'v LRUCache \<Rightarrow> int \<times> int \<times> int \<times> int \<times> int option" where
  "Stats lru = (int64 (int (length (order lru))), lsize lru, capacity lru, evictions lru, Oldest lru)"

definition Length :: "'v LRUCache \<Rightarrow> int" where
  "Length lru = int64 (int (length (order lru)))"

definition Keys :: "'v LRUCache \<Rightarrow> string list" where
  "Keys lru = map (\<lambda>e. ekey (store lru e)) (order lru)"

definition Items :: "'v LRUCache \<Rightarrow> (string \<times> 'v) list" where
  "Items lru = map (\<lambda>e. (ekey (store lru e), evalue (store lru e))) (order lru)"

subsection \<open>The contract\<close>

function fit :: "('v \<Rightarrow> int) \<Rightarrow> int \<Rightarrow> (string \<times> 'v) list \<Rightarrow> (string \<times> 'v) list" where
  "fit S cap xs = (if xs = [] \<or> (\<Sum>x\<leftarrow>xs. S (snd x)) \<le> cap then xs else fit S cap (butlast xs))"
  by pat_completeness auto
termination
  by (relation "measure (\<lambda>(S, cap, xs). length xs)") auto

declare fit.simps [simp del]

text \<open>The longest part of the front that fits: the cache gives up the entries that are used last.\<close>

lemma fit_take: "\<exists>n. fit S cap xs = take n xs"
proof (induction S cap xs rule: fit.induct)
  case (1 S cap xs)
  then show ?case
    by (subst fit.simps) (auto simp: butlast_conv_take intro: exI [of _ "length xs"] split: if_splits)
qed

lemma fit_sum: "0 \<le> cap \<Longrightarrow> (\<Sum>x\<leftarrow>fit S cap xs. S (snd x)) \<le> cap"
proof (induction S cap xs rule: fit.induct)
  case (1 S cap xs)
  then show ?case by (subst fit.simps) auto
qed

subsection \<open>The invariant\<close>

definition small :: "('v \<Rightarrow> int) \<Rightarrow> 'v \<Rightarrow> bool" where
  "small S v \<longleftrightarrow> 0 \<le> S v \<and> S v < 2 ^ 62"

definition lru_inv :: "('v \<Rightarrow> int) \<Rightarrow> 'v LRUCache \<Rightarrow> bool" where
  "lru_inv S c \<longleftrightarrow>
     distinct (order c) \<and> (\<forall>a \<in> set (order c). a < fresh c) \<and>
     (\<forall>k a. map_of (ltable c) k = Some a \<longleftrightarrow> a \<in> set (order c) \<and> ekey (store c a) = k) \<and>
     (\<forall>a \<in> set (order c). esize (store c a) = S (evalue (store c a)) \<and> small S (evalue (store c a))) \<and>
     lsize c = (\<Sum>a\<leftarrow>order c. esize (store c a)) \<and> lsize c < 2 ^ 63 \<and> 0 \<le> capacity c \<and> capacity c < 2 ^ 62"

definition lru_ok :: "('v \<Rightarrow> int) \<Rightarrow> 'v LRUCache \<Rightarrow> bool" where
  "lru_ok S c \<longleftrightarrow> lru_inv S c \<and> lsize c \<le> capacity c"

lemma lru_inv_table: "lru_inv S c \<Longrightarrow> map_of (ltable c) k = Some a \<longleftrightarrow> a \<in> set (order c) \<and> ekey (store c a) = k"
  by (simp add: lru_inv_def)

lemma lru_inv_unique:
  "lru_inv S c \<Longrightarrow> a \<in> set (order c) \<Longrightarrow> b \<in> set (order c) \<Longrightarrow> ekey (store c a) = ekey (store c b) \<Longrightarrow> a = b"
  by (metis lru_inv_table option.inject)

lemma lru_inv_nonneg: "lru_inv S c \<Longrightarrow> a \<in> set (order c) \<Longrightarrow> 0 \<le> esize (store c a) \<and> esize (store c a) < 2 ^ 62"
  by (auto simp: lru_inv_def small_def)

lemma sum_list_nonneg_part:
  fixes f :: "'a \<Rightarrow> int"
  assumes "\<And>a. a \<in> set xs \<Longrightarrow> 0 \<le> f a"
  shows "0 \<le> sum_list (map f xs)" and "a \<in> set xs \<Longrightarrow> f a \<le> sum_list (map f xs)"
proof -
  show n: "0 \<le> sum_list (map f xs)" using assms by (induction xs) auto
  show "a \<in> set xs \<Longrightarrow> f a \<le> sum_list (map f xs)"
    using assms
  proof (induction xs)
    case (Cons x xs)
    then have "0 \<le> sum_list (map f xs)" by (intro sum_list_nonneg) auto
    with Cons show ?case by fastforce
  qed simp
qed

lemma lru_inv_bounds:
  assumes "lru_inv S c"
  shows "0 \<le> lsize c" and "a \<in> set (order c) \<Longrightarrow> esize (store c a) \<le> lsize c"
  using sum_list_nonneg_part [of "order c" "\<lambda>a. esize (store c a)"] assms lru_inv_nonneg [OF assms]
  by (auto simp: lru_inv_def)

lemma Items_sum: "lru_inv S c \<Longrightarrow> (\<Sum>x\<leftarrow>Items c. S (snd x)) = lsize c"
  by (auto simp: lru_inv_def Items_def comp_def intro!: arg_cong [where f = sum_list])

lemma Items_distinct: "lru_inv S c \<Longrightarrow> distinct (map fst (Items c))"
  using lru_inv_unique [of S c] by (auto simp: Items_def distinct_map comp_def inj_on_def lru_inv_def)

lemma Items_lookup:
  assumes "lru_inv S c"
  shows "map_of (Items c) k = map_option (\<lambda>a. evalue (store c a)) (map_of (ltable c) k)"
proof (cases "map_of (ltable c) k")
  case None
  then have "\<not> (\<exists>a\<in>set (order c). ekey (store c a) = k)" using lru_inv_table [OF assms, of k] by auto
  then have "k \<notin> fst ` set (Items c)" by (auto simp: Items_def)
  then show ?thesis using None by (simp add: map_of_eq_None_iff [THEN iffD2])
next
  case (Some a)
  then have "(k, evalue (store c a)) \<in> set (Items c)"
    using lru_inv_table [OF assms, of k a] by (auto simp: Items_def)
  then show ?thesis using Some by (simp add: map_of_eq_Some_iff [OF Items_distinct [OF assms]])
qed

subsection \<open>The operations keep it\<close>

lemma lru_inv_drop:
  assumes c: "lru_inv S c" and a: "a \<in> set (order c)" and xs: "distinct xs" "set xs = set (order c) - {a}"
  shows "lru_inv S (c\<lparr>order := xs, ltable := AList.delete (ekey (store c a)) (ltable c),
    lsize := int64 (lsize c - esize (store c a)), evictions := n\<rparr>)"
proof -
  have "(\<Sum>x\<leftarrow>xs. esize (store c x)) = (\<Sum>x\<in>set (order c) - {a}. esize (store c x))"
    using xs by (simp add: sum_list_distinct_conv_sum_set)
  also have "\<dots> = (\<Sum>x\<leftarrow>order c. esize (store c x)) - esize (store c a)"
    using a c by (simp add: sum_diff1 sum_list_distinct_conv_sum_set lru_inv_def)
  finally have sum: "(\<Sum>x\<leftarrow>xs. esize (store c x)) = lsize c - esize (store c a)" using c by (simp add: lru_inv_def)
  have range: "0 \<le> lsize c - esize (store c a)" "lsize c - esize (store c a) < 2 ^ 63"
    using lru_inv_bounds(2) [OF c a] lru_inv_nonneg [OF c a] c by (auto simp: lru_inv_def)
  have table: "map_of (AList.delete (ekey (store c a)) (ltable c)) k = Some b \<longleftrightarrow> b \<in> set xs \<and> ekey (store c b) = k" for k b
  proof (cases "k = ekey (store c a)")
    case True
    have "\<not> (b \<in> set xs \<and> ekey (store c b) = k)" using lru_inv_unique [OF c a] xs(2) True by (metis Diff_iff insertI1)
    then show ?thesis using True by (simp add: delete_conv')
  next
    case False
    then have "map_of (AList.delete (ekey (store c a)) (ltable c)) k = map_of (ltable c) k" by (simp add: delete_conv')
    then show ?thesis using False lru_inv_table [OF c, of k b] xs(2) by auto
  qed
  show ?thesis
    using c xs range by (auto simp: lru_inv_def table sum)
qed

lemma Items_remove:
  assumes "lru_inv S c" "a \<in> set (order c)" "store c' = store c" "order c' = filter (\<lambda>x. a \<noteq> x) (order c)"
  shows "Items c' = AList.delete (ekey (store c a)) (Items c)"
proof -
  have "filter (\<lambda>x. a \<noteq> x) (order c) = filter (\<lambda>x. ekey (store c a) \<noteq> ekey (store c x)) (order c)"
    using lru_inv_unique [OF assms(1,2)] by (intro filter_cong refl) metis
  then show ?thesis by (simp add: Items_def assms(3,4) AList.delete_eq filter_map comp_def)
qed

lemma checkCapacity_ok:
  assumes "lru_inv S c"
  shows "\<exists>c'. checkCapacity c = Ret c' \<and> lru_ok S c' \<and> Items c' = fit S (capacity c) (Items c) \<and> capacity c' = capacity c"
  using assms
proof (induction c rule: checkCapacity.induct)
  case (1 c)
  show ?case
  proof (cases "lsize c > capacity c")
    case False
    then have "fit S (capacity c) (Items c) = Items c"
      using Items_sum [OF "1.prems"] by (subst fit.simps) simp
    then show ?thesis using False "1.prems" by (subst checkCapacity.simps) (simp add: lru_ok_def)
  next
    case True
    have ne: "order c \<noteq> []" using True "1.prems" by (auto simp: lru_inv_def)
    define a where "a = last (order c)"
    have a: "a \<in> set (order c)" using ne by (simp add: a_def)
    define c1 where "c1 = c\<lparr>order := butlast (order c), ltable := AList.delete (ekey (store c a)) (ltable c),
      lsize := int64 (lsize c - esize (store c a)), evictions := int64 (evictions c + 1)\<rparr>"
    have d: "distinct (butlast (order c) @ [a])" using "1.prems" ne by (simp add: a_def lru_inv_def)
    have "set (butlast (order c) @ [a]) = set (order c)" using ne by (simp add: a_def)
    with d have "set (butlast (order c)) = set (order c) - {a}" by auto
    with d have c1: "lru_inv S c1" unfolding c1_def by (intro lru_inv_drop [OF "1.prems" a]) simp_all
    have items: "Items c1 = butlast (Items c)" by (simp add: c1_def Items_def map_butlast)
    have "fit S (capacity c) (Items c) = fit S (capacity c) (butlast (Items c))"
      using True ne Items_sum [OF "1.prems"] by (subst fit.simps) (simp add: Items_def)
    moreover have "checkCapacity c = checkCapacity c1"
      using True ne by (subst checkCapacity.simps) (simp add: c1_def a_def Let_def)
    moreover have "capacity c1 = capacity c" by (simp add: c1_def)
    ultimately show ?thesis
      using "1.IH" [OF True ne refl refl, folded a_def, folded c1_def] c1 items by simp
  qed
qed

lemma moveToFront_ok:
  assumes c: "lru_inv S c" and a: "a \<in> set (order c)"
  shows "lru_inv S (moveToFront a now c)"
    and "Items (moveToFront a now c) =
      (ekey (store c a), evalue (store c a)) # AList.delete (ekey (store c a)) (Items c)"
proof -
  have order: "a # remove1 a (order c) = a # filter (\<lambda>x. a \<noteq> x) (order c)"
    using c by (simp add: lru_inv_def distinct_remove1_removeAll removeAll_filter_not_eq)
  let ?s = "(store c)(a := (store c a)\<lparr>timeAccessed := now\<rparr>)"
  have same: "ekey (?s x) = ekey (store c x)" "evalue (?s x) = evalue (store c x)" "esize (?s x) = esize (store c x)" for x
    by auto
  have perm: "distinct (a # remove1 a (order c))" "set (a # remove1 a (order c)) = set (order c)"
    using c a by (auto simp: lru_inv_def set_remove1_eq)
  have "(\<Sum>x\<leftarrow>a # remove1 a (order c). esize (?s x)) = (\<Sum>x\<leftarrow>order c. esize (store c x))"
    using perm c unfolding same by (simp only: sum_list_distinct_conv_sum_set lru_inv_def)
  then show "lru_inv S (moveToFront a now c)"
    using c perm unfolding lru_inv_def moveToFront_def by (simp add: same del: fun_upd_apply)
  have "Items (c\<lparr>order := filter (\<lambda>x. a \<noteq> x) (order c)\<rparr>) = AList.delete (ekey (store c a)) (Items c)"
    by (intro Items_remove [OF c a]) simp_all
  then show "Items (moveToFront a now c) =
      (ekey (store c a), evalue (store c a)) # AList.delete (ekey (store c a)) (Items c)"
    unfolding moveToFront_def order by (simp add: Items_def same del: fun_upd_apply)
qed

lemma addNew_ok:
  assumes c: "lru_ok S c" and new: "map_of (ltable c) k = None" and v: "small S v"
  shows "\<exists>c'. addNew S k v now c = Ret c' \<and> lru_ok S c' \<and> Items c' = fit S (capacity c) ((k, v) # Items c) \<and>
    capacity c' = capacity c"
proof -
  let ?a = "fresh c" and ?e = "\<lparr>ekey = k, evalue = v, esize = S v, timeAccessed = now\<rparr>"
  let ?c = "c\<lparr>fresh := ?a + 1, store := (store c)(?a := ?e), order := ?a # order c,
    ltable := AList.update k ?a (ltable c), lsize := lsize c + S v\<rparr>"
  have inv: "lru_inv S c" and le: "lsize c \<le> capacity c" using c by (simp_all add: lru_ok_def)
  have fresh: "?a \<notin> set (order c)" using inv by (auto simp: lru_inv_def)
  have s: "int64 (S v) = S v" "int64 (lsize c + S v) = lsize c + S v" "lsize c + S v < 2 ^ 63"
    using v le inv lru_inv_bounds(1) [OF inv] by (auto simp: small_def lru_inv_def)
  have sum: "(\<Sum>x\<leftarrow>order c. esize (((store c)(?a := ?e)) x)) = (\<Sum>x\<leftarrow>order c. esize (store c x))"
    using fresh by (intro arg_cong [where f = sum_list] map_cong) auto
  have table: "map_of (AList.update k ?a (ltable c)) k' = Some b \<longleftrightarrow>
      b \<in> set (?a # order c) \<and> ekey (((store c)(?a := ?e)) b) = k'" for k' b
    using lru_inv_table [OF inv, of k' b] lru_inv_table [OF inv, of k] new fresh by (auto simp: update_conv')
  have "lru_inv S ?c"
    using inv fresh s(3) v table unfolding lru_inv_def by (auto simp: sum [unfolded fun_upd_apply] less_Suc_eq)
  from checkCapacity_ok [OF this] show ?thesis
  proof -
    have "Items ?c = (k, v) # Items c" using fresh by (auto simp: Items_def)
    moreover have "addNew S k v now c = checkCapacity ?c" by (simp add: addNew_def s Let_def)
    ultimately show ?thesis using checkCapacity_ok [OF \<open>lru_inv S ?c\<close>] by simp
  qed
qed

lemma updateInplace_ok:
  assumes c: "lru_ok S c" and a: "map_of (ltable c) k = Some a" and v: "small S v"
  shows "\<exists>c'. updateInplace S a v now c = Ret c' \<and> lru_ok S c' \<and>
    Items c' = fit S (capacity c) ((k, v) # AList.delete k (Items c)) \<and> capacity c' = capacity c"
proof -
  let ?s = "(store c)(a := (store c a)\<lparr>evalue := v, esize := S v\<rparr>)"
  let ?c = "c\<lparr>store := ?s, lsize := lsize c + (S v - esize (store c a))\<rparr>"
  have inv: "lru_inv S c" and le: "lsize c \<le> capacity c" using c by (simp_all add: lru_ok_def)
  have mem: "a \<in> set (order c)" and k: "ekey (store c a) = k" using lru_inv_table [OF inv, of k a] a by auto
  note old = lru_inv_nonneg [OF inv mem] lru_inv_bounds(2) [OF inv mem]
  have range: "lsize c + (S v - esize (store c a)) < 2 ^ 63" "0 \<le> lsize c + (S v - esize (store c a))"
    using v le inv old by (auto simp: small_def lru_inv_def)
  then have s: "int64 (S v) = S v" "int64 (S v - esize (store c a)) = S v - esize (store c a)"
    "int64 (lsize c + (S v - esize (store c a))) = lsize c + (S v - esize (store c a))"
    using v old by (auto simp: small_def)
  have "(\<Sum>x\<leftarrow>order c. esize (?s x)) = (\<Sum>x\<in>set (order c) - {a}. esize (?s x)) + esize (?s a)"
    using inv mem by (simp add: sum_list_distinct_conv_sum_set lru_inv_def sum.remove del: fun_upd_apply)
  also have "\<dots> = (\<Sum>x\<in>set (order c) - {a}. esize (store c x)) + S v"
    by (auto intro!: sum.cong)
  also have "\<dots> = (\<Sum>x\<leftarrow>order c. esize (store c x)) - esize (store c a) + S v"
    using inv mem by (simp add: sum_list_distinct_conv_sum_set lru_inv_def sum_diff1)
  finally have sum: "(\<Sum>x\<leftarrow>order c. esize (?s x)) = lsize c + (S v - esize (store c a))"
    using inv by (simp add: lru_inv_def)
  have key: "ekey (?s x) = ekey (store c x)" for x by simp
  have size: "esize (?s x) = S (evalue (?s x)) \<and> small S (evalue (?s x))" if "x \<in> set (order c)" for x
    using inv that v by (auto simp: lru_inv_def)
  have inv': "lru_inv S ?c"
    using inv range(1) sum size unfolding lru_inv_def by (simp add: key del: fun_upd_apply)
  have "Items (?c\<lparr>order := filter (\<lambda>x. a \<noteq> x) (order c)\<rparr>) = Items (c\<lparr>order := filter (\<lambda>x. a \<noteq> x) (order c)\<rparr>)"
    by (simp add: Items_def)
  then have rest: "AList.delete k (Items ?c) = AList.delete k (Items c)"
    using Items_remove [OF inv' , of a "?c\<lparr>order := filter (\<lambda>x. a \<noteq> x) (order c)\<rparr>"]
      Items_remove [OF inv mem, of "c\<lparr>order := filter (\<lambda>x. a \<noteq> x) (order c)\<rparr>"] mem k
    by simp
  have items: "Items (moveToFront a now ?c) = (k, v) # AList.delete k (Items c)"
    using moveToFront_ok(2) [OF inv', of a now] mem k rest by simp
  have "lru_inv S (moveToFront a now ?c)" using moveToFront_ok(1) [OF inv'] mem by simp
  from checkCapacity_ok [OF this] items show ?thesis
    by (simp add: updateInplace_def s Let_def) (simp add: moveToFront_def)
qed

lemma Delete_ok:
  assumes c: "lru_ok S c"
  shows "lru_ok S (snd (Delete k c))" and "Items (snd (Delete k c)) = AList.delete k (Items c)"
    and "fst (Delete k c) \<longleftrightarrow> map_of (Items c) k \<noteq> None" and "capacity (snd (Delete k c)) = capacity c"
proof -
  have inv: "lru_inv S c" and le: "lsize c \<le> capacity c" using c by (simp_all add: lru_ok_def)
  have "lru_ok S (snd (Delete k c)) \<and> Items (snd (Delete k c)) = AList.delete k (Items c)"
  proof (cases "map_of (ltable c) k")
    case None
    then have "map_of (Items c) k = None" using Items_lookup [OF inv, of k] by simp
    then have "AList.delete k (Items c) = Items c" by (simp add: map_of_eq_None_iff delete_idem)
    then show ?thesis using None c by (simp add: Delete_def)
  next
    case (Some a)
    then have a: "a \<in> set (order c)" "ekey (store c a) = k" using lru_inv_table [OF inv, of k a] by auto
    have d: "distinct (order c)" using inv by (simp add: lru_inv_def)
    have o: "remove1 a (order c) = filter (\<lambda>x. a \<noteq> x) (order c)"
      using d by (simp add: distinct_remove1_removeAll removeAll_filter_not_eq)
    let ?c = "c\<lparr>order := filter (\<lambda>x. a \<noteq> x) (order c), ltable := AList.delete (ekey (store c a)) (ltable c),
      lsize := int64 (lsize c - esize (store c a)), evictions := evictions c\<rparr>"
    have "lru_inv S ?c" using d by (intro lru_inv_drop [OF inv a(1)]) auto
    moreover have "lsize ?c \<le> capacity ?c"
      using lru_inv_nonneg [OF inv a(1)] lru_inv_bounds(2) [OF inv a(1)] le inv by (simp add: lru_inv_def)
    moreover have "Items ?c = AList.delete k (Items c)" using Items_remove [OF inv a(1), of ?c] a(2) by simp
    moreover have "snd (Delete k c) = ?c" using Some a(2) by (simp add: Delete_def o)
    ultimately show ?thesis by (simp add: lru_ok_def)
  qed
  then show "lru_ok S (snd (Delete k c))" "Items (snd (Delete k c)) = AList.delete k (Items c)" by auto
  show "fst (Delete k c) \<longleftrightarrow> map_of (Items c) k \<noteq> None"
    using Items_lookup [OF inv, of k] by (simp add: Delete_def split: option.splits)
  show "capacity (snd (Delete k c)) = capacity c" by (simp add: Delete_def split: option.splits)
qed

subsection \<open>Sequences of calls\<close>

datatype 'v call =
  CGet string | CPeek string | CSet string 'v | CSetIfAbsent string 'v | CDelete string | CClear | CSetCapacity int

datatype 'v result = Nothing | Found "'v option" | Existed bool

definition run_call :: "('v \<Rightarrow> int) \<Rightarrow> 'v call \<Rightarrow> int \<Rightarrow> 'v LRUCache \<Rightarrow> ('v result \<times> 'v LRUCache) go" where
  "run_call S x now c =
     (case x of
        CGet k \<Rightarrow> (case Get k now c of (v, c') \<Rightarrow> Ret (Found v, c'))
      | CPeek k \<Rightarrow> Ret (Found (Peek k c), c)
      | CSet k v \<Rightarrow> go_bind (Set S k v now c) (\<lambda>c'. Ret (Nothing, c'))
      | CSetIfAbsent k v \<Rightarrow> go_bind (SetIfAbsent S k v now c) (\<lambda>c'. Ret (Nothing, c'))
      | CDelete k \<Rightarrow> (case Delete k c of (b, c') \<Rightarrow> Ret (Existed b, c'))
      | CClear \<Rightarrow> Ret (Nothing, Clear c)
      | CSetCapacity n \<Rightarrow> go_bind (SetCapacity n c) (\<lambda>c'. Ret (Nothing, c')))"

fun run_calls :: "('v \<Rightarrow> int) \<Rightarrow> ('v call \<times> int) list \<Rightarrow> 'v LRUCache \<Rightarrow> ('v result list \<times> 'v LRUCache) go" where
  "run_calls S [] c = Ret ([], c)"
| "run_calls S ((x, now) # xs) c =
     go_bind (run_call S x now c) (\<lambda>(r, c'). go_bind (run_calls S xs c') (\<lambda>(rs, c''). Ret (r # rs, c'')))"

definition touch :: "string \<Rightarrow> (string \<times> 'v) list \<Rightarrow> (string \<times> 'v) list" where
  "touch k xs = (case map_of xs k of None \<Rightarrow> xs | Some v \<Rightarrow> (k, v) # AList.delete k xs)"

definition spec_call ::
  "('v \<Rightarrow> int) \<Rightarrow> 'v call \<Rightarrow> (string \<times> 'v) list \<times> int \<Rightarrow> 'v result \<times> (string \<times> 'v) list \<times> int" where
  "spec_call S x s =
     (case s of (xs, cap) \<Rightarrow>
      case x of
        CGet k \<Rightarrow> (Found (map_of xs k), touch k xs, cap)
      | CPeek k \<Rightarrow> (Found (map_of xs k), xs, cap)
      | CSet k v \<Rightarrow> (Nothing, fit S cap ((k, v) # AList.delete k xs), cap)
      | CSetIfAbsent k v \<Rightarrow>
          (Nothing, if map_of xs k = None then fit S cap ((k, v) # xs) else touch k xs, cap)
      | CDelete k \<Rightarrow> (Existed (map_of xs k \<noteq> None), AList.delete k xs, cap)
      | CClear \<Rightarrow> (Nothing, [], cap)
      | CSetCapacity n \<Rightarrow> (Nothing, fit S n xs, n))"

fun spec_calls ::
  "('v \<Rightarrow> int) \<Rightarrow> 'v call list \<Rightarrow> (string \<times> 'v) list \<times> int \<Rightarrow> 'v result list \<times> (string \<times> 'v) list \<times> int" where
  "spec_calls S [] s = ([], s)"
| "spec_calls S (x # xs) s =
     (case spec_call S x s of (r, s') \<Rightarrow> case spec_calls S xs s' of (rs, s'') \<Rightarrow> (r # rs, s''))"

text \<open>Values whose sizes, and capacities that, are not negative and below $2^{62}$.\<close>

definition call_ok :: "('v \<Rightarrow> int) \<Rightarrow> 'v call \<Rightarrow> bool" where
  "call_ok S x =
     (case x of CSet k v \<Rightarrow> small S v | CSetIfAbsent k v \<Rightarrow> small S v | CSetCapacity n \<Rightarrow> 0 \<le> n \<and> n < 2 ^ 62 | _ \<Rightarrow> True)"

definition lru_view :: "'v LRUCache \<Rightarrow> (string \<times> 'v) list \<times> int" where
  "lru_view c = (Items c, capacity c)"

lemma run_call_refines:
  assumes c: "lru_ok S c" and x: "call_ok S x"
  shows "\<exists>r c'. run_call S x now c = Ret (r, c') \<and> lru_ok S c' \<and> spec_call S x (lru_view c) = (r, lru_view c')"
proof -
  have inv: "lru_inv S c" and le: "lsize c \<le> capacity c" using c by (simp_all add: lru_ok_def)
  have tab: "map_of (Items c) k = map_option (\<lambda>a. evalue (store c a)) (map_of (ltable c) k)" for k
    by (rule Items_lookup [OF inv])
  have front: "lru_ok S (moveToFront a now c) \<and> lru_view (moveToFront a now c) = (touch k (Items c), capacity c)"
    if "map_of (ltable c) k = Some a" for k a
  proof -
    have a: "a \<in> set (order c)" "ekey (store c a) = k" using that lru_inv_table [OF inv, of k a] by auto
    have "touch k (Items c) = (k, evalue (store c a)) # AList.delete k (Items c)"
      using tab [of k] that by (simp add: touch_def)
    moreover have "lsize (moveToFront a now c) = lsize c" "capacity (moveToFront a now c) = capacity c"
      by (simp_all add: moveToFront_def)
    ultimately show ?thesis
      using moveToFront_ok [OF inv a(1), of now] a(2) le by (simp add: lru_ok_def lru_view_def)
  qed
  have absent: "AList.delete k (Items c) = Items c" if "map_of (ltable c) k = None" for k
    using tab [of k] that by (simp add: map_of_eq_None_iff delete_idem)
  show ?thesis
  proof (cases x)
    case (CGet k)
    then show ?thesis
      using tab [of k] front [of k] c
      by (cases "map_of (ltable c) k") (auto simp: run_call_def spec_call_def Get_def lru_view_def touch_def)
  next
    case (CPeek k)
    then show ?thesis using tab [of k] c by (simp add: run_call_def spec_call_def Peek_def lru_view_def)
  next
    case (CSet k v)
    then have v: "small S v" using x by (simp add: call_ok_def)
    show ?thesis
    proof (cases "map_of (ltable c) k")
      case None
      with addNew_ok [OF c None v, of now] absent [OF None] CSet show ?thesis
        by (auto simp: run_call_def spec_call_def Set_def lru_view_def)
    next
      case (Some a)
      with updateInplace_ok [OF c Some v, of now] CSet show ?thesis
        by (auto simp: run_call_def spec_call_def Set_def lru_view_def)
    qed
  next
    case (CSetIfAbsent k v)
    then have v: "small S v" using x by (simp add: call_ok_def)
    show ?thesis
    proof (cases "map_of (ltable c) k")
      case None
      with addNew_ok [OF c None v, of now] tab [of k] CSetIfAbsent show ?thesis
        by (auto simp: run_call_def spec_call_def SetIfAbsent_def lru_view_def)
    next
      case (Some a)
      with front [OF Some] tab [of k] CSetIfAbsent show ?thesis
        by (auto simp: run_call_def spec_call_def SetIfAbsent_def lru_view_def)
    qed
  next
    case (CDelete k)
    then show ?thesis
      using Delete_ok [OF c, of k] by (auto simp: run_call_def spec_call_def lru_view_def split: prod.splits)
  next
    case CClear
    have "lru_ok S (Clear c)" using inv by (simp add: lru_ok_def lru_inv_def Clear_def)
    then show ?thesis
      using CClear by (simp add: run_call_def spec_call_def lru_view_def Clear_def Items_def)
  next
    case (CSetCapacity n)
    then have n: "0 \<le> n" "n < 2 ^ 62" using x by (simp_all add: call_ok_def)
    then have "lru_inv S (c\<lparr>capacity := n\<rparr>)" using inv by (simp add: lru_inv_def)
    from checkCapacity_ok [OF this] CSetCapacity show ?thesis
      by (auto simp: run_call_def spec_call_def SetCapacity_def lru_view_def Items_def)
  qed
qed

lemma run_calls_refines:
  assumes "lru_ok S c" "list_all (call_ok S) (map fst xs)"
  shows "\<exists>rs c'. run_calls S xs c = Ret (rs, c') \<and> lru_ok S c' \<and>
    spec_calls S (map fst xs) (lru_view c) = (rs, lru_view c')"
  using assms
proof (induction xs arbitrary: c)
  case (Cons x xs)
  obtain y now where x: "x = (y, now)" by (cases x) auto
  obtain r c1 where 1: "run_call S y now c = Ret (r, c1)" "lru_ok S c1" "spec_call S y (lru_view c) = (r, lru_view c1)"
    using run_call_refines [OF Cons.prems(1), of y now] Cons.prems(2) by (auto simp: x)
  obtain rs c2 where "run_calls S xs c1 = Ret (rs, c2)" "lru_ok S c2"
    "spec_calls S (map fst xs) (lru_view c1) = (rs, lru_view c2)"
    using Cons.IH [OF 1(2)] Cons.prems(2) by (auto simp: x)
  with 1 show ?case by (simp add: x)
qed simp

lemma NewLRUCache_ok: "0 \<le> cap \<Longrightarrow> cap < 2 ^ 62 \<Longrightarrow> lru_ok S (NewLRUCache cap)"
  by (simp add: lru_ok_def lru_inv_def NewLRUCache_def)



lemma fit_head: "S v \<le> cap \<Longrightarrow> \<exists>ys. fit S cap ((k, v) # xs) = (k, v) # ys"
proof (induction "length xs" arbitrary: xs rule: less_induct)
  case less
  show ?case
  proof (cases "(\<Sum>x\<leftarrow>(k, v) # xs. S (snd x)) \<le> cap")
    case True
    then show ?thesis by (subst fit.simps) simp
  next
    case False
    then have ne: "xs \<noteq> []" using less.prems by auto
    with less.hyps [of "butlast xs"] less.prems obtain ys where "fit S cap ((k, v) # butlast xs) = (k, v) # ys" by auto
    then show ?thesis using False ne by (subst fit.simps) simp
  qed
qed

text \<open>A client of the cache relies on this: what was set last is found, and looking does not change what is found.\<close>

locale lookup_cache =
  fixes ok :: "'c \<Rightarrow> bool" and find_in :: "'c \<Rightarrow> string \<Rightarrow> 'v option"
    and put_in :: "string \<Rightarrow> 'v \<Rightarrow> int \<Rightarrow> 'c \<Rightarrow> 'c go" and get_from :: "string \<Rightarrow> int \<Rightarrow> 'c \<Rightarrow> 'v option \<times> 'c"
  assumes put_ok: "ok c \<Longrightarrow> \<exists>c'. put_in k v now c = Ret c' \<and> ok c' \<and> find_in c' k = Some v"
    and get_ok: "ok c \<Longrightarrow> get_from k now c = (r, c') \<Longrightarrow> r = find_in c k \<and> ok c' \<and> find_in c' = find_in c"
begin

lemma put_then_get:
  "ok c \<Longrightarrow> \<exists>c'. put_in k v now c = Ret c' \<and> ok c' \<and> fst (get_from k later c') = Some v"
  using put_ok [of c k v now] get_ok by (metis prod.collapse)

end

definition counted :: "'v \<Rightarrow> int" where
  "counted v = 1"

lemma counted_small [simp]: "small counted v"
  by (simp add: small_def counted_def)

lemma Set_finds:
  assumes "lru_ok counted c" "1 \<le> capacity c"
  shows "\<exists>c'. Set counted k v now c = Ret c' \<and> lru_ok counted c' \<and> capacity c' = capacity c \<and> Peek k c' = Some v"
proof -
  obtain r c' where "run_call counted (CSet k v) now c = Ret (r, c')" and ok: "lru_ok counted c'"
    and s: "spec_call counted (CSet k v) (lru_view c) = (r, lru_view c')"
    using run_call_refines [OF assms(1), of "CSet k v" now] by (auto simp: call_ok_def)
  then have set: "Set counted k v now c = Ret c'" by (auto simp: run_call_def go_bind_Ret_iff)
  from s have items: "Items c' = fit counted (capacity c) ((k, v) # AList.delete k (Items c))"
    and cap: "capacity c' = capacity c" by (auto simp: spec_call_def lru_view_def)
  have "counted v \<le> capacity c" using assms(2) by (simp add: counted_def)
  then have "map_of (Items c') k = Some v"
    unfolding items using fit_head [of counted v "capacity c" k "AList.delete k (Items c)"] by auto
  then have "Peek k c' = Some v" using Items_lookup [of counted c' k] ok by (simp add: Peek_def lru_ok_def)
  with set ok cap show ?thesis by blast
qed

lemma Get_finds:
  assumes "lru_ok S c" "Get k now c = (r, c')"
  shows "r = Peek k c" "lru_ok S c'" "capacity c' = capacity c" "Peek k' c' = Peek k' c"
proof -
  have g: "run_call S (CGet k) now c = Ret (Found r, c')" using assms(2) by (simp add: run_call_def)
  with run_call_refines [OF assms(1), of "CGet k" now] have ok: "lru_ok S c'"
    and s: "spec_call S (CGet k) (lru_view c) = (Found r, lru_view c')"
    by (auto simp: call_ok_def)
  have find: "Peek x d = map_of (Items d) x" if "lru_ok S d" for x and d :: "'a LRUCache"
    using Items_lookup [of S d x] that by (simp add: Peek_def lru_ok_def)
  show "lru_ok S c'" by (rule ok)
  show "r = Peek k c" "capacity c' = capacity c" using s find [OF assms(1)] by (auto simp: spec_call_def lru_view_def)
  have "Items c' = touch k (Items c)" using s by (simp add: spec_call_def lru_view_def)
  then show "Peek k' c' = Peek k' c"
    unfolding find [OF ok] find [OF assms(1)]
    by (auto simp: touch_def delete_conv' split: option.splits)
qed

interpretation recent: lookup_cache
  "\<lambda>c. lru_ok counted c \<and> 1 \<le> capacity c" "\<lambda>c k. Peek k c" "Set counted" Get
  using Set_finds Get_finds [of counted] by unfold_locales (fastforce, metis ext)

subsection \<open>Properties\<close>

text \<open>
  C13. The cache does what its contract says. Any sequence of calls on a new cache, for sizes and capacities from 0 to
  $2^{62}$, runs without a panic and gives the results of a plain list of keys and values, the one used last in
  front, from which entries are cut off behind until the sizes fit; the count of the size is exact and within the
  capacity.
\<close>

theorem lru_refines:
  assumes "0 \<le> cap" "cap < 2 ^ 62" "list_all (call_ok S) (map fst xs)"
  shows "\<exists>rs c. run_calls S xs (NewLRUCache cap) = Ret (rs, c) \<and>
    spec_calls S (map fst xs) ([], cap) = (rs, Items c, capacity c) \<and>
    Keys c = map fst (Items c) \<and> distinct (Keys c) \<and>
    lsize c = (\<Sum>x\<leftarrow>Items c. S (snd x)) \<and> lsize c \<le> capacity c"
proof -
  have "lru_view (NewLRUCache cap :: 'a LRUCache) = ([], cap)" by (simp add: lru_view_def Items_def NewLRUCache_def)
  then obtain rs c where r: "run_calls S xs (NewLRUCache cap) = Ret (rs, c)" "lru_ok S c"
    "spec_calls S (map fst xs) ([], cap) = (rs, Items c, capacity c)"
    using run_calls_refines [OF NewLRUCache_ok [OF assms(1,2)] assms(3)] by (auto simp: lru_view_def)
  have keys: "Keys c = map fst (Items c)" by (simp add: Keys_def Items_def)
  show ?thesis
    using r keys Items_sum [of S c] Items_distinct [of S c] by (auto simp: lru_ok_def)
qed

theorem lru_refines_witness:
  "\<exists>c. run_calls id [(CSet ''a'' 2, 1), (CSet ''b'' 1, 2), (CGet ''a'', 3), (CSet ''c'' 2, 4), (CPeek ''b'', 5)]
       (NewLRUCache 4) =
     Ret ([Nothing, Nothing, Found (Some 2), Nothing, Found None], c) \<and>
     Items c = [(''c'', 2), (''a'', 2)] \<and> lsize c \<le> (4 :: int)"
proof -
  let ?xs = "[(CSet ''a'' 2, 1), (CSet ''b'' 1, 2), (CGet ''a'', 3), (CSet ''c'' 2, 4), (CPeek ''b'', 5)] :: (int call \<times> int) list"
  have ok: "list_all (call_ok id) (map fst ?xs)" by (simp add: call_ok_def small_def)
  have spec: "spec_calls id (map fst ?xs) ([], 4) =
      ([Nothing, Nothing, Found (Some 2), Nothing, Found None], [(''c'', 2), (''a'', 2)], 4)"
    by (simp add: spec_call_def fit.simps touch_def)
  show ?thesis using lru_refines [of 4 id ?xs] ok spec by auto
qed

text \<open>A negative capacity makes the loop of \<^verbatim>\<open>checkCapacity\<close> reach for the last element of an empty list.\<close>

lemma SetCapacity_negative: "SetCapacity (- 1) (NewLRUCache 10) = Panic"
  by (simp add: SetCapacity_def checkCapacity.simps NewLRUCache_def)

end
