(* ===== verification/Pools.thy ===== *)
theory Pools
  imports Lru_Cache Go_Strings
begin

text \<open>
  Two pools of \<^verbatim>\<open>src/pools\<close>: \<^verbatim>\<open>IDPool\<close> (\<^verbatim>\<open>id_pool.go\<close>), which hands out numbers, and \<^verbatim>\<open>Numbered\<close> (\<^verbatim>\<open>numbered.go\<close>), which keeps
  the transactions and lends them out. Each operation runs under the lock of the pool, so the runs of concurrent
  callers are the sequences of operations; \<^verbatim>\<open>Unregister\<close> has two parts, of which the second works on the cache only.

  The users of an \<^verbatim>\<open>IDPool\<close> are a step relation: an ID is never given to two users at a time
  (\<open>IDPool_unique\<close>). A resource of \<^verbatim>\<open>Numbered\<close> is never lent to two callers at a time
  (\<open>Numbered_exclusive\<close>), and a caller who comes too late is told when and why the resource ended.
\<close>

subsection \<open>IDs\<close>

record IDPool =
  used :: "uint32 set"
  maxUsed :: uint32

definition NewIDPool :: IDPool where
  "NewIDPool = \<lparr>used = {}, maxUsed = 0\<rparr>"

text \<open>The loop of \<^verbatim>\<open>Get\<close> takes the first key of a Go map, which may be any one: \<open>key\<close> is the one it takes.\<close>

definition IDPool_Get :: "uint32 \<Rightarrow> IDPool \<Rightarrow> uint32 \<times> IDPool" where
  "IDPool_Get key pool =
     (if key \<in> used pool then (key, pool\<lparr>used := used pool - {key}\<rparr>)
      else (maxUsed pool + 1, pool\<lparr>maxUsed := maxUsed pool + 1\<rparr>))"

definition IDPool_Put :: "uint32 \<Rightarrow> IDPool \<Rightarrow> IDPool go" where
  "IDPool_Put i pool =
     (if i < 1 \<or> i > maxUsed pool then Panic
      else if i \<in> used pool then Panic
      else if i = maxUsed pool then Ret (pool\<lparr>maxUsed := i - 1\<rparr>)
      else Ret (pool\<lparr>used := used pool \<union> {i}\<rparr>))"

text \<open>
  The pool with its users: the IDs that are out and the largest number of IDs that were out at a time. A user
  gets an ID, as long as there are fewer than $2^{32} - 1$, or puts one back that is out.
\<close>

record id_users =
  ids :: IDPool
  active :: "uint32 set"
  peak :: nat

inductive id_step :: "id_users \<Rightarrow> id_users \<Rightarrow> bool" where
  get: "\<lbrakk>used (ids s) \<noteq> {} \<longrightarrow> key \<in> used (ids s); card (active s) < 2 ^ 32 - 1;
         IDPool_Get key (ids s) = (i, pool)\<rbrakk>
    \<Longrightarrow> id_step s \<lparr>ids = pool, active = active s \<union> {i}, peak = max (peak s) (card (active s) + 1)\<rparr>"
| put: "\<lbrakk>i \<in> active s; IDPool_Put i (ids s) = Ret pool\<rbrakk>
    \<Longrightarrow> id_step s (s\<lparr>ids := pool, active := active s - {i}\<rparr>)"

definition id_start :: id_users where
  "id_start = \<lparr>ids = NewIDPool, active = {}, peak = 0\<rparr>"

inductive_cases id_stepE: "id_step s t"

definition id_inv :: "id_users \<Rightarrow> bool" where
  "id_inv s \<longleftrightarrow>
     used (ids s) \<subseteq> {1..maxUsed (ids s)} \<and> active s = {1..maxUsed (ids s)} - used (ids s) \<and>
     unat (maxUsed (ids s)) \<le> peak s"

lemma card_word_interval: "card {1..(w :: uint32)} = unat w"
proof -
  have "unat ` {1..w} = {1..unat w}"
  proof (intro equalityI subsetI)
    fix n assume "n \<in> {1..unat w}"
    moreover have "unat w < 2 ^ LENGTH(32)" by (rule unsigned_less)
    ultimately have "n = unat (of_nat n :: uint32)" "(of_nat n :: uint32) \<in> {1..w}"
      by (auto simp: word_le_nat_alt unat_of_nat)
    then show "n \<in> unat ` {1..w}" by blast
  qed (auto simp: word_le_nat_alt)
  moreover have "inj_on unat {1..w}" by (simp add: inj_on_def word_unat_eq_iff)
  ultimately show ?thesis by (metis card_atLeastAtMost card_image diff_Suc_1)
qed

lemma unat_succ: "(w :: uint32) + 1 \<noteq> 0 \<Longrightarrow> unat (w + 1) = unat w + 1"
  using unatSuc [of w] by (simp add: add.commute)

lemma word_interval_succ: "(w :: uint32) + 1 \<noteq> 0 \<Longrightarrow> {1..w + 1} = insert (w + 1) {1..w}"
  by (auto simp: word_le_nat_alt unat_succ word_unat_eq_iff)

lemma word_interval_pred: "(w :: uint32) \<noteq> 0 \<Longrightarrow> {1..w - 1} = {1..w} - {w}"
  using word_interval_succ [of "w - 1"] by (auto simp: word_le_nat_alt word_unat_eq_iff unat_minus_one)

lemma id_inv_get:
  assumes s: "id_inv s" and key: "used (ids s) \<noteq> {} \<longrightarrow> key \<in> used (ids s)" and few: "card (active s) < 2 ^ 32 - 1"
    and g: "IDPool_Get key (ids s) = (i, pool)"
  shows "i \<notin> active s" "i \<noteq> 0" "unat i \<le> max (peak s) (card (active s) + 1)"
    "id_inv \<lparr>ids = pool, active = active s \<union> {i}, peak = max (peak s) (card (active s) + 1)\<rparr>"
proof -
  let ?m = "maxUsed (ids s)"
  have "i \<notin> active s \<and> i \<noteq> 0 \<and> unat i \<le> max (peak s) (card (active s) + 1) \<and>
    id_inv \<lparr>ids = pool, active = active s \<union> {i}, peak = max (peak s) (card (active s) + 1)\<rparr>"
  proof (cases "used (ids s) = {}")
    case True
    then have i: "i = ?m + 1" "pool = (ids s)\<lparr>maxUsed := ?m + 1\<rparr>" using g by (auto simp: IDPool_Get_def)
    have a: "active s = {1..?m}" using s True by (simp add: id_inv_def)
    have m: "unat ?m < 2 ^ 32 - 1" using few by (simp add: a card_word_interval)
    have ne: "?m + 1 \<noteq> 0"
    proof
      assume "?m + 1 = 0"
      then have "?m = - 1" by (simp add: eq_neg_iff_add_eq_0)
      then have "unat ?m = unat (- 1 :: uint32)" by simp
      then show False using m by (simp add: unsigned_minus_1_eq_mask mask_eq_exp_minus_1)
    qed
    show ?thesis
      using i a True word_interval_succ [OF ne] unat_succ [OF ne] ne
      by (auto simp: id_inv_def card_word_interval word_le_nat_alt)
  next
    case False
    then have k: "key \<in> used (ids s)" using key by simp
    then have i: "i = key" "pool = (ids s)\<lparr>used := used (ids s) - {key}\<rparr>" using g by (auto simp: IDPool_Get_def)
    have "key \<in> {1..?m}" using s k by (auto simp: id_inv_def)
    then have "1 \<le> key" "unat key \<le> unat ?m" by (auto simp: word_le_nat_alt)
    moreover from this(1) have "key \<noteq> 0" by auto
    ultimately show ?thesis using s k i \<open>key \<in> {1..?m}\<close> by (auto simp: id_inv_def)
  qed
  then show "i \<notin> active s" "i \<noteq> 0" "unat i \<le> max (peak s) (card (active s) + 1)"
    "id_inv \<lparr>ids = pool, active = active s \<union> {i}, peak = max (peak s) (card (active s) + 1)\<rparr>"
    by auto
qed

lemma id_inv_put:
  assumes s: "id_inv s" and i: "i \<in> active s"
  shows "\<exists>pool. IDPool_Put i (ids s) = Ret pool \<and> id_inv (s\<lparr>ids := pool, active := active s - {i}\<rparr>)"
proof -
  let ?m = "maxUsed (ids s)"
  have r: "1 \<le> i" "i \<le> ?m" "i \<notin> used (ids s)" using s i by (auto simp: id_inv_def)
  show ?thesis
  proof (cases "i = ?m")
    case True
    have "?m \<noteq> 0" using r True by auto
    then have "{1..?m - 1} = {1..?m} - {?m}" "unat (?m - 1) \<le> unat ?m"
      by (simp_all add: word_interval_pred unat_minus_one)
    then show ?thesis using s r True by (auto simp: IDPool_Put_def id_inv_def)
  next
    case False
    then show ?thesis using s r by (auto simp: IDPool_Put_def id_inv_def)
  qed
qed

lemma id_inv_reachable: "id_step\<^sup>*\<^sup>* id_start s \<Longrightarrow> id_inv s"
proof (induction rule: rtranclp_induct)
  case base
  then show ?case by (simp add: id_inv_def id_start_def NewIDPool_def)
next
  case (step s t)
  from step.hyps(2) step.IH show ?case
    by (cases rule: id_step.cases) (use id_inv_get(4) id_inv_put in fastforce)+
qed

subsection \<open>Numbered resources\<close>

record 'v numberedWrapper =
  nval :: 'v
  inUse :: bool
  purpose :: string
  timeCreated :: int
  timeUsed :: int
  enforceTimeout :: bool

record unregistered =
  reason :: string
  timeUnregistered :: int

record 'v Numbered =
  resources :: "(int \<times> 'v numberedWrapper) list"
  recentlyUnregistered :: "unregistered LRUCache"

datatype numbered_error = AlreadyPresent | NotFound | InUse string | EndedAt int string

definition NewNumbered :: "'v Numbered" where
  "NewNumbered = \<lparr>resources = [], recentlyUnregistered = NewLRUCache 1000\<rparr>"

definition Register :: "int \<Rightarrow> 'v \<Rightarrow> bool \<Rightarrow> int \<Rightarrow> 'v Numbered \<Rightarrow> numbered_error option \<times> 'v Numbered" where
  "Register i val enforce now nu =
     (case map_of (resources nu) i of
        Some _ \<Rightarrow> (Some AlreadyPresent, nu)
      | None \<Rightarrow>
          (None,
           nu\<lparr>resources := AList.update i
                \<lparr>nval = val, inUse = False, purpose = [], timeCreated = now, timeUsed = now, enforceTimeout = enforce\<rparr>
                (resources nu)\<rparr>))"

definition unregister :: "int \<Rightarrow> 'v Numbered \<Rightarrow> bool \<times> 'v Numbered" where
  "unregister i nu =
     (map_of (resources nu) i \<noteq> None, nu\<lparr>resources := AList.delete i (resources nu)\<rparr>)"

definition record_unregistered :: "int \<Rightarrow> string \<Rightarrow> int \<Rightarrow> 'v Numbered \<Rightarrow> 'v Numbered go" where
  "record_unregistered i why now nu =
     go_bind
       (Set counted (format_int i) \<lparr>reason = why, timeUnregistered = now\<rparr> now (recentlyUnregistered nu))
       (\<lambda>c. Ret (nu\<lparr>recentlyUnregistered := c\<rparr>))"

definition Unregister :: "int \<Rightarrow> string \<Rightarrow> int \<Rightarrow> 'v Numbered \<Rightarrow> 'v Numbered go" where
  "Unregister i why now nu =
     (case unregister i nu of (success, nu1) \<Rightarrow>
        if success then record_unregistered i why now nu1 else Ret nu1)"

definition Numbered_Get :: "int \<Rightarrow> string \<Rightarrow> int \<Rightarrow> 'v Numbered \<Rightarrow> (numbered_error + 'v) \<times> 'v Numbered" where
  "Numbered_Get i why now nu =
     (case map_of (resources nu) i of
        None \<Rightarrow>
          (case Get (format_int i) now (recentlyUnregistered nu) of (found, c) \<Rightarrow>
             (case found of
                Some unreg \<Rightarrow> Inl (EndedAt (timeUnregistered unreg) (reason unreg))
              | None \<Rightarrow> Inl NotFound,
              nu\<lparr>recentlyUnregistered := c\<rparr>))
      | Some nw \<Rightarrow>
          if inUse nw then (Inl (InUse (purpose nw)), nu)
          else
            (Inr (nval nw),
             nu\<lparr>resources := AList.update i (nw\<lparr>inUse := True, purpose := why\<rparr>) (resources nu)\<rparr>))"

definition Numbered_Put :: "int \<Rightarrow> int \<Rightarrow> 'v Numbered \<Rightarrow> 'v Numbered" where
  "Numbered_Put i now nu =
     (case map_of (resources nu) i of
        None \<Rightarrow> nu
      | Some nw \<Rightarrow>
          nu\<lparr>resources :=
               AList.update i (nw\<lparr>inUse := False, purpose := [], timeUsed := now\<rparr>) (resources nu)\<rparr>)"

definition GetAll :: "'v Numbered \<Rightarrow> 'v list" where
  "GetAll nu = map (\<lambda>(_, nw). nval nw) (resources nu)"

text \<open>The loop that \<^verbatim>\<open>GetOutdated\<close> and \<^verbatim>\<open>GetIdle\<close> have in common: lock those that are free and due. Times are
  integers; \<^verbatim>\<open>Sub\<close> saturates, which does not change the sign of the difference.\<close>

definition lock_due :: "('v numberedWrapper \<Rightarrow> bool) \<Rightarrow> string \<Rightarrow> 'v Numbered \<Rightarrow> 'v list \<times> 'v Numbered" where
  "lock_due due why nu =
     (map (\<lambda>(_, nw). nval nw) (filter (\<lambda>(_, nw). \<not> inUse nw \<and> due nw) (resources nu)),
      nu\<lparr>resources :=
           map (\<lambda>(i, nw). (i, if \<not> inUse nw \<and> due nw then nw\<lparr>inUse := True, purpose := why\<rparr> else nw)) (resources nu)\<rparr>)"

definition GetOutdated :: "int \<Rightarrow> string \<Rightarrow> int \<Rightarrow> 'v Numbered \<Rightarrow> 'v list \<times> 'v Numbered" where
  "GetOutdated age why now nu = lock_due (\<lambda>nw. enforceTimeout nw \<and> timeCreated nw + age - now \<le> 0) why nu"

definition GetIdle :: "int \<Rightarrow> string \<Rightarrow> int \<Rightarrow> 'v Numbered \<Rightarrow> 'v list \<times> 'v Numbered" where
  "GetIdle timeout why now nu = lock_due (\<lambda>nw. timeUsed nw + timeout - now \<le> 0) why nu"

definition Numbered_Size :: "'v Numbered \<Rightarrow> int" where
  "Numbered_Size nu = int (length (resources nu))"

subsubsection \<open>Interleaved operations\<close>

text \<open>The atomic steps of all callers; \<open>NRecord\<close> is the second part of \<^verbatim>\<open>Unregister\<close>.\<close>

datatype 'v nstep =
  NRegister int 'v bool | NUnregister int | NRecord int string | NGet int string | NPut int
  | NOutdated int string | NIdle int string

definition numbered_step :: "'v nstep \<Rightarrow> int \<Rightarrow> 'v Numbered \<Rightarrow> ((numbered_error + 'v) option \<times> 'v Numbered) go" where
  "numbered_step x now nu =
     (case x of
        NRegister i v e \<Rightarrow> Ret (None, snd (Register i v e now nu))
      | NUnregister i \<Rightarrow> Ret (None, snd (unregister i nu))
      | NRecord i why \<Rightarrow> go_bind (record_unregistered i why now nu) (\<lambda>nu'. Ret (None, nu'))
      | NGet i why \<Rightarrow> (case Numbered_Get i why now nu of (r, nu') \<Rightarrow> Ret (Some r, nu'))
      | NPut i \<Rightarrow> Ret (None, Numbered_Put i now nu)
      | NOutdated age why \<Rightarrow> Ret (None, snd (GetOutdated age why now nu))
      | NIdle timeout why \<Rightarrow> Ret (None, snd (GetIdle timeout why now nu)))"

fun numbered_steps :: "('v nstep \<times> int) list \<Rightarrow> 'v Numbered \<Rightarrow> 'v Numbered go" where
  "numbered_steps [] nu = Ret nu"
| "numbered_steps ((x, now) # xs) nu =
     go_bind (numbered_step x now nu) (\<lambda>(_, nu'). numbered_steps xs nu')"

definition in_use :: "'v Numbered \<Rightarrow> int \<Rightarrow> bool" where
  "in_use nu i = (case map_of (resources nu) i of None \<Rightarrow> False | Some nw \<Rightarrow> inUse nw)"

definition releases :: "int \<Rightarrow> 'v nstep \<Rightarrow> bool" where
  "releases i x \<longleftrightarrow> x = NPut i \<or> x = NUnregister i"

definition nu_ok :: "'v Numbered \<Rightarrow> bool" where
  "nu_ok nu \<longleftrightarrow> lru_ok counted (recentlyUnregistered nu) \<and> 1 \<le> capacity (recentlyUnregistered nu)"

lemma map_of_map_snd: "map_of (map (\<lambda>(k, v). (k, f v)) xs) k = map_option f (map_of xs k)"
  by (induction xs) auto

lemma lock_due_in_use: "in_use nu i \<Longrightarrow> in_use (snd (lock_due due why nu)) i"
  by (auto simp: in_use_def lock_due_def map_of_map_snd split: option.splits)

lemma step_keeps_use:
  "numbered_step x now nu = Ret (r, nu') \<Longrightarrow> in_use nu i \<Longrightarrow> \<not> releases i x \<Longrightarrow> in_use nu' i"
  by (cases x)
    (auto simp: numbered_step_def releases_def go_bind_Ret_iff record_unregistered_def Register_def unregister_def
      Numbered_Get_def Numbered_Put_def GetOutdated_def GetIdle_def update_conv' delete_conv'
      in_use_def [of nu'] in_use_def [of nu] in_use_def lock_due_def map_of_map_snd
      split: option.splits prod.splits if_splits)

lemma steps_keep_use:
  "numbered_steps xs nu = Ret nu' \<Longrightarrow> in_use nu i \<Longrightarrow> \<not> list_ex (\<lambda>(x, _). releases i x) xs \<Longrightarrow> in_use nu' i"
proof (induction xs arbitrary: nu)
  case (Cons y ys)
  then show ?case by (cases y) (auto simp: go_bind_Ret_iff dest: step_keeps_use)
qed simp

lemma step_ok:
  assumes "nu_ok nu"
  shows "\<exists>r nu'. numbered_step x now nu = Ret (r, nu') \<and> nu_ok nu'"
proof (cases x)
  case (NRecord i why)
  obtain c where "Set counted (format_int i) \<lparr>reason = why, timeUnregistered = now\<rparr> now (recentlyUnregistered nu) = Ret c"
    "lru_ok counted c \<and> 1 \<le> capacity c"
    using recent.put_ok [of "recentlyUnregistered nu"] assms unfolding nu_ok_def by metis
  then show ?thesis using NRecord by (simp add: numbered_step_def record_unregistered_def nu_ok_def)
next
  case (NGet i why)
  obtain found c where g: "Get (format_int i) now (recentlyUnregistered nu) = (found, c)" by (rule prod.exhaust)
  have "lru_ok counted c \<and> 1 \<le> capacity c" using recent.get_ok [OF _ g] assms unfolding nu_ok_def by blast
  then show ?thesis
    using assms NGet by (simp add: numbered_step_def Numbered_Get_def nu_ok_def g split: option.split)
qed (use assms in \<open>auto simp: numbered_step_def nu_ok_def Register_def unregister_def Numbered_Put_def
    GetOutdated_def GetIdle_def lock_due_def split: option.splits\<close>)

lemma NewNumbered_ok: "nu_ok NewNumbered"
  by (simp add: nu_ok_def NewNumbered_def NewLRUCache_ok) (simp add: NewLRUCache_def)

lemma steps_ok: "nu_ok nu \<Longrightarrow> \<exists>nu'. numbered_steps xs nu = Ret nu' \<and> nu_ok nu'"
proof (induction xs arbitrary: nu)
  case (Cons y ys)
  obtain x now where y: "y = (x, now)" by (cases y) auto
  obtain r nu1 where "numbered_step x now nu = Ret (r, nu1)" "nu_ok nu1" using step_ok [OF Cons.prems] by blast
  then show ?case using Cons.IH [of nu1] by (simp add: y)
qed simp

subsection \<open>Properties\<close>

text \<open>
  C37. An ID is never out twice. In every state that the users of an \<^verbatim>\<open>IDPool\<close> can reach, an ID that \<^verbatim>\<open>Get\<close> returns is not
  in use, is at least 1 and at most the largest number of IDs in use at a time, this one included, and putting back an
  ID that is in use does not panic.
\<close>

theorem IDPool_unique:
  assumes "id_step\<^sup>*\<^sup>* id_start s"
  shows "((used (ids s) \<noteq> {} \<longrightarrow> key \<in> used (ids s)) \<and> card (active s) < 2 ^ 32 - 1 \<and> IDPool_Get key (ids s) = (i, pool)
      \<longrightarrow> i \<notin> active s \<and> i \<noteq> 0 \<and> unat i \<le> max (peak s) (card (active s) + 1)) \<and>
    (j \<in> active s \<longrightarrow> IDPool_Put j (ids s) \<noteq> Panic)"
proof -
  note inv = id_inv_reachable [OF assms]
  show ?thesis using id_inv_get [OF inv, of key i pool] id_inv_put [OF inv, of j] by fastforce
qed

theorem IDPool_unique_witness:
  "\<exists>s. id_step\<^sup>*\<^sup>* id_start s \<and> IDPool_Get 0 (ids s) = (2, (ids s)\<lparr>maxUsed := 2\<rparr>) \<and> 2 \<notin> active s \<and>
     1 \<in> active s \<and> IDPool_Put 1 (ids s) \<noteq> Panic"
proof -
  let ?s = "\<lparr>ids = \<lparr>used = {}, maxUsed = 1\<rparr>, active = {1}, peak = 1\<rparr>"
  have "IDPool_Get 0 (ids id_start) = (1, \<lparr>used = {}, maxUsed = 1\<rparr>)"
    by (simp add: IDPool_Get_def id_start_def NewIDPool_def)
  from id_step.get [of id_start 0, OF _ _ this] have "id_step id_start ?s"
    by (simp add: id_start_def NewIDPool_def)
  then have r: "id_step\<^sup>*\<^sup>* id_start ?s" by (rule r_into_rtranclp)
  have g: "IDPool_Get 0 (ids ?s) = (2, (ids ?s)\<lparr>maxUsed := 2\<rparr>)" by (simp add: IDPool_Get_def)
  show ?thesis
    using r g IDPool_unique [OF r, of 0 2 "(ids ?s)\<lparr>maxUsed := 2\<rparr>" 1] by (intro exI [of _ ?s]) auto
qed

text \<open>
  C38. A resource is lent to one caller at a time: when \<^verbatim>\<open>Get\<close> has returned it, then through any operations of any callers,
  as long as it is neither put back nor unregistered, another \<^verbatim>\<open>Get\<close> is refused and \<^verbatim>\<open>GetOutdated\<close> and \<^verbatim>\<open>GetIdle\<close> leave it
  alone; no operation panics. A \<^verbatim>\<open>Get\<close> after \<^verbatim>\<open>Unregister\<close> says when and why the resource ended.
\<close>

theorem Numbered_exclusive:
  assumes "numbered_steps xs NewNumbered = Ret nu"
    and "numbered_step (NGet i why) t0 nu = Ret (Some (Inr v), nu1)"
    and "\<not> list_ex (\<lambda>(y, _). releases i y) ys"
  shows "(\<exists>nu2 w. numbered_steps ys nu1 = Ret nu2 \<and> Numbered_Get i why2 t nu2 = (Inl (InUse w), nu2) \<and>
      map_of (resources (snd (GetOutdated age why2 t nu2))) i = map_of (resources nu2) i \<and>
      map_of (resources (snd (GetIdle age why2 t nu2))) i = map_of (resources nu2) i) \<and>
    (\<exists>nu2. Unregister i why2 t nu1 = Ret nu2 \<and> fst (Numbered_Get i why3 t2 nu2) = Inl (EndedAt t why2))"
proof
  have ok: "nu_ok nu" using steps_ok [OF NewNumbered_ok, of xs] assms(1) by simp
  then have ok1: "nu_ok nu1" using step_ok [OF ok, of "NGet i why" t0] assms(2) by simp
  have use1: "in_use nu1 i"
    using assms(2) by (auto simp: numbered_step_def Numbered_Get_def in_use_def update_conv'
        split: option.splits if_splits prod.splits)
  obtain nu2 where s: "numbered_steps ys nu1 = Ret nu2" using steps_ok [OF ok1] by blast
  have "in_use nu2 i" using steps_keep_use [OF s use1 assms(3)] .
  then obtain nw where nw: "map_of (resources nu2) i = Some nw" "inUse nw"
    by (auto simp: in_use_def split: option.splits)
  have due: "map_of (resources (snd (lock_due due w nu2))) i = map_of (resources nu2) i" for due w
    by (simp add: lock_due_def map_of_map_snd nw)
  show "\<exists>nu2 w. numbered_steps ys nu1 = Ret nu2 \<and> Numbered_Get i why2 t nu2 = (Inl (InUse w), nu2) \<and>
      map_of (resources (snd (GetOutdated age why2 t nu2))) i = map_of (resources nu2) i \<and>
      map_of (resources (snd (GetIdle age why2 t nu2))) i = map_of (resources nu2) i"
    using s nw by (intro exI [of _ nu2] exI [of _ "purpose nw"]) (simp add: Numbered_Get_def GetOutdated_def GetIdle_def due)
  obtain c where c: "Set counted (format_int i) \<lparr>reason = why2, timeUnregistered = t\<rparr> t (recentlyUnregistered nu1) = Ret c"
    "fst (Get (format_int i) t2 c) = Some \<lparr>reason = why2, timeUnregistered = t\<rparr>"
    using recent.put_then_get [of "recentlyUnregistered nu1" "format_int i" "\<lparr>reason = why2, timeUnregistered = t\<rparr>" t t2]
      ok1 by (auto simp: nu_ok_def)
  obtain c' where g: "Get (format_int i) t2 c = (Some \<lparr>reason = why2, timeUnregistered = t\<rparr>, c')"
    using c(2) by (cases "Get (format_int i) t2 c") simp
  have "map_of (resources nu1) i \<noteq> None" using use1 by (auto simp: in_use_def split: option.splits)
  then show "\<exists>nu2. Unregister i why2 t nu1 = Ret nu2 \<and> fst (Numbered_Get i why3 t2 nu2) = Inl (EndedAt t why2)"
    using c(1) by (simp add: Unregister_def unregister_def record_unregistered_def Numbered_Get_def delete_conv' g)
qed

theorem Numbered_exclusive_witness:
  "let nu = snd (Register 7 ''tx'' True 100 NewNumbered); nu1 = snd (Numbered_Get 7 ''query'' 101 nu) in
   (\<exists>nu2 w. numbered_steps [(NIdle 1 ''kill'', 200), (NPut 8, 201)] nu1 = Ret nu2 \<and>
      Numbered_Get 7 ''commit'' 202 nu2 = (Inl (InUse w), nu2)) \<and>
   (\<exists>nu2. Unregister 7 ''commit'' 202 nu1 = Ret nu2 \<and> fst (Numbered_Get 7 ''query'' 203 nu2) = Inl (EndedAt 202 ''commit''))"
proof -
  let ?nu = "snd (Register 7 ''tx'' True 100 NewNumbered)"
  let ?nu1 = "snd (Numbered_Get 7 ''query'' 101 ?nu)"
  have 1: "numbered_steps [(NRegister 7 ''tx'' True, 100)] NewNumbered = Ret ?nu" by (simp add: numbered_step_def)
  have 2: "numbered_step (NGet 7 ''query'') 101 ?nu = Ret (Some (Inr ''tx''), ?nu1)"
    by (simp add: numbered_step_def Numbered_Get_def Register_def NewNumbered_def)
  have 3: "\<not> list_ex (\<lambda>(y, _). releases 7 y) [(NIdle 1 ''kill'', 200 :: int), (NPut 8, 201)]"
    by (simp add: releases_def)
  show ?thesis
    unfolding Let_def using Numbered_exclusive [OF 1 2 3, of "''commit''" 202 _ "''query''" 203] by blast
qed

end
