(* ===== verification/Sql_Result.thy ===== *)
theory Sql_Result
  imports Sql_Arithmetic
begin

text \<open>
  Query results and the values of a plan: \<^verbatim>\<open>src/sqltypes/result.go\<close>, \<^verbatim>\<open>src/sqltypes/proto3.go\<close> and
  \<^verbatim>\<open>src/sqltypes/plan_value.go\<close>. No code here tells a nil slice of fields or rows from an empty one, except that of
  \<^verbatim>\<open>PlanValue.Values\<close>, where nil is \<open>None\<close>. An index out of range is a panic.

  A result survives the way over the wire (\<open>proto3_roundtrip\<close>), and the rows that \<^verbatim>\<open>ResolveRows\<close> makes of a
  list of columns are its transposition (\<open>ResolveRows_columns\<close>).
\<close>

subsection \<open>Results\<close>

record Field =
  fname :: string
  ftype :: sql_type
  fmeta :: "string list \<times> nat list"

record EventToken =
  Timestamp :: int
  Shard :: string
  EPosition :: string

record ResultExtras =
  EventToken :: "EventToken option"
  Fresher :: bool

type_synonym row = "Value list"

record Result =
  Fields :: "Field list"
  RowsAffected :: uint64
  InsertID :: uint64
  Rows :: "row list"
  Extras :: "ResultExtras option"

definition empty_result :: Result where
  "empty_result = \<lparr>Fields = [], RowsAffected = 0, InsertID = 0, Rows = [], Extras = None\<rparr>"

fun repair_rows :: "nat \<Rightarrow> Field \<Rightarrow> row list \<Rightarrow> row list go" where
  "repair_rows j f [] = Ret []"
| "repair_rows j f (r # rs) =
     go_bind (slice_index r j) (\<lambda>v.
       let r' = (if vtyp v \<noteq> T_Null then r[j := v\<lparr>vtyp := ftype f\<rparr>] else r) in
       go_bind (repair_rows j f rs) (\<lambda>rs'. Ret (r' # rs')))"

fun repair_from :: "nat \<Rightarrow> Field list \<Rightarrow> row list \<Rightarrow> row list go" where
  "repair_from j [] rows = Ret rows"
| "repair_from j (f # fs) rows = go_bind (repair_rows j f rows) (\<lambda>rows'. repair_from (j + 1) fs rows')"

definition Repair :: "Field list \<Rightarrow> Result \<Rightarrow> Result go" where
  "Repair flds result = go_bind (repair_from 0 flds (Rows result)) (\<lambda>rows. Ret (result\<lparr>Rows := rows\<rparr>))"

text \<open>
  A slice expression may reach beyond the length, up to the capacity. The rows and fields here are taken to have no spare capacity, so
  that it panics.
\<close>

definition slice_to :: "nat \<Rightarrow> 'a list \<Rightarrow> 'a list go" where
  "slice_to l xs = (if l \<le> length xs then Ret (take l xs) else Panic)"

text \<open>The fields of a result without any are nil and stay so. The copy of \<^verbatim>\<open>Extras\<close> is equal to it.\<close>

definition Truncate :: "nat \<Rightarrow> Result \<Rightarrow> Result go" where
  "Truncate l result =
     (if l = 0 then Ret result
      else
        go_bind (if Fields result \<noteq> [] then slice_to l (Fields result) else Ret []) (\<lambda>flds.
        go_bind (go_list (map (slice_to l) (Rows result))) (\<lambda>rows.
          Ret \<lparr>Fields = flds, RowsAffected = RowsAffected result, InsertID = InsertID result, Rows = rows,
               Extras = Extras result\<rparr>)))"

definition EventTokenMinimum :: "EventToken option \<Rightarrow> EventToken option \<Rightarrow> EventToken option" where
  "EventTokenMinimum ev1 ev2 =
     (case (ev1, ev2) of
        (Some a, Some b) \<Rightarrow>
          Some \<lparr>Timestamp = (if Timestamp a < Timestamp b then Timestamp a else Timestamp b), Shard = [], EPosition = []\<rparr>
      | _ \<Rightarrow> None)"

definition merge_extras :: "ResultExtras option \<Rightarrow> ResultExtras option \<Rightarrow> ResultExtras option" where
  "merge_extras src old =
     (case src of
        None \<Rightarrow> map_option (\<lambda>x. x\<lparr>EventToken := None, Fresher := False\<rparr>) old
      | Some y \<Rightarrow>
          map_option
            (\<lambda>x. x\<lparr>EventToken := EventTokenMinimum (EventToken x) (EventToken y), Fresher := Fresher x \<and> Fresher y\<rparr>) old)"

definition AppendResult :: "Result \<Rightarrow> Result \<Rightarrow> Result" where
  "AppendResult src result =
     (if RowsAffected src = 0 \<and> length (Fields src) = 0 then result
      else
        (let r1 = (if Fields result = [] then result\<lparr>Fields := Fields src\<rparr> else result);
             r2 = r1\<lparr>RowsAffected := RowsAffected r1 + RowsAffected src\<rparr>;
             r3 = (if InsertID src \<noteq> 0 then r2\<lparr>InsertID := InsertID src\<rparr> else r2);
             r4 = r3\<lparr>Extras := (if length (Rows r3) = 0 then Extras src else merge_extras (Extras src) (Extras r3))\<rparr> in
         r4\<lparr>Rows := Rows r4 @ Rows src\<rparr>))"

datatype IncludedFields = TYPE_AND_NAME | TYPE_ONLY | ALL_FIELDS

definition StripMetadata :: "IncludedFields \<Rightarrow> Result \<Rightarrow> Result" where
  "StripMetadata incl result =
     (if incl = ALL_FIELDS \<or> length (Fields result) = 0 then result
      else
        result\<lparr>Fields :=
          map (\<lambda>f. \<lparr>fname = (if incl = TYPE_AND_NAME then fname f else []), ftype = ftype f, fmeta = ([], [])\<rparr>)
            (Fields result)\<rparr>)"

subsection \<open>Results on the wire\<close>

record proto_row =
  Lengths :: "int list"
  Values :: string

record QueryResult =
  qFields :: "Field list"
  qRowsAffected :: uint64
  qInsertId :: uint64
  qRows :: "proto_row list"
  qExtras :: "ResultExtras option"

definition RowToProto3 :: "row \<Rightarrow> proto_row" where
  "RowToProto3 row =
     \<lparr>Lengths = map (\<lambda>c. if Value_IsNull c then - 1 else int (length (vval c))) row,
      Values = concat (map (\<lambda>c. if Value_IsNull c then [] else vval c) row)\<rparr>"

definition RowsToProto3 :: "row list \<Rightarrow> proto_row list" where
  "RowsToProto3 rows = map RowToProto3 rows"

text \<open>The loop of \<^verbatim>\<open>MakeRowTrusted\<close>: column, offset and the lengths that are left.\<close>

fun trusted_from :: "Field list \<Rightarrow> string \<Rightarrow> nat \<Rightarrow> int \<Rightarrow> int list \<Rightarrow> row go" where
  "trusted_from flds vals i offset [] = Ret []"
| "trusted_from flds vals i offset (len # lens) =
     (if len < 0 then go_bind (trusted_from flds vals (i + 1) offset lens) (\<lambda>vs. Ret (NULL_value # vs))
      else
        go_bind (slice_index flds i) (\<lambda>f.
          if nat (offset + len) > length vals then Panic
          else
            (let v = MakeTrusted (ftype f) (take (nat len) (drop (nat offset) vals)) in
             go_bind (trusted_from flds vals (i + 1) (offset + len) lens) (\<lambda>vs. Ret (v # vs)))))"

definition MakeRowTrusted :: "Field list \<Rightarrow> proto_row \<Rightarrow> row go" where
  "MakeRowTrusted flds row = trusted_from flds (Values row) 0 0 (Lengths row)"

definition proto3ToRows :: "Field list \<Rightarrow> proto_row list \<Rightarrow> row list go" where
  "proto3ToRows flds rows = go_list (map (MakeRowTrusted flds) rows)"

definition ResultToProto3 :: "Result option \<Rightarrow> QueryResult option" where
  "ResultToProto3 qr =
     map_option
       (\<lambda>r. \<lparr>qFields = Fields r, qRowsAffected = RowsAffected r, qInsertId = InsertID r,
             qRows = RowsToProto3 (Rows r), qExtras = Extras r\<rparr>) qr"

definition proto3_result :: "Field list \<Rightarrow> QueryResult \<Rightarrow> Result go" where
  "proto3_result flds q =
     go_bind (proto3ToRows flds (qRows q)) (\<lambda>rows.
       Ret \<lparr>Fields = qFields q, RowsAffected = qRowsAffected q, InsertID = qInsertId q, Rows = rows,
            Extras = qExtras q\<rparr>)"

definition Proto3ToResult :: "QueryResult option \<Rightarrow> Result option go" where
  "Proto3ToResult qr =
     (case qr of None \<Rightarrow> Ret None | Some q \<Rightarrow> go_bind (proto3_result (qFields q) q) (\<lambda>r. Ret (Some r)))"

definition CustomProto3ToResult :: "Field list \<Rightarrow> QueryResult option \<Rightarrow> Result option go" where
  "CustomProto3ToResult flds qr =
     (case qr of None \<Rightarrow> Ret None | Some q \<Rightarrow> go_bind (proto3_result flds q) (\<lambda>r. Ret (Some r)))"

lemma trusted_from_row:
  assumes "length row \<le> length flds - i"
    and "\<forall>k < length row. Value_IsNull (row ! k) \<and> row ! k = NULL_value \<or>
           \<not> Value_IsNull (row ! k) \<and> vtyp (row ! k) = ftype (flds ! (i + k))"
  shows "trusted_from flds (pre @ Values (RowToProto3 row) @ post) i (int (length pre)) (Lengths (RowToProto3 row)) = Ret row"
  using assms
proof (induction row arbitrary: i pre)
  case Nil
  then show ?case by (simp add: RowToProto3_def)
next
  case (Cons v row)
  have IH: "trusted_from flds (pre' @ Values (RowToProto3 row) @ post) (Suc i) (int (length pre')) (Lengths (RowToProto3 row)) = Ret row"
    for pre'
  proof (rule Cons.IH)
    show "length row \<le> length flds - Suc i" using Cons.prems(1) by simp
    show "\<forall>k < length row. Value_IsNull (row ! k) \<and> row ! k = NULL_value \<or>
        \<not> Value_IsNull (row ! k) \<and> vtyp (row ! k) = ftype (flds ! (Suc i + k))"
      using Cons.prems(2) by (auto dest: spec [of _ "Suc _"])
  qed
  have i: "i < length flds" using Cons.prems(1) by simp
  have v: "Value_IsNull v \<and> v = NULL_value \<or> \<not> Value_IsNull v \<and> vtyp v = ftype (flds ! i)"
    using Cons.prems(2) by (auto dest: spec [of _ 0])
  show ?case
  proof (cases "Value_IsNull v")
    case True
    then show ?thesis using IH [of pre] v by (simp add: RowToProto3_def)
  next
    case False
    then have t: "MakeTrusted (ftype (flds ! i)) (vval v) = v" using v by (simp add: MakeTrusted_def Value_IsNull_def)
    have "trusted_from flds ((pre @ vval v) @ Values (RowToProto3 row) @ post) (Suc i) (int (length (pre @ vval v)))
        (Lengths (RowToProto3 row)) = Ret row" by (rule IH)
    then show ?thesis using False i t by (simp add: RowToProto3_def slice_index_def nat_add_distrib)
  qed
qed

text \<open>A result whose rows have at most as many values as it has fields, each NULL or of the type of its field.\<close>

definition typed_value :: "Field \<Rightarrow> Value \<Rightarrow> bool" where
  "typed_value f v \<longleftrightarrow> v = NULL_value \<or> \<not> Value_IsNull v \<and> vtyp v = ftype f"

definition typed_row :: "Field list \<Rightarrow> row \<Rightarrow> bool" where
  "typed_row flds r \<longleftrightarrow> length r \<le> length flds \<and> list_all2 typed_value (take (length r) flds) r"

lemma MakeRowTrusted_row:
  assumes "typed_row flds r"
  shows "MakeRowTrusted flds (RowToProto3 r) = Ret r"
proof -
  have "Value_IsNull (r ! k) \<and> r ! k = NULL_value \<or> \<not> Value_IsNull (r ! k) \<and> vtyp (r ! k) = ftype (flds ! (0 + k))"
    if "k < length r" for k
  proof -
    have "typed_value (flds ! k) (r ! k)"
      using assms that by (auto simp: typed_row_def list_all2_conv_all_nth)
    moreover have "Value_IsNull NULL_value" by (simp add: NULL_value_def Value_IsNull_def)
    ultimately show ?thesis by (auto simp: typed_value_def)
  qed
  then show ?thesis
    using trusted_from_row [of r flds 0 "[]" "[]"] assms by (simp add: MakeRowTrusted_def typed_row_def)
qed

lemma proto3ToRows_rows:
  "list_all (typed_row flds) rows \<Longrightarrow> proto3ToRows flds (RowsToProto3 rows) = Ret rows"
  unfolding proto3ToRows_def RowsToProto3_def by (induction rows) (simp_all add: MakeRowTrusted_row)

subsection \<open>Plan values\<close>

datatype PlanValue =
  PlanValue (Key: string) (PVal: Value) (ListKey: string) (PValues: "PlanValue list option")

datatype plan_error =
  MissingBindVar string | TupleForSingleValue string | SingleValueForTuple string
  | ListForSingleValue | SingleValueForList | MismatchedColumns

type_synonym bind_vars = "(string \<times> BindVariable) list"

definition PlanValue_IsNull :: "PlanValue \<Rightarrow> bool" where
  "PlanValue_IsNull pv \<longleftrightarrow> Key pv = [] \<and> Value_IsNull (PVal pv) \<and> ListKey pv = [] \<and> PValues pv = None"

definition IsList :: "PlanValue \<Rightarrow> bool" where
  "IsList pv \<longleftrightarrow> ListKey pv \<noteq> [] \<or> PValues pv \<noteq> None"

definition lookupValue :: "PlanValue \<Rightarrow> bind_vars \<Rightarrow> plan_error + BindVariable" where
  "lookupValue pv bindVars =
     (case map_of bindVars (Key pv) of
        None \<Rightarrow> Inl (MissingBindVar (Key pv))
      | Some bv \<Rightarrow> if bv_Type bv = T_Tuple then Inl (TupleForSingleValue (ListKey pv)) else Inr bv)"

definition ResolveValue :: "PlanValue \<Rightarrow> bind_vars \<Rightarrow> plan_error + Value" where
  "ResolveValue pv bindVars =
     (if Key pv \<noteq> [] then
        (case lookupValue pv bindVars of
           Inl err \<Rightarrow> Inl err
         | Inr bv \<Rightarrow> Inr (MakeTrusted (bv_Type bv) (bv_Value bv)))
      else if \<not> Value_IsNull (PVal pv) then Inr (PVal pv)
      else if ListKey pv \<noteq> [] \<or> PValues pv \<noteq> None then Inl ListForSingleValue
      else Inr NULL_value)"

definition lookupList :: "PlanValue \<Rightarrow> bind_vars \<Rightarrow> plan_error + BindVariable" where
  "lookupList pv bindVars =
     (case map_of bindVars (ListKey pv) of
        None \<Rightarrow> Inl (MissingBindVar (ListKey pv))
      | Some bv \<Rightarrow> if bv_Type bv \<noteq> T_Tuple then Inl (SingleValueForTuple (ListKey pv)) else Inr bv)"

fun resolve_all :: "PlanValue list \<Rightarrow> bind_vars \<Rightarrow> plan_error + Value list" where
  "resolve_all [] bindVars = Inr []"
| "resolve_all (pv # pvs) bindVars =
     (case ResolveValue pv bindVars of
        Inl err \<Rightarrow> Inl err
      | Inr v \<Rightarrow> (case resolve_all pvs bindVars of Inl err \<Rightarrow> Inl err | Inr vs \<Rightarrow> Inr (v # vs)))"

definition ResolveList :: "PlanValue \<Rightarrow> bind_vars \<Rightarrow> plan_error + Value list" where
  "ResolveList pv bindVars =
     (if ListKey pv \<noteq> [] then
        (case lookupList pv bindVars of
           Inl err \<Rightarrow> Inl err
         | Inr bv \<Rightarrow> Inr (map (\<lambda>v. MakeTrusted (vtyp v) (vval v)) (bv_Values bv)))
      else (case PValues pv of None \<Rightarrow> Inl SingleValueForList | Some pvs \<Rightarrow> resolve_all pvs bindVars))"

text \<open>The count is \<open>None\<close> for -1.\<close>

definition setCount :: "nat option \<Rightarrow> nat \<Rightarrow> plan_error + nat option" where
  "setCount count l =
     (case count of None \<Rightarrow> Inr (Some l) | Some c \<Rightarrow> if c = l then Inr count else Inl MismatchedColumns)"

fun count_columns :: "nat option \<Rightarrow> PlanValue list \<Rightarrow> bind_vars \<Rightarrow> plan_error + nat option" where
  "count_columns count [] bindVars = Inr count"
| "count_columns count (pv # pvs) bindVars =
     (let next_count =
        (if Key pv \<noteq> [] \<or> \<not> Value_IsNull (PVal pv) then Inr count
         else (case PValues pv of
                 Some vs \<Rightarrow> setCount count (length vs)
               | None \<Rightarrow>
                   if ListKey pv \<noteq> [] then
                     (case lookupList pv bindVars of
                        Inl err \<Rightarrow> Inl err
                      | Inr bv \<Rightarrow> setCount count (length (bv_Values bv)))
                   else Inr count)) in
      case next_count of Inl err \<Rightarrow> Inl err | Inr c \<Rightarrow> count_columns c pvs bindVars)"

definition rowCount :: "PlanValue list \<Rightarrow> bind_vars \<Rightarrow> plan_error + nat" where
  "rowCount pvs bindVars =
     (case count_columns None pvs bindVars of
        Inl err \<Rightarrow> Inl err
      | Inr None \<Rightarrow> Inr 1
      | Inr (Some count) \<Rightarrow> Inr count)"

fun resolve_first :: "nat \<Rightarrow> nat \<Rightarrow> PlanValue list \<Rightarrow> bind_vars \<Rightarrow> (plan_error + Value list) go" where
  "resolve_first 0 i pvs bindVars = Ret (Inr [])"
| "resolve_first (Suc n) i pvs bindVars =
     go_bind (slice_index pvs i) (\<lambda>pv.
       case ResolveValue pv bindVars of
         Inl err \<Rightarrow> Ret (Inl err)
       | Inr v \<Rightarrow> go_try (resolve_first n (i + 1) pvs bindVars) (\<lambda>vs. Ret (Inr (v # vs))))"

text \<open>The values that \<^verbatim>\<open>ResolveRows\<close> puts into column \<^verbatim>\<open>j\<close> of the rows, from the first row to the last.\<close>

definition column :: "nat \<Rightarrow> PlanValue \<Rightarrow> bind_vars \<Rightarrow> (plan_error + Value list) go" where
  "column count pv bindVars =
     (if Key pv \<noteq> [] then
        (case lookupValue pv bindVars of
           Inl err \<Rightarrow> Ret (Inl err)
         | Inr bv \<Rightarrow> Ret (Inr (replicate count (MakeTrusted (bv_Type bv) (bv_Value bv)))))
      else if \<not> Value_IsNull (PVal pv) then Ret (Inr (replicate count (PVal pv)))
      else if ListKey pv \<noteq> [] then
        (case lookupList pv bindVars of
           Inl err \<Rightarrow> Ret (Inl err)
         | Inr bv \<Rightarrow>
             if count \<le> length (bv_Values bv)
             then Ret (Inr (map (\<lambda>v. MakeTrusted (vtyp v) (vval v)) (take count (bv_Values bv))))
             else Panic)
      else (case PValues pv of
              Some pvs \<Rightarrow> resolve_first count 0 pvs bindVars
            | None \<Rightarrow> Ret (Inr (replicate count NULL_value))))"

fun columns :: "nat \<Rightarrow> PlanValue list \<Rightarrow> bind_vars \<Rightarrow> (plan_error + Value list list) go" where
  "columns count [] bindVars = Ret (Inr [])"
| "columns count (pv # pvs) bindVars =
     go_try (column count pv bindVars) (\<lambda>c. go_try (columns count pvs bindVars) (\<lambda>cs. Ret (Inr (c # cs))))"

definition ResolveRows :: "PlanValue list \<Rightarrow> bind_vars \<Rightarrow> (plan_error + row list) go" where
  "ResolveRows pvs bindVars =
     (case rowCount pvs bindVars of
        Inl err \<Rightarrow> Ret (Inl err)
      | Inr count \<Rightarrow>
          go_try (columns count pvs bindVars) (\<lambda>cs. Ret (Inr (map (\<lambda>i. map (\<lambda>c. c ! i) cs) [0..<count]))))"

text \<open>A plan value as the parser makes it: of the key, the value, the key of a list and the list one is set at most.\<close>

definition plan_ok :: "PlanValue \<Rightarrow> bool" where
  "plan_ok pv \<longleftrightarrow>
     length (filter id [Key pv \<noteq> [], \<not> Value_IsNull (PVal pv), ListKey pv \<noteq> [], PValues pv \<noteq> None]) \<le> 1"

text \<open>What column \<open>pv\<close> of \<open>n\<close> rows has to hold.\<close>

definition column_spec :: "nat \<Rightarrow> PlanValue \<Rightarrow> bind_vars \<Rightarrow> plan_error + Value list" where
  "column_spec n pv bindVars =
     (if IsList pv then ResolveList pv bindVars
      else case ResolveValue pv bindVars of Inl err \<Rightarrow> Inl err | Inr v \<Rightarrow> Inr (replicate n v))"

lemma resolve_first_all:
  "resolve_first (length pvs) (length pre) (pre @ pvs) bindVars = Ret (resolve_all pvs bindVars)"
proof (induction pvs arbitrary: pre)
  case (Cons pv pvs)
  from this [of "pre @ [pv]"] show ?case
    by (auto simp: slice_index_def nth_append split: sum.splits)
qed simp

lemma resolve_all_length: "resolve_all pvs bindVars = Inr vs \<Longrightarrow> length vs = length pvs"
  by (induction pvs arbitrary: vs) (auto split: sum.splits)

definition list_length :: "PlanValue \<Rightarrow> bind_vars \<Rightarrow> plan_error + nat option" where
  "list_length pv bindVars =
     (case PValues pv of
        Some vs \<Rightarrow> Inr (Some (length vs))
      | None \<Rightarrow>
          if ListKey pv \<noteq> [] then
            (case lookupList pv bindVars of Inl err \<Rightarrow> Inl err | Inr bv \<Rightarrow> Inr (Some (length (bv_Values bv))))
          else Inr None)"

lemma column_columns:
  assumes "plan_ok pv" "list_length pv bindVars = Inr k" "k = None \<or> k = Some n"
  shows "column n pv bindVars = Ret (column_spec n pv bindVars)"
  using assms resolve_first_all [of "the (PValues pv)" "[]" bindVars]
  by (auto simp: plan_ok_def column_def column_spec_def list_length_def IsList_def ResolveList_def ResolveValue_def
      split: sum.splits option.splits if_splits)

lemma count_columns_lengths:
  "list_all plan_ok pvs \<Longrightarrow> count_columns count pvs bindVars = Inr r \<Longrightarrow>
     (count \<noteq> None \<longrightarrow> r = count) \<and> list_all (\<lambda>pv. \<exists>k. list_length pv bindVars = Inr k \<and> (k = None \<or> k = r)) pvs"
proof (induction pvs arbitrary: count)
  case (Cons pv pvs)
  have ok: "plan_ok pv" using Cons.prems(1) by simp
  from Cons.prems(2) obtain c where c: "count_columns c pvs bindVars = Inr r"
    and k: "\<exists>k. list_length pv bindVars = Inr k \<and> (if k = None then c = count else c = k \<and> (count = None \<or> count = k))"
    using ok by (auto simp: list_length_def plan_ok_def setCount_def Let_def split: sum.splits option.splits if_splits)
  have "(c \<noteq> None \<longrightarrow> r = c) \<and> list_all (\<lambda>pv. \<exists>k. list_length pv bindVars = Inr k \<and> (k = None \<or> k = r)) pvs"
    using Cons.IH [OF _ c] Cons.prems(1) by simp
  with k show ?case by (auto split: if_splits)
qed simp

lemma column_spec_length:
  assumes "list_length pv bindVars = Inr k" "k = None \<or> k = Some n" "column_spec n pv bindVars = Inr vs" "plan_ok pv"
  shows "length vs = n"
  using assms
  by (auto simp: column_spec_def list_length_def IsList_def ResolveList_def plan_ok_def
      split: sum.splits option.splits if_splits dest: resolve_all_length)

lemma columns_spec:
  assumes "list_all plan_ok pvs" "list_all (\<lambda>pv. \<exists>k. list_length pv bindVars = Inr k \<and> (k = None \<or> k = Some n)) pvs"
  shows "\<exists>r. columns n pvs bindVars = Ret r \<and>
    (\<forall>cs. r = Inr cs \<longrightarrow> list_all2 (\<lambda>pv c. column_spec n pv bindVars = Inr c \<and> length c = n) pvs cs)"
  using assms
proof (induction pvs)
  case (Cons pv pvs)
  then obtain k where k: "list_length pv bindVars = Inr k" "k = None \<or> k = Some n" and ok: "plan_ok pv" by auto
  have c: "column n pv bindVars = Ret (column_spec n pv bindVars)" by (rule column_columns [OF ok k])
  obtain r where r: "columns n pvs bindVars = Ret r"
    "\<And>cs. r = Inr cs \<Longrightarrow> list_all2 (\<lambda>pv c. column_spec n pv bindVars = Inr c \<and> length c = n) pvs cs"
    using Cons by auto
  show ?case
    using c r column_spec_length [OF k _ ok]
    by (cases "column_spec n pv bindVars"; cases r) auto
qed simp

subsection \<open>Properties\<close>

text \<open>
  C39. A result that is sent over the wire arrives unchanged: if each value is NULL or has the type of its field and no row
  is longer than the list of fields, \<^verbatim>\<open>Proto3ToResult\<close> of \<^verbatim>\<open>ResultToProto3\<close> is the result, without a panic; so it is with
  the fields sent separately.
\<close>

theorem proto3_roundtrip:
  assumes "list_all (typed_row (Fields r)) (Rows r)"
  shows "Proto3ToResult (ResultToProto3 (Some r)) = Ret (Some r) \<and>
    CustomProto3ToResult (Fields r) (ResultToProto3 (Some (r\<lparr>Fields := []\<rparr>))) = Ret (Some (r\<lparr>Fields := []\<rparr>))"
  using proto3ToRows_rows [OF assms]
  by (simp add: Proto3ToResult_def CustomProto3ToResult_def ResultToProto3_def proto3_result_def)

theorem proto3_roundtrip_witness:
  "let r = \<lparr>Fields = [\<lparr>fname = ''id'', ftype = T_Int64, fmeta = ([], [])\<rparr>, \<lparr>fname = ''s'', ftype = T_VarChar, fmeta = ([], [])\<rparr>],
            RowsAffected = 2, InsertID = 0, Rows = [[NewInt64 7, NULL_value], [NULL_value, NewVarChar ''ab'']], Extras = None\<rparr> in
   Proto3ToResult (ResultToProto3 (Some r)) = Ret (Some r)"
proof -
  have "list_all (typed_row [\<lparr>fname = ''id'', ftype = T_Int64, fmeta = ([], [])\<rparr>, \<lparr>fname = ''s'', ftype = T_VarChar, fmeta = ([], [])\<rparr>])
      [[NewInt64 7, NULL_value], [NULL_value, NewVarChar ''ab'']]"
    by (simp add: typed_row_def typed_value_def NewInt64_def NewVarChar_def MakeTrusted_def Value_IsNull_def)
  then show ?thesis unfolding Let_def by (intro conjunct1 [OF proto3_roundtrip]) simp
qed

text \<open>
  \<^verbatim>\<open>ResolveRows\<close> transposes columns to rows. For plan values as the parser makes them it does not panic, and the rows that it
  returns have one value per plan value; column \<open>j\<close> of all rows is the list that plan value \<open>j\<close> resolves to, which has
  as many values as there are rows, or the single value it resolves to, repeated.
\<close>

theorem ResolveRows_columns:
  assumes "list_all plan_ok pvs"
  shows "\<exists>r. ResolveRows pvs bindVars = Ret r \<and>
    (\<forall>rows. r = Inr rows \<longrightarrow>
       list_all (\<lambda>row. length row = length pvs) rows \<and>
       (\<forall>j < length pvs. column_spec (length rows) (pvs ! j) bindVars = Inr (map (\<lambda>row. row ! j) rows)))"
proof (cases "count_columns None pvs bindVars")
  case (Inl err)
  then show ?thesis by (simp add: ResolveRows_def rowCount_def)
next
  case (Inr k)
  define n where "n = (case k of None \<Rightarrow> 1 | Some c \<Rightarrow> c)"
  have n: "rowCount pvs bindVars = Inr n" using Inr by (simp add: rowCount_def n_def split: option.split)
  have "list_all (\<lambda>pv. \<exists>l. list_length pv bindVars = Inr l \<and> (l = None \<or> l = Some n)) pvs"
    using conjunct2 [OF count_columns_lengths [OF assms Inr]]
    by (rule list.pred_mono_strong) (auto simp: n_def split: option.splits)
  from columns_spec [OF assms this] obtain r where r: "columns n pvs bindVars = Ret r"
    "\<And>cs. r = Inr cs \<Longrightarrow> list_all2 (\<lambda>pv c. column_spec n pv bindVars = Inr c \<and> length c = n) pvs cs" by auto
  show ?thesis
  proof (cases r)
    case (Inl err)
    then show ?thesis using r by (simp add: ResolveRows_def n)
  next
    case (Inr cs)
    note cs = r(2) [OF Inr]
    have len: "length cs = length pvs" using cs by (simp add: list_all2_lengthD)
    have col: "column_spec n (pvs ! j) bindVars = Inr (cs ! j) \<and> length (cs ! j) = n" if "j < length pvs" for j
      using cs that by (simp add: list_all2_conv_all_nth)
    let ?rows = "map (\<lambda>i. map (\<lambda>c. c ! i) cs) [0..<n]"
    have "map (\<lambda>row. row ! j) ?rows = cs ! j" if "j < length pvs" for j
      using col [OF that] that len by (intro nth_equalityI) auto
    then show ?thesis using r(1) Inr col len by (simp add: ResolveRows_def n list_all_iff)
  qed
qed

theorem ResolveRows_columns_witness:
  "let pvs = [PlanValue ''a'' NULL_value [] None, PlanValue [] NULL_value ''b'' None];
       bvs = [(''a'', ValueBindVariable (NewInt64 1)),
              (''b'', \<lparr>bv_Type = T_Tuple, bv_Value = [], bv_Values = [NewInt64 2, NewInt64 3]\<rparr>)] in
   ResolveRows pvs bvs = Ret (Inr [[NewInt64 1, NewInt64 2], [NewInt64 1, NewInt64 3]]) \<and>
   column_spec 2 (pvs ! 1) bvs = Inr [NewInt64 2, NewInt64 3]"
proof -
  let ?pvs = "[PlanValue ''a'' NULL_value [] None, PlanValue [] NULL_value ''b'' None]"
  let ?bvs = "[(''a'', ValueBindVariable (NewInt64 1)),
    (''b'', \<lparr>bv_Type = T_Tuple, bv_Value = [], bv_Values = [NewInt64 2, NewInt64 3]\<rparr>)]"
  have r: "ResolveRows ?pvs ?bvs = Ret (Inr [[NewInt64 1, NewInt64 2], [NewInt64 1, NewInt64 3]])" by code_simp
  have "list_all plan_ok ?pvs" by code_simp
  from ResolveRows_columns [OF this, of ?bvs] obtain q where q: "ResolveRows ?pvs ?bvs = Ret q"
    and c: "\<forall>rows. q = Inr rows \<longrightarrow> list_all (\<lambda>row. length row = length ?pvs) rows \<and>
      (\<forall>j < length ?pvs. column_spec (length rows) (?pvs ! j) ?bvs = Inr (map (\<lambda>row. row ! j) rows))"
    by blast
  have "q = Inr [[NewInt64 1, NewInt64 2], [NewInt64 1, NewInt64 3]]" using q unfolding r by (simp only: go.inject)
  from c [rule_format, OF this, THEN conjunct2, rule_format, of 1]
  have "column_spec 2 (?pvs ! 1) ?bvs = Inr [NewInt64 2, NewInt64 3]" by (simp add: numeral_2_eq_2)
  with r show ?thesis by (simp add: Let_def)
qed

end
