(* ===== verification/Resolver.thy ===== *)
theory Resolver
  imports Destination
begin

text \<open>
  From destinations to shards of a served keyspace: \<^verbatim>\<open>src/vt/srvtopo/resolver.go\<close> and the choice of a partition in
  \<^verbatim>\<open>src/vt/topo/topoproto/srvkeyspace.go\<close>. The topology server and the health statistics are parameters of the resolver: what
  \<^verbatim>\<open>GetSrvKeyspace\<close> returns for a cell and a keyspace, and whether there is a query service for a target. A query service is a
  value of the type \<open>'q\<close>, a value that is routed is of the type \<open>'v\<close>.

  \<open>ResolveDestinations_groups\<close> describes the result: the shards in the order in which the destinations name them
  first, each once, and with every shard the ids whose destinations name it.
\<close>

subsection \<open>Keyspaces and shards\<close>

record KeyspacePartition =
  ServedType :: nat
  ShardReferences :: "ShardReference list"

record SrvKeyspace =
  Partitions :: "KeyspacePartition list"
  ServedFrom :: "(nat \<times> string) list"

record Target =
  tkeyspace :: string
  tshard :: string
  ttabletType :: nat
  tcell :: string

record 'q ResolvedShard =
  rTarget :: Target
  rQueryService :: 'q

datatype resolver_error =
    KeyspaceFetchError string string
  | NoPartition nat string
  | NoValidTablet Target string
  | IdsOutOfRange

record 'q Resolver =
  GetSrvKeyspace :: "string \<Rightarrow> string \<Rightarrow> string + SrvKeyspace"
  GetAggregateStats :: "Target \<Rightarrow> string + 'q"
  localCell :: string

definition SrvKeyspaceGetPartition :: "SrvKeyspace \<Rightarrow> nat \<Rightarrow> KeyspacePartition option" where
  "SrvKeyspaceGetPartition sk tabletType = find (\<lambda>p. ServedType p = tabletType) (Partitions sk)"

text \<open>The loop over \<^verbatim>\<open>srvKeyspace.ServedFrom\<close> of the keyspace that was asked for.\<close>

fun redirect ::
  "'q Resolver \<Rightarrow> nat \<Rightarrow> (nat \<times> string) list \<Rightarrow> string \<Rightarrow> SrvKeyspace \<Rightarrow> resolver_error + string \<times> SrvKeyspace" where
  "redirect r tabletType [] keyspace srvKeyspace = Inr (keyspace, srvKeyspace)"
| "redirect r tabletType ((t, ks) # sfs) keyspace srvKeyspace =
     (if t = tabletType then
        (case GetSrvKeyspace r (localCell r) ks of
           Inl err \<Rightarrow> Inl (KeyspaceFetchError ks err)
         | Inr sk \<Rightarrow> redirect r tabletType sfs ks sk)
      else redirect r tabletType sfs keyspace srvKeyspace)"

definition GetKeyspaceShards ::
  "'q Resolver \<Rightarrow> string \<Rightarrow> nat \<Rightarrow> resolver_error + string \<times> SrvKeyspace \<times> ShardReference list" where
  "GetKeyspaceShards r keyspace tabletType =
     (case GetSrvKeyspace r (localCell r) keyspace of
        Inl err \<Rightarrow> Inl (KeyspaceFetchError keyspace err)
      | Inr srvKeyspace \<Rightarrow>
          (case redirect r tabletType (ServedFrom srvKeyspace) keyspace srvKeyspace of
             Inl err \<Rightarrow> Inl err
           | Inr (keyspace1, srvKeyspace1) \<Rightarrow>
               (case SrvKeyspaceGetPartition srvKeyspace1 tabletType of
                  None \<Rightarrow> Inl (NoPartition tabletType keyspace1)
                | Some p \<Rightarrow> Inr (keyspace1, srvKeyspace1, ShardReferences p))))"

text \<open>The look-up of a shard's query service, in the local cell; the target that is kept has no cell.\<close>

definition resolve_shard :: "'q Resolver \<Rightarrow> string \<Rightarrow> nat \<Rightarrow> string \<Rightarrow> resolver_error + 'q ResolvedShard" where
  "resolve_shard r keyspace tabletType shard =
     (let target = \<lparr>tkeyspace = keyspace, tshard = shard, ttabletType = tabletType, tcell = localCell r\<rparr> in
      case GetAggregateStats r target of
        Inl err \<Rightarrow> Inl (NoValidTablet target err)
      | Inr qs \<Rightarrow> Inr \<lparr>rTarget = target\<lparr>tcell := []\<rparr>, rQueryService = qs\<rparr>)"

fun resolve_shards :: "'q Resolver \<Rightarrow> string \<Rightarrow> nat \<Rightarrow> string list \<Rightarrow> resolver_error + 'q ResolvedShard list" where
  "resolve_shards r keyspace tabletType [] = Inr []"
| "resolve_shards r keyspace tabletType (n # ns) =
     (case resolve_shard r keyspace tabletType n of
        Inl err \<Rightarrow> Inl err
      | Inr rs \<Rightarrow>
          (case resolve_shards r keyspace tabletType ns of Inl err \<Rightarrow> Inl err | Inr rss \<Rightarrow> Inr (rs # rss)))"

definition GetAllShards :: "'q Resolver \<Rightarrow> string \<Rightarrow> nat \<Rightarrow> resolver_error + 'q ResolvedShard list \<times> SrvKeyspace" where
  "GetAllShards r keyspace tabletType =
     (case GetKeyspaceShards r keyspace tabletType of
        Inl err \<Rightarrow> Inl err
      | Inr (keyspace1, srvKeyspace, allShards) \<Rightarrow>
          (case resolve_shards r keyspace1 tabletType (map Name allShards) of
             Inl err \<Rightarrow> Inl err
           | Inr res \<Rightarrow> Inr (res, srvKeyspace)))"

subsection \<open>Destinations\<close>

text \<open>The variables that the callback of \<^verbatim>\<open>ResolveDestinations\<close> changes; \<open>res_index\<close> is a map. An id that is missing, on which
  the index expression \<^verbatim>\<open>ids[i]\<close> panics, ends the resolution with \<open>IdsOutOfRange\<close>.\<close>

record ('q, 'v) resolution =
  res_shards :: "'q ResolvedShard list"
  res_values :: "'v list list"
  res_index :: "(string \<times> nat) list"

definition add_value :: "'v list option \<Rightarrow> nat \<Rightarrow> nat \<Rightarrow> ('q, 'v) resolution \<Rightarrow> resolver_error option \<times> ('q, 'v) resolution" where
  "add_value ids i s st =
     (case ids of
        None \<Rightarrow> (None, st)
      | Some vs \<Rightarrow>
          if i < length vs then (None, st\<lparr>res_values := (res_values st)[s := res_values st ! s @ [vs ! i]]\<rparr>)
          else (Some IdsOutOfRange, st))"

definition add_resolved ::
  "'q Resolver \<Rightarrow> string \<Rightarrow> nat \<Rightarrow> 'v list option \<Rightarrow> nat \<Rightarrow> string \<Rightarrow> ('q, 'v) resolution \<Rightarrow>
     resolver_error option \<times> ('q, 'v) resolution" where
  "add_resolved r keyspace tabletType ids i shard st =
     (case map_of (res_index st) shard of
        Some s \<Rightarrow> add_value ids i s st
      | None \<Rightarrow>
          (case resolve_shard r keyspace tabletType shard of
             Inl err \<Rightarrow> (Some err, st)
           | Inr rs \<Rightarrow>
               (let s = length (res_shards st) in
                add_value ids i s
                  (st\<lparr>res_shards := res_shards st @ [rs], res_values := (if ids = None then res_values st else res_values st @ [[]]),
                      res_index := res_index st @ [(shard, s)]\<rparr>))))"

definition ResolveDestinations ::
  "'q Resolver \<Rightarrow> (nat \<Rightarrow> nat) \<Rightarrow> string \<Rightarrow> nat \<Rightarrow> 'v list option \<Rightarrow> Destination list \<Rightarrow>
     resolver_error resolve_error + 'q ResolvedShard list \<times> 'v list list" where
  "ResolveDestinations r pick keyspace tabletType ids destinations =
     (case GetKeyspaceShards r keyspace tabletType of
        Inl err \<Rightarrow> Inl (CallbackError err)
      | Inr (keyspace1, _, allShards) \<Rightarrow>
          (case each (\<lambda>(i, d) st. Destination_Resolve pick d allShards (add_resolved r keyspace1 tabletType ids i) st)
                  (enumerate 0 destinations) \<lparr>res_shards = [], res_values = [], res_index = []\<rparr> of
             (Some err, _) \<Rightarrow> Inl err
           | (None, st) \<Rightarrow> Inr (res_shards st, res_values st)))"

definition ResolveDestination ::
  "'q Resolver \<Rightarrow> (nat \<Rightarrow> nat) \<Rightarrow> string \<Rightarrow> nat \<Rightarrow> Destination \<Rightarrow> resolver_error resolve_error + 'q ResolvedShard list" where
  "ResolveDestination r pick keyspace tabletType destination =
     (case ResolveDestinations r pick keyspace tabletType (None :: unit list option) [destination] of
        Inl err \<Rightarrow> Inl err
      | Inr (rss, _) \<Rightarrow> Inr rss)"

subsection \<open>Grouping by shard\<close>

text \<open>The names of a list in the order of their first occurrence.\<close>

definition firsts :: "'a list \<Rightarrow> 'a list" where
  "firsts ns = rev (remdups (rev ns))"

lemma firsts_Nil [simp]: "firsts [] = []"
  by (simp add: firsts_def)

lemma firsts_snoc: "firsts (ns @ [n]) = (if n \<in> set ns then firsts ns else firsts ns @ [n])"
  by (simp add: firsts_def)

lemma distinct_firsts [simp]: "distinct (firsts ns)"
  by (simp add: firsts_def)

lemma set_firsts [simp]: "set (firsts ns) = set ns"
  by (simp add: firsts_def)

text \<open>The ids (by their index) with the shard \<open>n\<close> among pairs of a shard and an index.\<close>

definition sent_to :: "(string \<times> nat) list \<Rightarrow> string \<Rightarrow> nat list" where
  "sent_to ps n = map snd (filter (\<lambda>p. fst p = n) ps)"

definition pairs_of :: "(nat \<Rightarrow> nat) \<Rightarrow> ShardReference list \<Rightarrow> (nat \<times> Destination) list \<Rightarrow> (string \<times> nat) list" where
  "pairs_of pick shs ds =
     concat (map (\<lambda>(i, d). map (\<lambda>n. (n, i)) (snd (targets pick d shs :: resolver_error resolve_error option \<times> string list))) ds)"

text \<open>The variables after the pairs \<open>ps\<close>, where \<open>f\<close> is the resolved shard of a name.\<close>

definition state_after :: "(string \<Rightarrow> 'q ResolvedShard) \<Rightarrow> 'v list option \<Rightarrow> (string \<times> nat) list \<Rightarrow> ('q, 'v) resolution" where
  "state_after f ids ps =
     (let ns = firsts (map fst ps) in
      \<lparr>res_shards = map f ns,
       res_values = (case ids of None \<Rightarrow> [] | Some vs \<Rightarrow> map (\<lambda>n. map ((!) vs) (sent_to ps n)) ns),
       res_index = zip ns [0..<length ns]\<rparr>)"

lemma list_update_map: "distinct ns \<Longrightarrow> i < length ns \<Longrightarrow> (map g ns)[i := x] = map (g(ns ! i := x)) ns"
  by (intro nth_equalityI) (auto simp: nth_list_update nth_eq_iff_index_eq)

lemma sent_to_snoc: "sent_to (ps @ [(n, i)]) m = sent_to ps m @ (if m = n then [i] else [])"
  by (simp add: sent_to_def)

lemma add_value_known:
  assumes "ns = firsts (map fst ps)" "s < length ns" "ns ! s = n" "\<forall>vs. ids = Some vs \<longrightarrow> i < length vs"
  shows "add_value ids i s (state_after f ids ps) = (None, state_after f ids (ps @ [(n, i)]))"
proof -
  have n: "n \<in> set (map fst ps)" using assms(1-3) nth_mem [of s ns] by simp
  then have ns: "firsts (map fst (ps @ [(n, i)])) = ns" using assms(1) by (simp add: firsts_snoc)
  show ?thesis
  proof (cases ids)
    case None
    then show ?thesis using ns assms(1) by (simp add: add_value_def state_after_def)
  next
    case (Some vs)
    let ?g = "\<lambda>n. map ((!) vs) (sent_to ps n)"
    have "(map ?g ns)[s := map ?g ns ! s @ [vs ! i]] = map (\<lambda>m. map ((!) vs) (sent_to (ps @ [(n, i)]) m)) ns"
      using list_update_map [of ns s ?g] assms(1-3) by (auto simp: sent_to_snoc)
    then show ?thesis using Some assms(4) ns assms(1) by (simp add: add_value_def state_after_def Let_def)
  qed
qed

lemma add_resolved_step:
  assumes "resolve_shard r keyspace tabletType n = Inr (f n)" "\<forall>vs. ids = Some vs \<longrightarrow> i < length vs"
  shows "add_resolved r keyspace tabletType ids i n (state_after f ids ps) = (None, state_after f ids (ps @ [(n, i)]))"
proof -
  define ns where "ns = firsts (map fst ps)"
  have res: "res_index (state_after f ids ps) = zip ns [0..<length ns]" by (simp add: state_after_def ns_def Let_def)
  show ?thesis
  proof (cases "n \<in> set ns")
    case True
    then obtain s where s: "s < length ns" "ns ! s = n" by (auto simp: in_set_conv_nth)
    then have "map_of (res_index (state_after f ids ps)) n = Some s"
      using map_of_zip_nth [of ns "[0..<length ns]" s] res by (simp add: ns_def)
    then show ?thesis using add_value_known [OF ns_def s assms(2)] by (simp add: add_resolved_def)
  next
    case False
    then have none: "map_of (res_index (state_after f ids ps)) n = None" using res by (simp add: map_of_zip_is_None)
    have new: "sent_to ps n = []" "firsts (map fst (ps @ [(n, i)])) = ns @ [n]" "\<And>m. m \<in> set ns \<Longrightarrow> m \<noteq> n"
      using False by (force simp: sent_to_def ns_def filter_empty_conv, auto simp: firsts_snoc ns_def)
    show ?thesis
      unfolding add_resolved_def none option.case assms(1) sum.case Let_def
      using new assms(2)
      by (cases ids) (simp_all add: add_value_def state_after_def Let_def ns_def [symmetric] sent_to_snoc list_update_append nth_append)
  qed
qed

lemma add_shards_resolved:
  assumes "\<forall>n\<in>set ns. resolve_shard r keyspace tabletType n = Inr (f n)" "\<forall>vs. ids = Some vs \<longrightarrow> i < length vs"
  shows "add_shards (add_resolved r keyspace tabletType ids i) ns (state_after f ids ps) =
    (None, state_after f ids (ps @ map (\<lambda>n. (n, i)) ns))"
  using assms(1)
proof (induction ns arbitrary: ps)
  case (Cons n ns)
  then show ?case
    using add_resolved_step [of r keyspace tabletType n f ids i ps] assms(2) Cons.IH [of "ps @ [(n, i)]"] by simp
qed simp

lemma each_resolved:
  assumes "\<forall>(i, d)\<in>set ids_ds. fst (targets pick d shs :: resolver_error resolve_error option \<times> string list) = None"
    and "\<forall>(n, i)\<in>set (pairs_of pick shs ids_ds). resolve_shard r keyspace tabletType n = Inr (f n)"
    and "\<forall>(i, d)\<in>set ids_ds. \<forall>vs. ids = Some vs \<longrightarrow> i < length vs"
  shows "each (\<lambda>(i, d) st. Destination_Resolve pick d shs (add_resolved r keyspace tabletType ids i) st) ids_ds (state_after f ids ps) =
    (None, state_after f ids (ps @ pairs_of pick shs ids_ds))"
  using assms
proof (induction ids_ds arbitrary: ps)
  case (Cons x xs)
  obtain i d where x: "x = (i, d)" by (cases x)
  let ?ns = "snd (targets pick d shs :: resolver_error resolve_error option \<times> string list)"
  have "add_shards (add_resolved r keyspace tabletType ids i) ?ns (state_after f ids ps) =
      (None, state_after f ids (ps @ map (\<lambda>n. (n, i)) ?ns))"
    using Cons.prems by (intro add_shards_resolved) (auto simp: x pairs_of_def)
  then have "Destination_Resolve pick d shs (add_resolved r keyspace tabletType ids i) (state_after f ids ps) =
      (None, state_after f ids (ps @ map (\<lambda>n. (n, i)) ?ns))"
    using Cons.prems(1) by (simp add: x Destination_Resolve_feeds feeds_def)
  then show ?case
    using Cons.IH [of "ps @ map (\<lambda>n. (n, i)) ?ns"] Cons.prems by (simp add: x pairs_of_def)
qed (simp add: pairs_of_def)

lemma ResolveDestinations_groups:
  assumes "GetKeyspaceShards r keyspace tabletType = Inr (keyspace1, sk, shs)"
    and "\<forall>d\<in>set ds. fst (targets pick d shs :: resolver_error resolve_error option \<times> string list) = None"
    and "ps = pairs_of pick shs (enumerate 0 ds)"
    and "\<forall>(n, i)\<in>set ps. resolve_shard r keyspace1 tabletType n = Inr (f n)"
    and "\<forall>vs. ids = Some vs \<longrightarrow> length vs = length ds"
  shows "ResolveDestinations r pick keyspace tabletType ids ds =
    Inr (map f (firsts (map fst ps)),
      case ids of None \<Rightarrow> [] | Some vs \<Rightarrow> map (\<lambda>n. map ((!) vs) (sent_to ps n)) (firsts (map fst ps)))"
proof -
  have init: "\<lparr>res_shards = [], res_values = [], res_index = []\<rparr> = state_after f ids []"
    by (simp add: state_after_def split: option.splits)
  have "each (\<lambda>(i, d) st. Destination_Resolve pick d shs (add_resolved r keyspace1 tabletType ids i) st) (enumerate 0 ds)
      (state_after f ids []) = (None, state_after f ids ([] @ pairs_of pick shs (enumerate 0 ds)))"
    using assms(2-5) by (intro each_resolved) (auto simp: in_set_enumerate_eq)
  moreover have "res_shards (state_after f ids ps) = map f (firsts (map fst ps))"
    "res_values (state_after f ids ps) = (case ids of None \<Rightarrow> [] | Some vs \<Rightarrow> map (\<lambda>n. map ((!) vs) (sent_to ps n)) (firsts (map fst ps)))"
    by (simp_all add: state_after_def Let_def)
  ultimately show ?thesis using assms(1,3) by (simp add: ResolveDestinations_def init)
qed

text \<open>
  Destinations as a vindex makes them for single ids: a keyspace id, or none for an id that has no place.
\<close>

definition ksid_destination :: "byte list option \<Rightarrow> Destination" where
  "ksid_destination k = (case k of None \<Rightarrow> DestinationNone | Some i \<Rightarrow> DestinationKeyspaceID i)"

definition owns :: "ShardReference list \<Rightarrow> string \<Rightarrow> byte list option \<Rightarrow> bool" where
  "owns shs n k \<longleftrightarrow> (\<exists>sh\<in>set shs. Name sh = n \<and> (\<exists>i. k = Some i \<and> KeyRangeContains (SR_KeyRange sh) i))"

lemma ksid_targets:
  assumes "partitioned shs" "distinct (map Name shs)"
  shows "\<exists>ns. (targets pick (ksid_destination k) shs :: 'e resolve_error option \<times> string list) = (None, ns) \<and>
    (\<forall>n. filter (\<lambda>m. m = n) ns = (if owns shs n k then [n] else []))"
proof (cases k)
  case None
  then show ?thesis by (simp add: ksid_destination_def owns_def)
next
  case (Some i)
  obtain sh where sh: "filter (\<lambda>sh. KeyRangeContains (SR_KeyRange sh) i) shs = [sh]"
    "targets pick (DestinationKeyspaceID i) shs = (None :: 'e resolve_error option, [Name sh])"
    using partitioned_ksid [OF assms(1)] by blast
  have "x \<in> set shs \<and> KeyRangeContains (SR_KeyRange x) i \<longleftrightarrow> x = sh" for x
    using arg_cong [OF sh(1), of set] by auto
  moreover have "owns shs n k \<longleftrightarrow> (\<exists>x\<in>set shs. Name x = n \<and> KeyRangeContains (SR_KeyRange x) i)" for n
    by (simp add: owns_def Some)
  ultimately have "owns shs n k \<longleftrightarrow> n = Name sh" "sh \<in> set shs" for n by metis+
  then show ?thesis using sh(2) Some by (intro exI [of _ "[Name sh]"]) (simp add: ksid_destination_def)
qed

lemma sent_to_ksids:
  assumes "partitioned shs" "distinct (map Name shs)"
  shows "sent_to (pairs_of pick shs (enumerate j (map ksid_destination ks))) n =
    map fst (filter (\<lambda>(i, k). owns shs n k) (enumerate j ks))"
proof (induction ks arbitrary: j)
  case (Cons k ks)
  obtain ns where ns: "(targets pick (ksid_destination k) shs :: resolver_error resolve_error option \<times> string list) = (None, ns)"
    and all: "\<forall>n. filter (\<lambda>m. m = n) ns = (if owns shs n k then [n] else [])"
    using ksid_targets [OF assms, of pick k] by (elim exE conjE)
  have "sent_to (map (\<lambda>m. (m, j)) ns) n = map (\<lambda>m. j) (filter (\<lambda>m. m = n) ns)"
    by (simp add: sent_to_def filter_map comp_def)
  also have "\<dots> = (if owns shs n k then [j] else [])" using all by simp
  finally have "sent_to (map (\<lambda>m. (m, j)) ns) n = (if owns shs n k then [j] else [])" .
  then show ?case using Cons [of "Suc j"] ns by (simp add: pairs_of_def sent_to_def)
qed (simp add: pairs_of_def sent_to_def)

lemma pairs_of_ksids:
  assumes "partitioned shs" "distinct (map Name shs)"
  shows "fst ` set (pairs_of pick shs (enumerate j (map ksid_destination ks))) = {n. \<exists>k\<in>set ks. owns shs n k}"
proof -
  have "n \<in> fst ` set ps \<longleftrightarrow> sent_to ps n \<noteq> []" for n ps by (force simp: sent_to_def filter_empty_conv)
  then have "n \<in> fst ` set (pairs_of pick shs (enumerate j (map ksid_destination ks))) \<longleftrightarrow>
      filter (\<lambda>(i, k). owns shs n k) (enumerate j ks) \<noteq> []" for n
    unfolding sent_to_ksids [OF assms, symmetric] by (simp add: sent_to_ksids [OF assms])
  also have "(filter (\<lambda>(i, k). owns shs n k) (enumerate j ks) \<noteq> []) = (\<exists>k\<in>set ks. owns shs n k)" for n
    by (induction ks arbitrary: j) auto
  finally show ?thesis by auto
qed

lemma owns_name: "owns shs n k \<Longrightarrow> n \<in> Name ` set shs"
  by (auto simp: owns_def)

lemma enumerate_vals: "length vs = length ks \<Longrightarrow>
    map ((!) vs) (map fst (filter (\<lambda>(i, k). P k) (enumerate 0 ks))) = map fst (filter (\<lambda>(v, k). P k) (zip vs ks))"
proof -
  assume "length vs = length ks"
  then have "map ((!) (us @ vs)) (map fst (filter (\<lambda>(i, k). P k) (enumerate (length us) ks))) =
      map fst (filter (\<lambda>(v, k). P k) (zip vs ks))" for us
  proof (induction vs ks arbitrary: us rule: list_induct2)
    case (Cons v vs k ks)
    from Cons.IH [of "us @ [v]"] show ?case by (simp add: nth_append)
  qed simp
  from this [of "[]"] show ?thesis by simp
qed

lemma ResolveDestinations_ksids:
  assumes "GetKeyspaceShards r keyspace tabletType = Inr (keyspace1, sk, shs)"
    and "partitioned shs" "distinct (map Name shs)"
    and "\<forall>sh\<in>set shs. resolve_shard r keyspace1 tabletType (Name sh) = Inr (f (Name sh))"
    and "length vs = length ks"
  shows "\<exists>ns. ResolveDestinations r pick keyspace tabletType (Some vs) (map ksid_destination ks) =
      Inr (map f ns, map (\<lambda>n. map fst (filter (\<lambda>(v, k). owns shs n k) (zip vs ks))) ns) \<and>
    distinct ns \<and> set ns = {n. \<exists>k\<in>set ks. owns shs n k}"
proof -
  let ?ps = "pairs_of pick shs (enumerate 0 (map ksid_destination ks))"
  note names = pairs_of_ksids [OF assms(2,3), of pick 0 ks]
  have "\<forall>(n, i)\<in>set ?ps. resolve_shard r keyspace1 tabletType n = Inr (f n)"
  proof clarify
    fix n i assume "(n, i) \<in> set ?ps"
    then have "n \<in> fst ` set ?ps" by force
    then have "n \<in> Name ` set shs" using names owns_name [of shs n] by auto
    then show "resolve_shard r keyspace1 tabletType n = Inr (f n)" using assms(4) by auto
  qed
  moreover have "fst (targets pick d shs :: resolver_error resolve_error option \<times> string list) = None"
    if d: "d \<in> set (map ksid_destination ks)" for d
  proof -
    obtain k where "d = ksid_destination k" using d by auto
    then show ?thesis using ksid_targets [OF assms(2,3), where 'e = resolver_error and pick = pick and k = k] by (elim exE conjE) simp
  qed
  ultimately have "ResolveDestinations r pick keyspace tabletType (Some vs) (map ksid_destination ks) =
      Inr (map f (firsts (map fst ?ps)), map (\<lambda>n. map ((!) vs) (sent_to ?ps n)) (firsts (map fst ?ps)))"
    using ResolveDestinations_groups [OF assms(1) _ refl, of "map ksid_destination ks" pick f "Some vs"] assms(5) by simp
  moreover have "map ((!) vs) (sent_to ?ps n) = map fst (filter (\<lambda>(v, k). owns shs n k) (zip vs ks))" for n
    by (simp only: sent_to_ksids [OF assms(2,3)] enumerate_vals [OF assms(5)])
  ultimately show ?thesis using names by (intro exI [of _ "firsts (map fst ?ps)"]) simp
qed

subsection \<open>Properties\<close>

text \<open>
  C14. When the shards of the keyspace cut the whole key space and are all served, values with keyspace ids are split by shard:
  the result names each shard that owns one of the ids once, no other shard, and next to it are the values, in their order,
  whose ids lie in the key range of that shard; values without a keyspace id are left out.
\<close>
theorem ResolveDestinations_partition:
  assumes "GetKeyspaceShards r keyspace tabletType = Inr (keyspace1, sk, shs)"
    and "partitioned shs" "distinct (map Name shs)"
    and "list_all (\<lambda>sh. resolve_shard r keyspace1 tabletType (Name sh) = Inr (f (Name sh))) shs"
    and "length vs = length ks"
  shows "\<exists>ns. ResolveDestinations r pick keyspace tabletType (Some vs) (map ksid_destination ks) =
      Inr (map f ns, map (\<lambda>n. map fst (filter (\<lambda>(v, k). owns shs n k) (zip vs ks))) ns) \<and>
    distinct ns \<and> set ns = {n. \<exists>k\<in>set ks. owns shs n k}"
  using ResolveDestinations_ksids [OF assms(1-3) _ assms(5)] assms(4) by (simp add: list_all_iff)

theorem ResolveDestinations_partition_witness:
  "let shs = [\<lparr>Name = ''-80'', SR_KeyRange = Some \<lparr>Start = [], End = [128]\<rparr>\<rparr>,
              \<lparr>Name = ''80-'', SR_KeyRange = Some \<lparr>Start = [128], End = []\<rparr>\<rparr>];
       sk = \<lparr>Partitions = [\<lparr>ServedType = 1, ShardReferences = shs\<rparr>], ServedFrom = []\<rparr>;
       r = \<lparr>GetSrvKeyspace = (\<lambda>_ _. Inr sk), GetAggregateStats = (\<lambda>_. Inr ()), localCell = ''zone''\<rparr> in
   \<exists>ns rss. ResolveDestinations r id ''ks'' 1 (Some [7, 8, 9 :: nat]) (map ksid_destination [Some [200], Some [3], Some [130]]) =
      Inr (rss, map (\<lambda>n. map fst (filter (\<lambda>(v, k). owns shs n k) (zip [7, 8, 9] [Some [200], Some [3], Some [130]]))) ns) \<and>
    distinct ns \<and> set ns = {''-80'', ''80-''}"
proof -
  let ?shs = "[\<lparr>Name = ''-80'', SR_KeyRange = Some \<lparr>Start = [], End = [128]\<rparr>\<rparr>,
    \<lparr>Name = ''80-'', SR_KeyRange = Some \<lparr>Start = [128], End = []\<rparr>\<rparr>]"
  let ?sk = "\<lparr>Partitions = [\<lparr>ServedType = 1, ShardReferences = ?shs\<rparr>], ServedFrom = []\<rparr>"
  let ?r = "\<lparr>GetSrvKeyspace = (\<lambda>_ _. Inr ?sk), GetAggregateStats = (\<lambda>_. Inr ()), localCell = ''zone''\<rparr>"
  let ?f = "\<lambda>n. \<lparr>rTarget = \<lparr>tkeyspace = ''ks'', tshard = n, ttabletType = 1, tcell = []\<rparr>, rQueryService = ()\<rparr>"
  let ?ks = "[Some [200], Some [3], Some [130]]"
  have "\<exists>ns. ResolveDestinations ?r id ''ks'' 1 (Some [7, 8, 9 :: nat]) (map ksid_destination ?ks) =
      Inr (map ?f ns, map (\<lambda>n. map fst (filter (\<lambda>(v, k). owns ?shs n k) (zip [7, 8, 9] ?ks))) ns) \<and>
    distinct ns \<and> set ns = {n. \<exists>k\<in>set ?ks. owns ?shs n k}"
    by (rule ResolveDestinations_partition [of ?r "''ks''" 1 "''ks''" ?sk])
      (simp_all add: GetKeyspaceShards_def SrvKeyspaceGetPartition_def resolve_shard_def partitioned_def shard_ranges_def Let_def)
  then obtain ns where ns: "ResolveDestinations ?r id ''ks'' 1 (Some [7, 8, 9 :: nat]) (map ksid_destination ?ks) =
      Inr (map ?f ns, map (\<lambda>n. map fst (filter (\<lambda>(v, k). owns ?shs n k) (zip [7, 8, 9] ?ks))) ns)"
    "distinct ns" "set ns = {n. \<exists>k\<in>set ?ks. owns ?shs n k}" by (elim exE conjE)
  have "{n. \<exists>k\<in>set ?ks. owns ?shs n k} = {''-80'', ''80-''}" by (auto simp: owns_def)
  then have "set ns = {''-80'', ''80-''}" using ns(3) by (rule trans [rotated])
  then show ?thesis unfolding Let_def using ns(1,2) by (intro exI [of _ ns] exI [of _ "map ?f ns"] conjI)
qed

end
