(* ===== verification/Go_Crypto.thy ===== *)
theory Go_Crypto
  imports Prelude
begin

text \<open>
  The ciphers and hashes of Go's standard library that the vindexes use: \<^verbatim>\<open>crypto/des\<close> (DES and triple DES, FIPS 46-3) on bits as
  lists of booleans, the most significant first, and \<^verbatim>\<open>crypto/md5\<close> (RFC 1321). The tables are those of the standards.

  Decryption inverts encryption, for every key (\<open>des_decrypt_encrypt\<close>, \<open>des3_decrypt_encrypt\<close>).
\<close>

subsection \<open>DES\<close>

definition des_IP :: "nat list" where
  "des_IP =
     [58, 50, 42, 34, 26, 18, 10, 2, 60, 52, 44, 36, 28, 20, 12, 4, 62, 54, 46, 38, 30, 22, 14, 6, 64, 56, 48, 40,
      32, 24, 16, 8, 57, 49, 41, 33, 25, 17, 9, 1, 59, 51, 43, 35, 27, 19, 11, 3, 61, 53, 45, 37, 29, 21, 13, 5, 63,
      55, 47, 39, 31, 23, 15, 7]"

definition des_FP :: "nat list" where
  "des_FP =
     [40, 8, 48, 16, 56, 24, 64, 32, 39, 7, 47, 15, 55, 23, 63, 31, 38, 6, 46, 14, 54, 22, 62, 30, 37, 5, 45, 13,
      53, 21, 61, 29, 36, 4, 44, 12, 52, 20, 60, 28, 35, 3, 43, 11, 51, 19, 59, 27, 34, 2, 42, 10, 50, 18, 58, 26,
      33, 1, 41, 9, 49, 17, 57, 25]"

definition des_E :: "nat list" where
  "des_E =
     [32, 1, 2, 3, 4, 5, 4, 5, 6, 7, 8, 9, 8, 9, 10, 11, 12, 13, 12, 13, 14, 15, 16, 17, 16, 17, 18, 19, 20, 21, 20,
      21, 22, 23, 24, 25, 24, 25, 26, 27, 28, 29, 28, 29, 30, 31, 32, 1]"

definition des_P :: "nat list" where
  "des_P =
     [16, 7, 20, 21, 29, 12, 28, 17, 1, 15, 23, 26, 5, 18, 31, 10, 2, 8, 24, 14, 32, 27, 3, 9, 19, 13, 30, 6, 22,
      11, 4, 25]"

definition des_PC1 :: "nat list" where
  "des_PC1 =
     [57, 49, 41, 33, 25, 17, 9, 1, 58, 50, 42, 34, 26, 18, 10, 2, 59, 51, 43, 35, 27, 19, 11, 3, 60, 52, 44, 36,
      63, 55, 47, 39, 31, 23, 15, 7, 62, 54, 46, 38, 30, 22, 14, 6, 61, 53, 45, 37, 29, 21, 13, 5, 28, 20, 12, 4]"

definition des_PC2 :: "nat list" where
  "des_PC2 =
     [14, 17, 11, 24, 1, 5, 3, 28, 15, 6, 21, 10, 23, 19, 12, 4, 26, 8, 16, 7, 27, 20, 13, 2, 41, 52, 31, 37, 47,
      55, 30, 40, 51, 45, 33, 48, 44, 49, 39, 56, 34, 53, 46, 42, 50, 36, 29, 32]"

definition des_shifts :: "nat list" where
  "des_shifts =
     [1, 1, 2, 2, 2, 2, 2, 2, 1, 2, 2, 2, 2, 2, 2, 1]"

definition des_sboxes :: "nat list list" where
  "des_sboxes =
     [[14, 4, 13, 1, 2, 15, 11, 8, 3, 10, 6, 12, 5, 9, 0, 7, 0, 15, 7, 4, 14, 2, 13, 1, 10, 6, 12, 11, 9, 5, 3, 8, 4,
       1, 14, 8, 13, 6, 2, 11, 15, 12, 9, 7, 3, 10, 5, 0, 15, 12, 8, 2, 4, 9, 1, 7, 5, 11, 3, 14, 10, 0, 6, 13],
      [15, 1, 8, 14, 6, 11, 3, 4, 9, 7, 2, 13, 12, 0, 5, 10, 3, 13, 4, 7, 15, 2, 8, 14, 12, 0, 1, 10, 6, 9, 11, 5, 0,
       14, 7, 11, 10, 4, 13, 1, 5, 8, 12, 6, 9, 3, 2, 15, 13, 8, 10, 1, 3, 15, 4, 2, 11, 6, 7, 12, 0, 5, 14, 9],
      [10, 0, 9, 14, 6, 3, 15, 5, 1, 13, 12, 7, 11, 4, 2, 8, 13, 7, 0, 9, 3, 4, 6, 10, 2, 8, 5, 14, 12, 11, 15, 1,
       13, 6, 4, 9, 8, 15, 3, 0, 11, 1, 2, 12, 5, 10, 14, 7, 1, 10, 13, 0, 6, 9, 8, 7, 4, 15, 14, 3, 11, 5, 2, 12],
      [7, 13, 14, 3, 0, 6, 9, 10, 1, 2, 8, 5, 11, 12, 4, 15, 13, 8, 11, 5, 6, 15, 0, 3, 4, 7, 2, 12, 1, 10, 14, 9,
       10, 6, 9, 0, 12, 11, 7, 13, 15, 1, 3, 14, 5, 2, 8, 4, 3, 15, 0, 6, 10, 1, 13, 8, 9, 4, 5, 11, 12, 7, 2, 14],
      [2, 12, 4, 1, 7, 10, 11, 6, 8, 5, 3, 15, 13, 0, 14, 9, 14, 11, 2, 12, 4, 7, 13, 1, 5, 0, 15, 10, 3, 9, 8, 6, 4,
       2, 1, 11, 10, 13, 7, 8, 15, 9, 12, 5, 6, 3, 0, 14, 11, 8, 12, 7, 1, 14, 2, 13, 6, 15, 0, 9, 10, 4, 5, 3],
      [12, 1, 10, 15, 9, 2, 6, 8, 0, 13, 3, 4, 14, 7, 5, 11, 10, 15, 4, 2, 7, 12, 9, 5, 6, 1, 13, 14, 0, 11, 3, 8, 9,
       14, 15, 5, 2, 8, 12, 3, 7, 0, 4, 10, 1, 13, 11, 6, 4, 3, 2, 12, 9, 5, 15, 10, 11, 14, 1, 7, 6, 0, 8, 13],
      [4, 11, 2, 14, 15, 0, 8, 13, 3, 12, 9, 7, 5, 10, 6, 1, 13, 0, 11, 7, 4, 9, 1, 10, 14, 3, 5, 12, 2, 15, 8, 6, 1,
       4, 11, 13, 12, 3, 7, 14, 10, 15, 6, 8, 0, 5, 9, 2, 6, 11, 13, 8, 1, 4, 10, 7, 9, 5, 0, 15, 14, 2, 3, 12],
      [13, 2, 8, 4, 6, 15, 11, 1, 10, 9, 3, 14, 5, 0, 12, 7, 1, 15, 13, 8, 10, 3, 7, 4, 12, 5, 6, 11, 0, 14, 9, 2, 7,
       11, 4, 1, 9, 12, 14, 2, 0, 6, 10, 13, 15, 3, 5, 8, 2, 1, 14, 7, 4, 10, 8, 13, 15, 12, 9, 0, 3, 5, 6, 11]]"

definition permute :: "nat list \<Rightarrow> bool list \<Rightarrow> bool list" where
  "permute t b = map (\<lambda>i. b ! (i - 1)) t"

definition xor_bits :: "bool list \<Rightarrow> bool list \<Rightarrow> bool list" where
  "xor_bits xs ys = map2 (\<noteq>) xs ys"

fun bits_val :: "bool list \<Rightarrow> nat \<Rightarrow> nat" where
  "bits_val [] n = n"
| "bits_val (b # bs) n = bits_val bs (2 * n + (if b then 1 else 0))"

definition nibble :: "nat \<Rightarrow> bool list" where
  "nibble v = [odd (v div 8), odd (v div 4), odd (v div 2), odd v]"

fun sbox_out :: "nat list list \<Rightarrow> bool list \<Rightarrow> bool list" where
  "sbox_out [] x = []"
| "sbox_out (s # ss) x =
     nibble (s ! bits_val [x ! 0, x ! 5, x ! 1, x ! 2, x ! 3, x ! 4] 0) @ sbox_out ss (drop 6 x)"

definition des_f :: "bool list \<Rightarrow> bool list \<Rightarrow> bool list" where
  "des_f k r = permute des_P (sbox_out des_sboxes (xor_bits (permute des_E r) k))"

definition des_round :: "bool list \<Rightarrow> bool list \<times> bool list \<Rightarrow> bool list \<times> bool list" where
  "des_round k lr = (snd lr, xor_bits (fst lr) (des_f k (snd lr)))"

definition des_rounds :: "bool list list \<Rightarrow> bool list \<times> bool list \<Rightarrow> bool list \<times> bool list" where
  "des_rounds ks lr = fold des_round ks lr"

definition des_crypt :: "bool list list \<Rightarrow> bool list \<Rightarrow> bool list" where
  "des_crypt ks b =
     (let x = permute des_IP b; lr = des_rounds ks (take 32 x, drop 32 x) in permute des_FP (snd lr @ fst lr))"

fun des_schedule :: "nat list \<Rightarrow> bool list \<Rightarrow> bool list \<Rightarrow> bool list list" where
  "des_schedule [] c d = []"
| "des_schedule (n # ns) c d =
     (let c' = rotate n c; d' = rotate n d in permute des_PC2 (c' @ d') # des_schedule ns c' d')"

definition des_subkeys :: "bool list \<Rightarrow> bool list list" where
  "des_subkeys key = (let x = permute des_PC1 key in des_schedule des_shifts (take 28 x) (drop 28 x))"

definition des_encrypt :: "bool list \<Rightarrow> bool list \<Rightarrow> bool list" where
  "des_encrypt key b = des_crypt (des_subkeys key) b"

definition des_decrypt :: "bool list \<Rightarrow> bool list \<Rightarrow> bool list" where
  "des_decrypt key b = des_crypt (rev (des_subkeys key)) b"

text \<open>Triple DES with a key of 192 bits: encrypt, decrypt, encrypt.\<close>

definition des3_encrypt :: "bool list \<Rightarrow> bool list \<Rightarrow> bool list" where
  "des3_encrypt key b =
     des_encrypt (drop 128 key) (des_decrypt (take 64 (drop 64 key)) (des_encrypt (take 64 key) b))"

definition des3_decrypt :: "bool list \<Rightarrow> bool list \<Rightarrow> bool list" where
  "des3_decrypt key b =
     des_decrypt (take 64 key) (des_encrypt (take 64 (drop 64 key)) (des_decrypt (drop 128 key) b))"

definition des_byte_bits :: "byte \<Rightarrow> bool list" where
  "des_byte_bits b = map (bit b) (rev [0..<8])"

definition bits_byte :: "bool list \<Rightarrow> byte" where
  "bits_byte bs = horner_sum of_bool 2 (rev bs)"

fun bits_bytes :: "nat \<Rightarrow> bool list \<Rightarrow> byte list" where
  "bits_bytes 0 bs = []"
| "bits_bytes (Suc n) bs = bits_byte (take 8 bs) # bits_bytes n (drop 8 bs)"

definition bytes_bits :: "byte list \<Rightarrow> bool list" where
  "bytes_bits bs = concat (map des_byte_bits bs)"

definition block3DES_Encrypt :: "byte list \<Rightarrow> byte list \<Rightarrow> byte list" where
  "block3DES_Encrypt key b = bits_bytes 8 (des3_encrypt (bytes_bits key) (bytes_bits b))"

definition block3DES_Decrypt :: "byte list \<Rightarrow> byte list \<Rightarrow> byte list" where
  "block3DES_Decrypt key b = bits_bytes 8 (des3_decrypt (bytes_bits key) (bytes_bits b))"

subsubsection \<open>Decryption inverts encryption\<close>

lemma length_permute [simp]: "length (permute t b) = length t"
  by (simp add: permute_def)

lemma length_sbox_out [simp]: "length (sbox_out ss x) = 4 * length ss"
  by (induction ss x rule: sbox_out.induct) (simp_all add: nibble_def)

lemma length_tables [simp]:
  "length des_IP = 64" "length des_FP = 64" "length des_P = 32" "length des_sboxes = 8"
  by (simp_all add: des_IP_def des_FP_def des_P_def des_sboxes_def)

lemma xor_bits_cancel: "length ys = length xs \<Longrightarrow> xor_bits (xor_bits xs ys) ys = xs"
  by (induction xs ys rule: list_induct2') (auto simp: xor_bits_def)

lemma length_des_f [simp]: "length (des_f k r) = 32"
  by (simp add: des_f_def)

lemma des_round_swap:
  "length (fst lr) = 32 \<Longrightarrow> des_round k (prod.swap (des_round k lr)) = prod.swap lr"
  by (cases lr) (simp add: des_round_def xor_bits_cancel)

lemma des_round_length:
  "length (fst lr) = 32 \<and> length (snd lr) = 32 \<Longrightarrow> length (fst (des_round k lr)) = 32 \<and> length (snd (des_round k lr)) = 32"
  by (simp add: des_round_def xor_bits_def)

lemma des_rounds_length:
  "length (fst lr) = 32 \<and> length (snd lr) = 32 \<Longrightarrow> length (fst (des_rounds ks lr)) = 32 \<and> length (snd (des_rounds ks lr)) = 32"
  unfolding des_rounds_def by (induction ks arbitrary: lr) (simp_all add: des_round_length)

lemma des_rounds_swap:
  "length (fst lr) = 32 \<and> length (snd lr) = 32 \<Longrightarrow>
     des_rounds (rev ks) (prod.swap (des_rounds ks lr)) = prod.swap lr"
proof (induction ks arbitrary: lr)
  case (Cons k ks)
  have "des_rounds (rev ks) (prod.swap (des_rounds ks (des_round k lr))) = prod.swap (des_round k lr)"
    by (rule Cons.IH) (rule des_round_length [OF Cons.prems])
  then show ?case using des_round_swap [of lr k] Cons.prems by (simp add: des_rounds_def)
qed (simp add: des_rounds_def)

lemma permute_inverse:
  assumes "length t = length b" "length s = length b" "list_all (\<lambda>i. t ! (s ! i - 1) = i + 1 \<and> s ! i - 1 < length t) [0..<length b]"
  shows "permute s (permute t b) = b"
  using assms by (intro nth_equalityI) (auto simp: permute_def list_all_iff)

lemma des_tables_inverse:
  "list_all (\<lambda>i. des_IP ! (des_FP ! i - 1) = i + 1 \<and> des_FP ! i - 1 < length des_IP) [0..<64]"
  "list_all (\<lambda>i. des_FP ! (des_IP ! i - 1) = i + 1 \<and> des_IP ! i - 1 < length des_FP) [0..<64]"
  by code_simp+

lemma permute_IP_FP: "length b = 64 \<Longrightarrow> permute des_IP (permute des_FP b) = b" "length b = 64 \<Longrightarrow> permute des_FP (permute des_IP b) = b"
  using permute_inverse [of des_FP b des_IP] permute_inverse [of des_IP b des_FP] des_tables_inverse by simp_all

lemma length_des_crypt [simp]: "length (des_crypt ks b) = 64"
  by (simp add: des_crypt_def Let_def)

lemma des_crypt_rev:
  assumes "length b = 64"
  shows "des_crypt (rev ks) (des_crypt ks b) = b"
proof -
  let ?x = "permute des_IP b"
  let ?lr = "(take 32 ?x, drop 32 ?x)"
  have len: "length (fst ?lr) = 32 \<and> length (snd ?lr) = 32" by simp
  note out = des_rounds_length [OF len, of ks]
  have "permute des_IP (des_crypt ks b) = snd (des_rounds ks ?lr) @ fst (des_rounds ks ?lr)"
    unfolding des_crypt_def Let_def by (rule permute_IP_FP(1)) (use out in simp)
  then have "des_crypt (rev ks) (des_crypt ks b) =
      (let z = des_rounds (rev ks) (prod.swap (des_rounds ks ?lr)) in permute des_FP (snd z @ fst z))"
    using out by (simp add: des_crypt_def [of "rev ks"] Let_def prod.swap_def)
  also have "\<dots> = permute des_FP ?x" using des_rounds_swap [OF len, of ks] by (simp add: Let_def)
  finally show ?thesis using permute_IP_FP(2) [OF assms] by simp
qed

lemma des_decrypt_encrypt: "length b = 64 \<Longrightarrow> des_decrypt key (des_encrypt key b) = b"
  "length b = 64 \<Longrightarrow> des_encrypt key (des_decrypt key b) = b"
  using des_crypt_rev [of b "des_subkeys key"] des_crypt_rev [of b "rev (des_subkeys key)"]
  by (simp_all add: des_decrypt_def des_encrypt_def)

lemma length_des [simp]: "length (des_encrypt key b) = 64" "length (des_decrypt key b) = 64"
  by (simp_all add: des_encrypt_def des_decrypt_def)

lemma des3_decrypt_encrypt: "length b = 64 \<Longrightarrow> des3_decrypt key (des3_encrypt key b) = b"
  "length b = 64 \<Longrightarrow> des3_encrypt key (des3_decrypt key b) = b"
  by (simp_all add: des3_encrypt_def des3_decrypt_def des_decrypt_encrypt)

lemma length_des_byte_bits [simp]: "length (des_byte_bits b) = 8"
  by (simp add: des_byte_bits_def)

lemma bit_bits_byte: "bit (bits_byte bs) n \<longleftrightarrow> n < 8 \<and> n < length bs \<and> rev bs ! n"
  by (auto simp: bits_byte_def bit_horner_sum_bit_word_iff)

lemma bits_byte_bits: "bits_byte (des_byte_bits b) = b"
proof (rule bit_eqI)
  fix n assume "possible_bit TYPE(byte) n"
  then show "bit (bits_byte (des_byte_bits b)) n = bit b n" by (simp add: bit_bits_byte des_byte_bits_def rev_map)
qed

lemma byte_bits_byte: "length bs = 8 \<Longrightarrow> des_byte_bits (bits_byte bs) = bs"
  by (rule nth_equalityI) (auto simp: des_byte_bits_def bit_bits_byte rev_nth)

lemma bits_bytes_bits: "length bs = n \<Longrightarrow> bits_bytes n (bytes_bits bs) = bs"
  by (induction bs arbitrary: n) (auto simp: bytes_bits_def bits_byte_bits)

lemma bytes_bits_bytes: "length bs = 8 * n \<Longrightarrow> bytes_bits (bits_bytes n bs) = bs"
  by (induction n arbitrary: bs) (auto simp: bytes_bits_def byte_bits_byte)

lemma length_bits_bytes [simp]: "length (bits_bytes n bs) = n"
  by (induction n arbitrary: bs) simp_all

lemma length_bytes_bits: "length (bytes_bits bs) = 8 * length bs"
  by (induction bs) (simp_all add: bytes_bits_def)

lemma length_des3 [simp]: "length (des3_encrypt key b) = 64" "length (des3_decrypt key b) = 64"
  by (simp_all add: des3_encrypt_def des3_decrypt_def)

lemma block3DES_inverse:
  assumes "length b = 8"
  shows "block3DES_Decrypt key (block3DES_Encrypt key b) = b" "block3DES_Encrypt key (block3DES_Decrypt key b) = b"
  using assms
  by (simp_all add: block3DES_Encrypt_def block3DES_Decrypt_def bytes_bits_bytes length_bytes_bits des3_decrypt_encrypt bits_bytes_bits)

lemma length_block3DES [simp]: "length (block3DES_Encrypt key b) = 8" "length (block3DES_Decrypt key b) = 8"
  by (simp_all add: block3DES_Encrypt_def block3DES_Decrypt_def)

text \<open>With the key of zeros the three passes are one, and a first block is that of the standard's test vectors.\<close>

lemma des_test: "bits_bytes 8 (des_encrypt (replicate 64 False) (bytes_bits [0, 0, 0, 0, 0, 0, 0, 1])) =
    [0x16, 0x6b, 0x40, 0xb4, 0x4a, 0xba, 0x4b, 0xd6]"
  by code_simp

subsection \<open>MD5\<close>

definition md5_K :: "uint32 list" where
  "md5_K =
     [0xd76aa478, 0xe8c7b756, 0x242070db, 0xc1bdceee, 0xf57c0faf, 0x4787c62a, 0xa8304613, 0xfd469501, 0x698098d8,
      0x8b44f7af, 0xffff5bb1, 0x895cd7be, 0x6b901122, 0xfd987193, 0xa679438e, 0x49b40821, 0xf61e2562, 0xc040b340,
      0x265e5a51, 0xe9b6c7aa, 0xd62f105d, 0x02441453, 0xd8a1e681, 0xe7d3fbc8, 0x21e1cde6, 0xc33707d6, 0xf4d50d87,
      0x455a14ed, 0xa9e3e905, 0xfcefa3f8, 0x676f02d9, 0x8d2a4c8a, 0xfffa3942, 0x8771f681, 0x6d9d6122, 0xfde5380c,
      0xa4beea44, 0x4bdecfa9, 0xf6bb4b60, 0xbebfbc70, 0x289b7ec6, 0xeaa127fa, 0xd4ef3085, 0x04881d05, 0xd9d4d039,
      0xe6db99e5, 0x1fa27cf8, 0xc4ac5665, 0xf4292244, 0x432aff97, 0xab9423a7, 0xfc93a039, 0x655b59c3, 0x8f0ccc92,
      0xffeff47d, 0x85845dd1, 0x6fa87e4f, 0xfe2ce6e0, 0xa3014314, 0x4e0811a1, 0xf7537e82, 0xbd3af235, 0x2ad7d2bb,
      0xeb86d391]"

definition md5_s :: "nat list" where
  "md5_s =
     [7, 12, 17, 22, 7, 12, 17, 22, 7, 12, 17, 22, 7, 12, 17, 22, 5, 9, 14, 20, 5, 9, 14, 20, 5, 9, 14, 20, 5, 9,
      14, 20, 4, 11, 16, 23, 4, 11, 16, 23, 4, 11, 16, 23, 4, 11, 16, 23, 6, 10, 15, 21, 6, 10, 15, 21, 6, 10, 15,
      21, 6, 10, 15, 21]"

definition md5_round :: "uint32 list \<Rightarrow> nat \<Rightarrow> uint32 \<times> uint32 \<times> uint32 \<times> uint32 \<Rightarrow> uint32 \<times> uint32 \<times> uint32 \<times> uint32" where
  "md5_round m i s =
     (case s of (a, b, c, d) \<Rightarrow>
        let (f, g) =
          (if i < 16 then ((b AND c) OR (NOT b AND d), i)
           else if i < 32 then ((d AND b) OR (NOT d AND c), (5 * i + 1) mod 16)
           else if i < 48 then (b XOR c XOR d, (3 * i + 5) mod 16)
           else (c XOR (b OR NOT d), (7 * i) mod 16));
          f' = f + a + md5_K ! i + m ! g
        in (d, b + word_rotl (md5_s ! i) f', b, c))"

fun words32 :: "nat \<Rightarrow> byte list \<Rightarrow> uint32 list" where
  "words32 0 bs = []"
| "words32 (Suc n) bs = le_word (take 4 bs) # words32 n (drop 4 bs)"

definition md5_block :: "byte list \<Rightarrow> uint32 \<times> uint32 \<times> uint32 \<times> uint32 \<Rightarrow> uint32 \<times> uint32 \<times> uint32 \<times> uint32" where
  "md5_block block s =
     (case (s, fold (md5_round (words32 16 block)) [0..<64] s) of
        ((a, b, c, d), (a', b', c', d')) \<Rightarrow> (a + a', b + b', c + c', d + d'))"

definition md5_pad :: "byte list \<Rightarrow> byte list" where
  "md5_pad msg =
     msg @ 0x80 # replicate ((119 - length msg mod 64) mod 64) 0 @ le_bytes 8 (of_nat (8 * length msg) :: uint64)"

fun md5_blocks :: "nat \<Rightarrow> byte list \<Rightarrow> uint32 \<times> uint32 \<times> uint32 \<times> uint32 \<Rightarrow> uint32 \<times> uint32 \<times> uint32 \<times> uint32" where
  "md5_blocks 0 bs s = s"
| "md5_blocks (Suc n) bs s = md5_blocks n (drop 64 bs) (md5_block (take 64 bs) s)"

definition md5_Sum :: "byte list \<Rightarrow> byte list" where
  "md5_Sum msg =
     (let p = md5_pad msg in
      case md5_blocks (length p div 64) p (0x67452301, 0xefcdab89, 0x98badcfe, 0x10325476) of
        (a, b, c, d) \<Rightarrow> le_bytes 4 a @ le_bytes 4 b @ le_bytes 4 c @ le_bytes 4 d)"

lemma length_md5_Sum [simp]: "length (md5_Sum msg) = 16"
  by (simp add: md5_Sum_def Let_def split: prod.splits)

lemma md5_test: "md5_Sum [] =
    [0xd4, 0x1d, 0x8c, 0xd9, 0x8f, 0x00, 0xb2, 0x04, 0xe9, 0x80, 0x09, 0x98, 0xec, 0xf8, 0x42, 0x7e]"
  by code_simp

end
