(* ===== verification/Vindexes.thy ===== *)
theory Vindexes
  imports Resolver Sql_Arithmetic Sql_Comments Go_Crypto
begin

text \<open>
  The functional vindexes of vtgate, which compute a keyspace id from a column value: \<^verbatim>\<open>src/vt/vtgate/vindexes\<close>, the files
  \<^verbatim>\<open>binary.go\<close>, \<^verbatim>\<open>binarymd5.go\<close>, \<^verbatim>\<open>hash.go\<close>, \<^verbatim>\<open>null.go\<close>, \<^verbatim>\<open>numeric.go\<close>, \<^verbatim>\<open>numeric_static_map.go\<close>,
  \<^verbatim>\<open>reverse_bits.go\<close>, \<^verbatim>\<open>unicodeloosemd5.go\<close>, and their creation by name in \<^verbatim>\<open>vindex.go\<close>. Two parameters stand for code
  outside the repository: \<open>coll\<close> is the collation key of \<^verbatim>\<open>golang.org/x/text/collate\<close> for a text, and \<open>load\<close> is the table of
  strings and numbers that a JSON file holds. The lookup vindexes, which ask a table, are not modelled.

  The locale \<open>vindex\<close> is what the engine relies on: \<^verbatim>\<open>Map\<close> gives a keyspace id or none for each value by itself, and \<^verbatim>\<open>Verify\<close>
  agrees with it; \<open>reversible_vindex\<close> adds that the numbers of 64 bits and the keyspace ids of 8 bytes correspond one to one.
\<close>

subsection \<open>Bytes and numbers\<close>

definition to_bytes :: "string \<Rightarrow> byte list" where
  "to_bytes s = map of_char s"

definition of_bytes :: "byte list \<Rightarrow> string" where
  "of_bytes bs = map (\<lambda>b. char_of (unat b)) bs"

definition be_uint64 :: "byte list \<Rightarrow> uint64" where
  "be_uint64 bs = of_nat (be_val bs)"

lemma be_uint64_be_bytes [simp]: "be_uint64 (be_bytes 8 w) = w"
proof -
  have "unat w < 2 ^ 64" using unsigned_less [of w] by simp
  then show ?thesis by (simp add: be_uint64_def be_val_be_bytes)
qed

lemma be_bytes_be_uint64: "length bs = 8 \<Longrightarrow> be_bytes 8 (be_uint64 bs) = bs"
proof -
  assume l: "length bs = 8"
  then have v: "be_val bs < 2 ^ 64" using be_val_less [of bs] by simp
  then have "be_val (be_bytes 8 (be_uint64 bs)) = be_val bs"
    by (simp add: be_val_be_bytes be_uint64_def unsigned_of_nat take_bit_nat_eq_self)
  then show ?thesis
    using be_val_less_iff [of "be_bytes 8 (be_uint64 bs)" bs] be_val_less_iff [of bs "be_bytes 8 (be_uint64 bs)"] l
    by (metis length_be_bytes less_irrefl linorder_less_linear)
qed

datatype vindex_error =
    NumberErr value_error
  | BadKeyspaceId "byte list"
  | BadKeyspaceIdLength nat
  | NilKeyspaceId
  | InvalidUtf8 string
  | NoJsonPath
  | LoadErr string
  | BadTableKey string
  | VindexTypeNotFound string

text \<open>A number of a value for \<^verbatim>\<open>Map\<close>, where every error counts as none.\<close>

definition uint_number :: "Value \<Rightarrow> uint64 option go" where
  "uint_number v = go_bind (ToUint64 v) (\<lambda>r. Ret (case r of Inl err \<Rightarrow> None | Inr num \<Rightarrow> Some num))"

text \<open>
  The loops of \<^verbatim>\<open>Map\<close> and \<^verbatim>\<open>Verify\<close> over the ids. The second reads \<^verbatim>\<open>ksids[i]\<close>, which panics where there is none.
\<close>

definition map_each :: "(Value \<Rightarrow> Destination go) \<Rightarrow> Value list \<Rightarrow> (vindex_error + Destination list) go" where
  "map_each f ids = go_bind (go_list (map f ids)) (\<lambda>ds. Ret (Inr ds))"

fun verify_each ::
  "(Value \<Rightarrow> (vindex_error + byte list) go) \<Rightarrow> Value list \<Rightarrow> byte list list \<Rightarrow> (vindex_error + bool list) go" where
  "verify_each f [] ksids = Ret (Inr [])"
| "verify_each f (v # ids) ksids =
     go_try (f v) (\<lambda>k.
       case ksids of
         [] \<Rightarrow> Panic
       | ksid # rest \<Rightarrow> go_try (verify_each f ids rest) (\<lambda>out. Ret (Inr ((k = ksid) # out))))"

definition number_err :: "(value_error + 'a) go \<Rightarrow> (vindex_error + 'a) go" where
  "number_err m = go_bind m (\<lambda>r. Ret (map_sum NumberErr id r))"

subsection \<open>The vindexes\<close>

definition Binary_Map :: "Value list \<Rightarrow> (vindex_error + Destination list) go" where
  "Binary_Map ids = map_each (\<lambda>v. Ret (DestinationKeyspaceID (to_bytes (Value_ToBytes v)))) ids"

definition Binary_Verify :: "Value list \<Rightarrow> byte list list \<Rightarrow> (vindex_error + bool list) go" where
  "Binary_Verify ids ksids = verify_each (\<lambda>v. Ret (Inr (to_bytes (Value_ToBytes v)))) ids ksids"

text \<open>A keyspace id that is nil is \<open>None\<close>.\<close>

fun Binary_ReverseMap :: "byte list option list \<Rightarrow> vindex_error + Value list" where
  "Binary_ReverseMap [] = Inr []"
| "Binary_ReverseMap (None # ks) = Inl NilKeyspaceId"
| "Binary_ReverseMap (Some k # ks) =
     (case Binary_ReverseMap ks of Inl err \<Rightarrow> Inl err | Inr vs \<Rightarrow> Inr (MakeTrusted T_VarBinary (of_bytes k) # vs))"

definition binHash :: "byte list \<Rightarrow> byte list" where
  "binHash source = md5_Sum source"

definition BinaryMD5_Map :: "Value list \<Rightarrow> (vindex_error + Destination list) go" where
  "BinaryMD5_Map ids = map_each (\<lambda>v. Ret (DestinationKeyspaceID (binHash (to_bytes (Value_ToBytes v))))) ids"

definition BinaryMD5_Verify :: "Value list \<Rightarrow> byte list list \<Rightarrow> (vindex_error + bool list) go" where
  "BinaryMD5_Verify ids ksids = verify_each (\<lambda>v. Ret (Inr (binHash (to_bytes (Value_ToBytes v))))) ids ksids"

definition vhash :: "uint64 \<Rightarrow> byte list" where
  "vhash shardKey = block3DES_Encrypt (replicate 24 0) (be_bytes 8 shardKey)"

definition vunhash :: "byte list \<Rightarrow> vindex_error + uint64" where
  "vunhash k =
     (if length k \<noteq> 8 then Inl (BadKeyspaceId k) else Inr (be_uint64 (block3DES_Decrypt (replicate 24 0) k)))"

definition hash_number :: "Value \<Rightarrow> uint64 option go" where
  "hash_number v =
     (if IsSigned (vtyp v) then Ret (map_option word_of_int (parse_int 64 (Value_ToString v))) else uint_number v)"

definition Hash_Map :: "Value list \<Rightarrow> (vindex_error + Destination list) go" where
  "Hash_Map ids = map_each (\<lambda>v. go_bind (hash_number v) (\<lambda>num. Ret (ksid_destination (map_option vhash num)))) ids"

definition Hash_Verify :: "Value list \<Rightarrow> byte list list \<Rightarrow> (vindex_error + bool list) go" where
  "Hash_Verify ids ksids = verify_each (\<lambda>v. go_try (number_err (ToUint64 v)) (\<lambda>num. Ret (Inr (vhash num)))) ids ksids"

text \<open>\<^verbatim>\<open>ReverseMap\<close> of the two vindexes that transform each keyspace id; it also returns the ids before an error.\<close>

fun reverse_each :: "(byte list \<Rightarrow> vindex_error + uint64) \<Rightarrow> byte list list \<Rightarrow> vindex_error option \<times> Value list" where
  "reverse_each f [] = (None, [])"
| "reverse_each f (k # ks) =
     (case f k of
        Inl err \<Rightarrow> (Some err, [])
      | Inr num \<Rightarrow> (case reverse_each f ks of (err, vs) \<Rightarrow> (err, NewUint64 num # vs)))"

definition Hash_ReverseMap :: "byte list list \<Rightarrow> vindex_error option \<times> Value list" where
  "Hash_ReverseMap ksids = reverse_each vunhash ksids"

definition nullksid :: "byte list" where
  "nullksid = [0]"

definition Null_Map :: "Value list \<Rightarrow> (vindex_error + Destination list) go" where
  "Null_Map ids = map_each (\<lambda>_. Ret (DestinationKeyspaceID nullksid)) ids"

definition Null_Verify :: "Value list \<Rightarrow> byte list list \<Rightarrow> (vindex_error + bool list) go" where
  "Null_Verify ids ksids = verify_each (\<lambda>_. Ret (Inr nullksid)) ids ksids"

definition Numeric_Map :: "Value list \<Rightarrow> (vindex_error + Destination list) go" where
  "Numeric_Map ids = map_each (\<lambda>v. go_bind (uint_number v) (\<lambda>num. Ret (ksid_destination (map_option (be_bytes 8) num)))) ids"

definition Numeric_Verify :: "Value list \<Rightarrow> byte list list \<Rightarrow> (vindex_error + bool list) go" where
  "Numeric_Verify ids ksids =
     verify_each (\<lambda>v. go_try (number_err (ToUint64 v)) (\<lambda>num. Ret (Inr (be_bytes 8 num)))) ids ksids"

fun Numeric_ReverseMap :: "byte list list \<Rightarrow> vindex_error + Value list" where
  "Numeric_ReverseMap [] = Inr []"
| "Numeric_ReverseMap (k # ks) =
     (if length k \<noteq> 8 then Inl (BadKeyspaceIdLength (length k))
      else (case Numeric_ReverseMap ks of Inl err \<Rightarrow> Inl err | Inr vs \<Rightarrow> Inr (NewUint64 (be_uint64 k) # vs)))"

text \<open>The table of a static map is a Go map, as an association list.\<close>

definition static_number :: "(uint64 \<times> uint64) list \<Rightarrow> uint64 \<Rightarrow> uint64" where
  "static_number lookup num = (case map_of lookup num of Some n \<Rightarrow> n | None \<Rightarrow> num)"

definition NumericStaticMap_Map :: "(uint64 \<times> uint64) list \<Rightarrow> Value list \<Rightarrow> (vindex_error + Destination list) go" where
  "NumericStaticMap_Map lookup ids =
     map_each (\<lambda>v. go_bind (uint_number v) (\<lambda>num.
       Ret (ksid_destination (map_option (\<lambda>n. be_bytes 8 (static_number lookup n)) num)))) ids"

definition NumericStaticMap_Verify ::
  "(uint64 \<times> uint64) list \<Rightarrow> Value list \<Rightarrow> byte list list \<Rightarrow> (vindex_error + bool list) go" where
  "NumericStaticMap_Verify lookup ids ksids =
     verify_each (\<lambda>v. go_try (number_err (ToUint64 v)) (\<lambda>num. Ret (Inr (be_bytes 8 (static_number lookup num))))) ids ksids"

text \<open>The conversion of the keys of the table that the file holds; \<open>load\<close> reads the file.\<close>

fun lookup_table :: "(string \<times> uint64) list \<Rightarrow> (uint64 \<times> uint64) list \<Rightarrow> vindex_error + (uint64 \<times> uint64) list" where
  "lookup_table [] lt = Inr lt"
| "lookup_table ((k, v) # m) lt =
     (case parse_uint 64 k of
        None \<Rightarrow> Inl (BadTableKey k)
      | Some newK \<Rightarrow> lookup_table m (AList.update (of_nat newK) v lt))"

definition loadNumericLookupTable ::
  "(string \<Rightarrow> string + (string \<times> uint64) list) \<Rightarrow> string \<Rightarrow> vindex_error + (uint64 \<times> uint64) list" where
  "loadNumericLookupTable load path =
     (case load path of Inl err \<Rightarrow> Inl (LoadErr err) | Inr m \<Rightarrow> lookup_table m [])"

definition reverse :: "uint64 \<Rightarrow> byte list" where
  "reverse shardKey = be_bytes 8 (word_reverse shardKey)"

definition unreverse :: "byte list \<Rightarrow> vindex_error + uint64" where
  "unreverse k = (if length k \<noteq> 8 then Inl (BadKeyspaceId k) else Inr (word_reverse (be_uint64 k)))"

definition ReverseBits_Map :: "Value list \<Rightarrow> (vindex_error + Destination list) go" where
  "ReverseBits_Map ids = map_each (\<lambda>v. go_bind (uint_number v) (\<lambda>num. Ret (ksid_destination (map_option reverse num)))) ids"

definition ReverseBits_Verify :: "Value list \<Rightarrow> byte list list \<Rightarrow> (vindex_error + bool list) go" where
  "ReverseBits_Verify ids ksids =
     verify_each (\<lambda>v. go_try (number_err (ToUint64 v)) (\<lambda>num. Ret (Inr (reverse num)))) ids ksids"

definition ReverseBits_ReverseMap :: "byte list list \<Rightarrow> vindex_error option \<times> Value list" where
  "ReverseBits_ReverseMap ksids = reverse_each unreverse ksids"

subsubsection \<open>Text without regard to case and accents\<close>

lemma find_width: "find P [2, 3, 4 :: nat] = Some w \<Longrightarrow> 0 < w"
  by (auto split: if_splits)

text \<open>\<^verbatim>\<open>utf8.Valid\<close>.\<close>

function utf8_text :: "string \<Rightarrow> bool" where
  "utf8_text s =
     (case s of
        [] \<Rightarrow> True
      | c # cs \<Rightarrow>
          if of_char c < (128 :: nat) then utf8_text cs
          else (case find (\<lambda>w. w \<le> length s \<and> utf8_valid (take w s)) [2, 3, 4] of
                  None \<Rightarrow> False
                | Some w \<Rightarrow> utf8_text (drop w s)))"
  by pat_completeness auto
termination
  by (relation "measure length") (auto dest: find_width simp del: find.simps)

declare utf8_text.simps [simp del]

definition normalize :: "(string \<Rightarrow> byte list) \<Rightarrow> string \<Rightarrow> vindex_error + byte list" where
  "normalize coll s =
     (if \<not> utf8_text s then Inl (InvalidUtf8 s) else Inr (coll (rev (dropWhile (\<lambda>c. c = CHR '' '') (rev s)))))"

definition unicodeHash :: "(string \<Rightarrow> byte list) \<Rightarrow> Value \<Rightarrow> vindex_error + byte list" where
  "unicodeHash coll v = map_sum id binHash (normalize coll (Value_ToBytes v))"

fun UnicodeLooseMD5_Map :: "(string \<Rightarrow> byte list) \<Rightarrow> Value list \<Rightarrow> (vindex_error + Destination list) go" where
  "UnicodeLooseMD5_Map coll [] = Ret (Inr [])"
| "UnicodeLooseMD5_Map coll (v # vs) =
     go_try (Ret (unicodeHash coll v)) (\<lambda>data.
     go_try (UnicodeLooseMD5_Map coll vs) (\<lambda>out. Ret (Inr (DestinationKeyspaceID data # out))))"

definition UnicodeLooseMD5_Verify ::
  "(string \<Rightarrow> byte list) \<Rightarrow> Value list \<Rightarrow> byte list list \<Rightarrow> (vindex_error + bool list) go" where
  "UnicodeLooseMD5_Verify coll ids ksids = verify_each (\<lambda>v. Ret (unicodeHash coll v)) ids ksids"

subsubsection \<open>Vindexes by name\<close>

text \<open>The implementations of the interface \<^verbatim>\<open>Vindex\<close>, each with its name.\<close>

datatype Vindex =
    Binary string
  | BinaryMD5 string
  | Hash string
  | Null string
  | Numeric string
  | NumericStaticMap string "(uint64 \<times> uint64) list"
  | ReverseBits string
  | UnicodeLooseMD5 string

fun Vindex_String :: "Vindex \<Rightarrow> string" where
  "Vindex_String (Binary name) = name"
| "Vindex_String (BinaryMD5 name) = name"
| "Vindex_String (Hash name) = name"
| "Vindex_String (Null name) = name"
| "Vindex_String (Numeric name) = name"
| "Vindex_String (NumericStaticMap name _) = name"
| "Vindex_String (ReverseBits name) = name"
| "Vindex_String (UnicodeLooseMD5 name) = name"

fun Vindex_Cost :: "Vindex \<Rightarrow> nat" where
  "Vindex_Cost (Null _) = 0"
| "Vindex_Cost (Numeric _) = 0"
| "Vindex_Cost _ = 1"

fun Vindex_Map :: "(string \<Rightarrow> byte list) \<Rightarrow> Vindex \<Rightarrow> Value list \<Rightarrow> (vindex_error + Destination list) go" where
  "Vindex_Map coll (Binary _) = Binary_Map"
| "Vindex_Map coll (BinaryMD5 _) = BinaryMD5_Map"
| "Vindex_Map coll (Hash _) = Hash_Map"
| "Vindex_Map coll (Null _) = Null_Map"
| "Vindex_Map coll (Numeric _) = Numeric_Map"
| "Vindex_Map coll (NumericStaticMap _ lookup) = NumericStaticMap_Map lookup"
| "Vindex_Map coll (ReverseBits _) = ReverseBits_Map"
| "Vindex_Map coll (UnicodeLooseMD5 _) = UnicodeLooseMD5_Map coll"

fun Vindex_Verify ::
  "(string \<Rightarrow> byte list) \<Rightarrow> Vindex \<Rightarrow> Value list \<Rightarrow> byte list list \<Rightarrow> (vindex_error + bool list) go" where
  "Vindex_Verify coll (Binary _) = Binary_Verify"
| "Vindex_Verify coll (BinaryMD5 _) = BinaryMD5_Verify"
| "Vindex_Verify coll (Hash _) = Hash_Verify"
| "Vindex_Verify coll (Null _) = Null_Verify"
| "Vindex_Verify coll (Numeric _) = Numeric_Verify"
| "Vindex_Verify coll (NumericStaticMap _ lookup) = NumericStaticMap_Verify lookup"
| "Vindex_Verify coll (ReverseBits _) = ReverseBits_Verify"
| "Vindex_Verify coll (UnicodeLooseMD5 _) = UnicodeLooseMD5_Verify coll"

definition NewNumericStaticMap ::
  "(string \<Rightarrow> string + (string \<times> uint64) list) \<Rightarrow> string \<Rightarrow> (string \<times> string) list \<Rightarrow> vindex_error + Vindex" where
  "NewNumericStaticMap load name params =
     (case map_of params ''json_path'' of
        None \<Rightarrow> Inl NoJsonPath
      | Some jsonPath \<Rightarrow>
          (case loadNumericLookupTable load jsonPath of Inl err \<Rightarrow> Inl err | Inr lt \<Rightarrow> Inr (NumericStaticMap name lt)))"

text \<open>The registry after the \<^verbatim>\<open>init\<close> functions have run; the lookup vindexes that they also register are left out.\<close>

definition registry ::
  "(string \<Rightarrow> string + (string \<times> uint64) list) \<Rightarrow> (string \<times> (string \<Rightarrow> (string \<times> string) list \<Rightarrow> vindex_error + Vindex)) list" where
  "registry load =
     [(''binary'', \<lambda>name _. Inr (Binary name)), (''binary_md5'', \<lambda>name _. Inr (BinaryMD5 name)),
      (''hash'', \<lambda>name _. Inr (Hash name)), (''null'', \<lambda>name _. Inr (Null name)),
      (''numeric'', \<lambda>name _. Inr (Numeric name)), (''numeric_static_map'', NewNumericStaticMap load),
      (''reverse_bits'', \<lambda>name _. Inr (ReverseBits name)), (''unicode_loose_md5'', \<lambda>name _. Inr (UnicodeLooseMD5 name))]"

definition CreateVindex ::
  "(string \<Rightarrow> string + (string \<times> uint64) list) \<Rightarrow> string \<Rightarrow> string \<Rightarrow> (string \<times> string) list \<Rightarrow> vindex_error + Vindex" where
  "CreateVindex load vindexType name params =
     (case map_of (registry load) vindexType of
        None \<Rightarrow> Inl (VindexTypeNotFound vindexType)
      | Some f \<Rightarrow> f name params)"

subsection \<open>The contract of a vindex\<close>

definition number_of :: "Value \<Rightarrow> uint64 option" where
  "number_of v = (case ToUint64 v of Ret (Inr n) \<Rightarrow> Some n | _ \<Rightarrow> None)"

definition signed_number :: "Value \<Rightarrow> uint64 option" where
  "signed_number v = (case hash_number v of Ret n \<Rightarrow> n | Panic \<Rightarrow> None)"

lemma uint_number_eq: "uint_number v = Ret (number_of v)"
  using ToUint64_returns [of v] by (auto simp: uint_number_def number_of_def split: sum.splits)

lemma hash_number_eq: "hash_number v = Ret (signed_number v)"
  by (simp add: hash_number_def signed_number_def uint_number_eq)

lemma ToUint64_number:
  "go_try (number_err (ToUint64 v)) f =
     (case number_of v of Some n \<Rightarrow> f n | None \<Rightarrow> go_try (number_err (ToUint64 v)) (\<lambda>_. Panic))"
  using ToUint64_returns [of v] by (auto simp: number_of_def number_err_def split: sum.splits option.splits)

text \<open>Where \<^verbatim>\<open>Verify\<close> finds a number, \<^verbatim>\<open>Map\<close> finds the same.\<close>

lemma signed_number_of: "number_of v = Some n \<Longrightarrow> signed_number v = Some n"
  by (auto simp: number_of_def signed_number_def hash_number_def uint_number_def ToUint64_def newIntegralNumeric_def Let_def
      split: if_splits option.splits sum.splits go.splits)

locale vindex =
  fixes vmap :: "Value list \<Rightarrow> (vindex_error + Destination list) go"
    and verify :: "Value list \<Rightarrow> byte list list \<Rightarrow> (vindex_error + bool list) go"
    and ksid :: "Value \<Rightarrow> byte list option"
  assumes vmap_each: "vmap ids = Ret (Inr (map (\<lambda>v. ksid_destination (ksid v)) ids))"
    and verify_agrees: "verify ids ksids = Ret (Inr bs) \<Longrightarrow> bs = map2 (\<lambda>v k. ksid v = Some k) ids ksids \<and> length ids \<le> length ksids"
begin

lemma verify_map:
  assumes "verify ids ksids = Ret (Inr bs)"
  shows "\<exists>ds. vmap ids = Ret (Inr ds) \<and> bs = map2 (\<lambda>d k. d = DestinationKeyspaceID k) ds ksids"
proof -
  have "map2 (\<lambda>v k. ksid v = Some k) ids ksids =
      map2 (\<lambda>d k. d = DestinationKeyspaceID k) (map (\<lambda>v. ksid_destination (ksid v)) ids) ksids"
    by (induction ids ksids rule: list_induct2') (auto simp: ksid_destination_def split: option.splits)
  then show ?thesis using verify_agrees [OF assms] vmap_each by auto
qed

end

lemma map_each_ksid: "map_each (\<lambda>v. Ret (g v)) ids = Ret (Inr (map g ids))"
  by (simp add: map_each_def)

lemma verify_each_agrees:
  assumes "\<And>v k. f v = Ret (Inr k) \<Longrightarrow> ksid v = Some k"
  shows "verify_each f ids ksids = Ret (Inr bs) \<Longrightarrow> bs = map2 (\<lambda>v k. ksid v = Some k) ids ksids \<and> length ids \<le> length ksids"
proof (induction ids arbitrary: ksids bs)
  case (Cons v ids)
  obtain k where k: "f v = Ret (Inr k)"
    using Cons.prems by (cases "f v" rule: go.exhaust) (auto split: sum.splits simp: go_try_def)
  obtain ksid' rest where ks: "ksids = ksid' # rest" using Cons.prems k by (cases ksids) auto
  obtain out where out: "verify_each f ids rest = Ret (Inr out)" "bs = (k = ksid') # out"
    using Cons.prems k ks by (cases "verify_each f ids rest" rule: go.exhaust) (auto split: sum.splits simp: go_try_def)
  then show ?case using Cons.IH [OF out(1)] assms [OF k] ks by auto
qed simp

lemma number_verified:
  "go_try (number_err (ToUint64 v)) (\<lambda>num. Ret (Inr (g num))) = Ret (Inr k) \<Longrightarrow> map_option g (number_of v) = Some k"
  using ToUint64_returns [of v] by (auto simp: number_of_def number_err_def split: sum.splits)

lemmas vindex_defs =
  Binary_Map_def Binary_Verify_def BinaryMD5_Map_def BinaryMD5_Verify_def Hash_Map_def Hash_Verify_def Null_Map_def Null_Verify_def
  Numeric_Map_def Numeric_Verify_def NumericStaticMap_Map_def NumericStaticMap_Verify_def ReverseBits_Map_def ReverseBits_Verify_def

interpretation binary: vindex Binary_Map Binary_Verify "\<lambda>v. Some (to_bytes (Value_ToBytes v))"
proof
  show "bs = map2 (\<lambda>v k. Some (to_bytes (Value_ToBytes v)) = Some k) ids ksids \<and> length ids \<le> length ksids"
    if "Binary_Verify ids ksids = Ret (Inr bs)" for ids ksids bs
    by (rule verify_each_agrees [OF _ that [unfolded vindex_defs]]) simp
qed (simp add: vindex_defs map_each_ksid ksid_destination_def)

interpretation binary_md5: vindex BinaryMD5_Map BinaryMD5_Verify "\<lambda>v. Some (binHash (to_bytes (Value_ToBytes v)))"
proof
  show "bs = map2 (\<lambda>v k. Some (binHash (to_bytes (Value_ToBytes v))) = Some k) ids ksids \<and> length ids \<le> length ksids"
    if "BinaryMD5_Verify ids ksids = Ret (Inr bs)" for ids ksids bs
    by (rule verify_each_agrees [OF _ that [unfolded vindex_defs]]) simp
qed (simp add: vindex_defs map_each_ksid ksid_destination_def)

interpretation null_vindex: vindex Null_Map Null_Verify "\<lambda>_. Some nullksid"
proof
  show "bs = map2 (\<lambda>v k. Some nullksid = Some k) ids ksids \<and> length ids \<le> length ksids"
    if "Null_Verify ids ksids = Ret (Inr bs)" for ids ksids bs
    by (rule verify_each_agrees [OF _ that [unfolded vindex_defs]]) simp
qed (simp add: vindex_defs map_each_ksid ksid_destination_def)

interpretation static: vindex "NumericStaticMap_Map lookup" "NumericStaticMap_Verify lookup"
    "\<lambda>v. map_option (\<lambda>n. be_bytes 8 (static_number lookup n)) (number_of v)"
  for lookup
proof
  show "bs = map2 (\<lambda>v k. map_option (\<lambda>n. be_bytes 8 (static_number lookup n)) (number_of v) = Some k) ids ksids \<and>
      length ids \<le> length ksids"
    if "NumericStaticMap_Verify lookup ids ksids = Ret (Inr bs)" for ids ksids bs
    by (rule verify_each_agrees [OF _ that [unfolded vindex_defs]]) (rule number_verified)
qed (simp add: vindex_defs map_each_ksid uint_number_eq)

subsubsection \<open>Reversible vindexes\<close>

locale reversible_vindex = vindex vmap verify ksid
  for vmap :: "Value list \<Rightarrow> (vindex_error + Destination list) go"
    and verify :: "Value list \<Rightarrow> byte list list \<Rightarrow> (vindex_error + bool list) go"
    and ksid :: "Value \<Rightarrow> byte list option" +
  fixes enc :: "uint64 \<Rightarrow> byte list" and dec :: "byte list \<Rightarrow> uint64"
    and reverse_map :: "byte list list \<Rightarrow> vindex_error + Value list"
  assumes ksid_uint: "ksid (NewUint64 n) = Some (enc n)"
    and length_enc: "length (enc n) = 8"
    and dec_enc: "dec (enc n) = n"
    and enc_dec: "length k = 8 \<Longrightarrow> enc (dec k) = k"
    and reverse_each_8: "list_all (\<lambda>k. length k = 8) ks \<Longrightarrow> reverse_map ks = Inr (map (\<lambda>k. NewUint64 (dec k)) ks)"
begin

lemma reverse_of_map:
  "\<exists>ks. vmap (map NewUint64 ns) = Ret (Inr (map DestinationKeyspaceID ks)) \<and> list_all (\<lambda>k. length k = 8) ks \<and>
     reverse_map ks = Inr (map NewUint64 ns)"
proof (intro exI [of _ "map enc ns"] conjI)
  show "vmap (map NewUint64 ns) = Ret (Inr (map DestinationKeyspaceID (map enc ns)))"
    by (simp add: vmap_each ksid_uint ksid_destination_def)
  show len: "list_all (\<lambda>k. length k = 8) (map enc ns)" by (simp add: list_all_iff length_enc)
  show "reverse_map (map enc ns) = Inr (map NewUint64 ns)" using reverse_each_8 [OF len] by (simp add: dec_enc)
qed

lemma map_of_reverse:
  assumes "list_all (\<lambda>k. length k = 8) ks"
  shows "\<exists>ns. reverse_map ks = Inr (map NewUint64 ns) \<and> vmap (map NewUint64 ns) = Ret (Inr (map DestinationKeyspaceID ks))"
proof (intro exI [of _ "map dec ks"] conjI)
  show "reverse_map ks = Inr (map NewUint64 (map dec ks))" using reverse_each_8 [OF assms] by simp
  have "enc (dec k) = k" if "k \<in> set ks" for k using assms that enc_dec by (simp add: list_all_iff)
  then show "vmap (map NewUint64 (map dec ks)) = Ret (Inr (map DestinationKeyspaceID ks))"
    by (simp add: vmap_each ksid_uint ksid_destination_def)
qed

end

lemma number_of_NewUint64: "number_of (NewUint64 n) = Some n"
proof -
  have "unat n < 2 ^ 64" using unsigned_less [of n] by simp
  then show ?thesis
    by (simp add: number_of_def ToUint64_def newIntegralNumeric_def NewUint64_def MakeTrusted_def Value_ToString_def type_tests)
qed

text \<open>The result of a \<^verbatim>\<open>ReverseMap\<close> that also returns the ids before an error.\<close>

definition reverse_result :: "vindex_error option \<times> Value list \<Rightarrow> vindex_error + Value list" where
  "reverse_result r = (case r of (Some err, _) \<Rightarrow> Inl err | (None, vs) \<Rightarrow> Inr vs)"

lemma reverse_each_all:
  "(\<And>k. k \<in> set ks \<Longrightarrow> f k = Inr (g k)) \<Longrightarrow> reverse_each f ks = (None, map (\<lambda>k. NewUint64 (g k)) ks)"
  by (induction ks) simp_all

interpretation numeric: reversible_vindex Numeric_Map Numeric_Verify "\<lambda>v. map_option (be_bytes 8) (number_of v)"
    "be_bytes 8" be_uint64 Numeric_ReverseMap
proof
  show "bs = map2 (\<lambda>v k. map_option (be_bytes 8) (number_of v) = Some k) ids ksids \<and> length ids \<le> length ksids"
    if "Numeric_Verify ids ksids = Ret (Inr bs)" for ids ksids bs
    by (rule verify_each_agrees [OF _ that [unfolded vindex_defs]]) (rule number_verified)
  show "Numeric_ReverseMap ks = Inr (map (\<lambda>k. NewUint64 (be_uint64 k)) ks)" if "list_all (\<lambda>k. length k = 8) ks" for ks
    using that by (induction ks) simp_all
qed (simp_all add: vindex_defs map_each_ksid uint_number_eq number_of_NewUint64 be_bytes_be_uint64)

interpretation reverse_bits: reversible_vindex ReverseBits_Map ReverseBits_Verify "\<lambda>v. map_option reverse (number_of v)"
    reverse "\<lambda>k. word_reverse (be_uint64 k)" "\<lambda>ks. reverse_result (ReverseBits_ReverseMap ks)"
proof
  show "bs = map2 (\<lambda>v k. map_option reverse (number_of v) = Some k) ids ksids \<and> length ids \<le> length ksids"
    if "ReverseBits_Verify ids ksids = Ret (Inr bs)" for ids ksids bs
    by (rule verify_each_agrees [OF _ that [unfolded vindex_defs]]) (rule number_verified)
  show "reverse_result (ReverseBits_ReverseMap ks) = Inr (map (\<lambda>k. NewUint64 (word_reverse (be_uint64 k))) ks)"
    if "list_all (\<lambda>k. length k = 8) ks" for ks
    using that reverse_each_all [of ks unreverse "\<lambda>k. word_reverse (be_uint64 k)"]
    by (simp add: ReverseBits_ReverseMap_def reverse_result_def unreverse_def list_all_iff)
qed (simp_all add: vindex_defs map_each_ksid uint_number_eq number_of_NewUint64 be_bytes_be_uint64 reverse_def)

interpretation hash: reversible_vindex Hash_Map Hash_Verify "\<lambda>v. map_option vhash (signed_number v)"
    vhash "\<lambda>k. be_uint64 (block3DES_Decrypt (replicate 24 0) k)" "\<lambda>ks. reverse_result (Hash_ReverseMap ks)"
proof
  show "bs = map2 (\<lambda>v k. map_option vhash (signed_number v) = Some k) ids ksids \<and> length ids \<le> length ksids"
    if "Hash_Verify ids ksids = Ret (Inr bs)" for ids ksids bs
    by (rule verify_each_agrees [OF _ that [unfolded vindex_defs]]) (auto dest!: number_verified dest: signed_number_of)
  show "reverse_result (Hash_ReverseMap ks) = Inr (map (\<lambda>k. NewUint64 (be_uint64 (block3DES_Decrypt (replicate 24 0) k))) ks)"
    if "list_all (\<lambda>k. length k = 8) ks" for ks
    using that reverse_each_all [of ks vunhash "\<lambda>k. be_uint64 (block3DES_Decrypt (replicate 24 0) k)"]
    by (simp add: Hash_ReverseMap_def reverse_result_def vunhash_def list_all_iff)
  show "map_option vhash (signed_number (NewUint64 n)) = Some (vhash n)" for n
    using signed_number_of [OF number_of_NewUint64] by simp
qed (simp_all add: vindex_defs map_each_ksid hash_number_eq vhash_def block3DES_inverse be_bytes_be_uint64)

fun Vindex_ReverseMap :: "Vindex \<Rightarrow> byte list list \<Rightarrow> (vindex_error + Value list) option" where
  "Vindex_ReverseMap (Binary _) ks = Some (Binary_ReverseMap (map Some ks))"
| "Vindex_ReverseMap (Hash _) ks = Some (reverse_result (Hash_ReverseMap ks))"
| "Vindex_ReverseMap (Numeric _) ks = Some (Numeric_ReverseMap ks)"
| "Vindex_ReverseMap (ReverseBits _) ks = Some (reverse_result (ReverseBits_ReverseMap ks))"
| "Vindex_ReverseMap _ ks = None"

lemma UnicodeLooseMD5_verify_map:
  "UnicodeLooseMD5_Verify coll ids ksids = Ret (Inr bs) \<Longrightarrow>
     \<exists>ds. UnicodeLooseMD5_Map coll ids = Ret (Inr ds) \<and> bs = map2 (\<lambda>d k. d = DestinationKeyspaceID k) ds ksids"
  unfolding UnicodeLooseMD5_Verify_def
proof (induction ids arbitrary: ksids bs)
  case (Cons v ids)
  obtain k where k: "unicodeHash coll v = Inr k" using Cons.prems by (cases "unicodeHash coll v") auto
  obtain ksid' rest where ks: "ksids = ksid' # rest" using Cons.prems k by (cases ksids) auto
  obtain out where out: "verify_each (\<lambda>v. Ret (unicodeHash coll v)) ids rest = Ret (Inr out)" "bs = (k = ksid') # out"
    using Cons.prems k ks
    by (cases "verify_each (\<lambda>v. Ret (unicodeHash coll v)) ids rest" rule: go.exhaust) (auto split: sum.splits simp: go_try_def)
  then show ?case using Cons.IH [OF out(1)] k ks by auto
qed simp

lemma ToUint64_NewUint64: "ToUint64 (NewUint64 n) = Ret (Inr n)"
  using number_of_NewUint64 [of n] ToUint64_returns [of "NewUint64 n"] by (auto simp: number_of_def split: sum.splits)

text \<open>
  \<^verbatim>\<open>Hash.Map\<close> takes a negative number for its two's complement, \<^verbatim>\<open>Hash.Verify\<close> refuses it.
\<close>

lemma hash_negative:
  assumes "- (2 ^ 63) \<le> i" "i < 0"
  shows "Hash_Map [NewInt64 i] = Ret (Inr [DestinationKeyspaceID (vhash (word_of_int i))])"
    and "Hash_Verify [NewInt64 i] [vhash (word_of_int i)] = Ret (Inl (NumberErr (NegativeToUnsigned i)))"
proof -
  have "parse_int 64 (format_int i) = Some i" using assms by (intro parse_int_format_int) auto
  then show "Hash_Map [NewInt64 i] = Ret (Inr [DestinationKeyspaceID (vhash (word_of_int i))])"
    "Hash_Verify [NewInt64 i] [vhash (word_of_int i)] = Ret (Inl (NumberErr (NegativeToUnsigned i)))"
    using assms(2)
    by (simp_all add: Hash_Map_def Hash_Verify_def map_each_def hash_number_def ksid_destination_def number_err_def ToUint64_def
        newIntegralNumeric_def NewInt64_def MakeTrusted_def Value_ToString_def type_tests Let_def)
qed

lemma vhash_tests:
  "vhash 1 = [0x16, 0x6b, 0x40, 0xb4, 0x4a, 0xba, 0x4b, 0xd6]" "vhash 2 = [0x06, 0xe7, 0xea, 0x22, 0xce, 0x92, 0x70, 0x8f]"
  by code_simp+

text \<open>The keyspace id that a vindex gives to an id, and whether \<^verbatim>\<open>Map\<close> takes the id: only \<^verbatim>\<open>UnicodeLooseMD5\<close> refuses any.\<close>

fun Vindex_ksid :: "(string \<Rightarrow> byte list) \<Rightarrow> Vindex \<Rightarrow> Value \<Rightarrow> byte list option" where
  "Vindex_ksid coll (Binary _) v = Some (to_bytes (Value_ToBytes v))"
| "Vindex_ksid coll (BinaryMD5 _) v = Some (binHash (to_bytes (Value_ToBytes v)))"
| "Vindex_ksid coll (Hash _) v = map_option vhash (signed_number v)"
| "Vindex_ksid coll (Null _) v = Some nullksid"
| "Vindex_ksid coll (Numeric _) v = map_option (be_bytes 8) (number_of v)"
| "Vindex_ksid coll (NumericStaticMap _ lookup) v = map_option (\<lambda>n. be_bytes 8 (static_number lookup n)) (number_of v)"
| "Vindex_ksid coll (ReverseBits _) v = map_option reverse (number_of v)"
| "Vindex_ksid coll (UnicodeLooseMD5 _) v = (case unicodeHash coll v of Inl _ \<Rightarrow> None | Inr k \<Rightarrow> Some k)"

fun Vindex_accepts :: "(string \<Rightarrow> byte list) \<Rightarrow> Vindex \<Rightarrow> Value \<Rightarrow> bool" where
  "Vindex_accepts coll (UnicodeLooseMD5 _) v = (case unicodeHash coll v of Inl _ \<Rightarrow> False | Inr _ \<Rightarrow> True)"
| "Vindex_accepts coll _ v = True"

lemma UnicodeLooseMD5_Map_ksids:
  "list_all (Vindex_accepts coll (UnicodeLooseMD5 n)) ids \<Longrightarrow>
     UnicodeLooseMD5_Map coll ids = Ret (Inr (map (\<lambda>v. ksid_destination (Vindex_ksid coll (UnicodeLooseMD5 n) v)) ids))"
  by (induction ids) (auto simp: ksid_destination_def split: sum.splits)

lemma Vindex_Map_ksids:
  "list_all (Vindex_accepts coll v) ids \<Longrightarrow>
     Vindex_Map coll v ids = Ret (Inr (map (\<lambda>i. ksid_destination (Vindex_ksid coll v i)) ids))"
  by (cases v)
    (simp_all add: binary.vmap_each binary_md5.vmap_each hash.vmap_each null_vindex.vmap_each numeric.vmap_each
      static.vmap_each reverse_bits.vmap_each UnicodeLooseMD5_Map_ksids)

subsection \<open>Properties\<close>

text \<open>
  Whenever \<^verbatim>\<open>Verify\<close> of a functional vindex returns, it says of each keyspace id whether \<^verbatim>\<open>Map\<close> sends the value there.
\<close>
theorem vindex_verify_map:
  assumes "Vindex_Verify coll v ids ksids = Ret (Inr bs)"
  shows "\<exists>ds. Vindex_Map coll v ids = Ret (Inr ds) \<and> bs = map2 (\<lambda>d k. d = DestinationKeyspaceID k) ds ksids"
  using assms
  by (cases v)
    (simp_all add: binary.verify_map binary_md5.verify_map hash.verify_map null_vindex.verify_map numeric.verify_map
      static.verify_map reverse_bits.verify_map UnicodeLooseMD5_verify_map)

theorem vindex_verify_map_witness:
  "let k = [0x16, 0x6b, 0x40, 0xb4, 0x4a, 0xba, 0x4b, 0xd6] in
   \<exists>ds. Vindex_Map (\<lambda>_. []) (Hash ''h'') [NewUint64 1, NewUint64 2] = Ret (Inr ds) \<and>
     [True, False] = map2 (\<lambda>d k. d = DestinationKeyspaceID k) ds [k, k]"
proof -
  let ?k = "[0x16, 0x6b, 0x40, 0xb4, 0x4a, 0xba, 0x4b, 0xd6] :: byte list"
  have "Vindex_Verify (\<lambda>_. []) (Hash ''h'') [NewUint64 1, NewUint64 2] [?k, ?k] = Ret (Inr [True, False])"
    by (simp add: Hash_Verify_def ToUint64_NewUint64 number_err_def vhash_tests)
  from vindex_verify_map [OF this] show ?thesis by (simp only: Let_def)
qed

text \<open>
  C15. The vindexes \<^verbatim>\<open>hash\<close>, \<^verbatim>\<open>numeric\<close> and \<^verbatim>\<open>reverse_bits\<close> are one to one: the keyspace ids of unsigned 64-bit
  numbers have 8 bytes and \<^verbatim>\<open>ReverseMap\<close> returns the numbers; for every 8 bytes \<^verbatim>\<open>ReverseMap\<close> finds the number that
  \<^verbatim>\<open>Map\<close> sends there. For \<^verbatim>\<open>hash\<close> this includes that decryption with triple DES inverts encryption.
\<close>
theorem reversible_vindexes:
  assumes "v \<in> {Hash name, Numeric name, ReverseBits name}" "list_all (\<lambda>k. length k = 8) ks"
  shows "(\<exists>kids. Vindex_Map coll v (map NewUint64 ns) = Ret (Inr (map DestinationKeyspaceID kids)) \<and>
      list_all (\<lambda>k. length k = 8) kids \<and> Vindex_ReverseMap v kids = Some (Inr (map NewUint64 ns))) \<and>
    (\<exists>nums. Vindex_ReverseMap v ks = Some (Inr (map NewUint64 nums)) \<and>
      Vindex_Map coll v (map NewUint64 nums) = Ret (Inr (map DestinationKeyspaceID ks)))"
  using assms(1) hash.reverse_of_map [of ns] numeric.reverse_of_map [of ns] reverse_bits.reverse_of_map [of ns]
    hash.map_of_reverse [OF assms(2)] numeric.map_of_reverse [OF assms(2)] reverse_bits.map_of_reverse [OF assms(2)]
  by auto

theorem reversible_vindexes_witness:
  "let k = [0x16, 0x6b, 0x40, 0xb4, 0x4a, 0xba, 0x4b, 0xd6] in
   \<exists>nums. Vindex_ReverseMap (Hash ''h'') [k] = Some (Inr (map NewUint64 nums)) \<and>
     Vindex_Map (\<lambda>_. []) (Hash ''h'') (map NewUint64 nums) = Ret (Inr [DestinationKeyspaceID k])"
  using reversible_vindexes [of "Hash ''h''" "''h''" "[[0x16, 0x6b, 0x40, 0xb4, 0x4a, 0xba, 0x4b, 0xd6]]" "\<lambda>_. []" "[]"]
  by (simp only: Let_def list.map) simp

end
