(* ===== verification/Engine.thy ===== *)
theory Engine
  imports Sql_Result Vindexes
begin

text \<open>
  Primitives of the query engine of vtgate: \<^verbatim>\<open>limit.go\<close>, \<^verbatim>\<open>join.go\<close> and \<^verbatim>\<open>ordered_aggregate.go\<close> under
  \<^verbatim>\<open>src/vt/vtgate/engine\<close>. The primitives that feed them are parameters (\<open>prim\<close>): what their \<^verbatim>\<open>Execute\<close>, \<^verbatim>\<open>GetFields\<close> and
  \<^verbatim>\<open>StreamExecute\<close> deliver for given bind variables. A streaming primitive hands its results to the callback one after the
  other, stops at the first error of the callback and returns it (\<open>feed\<close>); the callback changes a state \<open>'c\<close>.

  \<^verbatim>\<open>Limit\<close> returns the rows from the offset on, as many as asked for; a normal join streams the rows that it
  returns otherwise; \<^verbatim>\<open>OrderedAggregate\<close> sums up the rows with equal keys, streaming or not.
\<close>

subsection \<open>Primitives\<close>

datatype engine_error =
  ValueErr value_error | PlanErr plan_error | LimitOutOfRange uint64 | OffsetNotSupported | EOF
  | UnexpectedOpcode int | CtxDone | ResolveErr "resolver_error resolve_error" | VindexErr vindex_error
  | Aggregated "engine_error list" | Wrapped string engine_error
  | UnsupportedRoute | NotStreamable string | NoShards string | NotUniqueKsid Destination | MapsToShards nat
  | SubqueryColumns | SubqueryRows | OtherErr string

record prim =
  Execute_of :: "bind_vars \<Rightarrow> bool \<Rightarrow> (engine_error + Result) go"
  GetFields_of :: "bind_vars \<Rightarrow> (engine_error + Result) go"
  Stream_of :: "bind_vars \<Rightarrow> bool \<Rightarrow> Result list \<times> engine_error option"

type_synonym 'c callback = "Result \<Rightarrow> 'c \<Rightarrow> (engine_error option \<times> 'c) go"

fun feed :: "'c callback \<Rightarrow> Result list \<Rightarrow> engine_error option \<Rightarrow> 'c \<Rightarrow> (engine_error option \<times> 'c) go" where
  "feed cb [] final c = Ret (final, c)"
| "feed cb (r # rs) final c =
     go_bind (cb r c) (\<lambda>(err, c'). case err of Some e \<Rightarrow> Ret (Some e, c') | None \<Rightarrow> feed cb rs final c')"

definition StreamExecute_of ::
  "prim \<Rightarrow> bind_vars \<Rightarrow> bool \<Rightarrow> 'c callback \<Rightarrow> 'c \<Rightarrow> (engine_error option \<times> 'c) go" where
  "StreamExecute_of p bindVars wantfields cb c =
     (case Stream_of p bindVars wantfields of (rs, final) \<Rightarrow> feed cb rs final c)"

text \<open>A callback that keeps what it gets.\<close>

definition collect :: "Result list callback" where
  "collect r c = Ret (None, c @ [r])"

lemma feed_collect [simp]: "feed collect rs final c = Ret (final, c @ rs)"
  by (induction rs arbitrary: c) (simp_all add: collect_def)

subsection \<open>Limit\<close>

record Limit =
  Count :: PlanValue
  Offset :: PlanValue
  LInput :: prim

definition fetch :: "PlanValue \<Rightarrow> bind_vars \<Rightarrow> (engine_error + int) go" where
  "fetch pv bindVars =
     (case ResolveValue pv bindVars of
        Inl err \<Rightarrow> Ret (Inl (PlanErr err))
      | Inr resolved \<Rightarrow>
          go_bind (ToUint64 resolved) (\<lambda>r. case r of
            Inl err \<Rightarrow> Ret (Inl (ValueErr err))
          | Inr num \<Rightarrow>
              (let count = int64 (uint num) in
               if count < 0 then Ret (Inl (LimitOutOfRange num)) else Ret (Inr count))))"

definition fetchCount :: "Limit \<Rightarrow> bind_vars \<Rightarrow> (engine_error + int) go" where
  "fetchCount l bindVars = fetch (Count l) bindVars"

definition fetchOffset :: "Limit \<Rightarrow> bind_vars \<Rightarrow> (engine_error + int) go" where
  "fetchOffset l bindVars = (if PlanValue_IsNull (Offset l) then Ret (Inr 0) else fetch (Offset l) bindVars)"

definition upper_limit :: "int \<Rightarrow> bind_vars \<Rightarrow> bind_vars" where
  "upper_limit n bindVars = AList.update ''__upper_limit'' (ValueBindVariable (NewInt64 n)) bindVars"

definition Limit_Execute :: "Limit \<Rightarrow> bind_vars \<Rightarrow> bool \<Rightarrow> (engine_error + Result) go" where
  "Limit_Execute l bindVars wantfields =
     go_try (fetchCount l bindVars) (\<lambda>count.
     go_try (fetchOffset l bindVars) (\<lambda>offset.
     let upper = int64 (count + offset) in
     go_try (Execute_of (LInput l) (upper_limit upper bindVars) wantfields) (\<lambda>result.
       let n = int (length (Rows result)) in
       if upper \<le> n then
         (if offset \<le> upper
          then Ret (Inr (result\<lparr>Rows := take (nat (upper - offset)) (drop (nat offset) (Rows result)),
                                RowsAffected := word_of_int count\<rparr>))
          else Panic)
       else if offset \<le> n then
         (let rows = drop (nat offset) (Rows result) in
          Ret (Inr (result\<lparr>Rows := rows, RowsAffected := of_nat (length rows)\<rparr>)))
       else Ret (Inr (result\<lparr>Rows := [], RowsAffected := 0\<rparr>)))))"

text \<open>The callback of \<^verbatim>\<open>Limit.StreamExecute\<close>; it counts down \<^verbatim>\<open>count\<close>.\<close>

definition limit_callback :: "'c callback \<Rightarrow> (int \<times> 'c) callback" where
  "limit_callback cb qr s =
     (case s of (count, c) \<Rightarrow>
        go_bind (if length (Fields qr) \<noteq> 0 then cb (empty_result\<lparr>Fields := Fields qr\<rparr>) c else Ret (None, c)) (\<lambda>(err, c1).
          case err of
            Some e \<Rightarrow> Ret (Some e, count, c1)
          | None \<Rightarrow>
              if length (Rows qr) = 0 then Ret (None, count, c1)
              else if count = 0 then Ret (Some EOF, count, c1)
              else if count > int (length (Rows qr)) then
                go_bind (cb (empty_result\<lparr>Rows := Rows qr\<rparr>) c1) (\<lambda>(err2, c2).
                  Ret (err2, count - int (length (Rows qr)), c2))
              else
                go_bind (cb (empty_result\<lparr>Rows := take (nat count) (Rows qr)\<rparr>) c1) (\<lambda>(err2, c2).
                  case err2 of Some e \<Rightarrow> Ret (Some e, 0, c2) | None \<Rightarrow> Ret (Some EOF, 0, c2))))"

definition Limit_StreamExecute ::
  "Limit \<Rightarrow> bind_vars \<Rightarrow> bool \<Rightarrow> 'c callback \<Rightarrow> 'c \<Rightarrow> (engine_error option \<times> 'c) go" where
  "Limit_StreamExecute l bindVars wantfields cb c =
     go_bind (fetchCount l bindVars) (\<lambda>r. case r of
       Inl err \<Rightarrow> Ret (Some err, c)
     | Inr count \<Rightarrow>
         if \<not> PlanValue_IsNull (Offset l) then Ret (Some OffsetNotSupported, c)
         else
           go_bind (StreamExecute_of (LInput l) (upper_limit (int64 count) bindVars) wantfields (limit_callback cb) (count, c))
             (\<lambda>(err, _, c'). if err = Some EOF then Ret (None, c') else Ret (err, c')))"

definition Limit_GetFields :: "Limit \<Rightarrow> bind_vars \<Rightarrow> (engine_error + Result) go" where
  "Limit_GetFields l bindVars = GetFields_of (LInput l) bindVars"

text \<open>What the callback hands on of a result while there are rows to come.\<close>

definition field_part :: "Result \<Rightarrow> Result list" where
  "field_part r = (if Fields r \<noteq> [] then [empty_result\<lparr>Fields := Fields r\<rparr>] else [])"

lemma field_part_rows [simp]: "concat (map Rows (field_part r)) = []"
  by (simp add: field_part_def empty_result_def)

lemma limit_callback_steps:
  "Rows r = [] \<Longrightarrow> limit_callback collect r (count, acc) = Ret (None, count, acc @ field_part r)"
  "Rows r \<noteq> [] \<Longrightarrow> limit_callback collect r (0, acc) = Ret (Some EOF, 0, acc @ field_part r)"
  "Rows r \<noteq> [] \<Longrightarrow> int (length (Rows r)) < count \<Longrightarrow> limit_callback collect r (count, acc) =
     Ret (None, count - int (length (Rows r)), acc @ field_part r @ [empty_result\<lparr>Rows := Rows r\<rparr>])"
  "Rows r \<noteq> [] \<Longrightarrow> count \<noteq> 0 \<Longrightarrow> count \<le> int (length (Rows r)) \<Longrightarrow> limit_callback collect r (count, acc) =
     Ret (Some EOF, 0, acc @ field_part r @ [empty_result\<lparr>Rows := take (nat count) (Rows r)\<rparr>])"
  by (cases "Fields r = []"; auto simp: limit_callback_def collect_def field_part_def)+

lemma feed_limit:
  assumes "0 \<le> count"
  shows "\<exists>err count' out. feed (limit_callback collect) rs None (count, acc) = Ret (err, count', acc @ out) \<and>
    (err = None \<or> err = Some EOF) \<and> concat (map Rows out) = take (nat count) (concat (map Rows rs))"
  using assms
proof (induction rs arbitrary: count acc)
  case (Cons r rs)
  consider "Rows r = []" | "Rows r \<noteq> []" "count = 0" | "Rows r \<noteq> []" "int (length (Rows r)) < count"
    | "Rows r \<noteq> []" "count \<noteq> 0" "count \<le> int (length (Rows r))" by linarith
  then show ?case
  proof cases
    case 1
    obtain err count' out where "feed (limit_callback collect) rs None (count, acc @ field_part r) =
        Ret (err, count', (acc @ field_part r) @ out)"
      "err = None \<or> err = Some EOF" "concat (map Rows out) = take (nat count) (concat (map Rows rs))"
      using Cons.IH [OF Cons.prems, of "acc @ field_part r"] by blast
    then show ?thesis
      using 1 by (intro exI [of _ err] exI [of _ count'] exI [of _ "field_part r @ out"]) (simp add: limit_callback_steps)
  next
    case 2
    then show ?thesis
      by (intro exI [of _ "Some EOF"] exI [of _ 0] exI [of _ "field_part r"]) (simp add: limit_callback_steps)
  next
    case 3
    let ?o = "field_part r @ [empty_result\<lparr>Rows := Rows r\<rparr>]" and ?n = "count - int (length (Rows r))"
    have "0 \<le> ?n" using 3 by simp
    from Cons.IH [OF this, of "acc @ ?o"] obtain err count' out
      where "feed (limit_callback collect) rs None (?n, acc @ ?o) = Ret (err, count', (acc @ ?o) @ out)"
        "err = None \<or> err = Some EOF" "concat (map Rows out) = take (nat ?n) (concat (map Rows rs))" by blast
    moreover have "nat count = length (Rows r) + nat ?n" using 3 by simp
    ultimately show ?thesis
      using 3 by (intro exI [of _ err] exI [of _ count'] exI [of _ "?o @ out"]) (simp add: limit_callback_steps)
  next
    case 4
    let ?o = "field_part r @ [empty_result\<lparr>Rows := take (nat count) (Rows r)\<rparr>]"
    show ?thesis
      using 4 by (intro exI [of _ "Some EOF"] exI [of _ 0] exI [of _ ?o]) (simp add: limit_callback_steps)
  qed
qed simp

lemma Limit_Execute_rows:
  assumes "fetchCount l bindVars = Ret (Inr count)" "fetchOffset l bindVars = Ret (Inr offset)"
    and "0 \<le> count" "0 \<le> offset" "count + offset < 2 ^ 63"
    and "Execute_of (LInput l) (upper_limit (count + offset) bindVars) wantfields = Ret (Inr result)"
    and "length (Rows result) < 2 ^ 63"
  shows "\<exists>n. Limit_Execute l bindVars wantfields =
    Ret (Inr (result\<lparr>Rows := take (nat count) (drop (nat offset) (Rows result)), RowsAffected := n\<rparr>)) \<and>
    unat n = length (take (nat count) (drop (nat offset) (Rows result)))"
proof -
  have u: "int64 (count + offset) = count + offset" using assms(3-5) by simp
  let ?rows = "Rows result"
  note unfold = Limit_Execute_def assms(1,2) Let_def u assms(6)
  consider "count + offset \<le> int (length ?rows)" | "count + offset > int (length ?rows)" "offset \<le> int (length ?rows)"
    | "offset > int (length ?rows)" by linarith
  then show ?thesis
  proof cases
    case 1
    have "nat count \<le> length ?rows - nat offset" using 1 assms(3,4) by linarith
    moreover have "count < 2 ^ 63" using assms(4,5) by simp
    ultimately show ?thesis
      using 1 assms(3,4) by (intro exI [of _ "word_of_int count"]) (simp add: unfold unsigned_of_int take_bit_int_eq_self)
  next
    case 2
    then have "take (nat count) (drop (nat offset) ?rows) = drop (nat offset) ?rows" using assms(3,4) by simp
    moreover have "unat (of_nat (length (drop (nat offset) ?rows)) :: uint64) = length (drop (nat offset) ?rows)"
    proof -
      have "length (drop (nat offset) ?rows) < 2 ^ 64" using assms(7) by simp
      then show ?thesis by (simp only: unsigned_of_nat) (simp add: take_bit_nat_eq_self)
    qed
    ultimately show ?thesis
      using 2 by (intro exI [of _ "of_nat (length (drop (nat offset) ?rows))"]) (simp add: unfold del: length_drop)
  next
    case 3
    then have "\<not> count + offset \<le> int (length ?rows)" "drop (nat offset) ?rows = []" using assms(3) by auto
    then show ?thesis using 3 by (intro exI [of _ 0]) (simp add: unfold)
  qed
qed

subsection \<open>Join\<close>

datatype JoinOpcode = NormalJoin | LeftJoin

record Join =
  Opcode :: JoinOpcode
  JLeft :: prim
  JRight :: prim
  Cols :: "int list"
  Vars :: "(string \<times> nat) list"

definition joinFields :: "Field list \<Rightarrow> Field list \<Rightarrow> int list \<Rightarrow> Field list go" where
  "joinFields lflds rflds cols =
     go_list (map (\<lambda>i. if i < 0 then index_int lflds (- i - 1) else index_int rflds (i - 1)) cols)"

text \<open>The row of the right side is \<open>None\<close> where it is nil, on left joins.\<close>

definition joinRows :: "row \<Rightarrow> row option \<Rightarrow> int list \<Rightarrow> row go" where
  "joinRows lrow rrow cols =
     go_list (map (\<lambda>i. if i < 0 then index_int lrow (- i - 1)
                       else (case rrow of Some r \<Rightarrow> index_int r (i - 1) | None \<Rightarrow> Ret NULL_value)) cols)"

definition combineVars :: "bind_vars \<Rightarrow> bind_vars \<Rightarrow> bind_vars" where
  "combineVars bv1 bv2 = foldl (\<lambda>out (k, v). AList.update k v out) bv1 bv2"

fun set_vars :: "(string \<times> nat) list \<Rightarrow> row \<Rightarrow> bind_vars \<Rightarrow> bind_vars go" where
  "set_vars [] lrow joinVars = Ret joinVars"
| "set_vars ((k, col) # vs) lrow joinVars =
     go_bind (slice_index lrow col) (\<lambda>v. set_vars vs lrow (AList.update k (ValueBindVariable v) joinVars))"

definition null_vars :: "(string \<times> nat) list \<Rightarrow> bind_vars \<Rightarrow> bind_vars" where
  "null_vars vs joinVars = foldl (\<lambda>out (k, _). AList.update k (ValueBindVariable NULL_value) out) joinVars vs"

fun join_loop ::
  "Join \<Rightarrow> bind_vars \<Rightarrow> Field list \<Rightarrow> row list \<Rightarrow> bind_vars \<Rightarrow> bool \<Rightarrow> Result \<Rightarrow> (engine_error + Result) go" where
  "join_loop jn bindVars lflds [] joinVars wantfields result = Ret (Inr result)"
| "join_loop jn bindVars lflds (lrow # lrows) joinVars wantfields result =
     go_bind (set_vars (Vars jn) lrow joinVars) (\<lambda>joinVars1.
     go_try (Execute_of (JRight jn) (combineVars bindVars joinVars1) wantfields) (\<lambda>rresult.
     go_bind (if wantfields then joinFields lflds (Fields rresult) (Cols jn) else Ret (Fields result)) (\<lambda>flds.
     go_bind (go_list (map (\<lambda>rrow. joinRows lrow (Some rrow) (Cols jn)) (Rows rresult))) (\<lambda>rows.
     let result1 = result\<lparr>Fields := flds, Rows := Rows result @ rows\<rparr> in
     if Opcode jn = LeftJoin \<and> length (Rows rresult) = 0 then
       go_bind (joinRows lrow None (Cols jn)) (\<lambda>nrow.
         join_loop jn bindVars lflds lrows joinVars1 False
           (result1\<lparr>Rows := Rows result1 @ [nrow], RowsAffected := RowsAffected result1 + 1\<rparr>))
     else
       join_loop jn bindVars lflds lrows joinVars1 False
         (result1\<lparr>RowsAffected := RowsAffected result1 + of_nat (length (Rows rresult))\<rparr>)))))"

definition Join_Execute :: "Join \<Rightarrow> bind_vars \<Rightarrow> bool \<Rightarrow> (engine_error + Result) go" where
  "Join_Execute jn bindVars wantfields =
     go_try (Execute_of (JLeft jn) bindVars wantfields) (\<lambda>lresult.
       if length (Rows lresult) = 0 \<and> wantfields then
         go_try (GetFields_of (JRight jn) (combineVars bindVars (null_vars (Vars jn) []))) (\<lambda>rresult.
         go_bind (joinFields (Fields lresult) (Fields rresult) (Cols jn)) (\<lambda>flds.
           Ret (Inr (empty_result\<lparr>Fields := flds\<rparr>))))
       else join_loop jn bindVars (Fields lresult) (Rows lresult) [] wantfields empty_result)"

text \<open>
  The callbacks of \<^verbatim>\<open>Join.StreamExecute\<close>: the inner one for the results of the right side, with the state \<^verbatim>\<open>wantfields\<close>,
  \<^verbatim>\<open>rowSent\<close>, and the outer one for those of the left side, with the state \<^verbatim>\<open>wantfields\<close>, \<^verbatim>\<open>joinVars\<close>.
\<close>

definition join_inner :: "Join \<Rightarrow> Field list \<Rightarrow> row \<Rightarrow> 'c callback \<Rightarrow> (bool \<times> bool \<times> 'c) callback" where
  "join_inner jn lflds lrow cb rresult s =
     (case s of (wantfields, rowSent, c) \<Rightarrow>
        go_bind (if wantfields then joinFields lflds (Fields rresult) (Cols jn) else Ret []) (\<lambda>flds.
        go_bind (go_list (map (\<lambda>rrow. joinRows lrow (Some rrow) (Cols jn)) (Rows rresult))) (\<lambda>rows.
        go_bind (cb (empty_result\<lparr>Fields := flds, Rows := rows\<rparr>) c) (\<lambda>(err, c').
          Ret (err, False, rowSent \<or> length (Rows rresult) \<noteq> 0, c')))))"

fun join_outer ::
  "Join \<Rightarrow> bind_vars \<Rightarrow> 'c callback \<Rightarrow> Field list \<Rightarrow> row list \<Rightarrow> bool \<times> bind_vars \<times> 'c \<Rightarrow>
     (engine_error option \<times> bool \<times> bind_vars \<times> 'c) go" where
  "join_outer jn bindVars cb lflds [] (wantfields, joinVars, c) =
     (if wantfields then
        (let joinVars1 = null_vars (Vars jn) joinVars in
         go_bind (GetFields_of (JRight jn) (combineVars bindVars joinVars1)) (\<lambda>r. case r of
           Inl err \<Rightarrow> Ret (Some err, False, joinVars1, c)
         | Inr rresult \<Rightarrow>
             go_bind (joinFields lflds (Fields rresult) (Cols jn)) (\<lambda>flds.
             go_bind (cb (empty_result\<lparr>Fields := flds\<rparr>) c) (\<lambda>(err, c'). Ret (err, False, joinVars1, c')))))
      else Ret (None, wantfields, joinVars, c))"
| "join_outer jn bindVars cb lflds (lrow # lrows) (wantfields, joinVars, c) =
     go_bind (set_vars (Vars jn) lrow joinVars) (\<lambda>joinVars1.
     go_bind (StreamExecute_of (JRight jn) (combineVars bindVars joinVars1) wantfields (join_inner jn lflds lrow cb)
                (wantfields, False, c)) (\<lambda>(err, wantfields1, rowSent, c1).
       case err of
         Some e \<Rightarrow> Ret (Some e, wantfields1, joinVars1, c1)
       | None \<Rightarrow>
           if Opcode jn = LeftJoin \<and> \<not> rowSent then
             go_bind (joinRows lrow None (Cols jn)) (\<lambda>nrow.
             go_bind (cb (empty_result\<lparr>Rows := [nrow]\<rparr>) c1) (\<lambda>(err2, c2). Ret (err2, wantfields1, joinVars1, c2)))
           else join_outer jn bindVars cb lflds lrows (wantfields1, joinVars1, c1)))"

definition Join_StreamExecute ::
  "Join \<Rightarrow> bind_vars \<Rightarrow> bool \<Rightarrow> 'c callback \<Rightarrow> 'c \<Rightarrow> (engine_error option \<times> 'c) go" where
  "Join_StreamExecute jn bindVars wantfields cb c =
     go_bind
       (StreamExecute_of (JLeft jn) bindVars wantfields
          (\<lambda>lresult s. join_outer jn bindVars cb (Fields lresult) (Rows lresult) s) (wantfields, [], c))
       (\<lambda>(err, _, _, c'). Ret (err, c'))"

definition Join_GetFields :: "Join \<Rightarrow> bind_vars \<Rightarrow> (engine_error + Result) go" where
  "Join_GetFields jn bindVars =
     go_try (GetFields_of (JLeft jn) bindVars) (\<lambda>lresult.
     go_try (GetFields_of (JRight jn) (combineVars bindVars (null_vars (Vars jn) []))) (\<lambda>rresult.
     go_bind (joinFields (Fields lresult) (Fields rresult) (Cols jn)) (\<lambda>flds.
       Ret (Inr (empty_result\<lparr>Fields := flds\<rparr>)))))"

subsubsection \<open>The rows of a join\<close>

definition row_vars :: "(string \<times> nat) list \<Rightarrow> row \<Rightarrow> bind_vars" where
  "row_vars vs lrow = map (\<lambda>(k, col). (k, ValueBindVariable (lrow ! col))) vs"

definition join_row :: "int list \<Rightarrow> row \<Rightarrow> row \<Rightarrow> row" where
  "join_row cols lrow rrow = map (\<lambda>i. if i < 0 then lrow ! nat (- i - 1) else rrow ! nat (i - 1)) cols"

definition null_row :: "int list \<Rightarrow> row \<Rightarrow> row" where
  "null_row cols lrow = map (\<lambda>i. if i < 0 then lrow ! nat (- i - 1) else NULL_value) cols"

text \<open>The rows that belong to one row of the left side; \<open>rrows\<close> are the rows of the right side for given bind variables.\<close>

definition joined :: "Join \<Rightarrow> (bind_vars \<Rightarrow> row list) \<Rightarrow> bind_vars \<Rightarrow> row \<Rightarrow> row list" where
  "joined jn rrows bindVars lrow =
     (let rs = rrows (combineVars bindVars (row_vars (Vars jn) lrow)) in
      if Opcode jn = LeftJoin \<and> rs = [] then [null_row (Cols jn) lrow] else map (join_row (Cols jn) lrow) rs)"

text \<open>Every row has the width that the join expects of its side.\<close>

definition join_ok :: "Join \<Rightarrow> nat \<Rightarrow> nat \<Rightarrow> bool" where
  "join_ok jn nl nr \<longleftrightarrow>
     list_all (\<lambda>i. i < 0 \<and> - int nl \<le> i \<or> 0 < i \<and> i \<le> int nr) (Cols jn) \<and>
     list_all (\<lambda>(_, col). col < nl) (Vars jn) \<and> distinct (map fst (Vars jn))"

lemma joinRows_join_row:
  "join_ok jn (length l) (length r) \<Longrightarrow> joinRows l (Some r) (Cols jn) = Ret (join_row (Cols jn) l r)"
  unfolding joinRows_def join_row_def by (rule go_list_map) (auto simp: join_ok_def list_all_iff index_int_def)

lemma joinRows_null_row:
  "join_ok jn (length l) nr \<Longrightarrow> joinRows l None (Cols jn) = Ret (null_row (Cols jn) l)"
  unfolding joinRows_def null_row_def by (rule go_list_map) (auto simp: join_ok_def list_all_iff index_int_def)

lemma update_head: "k \<notin> set (map fst ys) \<Longrightarrow> AList.update k v (ys @ (k, w) # zs) = ys @ (k, v) # zs"
  by (induction ys) auto

lemma update_new: "k \<notin> set (map fst ys) \<Longrightarrow> AList.update k v ys = ys @ [(k, v)]"
  by (induction ys) auto

lemma set_vars_from:
  assumes "list_all (\<lambda>(_, col). col < length lrow) vs" "distinct (map fst ds @ map fst vs)"
    and "zs = [] \<or> map fst zs = map fst vs"
  shows "set_vars vs lrow (ds @ zs) = Ret (ds @ row_vars vs lrow)"
  using assms
proof (induction vs arbitrary: ds zs)
  case Nil
  then show ?case by (auto simp: row_vars_def)
next
  case (Cons x vs)
  obtain k col where x: "x = (k, col)" by (cases x)
  have k: "k \<notin> set (map fst ds)" using Cons.prems(2) by (auto simp: x)
  let ?v = "ValueBindVariable (lrow ! col)"
  have "set_vars vs lrow ((ds @ [(k, ?v)]) @ tl zs) = Ret ((ds @ [(k, ?v)]) @ row_vars vs lrow)"
    using Cons.prems by (intro Cons.IH) (auto simp: x)
  moreover have "AList.update k ?v (ds @ zs) = (ds @ [(k, ?v)]) @ tl zs"
  proof (cases zs)
    case Nil
    then show ?thesis using update_new [OF k] by simp
  next
    case (Cons z zs')
    then obtain w where "z = (k, w)" using Cons.prems(3) by (cases z) (auto simp: x)
    then show ?thesis using update_head [OF k] Cons by simp
  qed
  moreover have "slice_index lrow col = Ret (lrow ! col)" using Cons.prems(1) by (simp add: x slice_index_def)
  ultimately show ?case by (simp add: x row_vars_def)
qed

lemma set_vars_row:
  "join_ok jn (length lrow) nr \<Longrightarrow> joinVars = [] \<or> map fst joinVars = map fst (Vars jn) \<Longrightarrow>
     set_vars (Vars jn) lrow joinVars = Ret (row_vars (Vars jn) lrow)"
  using set_vars_from [of lrow "Vars jn" "[]" joinVars] by (simp add: join_ok_def)

lemma row_vars_keys: "map fst (row_vars vs lrow) = map fst vs"
  by (simp add: row_vars_def comp_def case_prod_beta)

text \<open>
  What the engine expects of a primitive: for all bind variables it succeeds, its rows have the width \<open>n\<close> and are the same with
  \<^verbatim>\<open>Execute\<close> and, in parts, with \<^verbatim>\<open>StreamExecute\<close>, and where fields are wanted the first part of the stream is these alone.
\<close>

definition delivers :: "prim \<Rightarrow> nat \<Rightarrow> (bind_vars \<Rightarrow> row list) \<Rightarrow> bool" where
  "delivers p n rows \<longleftrightarrow>
     (\<forall>bv want. (\<exists>r. Execute_of p bv want = Ret (Inr r) \<and> Rows r = rows bv \<and> (want \<longrightarrow> length (Fields r) = n)) \<and>
        (\<exists>r. GetFields_of p bv = Ret (Inr r) \<and> length (Fields r) = n) \<and>
        (\<exists>rs. Stream_of p bv want = (rs, None) \<and> concat (map Rows rs) = rows bv \<and>
          (want \<longrightarrow> (\<exists>r rs'. rs = r # rs' \<and> Rows r = [] \<and> length (Fields r) = n))) \<and>
        list_all (\<lambda>x. length x = n) (rows bv))"

lemma deliversD:
  assumes "delivers p n rows"
  shows "\<exists>r. Execute_of p bv want = Ret (Inr r) \<and> Rows r = rows bv \<and> (want \<longrightarrow> length (Fields r) = n)"
    and "\<exists>r. GetFields_of p bv = Ret (Inr r) \<and> length (Fields r) = n"
    and "\<exists>rs. Stream_of p bv want = (rs, None) \<and> concat (map Rows rs) = rows bv \<and>
      (want \<longrightarrow> (\<exists>r rs'. rs = r # rs' \<and> Rows r = [] \<and> length (Fields r) = n))"
    and "list_all (\<lambda>x. length x = n) (rows bv)"
  using assms unfolding delivers_def by blast+

lemma joinFields_ok:
  "join_ok jn nl nr \<Longrightarrow> length lf = nl \<Longrightarrow> length rf = nr \<Longrightarrow> \<exists>flds. joinFields lf rf (Cols jn) = Ret flds"
  unfolding joinFields_def
  by (rule exI, rule go_list_map [where g = "\<lambda>i. if i < 0 then lf ! nat (- i - 1) else rf ! nat (i - 1)"])
    (auto simp: join_ok_def list_all_iff index_int_def)

lemma joined_rows:
  assumes "join_ok jn (length l) nr" "list_all (\<lambda>x. length x = nr) rs"
  shows "go_list (map (\<lambda>r. joinRows l (Some r) (Cols jn)) rs) = Ret (map (join_row (Cols jn) l) rs)"
  using assms by (intro go_list_map joinRows_join_row) (auto simp: list_all_iff)

lemma join_loop_rows:
  assumes ok: "join_ok jn nl nr" and right: "delivers (JRight jn) nr rrows"
  shows "list_all (\<lambda>l. length l = nl) lrows \<Longrightarrow> joinVars = [] \<or> map fst joinVars = map fst (Vars jn) \<Longrightarrow>
    want \<longrightarrow> length lf = nl \<Longrightarrow>
    \<exists>res. join_loop jn bv lf lrows joinVars want result = Ret (Inr res) \<and>
      Rows res = Rows result @ concat (map (joined jn rrows bv) lrows)"
proof (induction lrows arbitrary: joinVars want result)
  case (Cons l ls)
  have okl: "join_ok jn (length l) nr" using ok Cons.prems(1) by simp
  have v: "set_vars (Vars jn) l joinVars = Ret (row_vars (Vars jn) l)" by (rule set_vars_row [OF okl Cons.prems(2)])
  let ?bv = "combineVars bv (row_vars (Vars jn) l)"
  obtain r where r: "Execute_of (JRight jn) ?bv want = Ret (Inr r)" "Rows r = rrows ?bv" "want \<longrightarrow> length (Fields r) = nr"
    using deliversD(1) [OF right, of ?bv want] by blast
  have rows: "go_list (map (\<lambda>rr. joinRows l (Some rr) (Cols jn)) (Rows r)) = Ret (map (join_row (Cols jn) l) (Rows r))"
    using deliversD(4) [OF right] r(2) by (intro joined_rows [OF okl]) simp
  obtain flds where f: "(if want then joinFields lf (Fields r) (Cols jn) else Ret (Fields result)) = Ret flds"
    using joinFields_ok [OF ok, of lf "Fields r"] Cons.prems(3) r(3) by (cases want) auto
  let ?r1 = "result\<lparr>Fields := flds, Rows := Rows result @ map (join_row (Cols jn) l) (Rows r)\<rparr>"
  let ?next = "if Opcode jn = LeftJoin \<and> Rows r = []
    then ?r1\<lparr>Rows := Rows ?r1 @ [null_row (Cols jn) l], RowsAffected := RowsAffected ?r1 + 1\<rparr>
    else ?r1\<lparr>RowsAffected := RowsAffected ?r1 + of_nat (length (Rows r))\<rparr>"
  have "join_loop jn bv lf (l # ls) joinVars want result = join_loop jn bv lf ls (row_vars (Vars jn) l) False ?next"
    using v r(1) rows f joinRows_null_row [OF okl] by (simp add: Let_def)
  moreover have "Rows ?next = Rows result @ joined jn rrows bv l" by (simp add: joined_def r(2) Let_def)
  ultimately show ?case
    using Cons.IH [of "row_vars (Vars jn) l" False ?next] Cons.prems by (simp add: row_vars_keys)
qed simp

lemma feed_inner:
  assumes "join_ok jn (length l) nr" "list_all (\<lambda>x. length x = nr) (concat (map Rows rs))"
  shows "\<exists>out. feed (join_inner jn lf l collect) rs None (False, sent, acc) =
      Ret (None, False, sent \<or> concat (map Rows rs) \<noteq> [], acc @ out) \<and>
    concat (map Rows out) = map (join_row (Cols jn) l) (concat (map Rows rs))"
  using assms(2)
proof (induction rs arbitrary: sent acc)
  case (Cons r rs)
  let ?o = "empty_result\<lparr>Fields := [], Rows := map (join_row (Cols jn) l) (Rows r)\<rparr>"
  have "join_inner jn lf l collect r (False, sent, acc) = Ret (None, False, sent \<or> Rows r \<noteq> [], acc @ [?o])"
    using joined_rows [OF assms(1), of "Rows r"] Cons.prems by (simp add: join_inner_def collect_def)
  moreover obtain out where "feed (join_inner jn lf l collect) rs None (False, sent \<or> Rows r \<noteq> [], acc @ [?o]) =
      Ret (None, False, (sent \<or> Rows r \<noteq> []) \<or> concat (map Rows rs) \<noteq> [], (acc @ [?o]) @ out)"
      "concat (map Rows out) = map (join_row (Cols jn) l) (concat (map Rows rs))"
    using Cons.IH Cons.prems by fastforce
  ultimately show ?case by (intro exI [of _ "?o # out"]) auto
qed simp

lemma join_outer_rows:
  assumes ok: "join_ok jn nl nr" and right: "delivers (JRight jn) nr rrows" and normal: "Opcode jn = NormalJoin"
  shows "list_all (\<lambda>l. length l = nl) lrows \<Longrightarrow> joinVars = [] \<or> map fst joinVars = map fst (Vars jn) \<Longrightarrow>
    \<exists>jv out. join_outer jn bv collect lf lrows (False, joinVars, acc) = Ret (None, False, jv, acc @ out) \<and>
      (jv = [] \<or> map fst jv = map fst (Vars jn)) \<and> concat (map Rows out) = concat (map (joined jn rrows bv) lrows)"
proof (induction lrows arbitrary: joinVars acc)
  case (Cons l ls)
  have okl: "join_ok jn (length l) nr" using ok Cons.prems(1) by simp
  have v: "set_vars (Vars jn) l joinVars = Ret (row_vars (Vars jn) l)" by (rule set_vars_row [OF okl Cons.prems(2)])
  let ?bv = "combineVars bv (row_vars (Vars jn) l)"
  obtain rs where rs: "Stream_of (JRight jn) ?bv False = (rs, None)" "concat (map Rows rs) = rrows ?bv"
    and w: "list_all (\<lambda>x. length x = nr) (rrows ?bv)"
    using deliversD(3) [OF right, of ?bv False] deliversD(4) [OF right] by blast
  obtain o1 sent where o1: "feed (join_inner jn lf l collect) rs None (False, False, acc) = Ret (None, False, sent, acc @ o1)"
    "concat (map Rows o1) = map (join_row (Cols jn) l) (rrows ?bv)"
    using feed_inner [OF okl, of rs lf False acc] w rs(2) by auto
  obtain jv o2 where o2: "join_outer jn bv collect lf ls (False, row_vars (Vars jn) l, acc @ o1) = Ret (None, False, jv, (acc @ o1) @ o2)"
    "jv = [] \<or> map fst jv = map fst (Vars jn)" "concat (map Rows o2) = concat (map (joined jn rrows bv) ls)"
    using Cons.IH [of "row_vars (Vars jn) l" "acc @ o1"] Cons.prems(1) row_vars_keys by auto
  show ?case
    using v rs(1) o1 o2 normal
    by (intro exI [of _ jv] exI [of _ "o1 @ o2"]) (simp add: StreamExecute_of_def joined_def [of _ _ _ l])
qed simp

lemma feed_outer:
  assumes ok: "join_ok jn nl nr" and right: "delivers (JRight jn) nr rrows" and normal: "Opcode jn = NormalJoin"
  shows "list_all (\<lambda>l. length l = nl) (concat (map Rows rs)) \<Longrightarrow> joinVars = [] \<or> map fst joinVars = map fst (Vars jn) \<Longrightarrow>
    \<exists>jv out. feed (\<lambda>r s. join_outer jn bv collect (Fields r) (Rows r) s) rs None (False, joinVars, acc) =
        Ret (None, False, jv, acc @ out) \<and>
      concat (map Rows out) = concat (map (joined jn rrows bv) (concat (map Rows rs)))"
proof (induction rs arbitrary: joinVars acc)
  case (Cons r rs)
  obtain jv o1 where o1: "join_outer jn bv collect (Fields r) (Rows r) (False, joinVars, acc) = Ret (None, False, jv, acc @ o1)"
    "jv = [] \<or> map fst jv = map fst (Vars jn)" "concat (map Rows o1) = concat (map (joined jn rrows bv) (Rows r))"
    using join_outer_rows [OF ok right normal, of "Rows r" joinVars bv "Fields r" acc] Cons.prems by auto
  obtain jv2 o2 where "feed (\<lambda>r s. join_outer jn bv collect (Fields r) (Rows r) s) rs None (False, jv, acc @ o1) =
      Ret (None, False, jv2, (acc @ o1) @ o2)"
      "concat (map Rows o2) = concat (map (joined jn rrows bv) (concat (map Rows rs)))"
    using Cons.IH [OF _ o1(2), of "acc @ o1"] Cons.prems(1) by auto
  with o1 show ?case by (intro exI [of _ jv2] exI [of _ "o1 @ o2"]) simp
qed simp

lemma null_vars_keys: "distinct (map fst ds @ map fst vs) \<Longrightarrow> map fst (null_vars vs ds) = map fst ds @ map fst vs"
proof (induction vs arbitrary: ds)
  case (Cons x vs)
  then have "null_vars (x # vs) ds = null_vars vs (ds @ [(fst x, ValueBindVariable NULL_value)])"
    by (simp add: null_vars_def update_new case_prod_beta)
  with Cons show ?case by simp
qed (simp add: null_vars_def)

lemma Join_Execute_rows:
  assumes ok: "join_ok jn nl nr" and left: "delivers (JLeft jn) nl lrows" and right: "delivers (JRight jn) nr rrows"
  shows "\<exists>res. Join_Execute jn bv want = Ret (Inr res) \<and> Rows res = concat (map (joined jn rrows bv) (lrows bv))"
proof -
  obtain l where l: "Execute_of (JLeft jn) bv want = Ret (Inr l)" "Rows l = lrows bv" "want \<longrightarrow> length (Fields l) = nl"
    and w: "list_all (\<lambda>x. length x = nl) (lrows bv)"
    using deliversD(1) [OF left, of bv want] deliversD(4) [OF left] by blast
  show ?thesis
  proof (cases "Rows l = [] \<and> want")
    case True
    obtain r where r: "GetFields_of (JRight jn) (combineVars bv (null_vars (Vars jn) [])) = Ret (Inr r)" "length (Fields r) = nr"
      using deliversD(2) [OF right] by blast
    obtain flds where "joinFields (Fields l) (Fields r) (Cols jn) = Ret flds" using joinFields_ok [OF ok] l(3) r(2) True by blast
    then show ?thesis using True l r by (simp add: Join_Execute_def empty_result_def)
  next
    case False
    then show ?thesis
      using join_loop_rows [OF ok right, of "lrows bv" "[]" want "Fields l" bv empty_result] w l
      by (auto simp: Join_Execute_def empty_result_def)
  qed
qed

lemma Join_StreamExecute_rows:
  assumes ok: "join_ok jn nl nr" and left: "delivers (JLeft jn) nl lrows" and right: "delivers (JRight jn) nr rrows"
    and normal: "Opcode jn = NormalJoin"
  shows "\<exists>out. Join_StreamExecute jn bv want collect [] = Ret (None, out) \<and>
    concat (map Rows out) = concat (map (joined jn rrows bv) (lrows bv))"
proof -
  obtain rs where rs: "Stream_of (JLeft jn) bv want = (rs, None)" "concat (map Rows rs) = lrows bv"
      "want \<longrightarrow> (\<exists>r rs'. rs = r # rs' \<and> Rows r = [] \<and> length (Fields r) = nl)"
    and w: "list_all (\<lambda>x. length x = nl) (lrows bv)"
    using deliversD(3) [OF left, of bv want] deliversD(4) [OF left] by blast
  note step = feed_outer [OF ok right normal]
  show ?thesis
  proof (cases want)
    case False
    then show ?thesis
      using step [of rs "[]" bv "[]"] rs(1,2) w by (auto simp: Join_StreamExecute_def StreamExecute_of_def)
  next
    case True
    then obtain r rs' where r: "rs = r # rs'" "Rows r = []" "length (Fields r) = nl" using rs(3) by blast
    obtain f where f: "GetFields_of (JRight jn) (combineVars bv (null_vars (Vars jn) [])) = Ret (Inr f)" "length (Fields f) = nr"
      using deliversD(2) [OF right] by blast
    obtain flds where flds: "joinFields (Fields r) (Fields f) (Cols jn) = Ret flds" using joinFields_ok [OF ok r(3) f(2)] by blast
    have "map fst (null_vars (Vars jn) []) = map fst (Vars jn)"
      using null_vars_keys [of "[]" "Vars jn"] ok by (simp add: join_ok_def)
    then show ?thesis
      using step [of rs' "null_vars (Vars jn) []" bv "[empty_result\<lparr>Fields := flds\<rparr>]"] rs(1,2) w r f flds True
      by (auto simp: Join_StreamExecute_def StreamExecute_of_def Let_def collect_def empty_result_def)
  qed
qed

subsection \<open>OrderedAggregate\<close>

datatype AggregateOpcode = AggregateCount | AggregateSum | AggregateMin | AggregateMax | AggregateOther int

record OrderedAggregate =
  Aggregates :: "(AggregateOpcode \<times> nat) list"
  OKeys :: "nat list"
  TruncateColumnCount :: nat
  OInput :: prim

fun keysEqual :: "'f float_ops \<Rightarrow> nat list \<Rightarrow> row \<Rightarrow> row \<Rightarrow> (engine_error + bool) go" where
  "keysEqual F [] row1 row2 = Ret (Inr True)"
| "keysEqual F (key # keys) row1 row2 =
     go_bind (slice_index row1 key) (\<lambda>v1. go_bind (slice_index row2 key) (\<lambda>v2.
       case NullsafeCompare F v1 v2 of
         Inl err \<Rightarrow> Ret (Inl (ValueErr err))
       | Inr cmp \<Rightarrow> if cmp \<noteq> 0 then Ret (Inr False) else keysEqual F keys row1 row2))"

definition value_res :: "value_error + 'a \<Rightarrow> engine_error + 'a" where
  "value_res r = map_sum ValueErr id r"

definition aggregate_value ::
  "'f float_ops \<Rightarrow> Field list \<Rightarrow> AggregateOpcode \<Rightarrow> nat \<Rightarrow> Value \<Rightarrow> Value \<Rightarrow> (engine_error + Value) go" where
  "aggregate_value F flds opcode col v1 v2 =
     (case opcode of
        AggregateMin \<Rightarrow> Ret (value_res (Min_value F v1 v2))
      | AggregateMax \<Rightarrow> Ret (value_res (Max_value F v1 v2))
      | AggregateOther n \<Rightarrow> Ret (Inl (UnexpectedOpcode n))
      | _ \<Rightarrow>
          go_bind (slice_index flds col) (\<lambda>f. go_bind (NullsafeAdd F v1 v2 (ftype f)) (\<lambda>r. Ret (value_res r))))"

fun merge_from ::
  "'f float_ops \<Rightarrow> Field list \<Rightarrow> row \<Rightarrow> row \<Rightarrow> (AggregateOpcode \<times> nat) list \<Rightarrow> row \<Rightarrow> (engine_error + row) go" where
  "merge_from F flds row1 row2 [] result = Ret (Inr result)"
| "merge_from F flds row1 row2 ((AggregateOther n, col) # aggrs) result = Ret (Inl (UnexpectedOpcode n))"
| "merge_from F flds row1 row2 ((opcode, col) # aggrs) result =
     go_bind (slice_index row1 col) (\<lambda>v1. go_bind (slice_index row2 col) (\<lambda>v2.
       go_try (aggregate_value F flds opcode col v1 v2) (\<lambda>v. merge_from F flds row1 row2 aggrs (result[col := v]))))"

definition merge :: "'f float_ops \<Rightarrow> OrderedAggregate \<Rightarrow> Field list \<Rightarrow> row \<Rightarrow> row \<Rightarrow> (engine_error + row) go" where
  "merge F oa flds row1 row2 = merge_from F flds row1 row2 (Aggregates oa) row1"

text \<open>The loop over the rows of \<^verbatim>\<open>execute\<close>, with the group at hand and the rows that are out.\<close>

fun aggregate_rows ::
  "'f float_ops \<Rightarrow> OrderedAggregate \<Rightarrow> Field list \<Rightarrow> row list \<Rightarrow> row option \<Rightarrow> row list \<Rightarrow>
     (engine_error + row option \<times> row list) go" where
  "aggregate_rows F oa flds [] current out = Ret (Inr (current, out))"
| "aggregate_rows F oa flds (row # rows) current out =
     (case current of
        None \<Rightarrow> aggregate_rows F oa flds rows (Some row) out
      | Some cur \<Rightarrow>
          go_try (keysEqual F (OKeys oa) cur row) (\<lambda>equal.
            if equal then
              go_try (merge F oa flds cur row) (\<lambda>cur1. aggregate_rows F oa flds rows (Some cur1) out)
            else aggregate_rows F oa flds rows (Some row) (out @ [cur])))"

definition oa_execute :: "'f float_ops \<Rightarrow> OrderedAggregate \<Rightarrow> bind_vars \<Rightarrow> bool \<Rightarrow> (engine_error + Result) go" where
  "oa_execute F oa bindVars wantfields =
     go_try (Execute_of (OInput oa) bindVars wantfields) (\<lambda>result.
     go_try (aggregate_rows F oa (Fields result) (Rows result) None []) (\<lambda>(current, out).
       let rows = (case current of None \<Rightarrow> out | Some cur \<Rightarrow> out @ [cur]) in
       Ret (Inr \<lparr>Fields = Fields result, RowsAffected = of_nat (length rows), InsertID = 0, Rows = rows,
                 Extras = Extras result\<rparr>)))"

definition OrderedAggregate_Execute ::
  "'f float_ops \<Rightarrow> OrderedAggregate \<Rightarrow> bind_vars \<Rightarrow> bool \<Rightarrow> (engine_error + Result) go" where
  "OrderedAggregate_Execute F oa bindVars wantfields =
     go_try (oa_execute F oa bindVars wantfields) (\<lambda>qr.
       go_bind (Truncate (TruncateColumnCount oa) qr) (\<lambda>r. Ret (Inr r)))"

definition truncating :: "nat \<Rightarrow> 'c callback \<Rightarrow> 'c callback" where
  "truncating n cb qr c = go_bind (Truncate n qr) (\<lambda>r. cb r c)"

fun stream_rows ::
  "'f float_ops \<Rightarrow> OrderedAggregate \<Rightarrow> 'c callback \<Rightarrow> Field list \<Rightarrow> row list \<Rightarrow> row option \<Rightarrow> 'c \<Rightarrow>
     (engine_error option \<times> row option \<times> 'c) go" where
  "stream_rows F oa cb flds [] current c = Ret (None, current, c)"
| "stream_rows F oa cb flds (row # rows) current c =
     (case current of
        None \<Rightarrow> stream_rows F oa cb flds rows (Some row) c
      | Some cur \<Rightarrow>
          go_bind (keysEqual F (OKeys oa) cur row) (\<lambda>r. case r of
            Inl err \<Rightarrow> Ret (Some err, current, c)
          | Inr True \<Rightarrow>
              go_bind (merge F oa flds cur row) (\<lambda>r2. case r2 of
                Inl err \<Rightarrow> Ret (Some err, None, c)
              | Inr cur1 \<Rightarrow> stream_rows F oa cb flds rows (Some cur1) c)
          | Inr False \<Rightarrow>
              go_bind (truncating (TruncateColumnCount oa) cb (empty_result\<lparr>Rows := [cur]\<rparr>) c) (\<lambda>(err, c1).
                case err of
                  Some e \<Rightarrow> Ret (Some e, current, c1)
                | None \<Rightarrow> stream_rows F oa cb flds rows (Some row) c1)))"

text \<open>The callback of \<^verbatim>\<open>OrderedAggregate.StreamExecute\<close>, with the fields and the group at hand as state.\<close>

definition oa_callback :: "'f float_ops \<Rightarrow> OrderedAggregate \<Rightarrow> 'c callback \<Rightarrow> (Field list \<times> row option \<times> 'c) callback" where
  "oa_callback F oa cb qr s =
     (case s of (flds, current, c) \<Rightarrow>
        let flds1 = (if length (Fields qr) \<noteq> 0 then Fields qr else flds) in
        go_bind
          (if length (Fields qr) \<noteq> 0
           then truncating (TruncateColumnCount oa) cb (empty_result\<lparr>Fields := flds1\<rparr>) c else Ret (None, c)) (\<lambda>(err, c1).
          case err of
            Some e \<Rightarrow> Ret (Some e, flds1, current, c1)
          | None \<Rightarrow>
              go_bind (stream_rows F oa cb flds1 (Rows qr) current c1) (\<lambda>(err2, current2, c2).
                Ret (err2, flds1, current2, c2))))"

definition OrderedAggregate_StreamExecute ::
  "'f float_ops \<Rightarrow> OrderedAggregate \<Rightarrow> bind_vars \<Rightarrow> bool \<Rightarrow> 'c callback \<Rightarrow> 'c \<Rightarrow> (engine_error option \<times> 'c) go" where
  "OrderedAggregate_StreamExecute F oa bindVars wantfields cb c =
     go_bind (StreamExecute_of (OInput oa) bindVars wantfields (oa_callback F oa cb) ([], None, c))
       (\<lambda>(err, _, current, c1).
          case err of
            Some e \<Rightarrow> Ret (Some e, c1)
          | None \<Rightarrow>
              (case current of
                 None \<Rightarrow> Ret (None, c1)
               | Some cur \<Rightarrow> truncating (TruncateColumnCount oa) cb (empty_result\<lparr>Rows := [cur]\<rparr>) c1))"

definition OrderedAggregate_GetFields :: "OrderedAggregate \<Rightarrow> bind_vars \<Rightarrow> (engine_error + Result) go" where
  "OrderedAggregate_GetFields oa bindVars =
     go_try (GetFields_of (OInput oa) bindVars) (\<lambda>qr.
       go_bind (Truncate (TruncateColumnCount oa) qr) (\<lambda>r. Ret (Inr r)))"

subsubsection \<open>Counting by an integer key\<close>

text \<open>A row of a key and a count, and what becomes of such rows: neighbours with the same key are summed up.\<close>

definition count_row :: "int \<times> int \<Rightarrow> row" where
  "count_row p = [NewInt64 (fst p), NewInt64 (snd p)]"

fun sum_runs :: "(int \<times> int) list \<Rightarrow> (int \<times> int) list" where
  "sum_runs [] = []"
| "sum_runs [p] = [p]"
| "sum_runs (p # q # ps) =
     (if fst p = fst q then sum_runs ((fst p, snd p + snd q) # ps) else p # sum_runs (q # ps))"

definition counts_ok :: "(int \<times> int) list \<Rightarrow> bool" where
  "counts_ok ps \<longleftrightarrow>
     list_all (\<lambda>(k, n). - (2 ^ 63) \<le> k \<and> k < 2 ^ 63 \<and> 0 \<le> n) ps \<and> sum_list (map snd ps) < 2 ^ 63"

definition counting :: "OrderedAggregate \<Rightarrow> bool" where
  "counting oa \<longleftrightarrow>
     OKeys oa = [0] \<and> (Aggregates oa = [(AggregateCount, 1)] \<or> Aggregates oa = [(AggregateSum, 1)]) \<and> TruncateColumnCount oa = 0"

lemma int_value_NewInt64: "- (2 ^ 63) \<le> i \<Longrightarrow> i < 2 ^ 63 \<Longrightarrow> int_value (NewInt64 i) i"
  by (simp add: int_value_def NewInt64_def type_tests MakeTrusted_def)

fun run_split :: "int \<times> int \<Rightarrow> (int \<times> int) list \<Rightarrow> (int \<times> int) list \<times> (int \<times> int)" where
  "run_split p [] = ([], p)"
| "run_split p (q # qs) =
     (if fst p = fst q then run_split (fst p, snd p + snd q) qs
      else (p # fst (run_split q qs), snd (run_split q qs)))"

lemma run_split_sum_runs: "sum_runs (p # ps @ qs) = fst (run_split p ps) @ sum_runs (snd (run_split p ps) # qs)"
  by (induction p ps rule: run_split.induct) auto

lemma counts_ok_Cons:
  "counts_ok (p # ps) \<longleftrightarrow> - (2 ^ 63) \<le> fst p \<and> fst p < 2 ^ 63 \<and> 0 \<le> snd p \<and> counts_ok ps \<and> snd p + sum_list (map snd ps) < 2 ^ 63"
proof -
  have "0 \<le> sum_list (map snd ps)" if "list_all (\<lambda>(k, n). - (2 ^ 63) \<le> k \<and> k < 2 ^ 63 \<and> 0 \<le> n) ps"
    using that by (intro sum_list_nonneg) (auto simp: list_all_iff)
  then show ?thesis by (auto simp: counts_ok_def)
qed

lemma counts_nonneg: "counts_ok ps \<Longrightarrow> 0 \<le> sum_list (map snd ps)"
  by (intro sum_list_nonneg) (auto simp: counts_ok_def list_all_iff)

lemma counts_ok_append: "counts_ok (xs @ ys) \<Longrightarrow> counts_ok xs \<and> counts_ok ys"
proof -
  assume c: "counts_ok (xs @ ys)"
  have "0 \<le> sum_list (map snd zs)" if "zs = xs \<or> zs = ys" for zs
    using c that by (intro sum_list_nonneg) (auto simp: counts_ok_def list_all_iff)
  from this [of xs] this [of ys] c show ?thesis by (auto simp: counts_ok_def)
qed

lemma counts_ok_merge: "counts_ok (p # q # ps) \<Longrightarrow> counts_ok ((fst p, snd p + snd q) # ps)"
  by (auto simp: counts_ok_Cons)

lemma run_split_counts: "counts_ok (p # ps @ qs) \<Longrightarrow> counts_ok (snd (run_split p ps) # qs)"
proof (induction p ps rule: run_split.induct)
  case (2 p q ps)
  show ?case
  proof (cases "fst p = fst q")
    case True
    then show ?thesis using "2.IH"(1) "2.prems" counts_ok_merge [of p q "ps @ qs"] by simp
  next
    case False
    have "counts_ok (q # ps @ qs)" using "2.prems" by (simp add: counts_ok_Cons [of p])
    then show ?thesis using "2.IH"(2) [OF False] False by simp
  qed
qed simp

lemma keysEqual_count:
  assumes "counts_ok (p # q # ps)"
  shows "keysEqual F [0] (count_row p) (count_row q) = Ret (Inr (fst p = fst q))"
proof -
  have "int_value (NewInt64 (fst p)) (fst p)" "int_value (NewInt64 (fst q)) (fst q)"
    using assms by (simp_all add: counts_ok_Cons int_value_NewInt64)
  from NullsafeCompare_ints [OF this, of F] show ?thesis
    by (simp add: count_row_def slice_index_def sgn_if)
qed

lemma NullsafeAdd_counts:
  assumes "0 \<le> a" "0 \<le> b" "a + b < 2 ^ 63"
  shows "NullsafeAdd F (NewInt64 a) (NewInt64 b) T_Int64 = Ret (Inr (NewInt64 (a + b)))"
proof -
  have num: "newNumeric F (NewInt64 i) = Inr (NInt i)" "\<not> Value_IsNull (NewInt64 i)" if "0 \<le> i" "i < 2 ^ 63" for i
  proof -
    have "parse_int 64 (format_int i) = Some i" using that by (intro parse_int_format_int) auto
    then show "newNumeric F (NewInt64 i) = Inr (NInt i)" "\<not> Value_IsNull (NewInt64 i)"
      by (simp_all add: newNumeric_def NewInt64_def MakeTrusted_def Value_ToString_def Value_IsNull_def type_tests)
  qed
  have "intPlusInt F a b = NInt (a + b)" using assms by (simp add: intPlusInt_def Let_def)
  then show ?thesis
    using assms num [of a] num [of b]
    by (simp add: NullsafeAdd_def addNumeric_def prioritize_def castFromNumeric_def type_tests NewInt64_def)
qed

lemma merge_count:
  assumes "counting oa" "counts_ok (p # q # ps)" "1 < length flds" "ftype (flds ! 1) = T_Int64"
  shows "merge F oa flds (count_row p) (count_row q) = Ret (Inr (count_row (fst p, snd p + snd q)))"
proof -
  have "0 \<le> snd p" "0 \<le> snd q" "snd p + snd q < 2 ^ 63"
    using assms(2) counts_nonneg [of ps] by (auto simp: counts_ok_Cons)
  from NullsafeAdd_counts [OF this, of F] assms show ?thesis
    by (auto simp: merge_def counting_def count_row_def slice_index_def aggregate_value_def value_res_def)
qed

lemma aggregate_count:
  assumes "counting oa" "1 < length flds" "ftype (flds ! 1) = T_Int64"
  shows "counts_ok (p # ps) \<Longrightarrow> aggregate_rows F oa flds (map count_row ps) (Some (count_row p)) out =
    Ret (Inr (Some (count_row (snd (run_split p ps))), out @ map count_row (fst (run_split p ps))))"
proof (induction p ps arbitrary: out rule: run_split.induct)
  case (2 p q ps)
  have k: "OKeys oa = [0]" using assms(1) by (simp add: counting_def)
  note eq = keysEqual_count [OF "2.prems", of F] merge_count [OF assms(1) "2.prems" assms(2,3), of F]
  show ?case
  proof (cases "fst p = fst q")
    case True
    then show ?thesis using "2.IH"(1) [OF True counts_ok_merge [OF "2.prems"]] eq by (simp add: k)
  next
    case False
    have "counts_ok (q # ps)" using "2.prems" by (simp add: counts_ok_Cons [of p])
    then show ?thesis using "2.IH"(2) [OF False] eq False by (simp add: k)
  qed
qed simp

lemma stream_count:
  assumes "counting oa" "1 < length flds" "ftype (flds ! 1) = T_Int64"
  shows "counts_ok (p # ps) \<Longrightarrow> stream_rows F oa collect flds (map count_row ps) (Some (count_row p)) acc =
    Ret (None, Some (count_row (snd (run_split p ps))),
      acc @ map (\<lambda>x. empty_result\<lparr>Rows := [count_row x]\<rparr>) (fst (run_split p ps)))"
proof (induction p ps arbitrary: acc rule: run_split.induct)
  case (2 p q ps)
  have k: "OKeys oa = [0]" "TruncateColumnCount oa = 0" using assms(1) by (simp_all add: counting_def)
  note eq = keysEqual_count [OF "2.prems", of F] merge_count [OF assms(1) "2.prems" assms(2,3), of F]
  show ?case
  proof (cases "fst p = fst q")
    case True
    then show ?thesis using "2.IH"(1) [OF True counts_ok_merge [OF "2.prems"]] eq by (simp add: k)
  next
    case False
    have "counts_ok (q # ps)" using "2.prems" by (simp add: counts_ok_Cons [of p])
    then show ?thesis
      using "2.IH"(2) [OF False] eq False by (simp add: k truncating_def Truncate_def collect_def)
  qed
qed simp

text \<open>A stream of count rows in parts, after some current row.\<close>

definition pending :: "(int \<times> int) option \<Rightarrow> (int \<times> int) list" where
  "pending cur = (case cur of None \<Rightarrow> [] | Some p \<Rightarrow> [p])"

lemma stream_part:
  assumes "counting oa" "1 < length flds" "ftype (flds ! 1) = T_Int64" "counts_ok (pending cur @ ps @ qs)"
  shows "\<exists>cur' o'. stream_rows F oa collect flds (map count_row ps) (map_option count_row cur) acc =
      Ret (None, map_option count_row cur', acc @ map (\<lambda>x. empty_result\<lparr>Rows := [count_row x]\<rparr>) o') \<and>
    sum_runs (pending cur @ ps @ qs) = o' @ sum_runs (pending cur' @ qs) \<and> counts_ok (pending cur' @ qs)"
proof -
  have step: ?thesis if "pending cur @ ps = p # rs" and
    eq: "stream_rows F oa collect flds (map count_row ps) (map_option count_row cur) acc =
      stream_rows F oa collect flds (map count_row rs) (Some (count_row p)) acc" for p rs
  proof -
    have all: "pending cur @ ps @ qs = p # rs @ qs" using that(1) by (metis append.assoc append_Cons)
    have "counts_ok (p # rs @ qs)" using assms(4) all by simp
    then have "counts_ok (p # rs)" using counts_ok_append [of "p # rs" qs] by simp
    from stream_count [OF assms(1-3) this, of F acc] all run_split_sum_runs [of p rs qs] run_split_counts [OF \<open>counts_ok (p # rs @ qs)\<close>]
    show ?thesis unfolding eq all
      by (intro exI [of _ "Some (snd (run_split p rs))"] exI [of _ "fst (run_split p rs)"]) (simp add: pending_def)
  qed
  show ?thesis
  proof (cases cur)
    case (Some p)
    then show ?thesis by (intro step [of p ps]) (simp_all add: pending_def)
  next
    case None
    show ?thesis
    proof (cases ps)
      case Nil
      then show ?thesis using None assms(4) by (intro exI [of _ None] exI [of _ "[]"]) (simp add: pending_def)
    next
      case (Cons p rs)
      then show ?thesis using None by (intro step [of p rs]) (simp_all add: pending_def)
    qed
  qed
qed

text \<open>The parts of a stream with the given fields.\<close>

definition parts_ok :: "Field list \<Rightarrow> Result list \<Rightarrow> bool" where
  "parts_ok flds rs \<longleftrightarrow> 1 < length flds \<and> ftype (flds ! 1) = T_Int64 \<and> list_all (\<lambda>r. Fields r = [] \<or> Fields r = flds) rs"

lemma feed_count:
  assumes "counting oa" "parts_ok flds rs" "concat (map Rows rs) = map count_row ps" "counts_ok (pending cur @ ps)"
  shows "\<exists>cur' out. feed (oa_callback F oa collect) rs None (flds, map_option count_row cur, acc) =
      Ret (None, flds, map_option count_row cur', acc @ out) \<and>
    map count_row (sum_runs (pending cur @ ps)) = concat (map Rows out) @ map count_row (pending cur')"
  using assms(2-)
proof (induction rs arbitrary: cur ps acc)
  case Nil
  then show ?case
    by (intro exI [of _ cur] exI [of _ "[]"]) (simp add: pending_def split: option.splits)
next
  case (Cons r rs)
  have flds: "1 < length flds" "ftype (flds ! 1) = T_Int64" "Fields r = [] \<or> Fields r = flds" and rest: "parts_ok flds rs"
    using Cons.prems(1) by (simp_all add: parts_ok_def)
  from Cons.prems(2) obtain as qs where ps: "ps = as @ qs" "Rows r = map count_row as" "concat (map Rows rs) = map count_row qs"
    by (auto simp: append_eq_map_conv)
  let ?acc = "acc @ field_part r"
  obtain cur1 o1 where o1: "stream_rows F oa collect flds (map count_row as) (map_option count_row cur) ?acc =
      Ret (None, map_option count_row cur1, ?acc @ map (\<lambda>x. empty_result\<lparr>Rows := [count_row x]\<rparr>) o1)"
    "sum_runs (pending cur @ as @ qs) = o1 @ sum_runs (pending cur1 @ qs)" "counts_ok (pending cur1 @ qs)"
    using stream_part [OF assms(1) flds(1,2), of cur as qs F ?acc] Cons.prems(3) ps(1) by auto
  let ?o1 = "map (\<lambda>x. empty_result\<lparr>Rows := [count_row x]\<rparr>) o1"
  obtain cur2 o2 where o2: "feed (oa_callback F oa collect) rs None (flds, map_option count_row cur1, ?acc @ ?o1) =
      Ret (None, flds, map_option count_row cur2, (?acc @ ?o1) @ o2)"
    "map count_row (sum_runs (pending cur1 @ qs)) = concat (map Rows o2) @ map count_row (pending cur2)"
    using Cons.IH [OF rest ps(3) o1(3), of "?acc @ ?o1"] by auto
  have "oa_callback F oa collect r (flds, map_option count_row cur, acc) =
      Ret (None, flds, map_option count_row cur1, ?acc @ ?o1)"
    using o1(1) flds(3) assms(1) ps(2)
    by (auto simp: oa_callback_def field_part_def collect_def truncating_def Truncate_def counting_def Let_def)
  moreover have "concat (map Rows ?o1) = map count_row o1" by (induction o1) simp_all
  ultimately show ?case
    using o1(2) o2 ps(1)
    by (intro exI [of _ cur2] exI [of _ "field_part r @ ?o1 @ o2"]) simp
qed

lemma sum_runs_hd: "ps \<noteq> [] \<Longrightarrow> sum_runs ps \<noteq> [] \<and> fst (hd (sum_runs ps)) = fst (hd ps)"
  by (induction ps rule: sum_runs.induct) auto

definition total_of :: "(int \<times> int) list \<Rightarrow> int \<Rightarrow> int" where
  "total_of ps k = sum_list (map snd (filter (\<lambda>p. fst p = k) ps))"

text \<open>Of rows in the order of the keys, the groups are the keys with their totals.\<close>

lemma sum_runs_sorted:
  "sorted (map fst ps) \<Longrightarrow> sum_runs ps = map (\<lambda>k. (k, total_of ps k)) (remdups_adj (map fst ps))"
proof (induction ps rule: sum_runs.induct)
  case (2 p)
  then show ?case by (simp add: total_of_def)
next
  case (3 p q ps)
  show ?case
  proof (cases "fst p = fst q")
    case True
    have "total_of ((fst p, snd p + snd q) # ps) k = total_of (p # q # ps) k" for k
      using True by (simp add: total_of_def)
    then show ?thesis using 3 True by simp
  next
    case False
    have s: "sorted (map fst (q # ps))" and lt: "\<forall>x\<in>set (q # ps). fst p < fst x" using 3(3) False by auto
    have none: "total_of (p # q # ps) (fst p) = snd p"
    proof -
      have "filter (\<lambda>x. fst x = fst p) (q # ps) = []" using lt by (intro filter_False) auto
      then show ?thesis by (simp add: total_of_def)
    qed
    have "(k, total_of (q # ps) k) = (k, total_of (p # q # ps) k)" if "k \<in> set (remdups_adj (map fst (q # ps)))" for k
      using that lt by (auto simp: total_of_def)
    then have "map (\<lambda>k. (k, total_of (q # ps) k)) (remdups_adj (map fst (q # ps))) =
        map (\<lambda>k. (k, total_of (p # q # ps) k)) (remdups_adj (map fst (q # ps)))" by (intro map_cong) auto
    then show ?thesis using 3(2) [OF False s] False none by simp
  qed
qed simp

lemma fetch_range: "fetch pv bindVars = Ret (Inr n) \<Longrightarrow> 0 \<le> n \<and> n < 2 ^ 63"
proof (cases "ResolveValue pv bindVars")
  case (Inr v)
  assume "fetch pv bindVars = Ret (Inr n)"
  then show ?thesis
    using Inr int64_range(2) by (cases "ToUint64 v" rule: go.exhaust) (auto simp: fetch_def Let_def split: sum.splits if_splits)
qed (simp add: fetch_def)

lemma fetchOffset_range: "fetchOffset l bindVars = Ret (Inr n) \<Longrightarrow> 0 \<le> n \<and> n < 2 ^ 63"
  using fetch_range by (auto simp: fetchOffset_def split: if_splits)

lemma Limit_StreamExecute_rows:
  assumes "fetchCount l bindVars = Ret (Inr count)" "PlanValue_IsNull (Offset l)"
    and "Stream_of (LInput l) (upper_limit count bindVars) wantfields = (rs, None)"
  shows "\<exists>out. Limit_StreamExecute l bindVars wantfields collect [] = Ret (None, out) \<and>
    concat (map Rows out) = take (nat count) (concat (map Rows rs))"
proof -
  have c: "0 \<le> count" "int64 count = count" using fetch_range [of "Count l" bindVars count] assms(1) by (auto simp: fetchCount_def)
  show ?thesis
    using feed_limit [OF c(1), of rs "[]"] assms by (auto simp: Limit_StreamExecute_def StreamExecute_of_def c(2))
qed

lemma OrderedAggregate_Execute_counts:
  assumes "counting oa" "counts_ok ps" "Execute_of (OInput oa) bv want = Ret (Inr r)" "Rows r = map count_row ps"
    and "1 < length (Fields r)" "ftype (Fields r ! 1) = T_Int64"
  shows "\<exists>r'. OrderedAggregate_Execute F oa bv want = Ret (Inr r') \<and> Rows r' = map count_row (sum_runs ps)"
proof (cases ps)
  case Nil
  then show ?thesis
    using assms by (simp add: OrderedAggregate_Execute_def oa_execute_def Truncate_def counting_def)
next
  case (Cons p qs)
  have "sum_runs ps = fst (run_split p qs) @ [snd (run_split p qs)]" using run_split_sum_runs [of p qs "[]"] Cons by simp
  then show ?thesis
    using aggregate_count [OF assms(1,5,6), of p qs F "[]"] assms Cons
    by (simp add: OrderedAggregate_Execute_def oa_execute_def Truncate_def counting_def)
qed

lemma OrderedAggregate_StreamExecute_counts:
  assumes "counting oa" "counts_ok ps" "Stream_of (OInput oa) bv want = (r # rs, None)"
    and "concat (map Rows (r # rs)) = map count_row ps" "parts_ok flds (r # rs)" "Fields r = flds"
  shows "\<exists>out. OrderedAggregate_StreamExecute F oa bv want collect [] = Ret (None, out) \<and>
    concat (map Rows out) = map count_row (sum_runs ps)"
proof -
  obtain cur out where s: "feed (oa_callback F oa collect) (r # rs) None (flds, None, []) = Ret (None, flds, map_option count_row cur, out)"
    "map count_row (sum_runs ps) = concat (map Rows out) @ map count_row (pending cur)"
    using feed_count [OF assms(1,5,4), of None F "[]"] assms(2) by (auto simp: pending_def)
  have "flds \<noteq> []" using assms(5) by (auto simp: parts_ok_def)
  then have "oa_callback F oa collect r ([], None, []) = oa_callback F oa collect r (flds, None, [])"
    using assms(6) by (simp add: oa_callback_def)
  with s(1) have "feed (oa_callback F oa collect) (r # rs) None ([], None, []) = Ret (None, flds, map_option count_row cur, out)" by simp
  then show ?thesis
    using s(2) assms(1,3)
    by (cases cur)
      (simp_all add: OrderedAggregate_StreamExecute_def StreamExecute_of_def pending_def truncating_def Truncate_def
        counting_def collect_def)
qed

subsection \<open>Two errors\<close>

text \<open>
  \<^verbatim>\<open>count+offset\<close> may overflow: the sum is then negative, less than the number of rows and than the offset, and the slice expression
  of \<^verbatim>\<open>Limit.Execute\<close> panics.
\<close>

lemma Limit_Execute_overflow:
  assumes "fetchCount l bindVars = Ret (Inr count)" "fetchOffset l bindVars = Ret (Inr offset)" "2 ^ 63 \<le> count + offset"
    and "Execute_of (LInput l) (upper_limit (int64 (count + offset)) bindVars) wantfields = Ret (Inr result)"
  shows "Limit_Execute l bindVars wantfields = Panic"
proof -
  have "0 \<le> count" "count < 2 ^ 63" "0 \<le> offset" "offset < 2 ^ 63"
    using fetch_range [of "Count l" bindVars count] fetchOffset_range [OF assms(2)] assms(1) by (auto simp: fetchCount_def)
  then have "int64 (count + offset) = count + offset - 2 ^ 64" using assms(3) by (simp add: int64_wrap)
  then have "int64 (count + offset) < 0" using \<open>count < 2 ^ 63\<close> \<open>offset < 2 ^ 63\<close> by simp
  then show ?thesis using assms \<open>0 \<le> offset\<close> by (simp add: Limit_Execute_def Let_def)
qed

text \<open>
  A streaming left join leaves the callback after the first row without a partner, so the rows that follow in the same part
  of the left side are lost: here the left side streams two rows in one part, neither has a partner, one row comes out.
\<close>

definition const_prim :: "Field list \<Rightarrow> row list \<Rightarrow> prim" where
  "const_prim flds rows = \<lparr>Execute_of = (\<lambda>_ _. Ret (Inr (empty_result\<lparr>Fields := flds, Rows := rows\<rparr>))),
    GetFields_of = (\<lambda>_. Ret (Inr (empty_result\<lparr>Fields := flds\<rparr>))),
    Stream_of = (\<lambda>_ want. ((if want then [empty_result\<lparr>Fields := flds\<rparr>] else []) @ [empty_result\<lparr>Rows := rows\<rparr>], None))\<rparr>"

lemma delivers_const_prim: "list_all (\<lambda>x. length x = length flds) rows \<Longrightarrow> delivers (const_prim flds rows) (length flds) (\<lambda>_. rows)"
  by (auto simp: delivers_def const_prim_def empty_result_def)

definition int_field :: Field where
  "int_field = \<lparr>fname = ''n'', ftype = T_Int64, fmeta = ([], [])\<rparr>"

lemma left_join_stream_loses_rows:
  "let jn = \<lparr>Opcode = LeftJoin, JLeft = const_prim [int_field] [[NewInt64 1], [NewInt64 2]],
             JRight = const_prim [] [], Cols = [- 1], Vars = []\<rparr> in
   (case Join_Execute jn [] False of Ret (Inr r) \<Rightarrow> Rows r = [[NewInt64 1], [NewInt64 2]] | _ \<Rightarrow> False) \<and>
   (case Join_StreamExecute jn [] False collect [] of Ret (e, out) \<Rightarrow> concat (map Rows out) = [[NewInt64 1]] | _ \<Rightarrow> False)"
  by (simp add: Let_def Join_Execute_def Join_StreamExecute_def StreamExecute_of_def const_prim_def join_inner_def
      joinRows_def index_int_def collect_def empty_result_def)

subsection \<open>Properties\<close>

text \<open>
  C17. \<^verbatim>\<open>Limit\<close> asks its input for \<^verbatim>\<open>count+offset\<close> rows and, when the input returns a result, returns the rows from the offset on,
  \<^verbatim>\<open>count\<close> at most, with their number as \<^verbatim>\<open>RowsAffected\<close>; when \<^verbatim>\<open>count+offset\<close> does not fit in 63 bits, it panics. Streaming is
  refused with an error when there is an offset; without one, the first \<^verbatim>\<open>count\<close> rows of an input that streams without an error
  are handed on, in however many parts they come, and the stream ends without an error.
\<close>
theorem Limit_page:
  assumes "fetchCount l bindVars = Ret (Inr count)" "fetchOffset l bindVars = Ret (Inr offset)"
    and "Execute_of (LInput l) (upper_limit (int64 (count + offset)) bindVars) wantfields = Ret (Inr result)"
    and "length (Rows result) < 2 ^ 63"
    and "Stream_of (LInput l) (upper_limit count bindVars) wantfields = (rs, None)"
  shows "(if count + offset < 2 ^ 63
      then \<exists>n. Limit_Execute l bindVars wantfields =
        Ret (Inr (result\<lparr>Rows := take (nat count) (drop (nat offset) (Rows result)), RowsAffected := n\<rparr>)) \<and>
        unat n = length (take (nat count) (drop (nat offset) (Rows result)))
      else Limit_Execute l bindVars wantfields = Panic) \<and>
    (if PlanValue_IsNull (Offset l)
     then \<exists>out. Limit_StreamExecute l bindVars wantfields collect [] = Ret (None, out) \<and>
       concat (map Rows out) = take (nat count) (concat (map Rows rs))
     else Limit_StreamExecute l bindVars wantfields collect [] = Ret (Some OffsetNotSupported, []))"
proof -
  have r: "0 \<le> count" "0 \<le> offset"
    using fetch_range [of "Count l" bindVars count] fetchOffset_range [OF assms(2)] assms(1) by (auto simp: fetchCount_def)
  then have "int64 (count + offset) = count + offset" if "count + offset < 2 ^ 63" using that by simp
  then show ?thesis
    using Limit_Execute_rows [OF assms(1,2) r _ _ assms(4)] Limit_Execute_overflow [OF assms(1,2) _ assms(3)] assms(3)
      Limit_StreamExecute_rows [OF assms(1) _ assms(5)] assms(1)
    by (auto simp: Limit_StreamExecute_def not_less)
qed

theorem Limit_page_witness:
  "let l = \<lparr>Count = PlanValue [] (NewInt64 1) [] None, Offset = PlanValue [] NULL_value [] None,
            LInput = const_prim [] [[NewInt64 1], [NewInt64 2]]\<rparr> in
   (\<exists>r. Limit_Execute l [] False = Ret (Inr r) \<and> Rows r = [[NewInt64 1]] \<and> unat (RowsAffected r) = 1) \<and>
   (\<exists>out. Limit_StreamExecute l [] False collect [] = Ret (None, out) \<and> concat (map Rows out) = [[NewInt64 1]]) \<and>
   Limit_Execute (l\<lparr>Count := PlanValue [] (NewInt64 9223372036854775807) [] None, Offset := PlanValue [] (NewInt64 1) [] None\<rparr>) [] False = Panic"
proof -
  let ?l = "\<lparr>Count = PlanValue [] (NewInt64 1) [] None, Offset = PlanValue [] NULL_value [] None,
    LInput = const_prim [] [[NewInt64 1], [NewInt64 2]]\<rparr>"
  let ?big = "?l\<lparr>Count := PlanValue [] (NewInt64 9223372036854775807) [] None, Offset := PlanValue [] (NewInt64 1) [] None\<rparr>"
  let ?r = "empty_result\<lparr>Rows := [[NewInt64 1], [NewInt64 2]]\<rparr>"
  have "parse_int 64 (format_int n) = Some n" if "0 \<le> n" "n < 2 ^ 63" for n using that by (intro parse_int_format_int) auto
  then have f: "fetch (PlanValue [] (NewInt64 n) [] None) [] = Ret (Inr n)" if "0 \<le> n" "n < 2 ^ 63" for n
    using that by (simp add: fetch_def ResolveValue_def Value_IsNull_def ToUint64_def newIntegralNumeric_def NewInt64_def
        MakeTrusted_def Value_ToString_def type_tests Let_def uint_word_of_int64)
  have n: "PlanValue_IsNull (Offset ?l)" by (simp add: PlanValue_IsNull_def NULL_value_def Value_IsNull_def)
  have nn: "\<not> PlanValue_IsNull (Offset ?big)" by (simp add: PlanValue_IsNull_def NewInt64_def MakeTrusted_def Value_IsNull_def type_tests)
  have c: "fetchCount ?l [] = Ret (Inr 1)" "fetchCount ?big [] = Ret (Inr 9223372036854775807)" by (simp_all add: fetchCount_def f)
  have o: "fetchOffset ?l [] = Ret (Inr 0)" "fetchOffset ?big [] = Ret (Inr 1)" using n nn by (simp_all add: fetchOffset_def f)
  have e: "Execute_of (LInput l) b False = Ret (Inr ?r)" if "LInput l = LInput ?l" for l b
    using that by (simp add: const_prim_def empty_result_def)
  have st: "Stream_of (LInput l) b False = ([?r], None)" if "LInput l = LInput ?l" for l b using that by (simp add: const_prim_def)
  show ?thesis
    using Limit_page [OF c(1) o(1) e _ st] Limit_page [OF c(2) o(2) e _ st] n by (auto simp: Let_def)
qed

text \<open>
  C16. A join over primitives that deliver rows returns, for every row of the left side in order, that row combined with each row
  that the right side has for its join variables, or with NULLs where a left join finds none; a normal join streams the same rows.
\<close>
theorem Join_rows:
  assumes "join_ok jn nl nr" "delivers (JLeft jn) nl lrows" "delivers (JRight jn) nr rrows"
  shows "(\<exists>res. Join_Execute jn bv want = Ret (Inr res) \<and> Rows res = concat (map (joined jn rrows bv) (lrows bv))) \<and>
    (Opcode jn = NormalJoin \<longrightarrow>
      (\<exists>out. Join_StreamExecute jn bv want collect [] = Ret (None, out) \<and>
        concat (map Rows out) = concat (map (joined jn rrows bv) (lrows bv))))"
  using Join_Execute_rows [OF assms] Join_StreamExecute_rows [OF assms] by blast

theorem Join_rows_witness:
  "let jn = \<lparr>Opcode = NormalJoin, JLeft = const_prim [int_field] [[NewInt64 1], [NewInt64 2]],
             JRight = const_prim [int_field] [[NewInt64 7]], Cols = [- 1, 1], Vars = [(''a'', 0)]\<rparr> in
   \<exists>out. Join_StreamExecute jn [] True collect [] = Ret (None, out) \<and>
     concat (map Rows out) = [[NewInt64 1, NewInt64 7], [NewInt64 2, NewInt64 7]]"
proof -
  let ?l = "[[NewInt64 1], [NewInt64 2]]" and ?r = "[[NewInt64 7]]"
  let ?jn = "\<lparr>Opcode = NormalJoin, JLeft = const_prim [int_field] ?l, JRight = const_prim [int_field] ?r,
    Cols = [- 1, 1], Vars = [(''a'', 0)]\<rparr>"
  have "join_ok ?jn 1 1" by (simp add: join_ok_def)
  moreover have "delivers (JLeft ?jn) 1 (\<lambda>_. ?l)" "delivers (JRight ?jn) 1 (\<lambda>_. ?r)"
    using delivers_const_prim [of "[int_field]" ?l] delivers_const_prim [of "[int_field]" ?r] by simp_all
  ultimately have "\<exists>out. Join_StreamExecute ?jn [] True collect [] = Ret (None, out) \<and>
      concat (map Rows out) = concat (map (joined ?jn (\<lambda>_. ?r) []) ?l)"
    using Join_rows [of ?jn 1 1 "\<lambda>_. ?l" "\<lambda>_. ?r" "[]" True] by simp
  moreover have "concat (map (joined ?jn (\<lambda>_. ?r) []) ?l) = [[NewInt64 1, NewInt64 7], [NewInt64 2, NewInt64 7]]"
    by (simp add: joined_def join_row_def Let_def)
  ultimately show ?thesis by (simp only: Let_def)
qed

text \<open>
  \<^verbatim>\<open>OrderedAggregate\<close> over rows of a key and a count that come in the order of the keys, at once or as a stream in parts,
  returns each key once, in order, with the total of its counts.
\<close>
theorem OrderedAggregate_totals:
  assumes "counting oa" "counts_ok ps" "sorted (map fst ps)"
    and "Execute_of (OInput oa) bv want = Ret (Inr r)" "Rows r = map count_row ps" "parts_ok (Fields r) (p # rs)"
    and "Stream_of (OInput oa) bv want = (p # rs, None)" "concat (map Rows (p # rs)) = map count_row ps" "Fields p = Fields r"
  shows "(\<exists>r'. OrderedAggregate_Execute F oa bv want = Ret (Inr r') \<and>
      Rows r' = map (\<lambda>k. count_row (k, total_of ps k)) (remdups_adj (map fst ps))) \<and>
    (\<exists>out. OrderedAggregate_StreamExecute F oa bv want collect [] = Ret (None, out) \<and>
      concat (map Rows out) = map (\<lambda>k. count_row (k, total_of ps k)) (remdups_adj (map fst ps)))"
proof -
  have f: "1 < length (Fields r)" "ftype (Fields r ! 1) = T_Int64" using assms(6) by (simp_all add: parts_ok_def)
  show ?thesis
    using OrderedAggregate_Execute_counts [OF assms(1,2,4,5) f, of F]
      OrderedAggregate_StreamExecute_counts [OF assms(1,2,7,8,6,9), of F] sum_runs_sorted [OF assms(3)]
    by (simp add: comp_def)
qed

theorem OrderedAggregate_totals_witness:
  "let oa = \<lparr>Aggregates = [(AggregateCount, 1)], OKeys = [0], TruncateColumnCount = 0,
             OInput = const_prim [int_field, int_field] (map count_row [(1, 2), (1, 3), (4, 1)])\<rparr> in
   \<exists>out. OrderedAggregate_StreamExecute (undefined :: unit float_ops) oa [] True collect [] = Ret (None, out) \<and>
     concat (map Rows out) = map count_row [(1, 5), (4, 1)]"
proof -
  let ?ps = "[(1, 2), (1, 3), (4, 1)] :: (int \<times> int) list" and ?f = "[int_field, int_field]"
  let ?oa = "\<lparr>Aggregates = [(AggregateCount, 1)], OKeys = [0], TruncateColumnCount = 0, OInput = const_prim ?f (map count_row ?ps)\<rparr>"
  let ?r = "empty_result\<lparr>Fields := ?f, Rows := map count_row ?ps\<rparr>"
  have h: "counting ?oa" "counts_ok ?ps" "sorted (map fst ?ps)" by (simp_all add: counting_def counts_ok_def)
  have e: "Execute_of (OInput ?oa) [] True = Ret (Inr ?r)" by (simp add: const_prim_def)
  have st: "Stream_of (OInput ?oa) [] True =
      (empty_result\<lparr>Fields := ?f\<rparr> # [empty_result\<lparr>Rows := map count_row ?ps\<rparr>], None)" by (simp add: const_prim_def)
  have p: "parts_ok (Fields ?r) (empty_result\<lparr>Fields := ?f\<rparr> # [empty_result\<lparr>Rows := map count_row ?ps\<rparr>])"
    by (simp add: parts_ok_def int_field_def empty_result_def)
  have "\<exists>out. OrderedAggregate_StreamExecute (undefined :: unit float_ops) ?oa [] True collect [] = Ret (None, out) \<and>
      concat (map Rows out) = map (\<lambda>k. count_row (k, total_of ?ps k)) (remdups_adj (map fst ?ps))"
    using OrderedAggregate_totals [OF h e _ p st, of "undefined :: unit float_ops"] by (simp add: empty_result_def)
  moreover have "map (\<lambda>k. count_row (k, total_of ?ps k)) (remdups_adj (map fst ?ps)) = map count_row [(1, 5), (4, 1)]"
    by (simp add: total_of_def)
  ultimately show ?thesis by (simp only: Let_def)
qed

end
