(* ===== verification/Go_Heap.thy ===== *)
theory Go_Heap
  imports Prelude "HOL-Library.Multiset"
begin

text \<open>
  Go's \<^verbatim>\<open>container/heap\<close> over a slice, as the merge sort of vtgate and the message cache use it. The
  method \<^verbatim>\<open>Less\<close> of the client is a parameter that may change a state (the merge sort notes a failed comparison
  in it).

  The locale \<open>heap_order\<close> states what a client has to provide: on the elements that occur, \<^verbatim>\<open>Less\<close> decides a total
  preorder, in one of the ways in which it may treat equal elements. In return \<^verbatim>\<open>Init\<close>, \<^verbatim>\<open>Push\<close> and \<^verbatim>\<open>Pop\<close> keep
  the elements, and \<^verbatim>\<open>Pop\<close> returns a least one.
\<close>

subsection \<open>The operations\<close>

definition swap :: "'a list \<Rightarrow> nat \<Rightarrow> nat \<Rightarrow> 'a list" where
  "swap h i j = h[i := h ! j, j := h ! i]"

definition parent :: "nat \<Rightarrow> nat" where
  "parent j = (j - 1) div 2"

lemma parent_less: "0 < k \<Longrightarrow> parent k < k"
  by (auto simp: parent_def)

lemma parent_fixed: "parent k = k \<longleftrightarrow> k = 0"
  by (auto simp: parent_def)

function heap_up :: "('s \<Rightarrow> 'a \<Rightarrow> 'a \<Rightarrow> bool \<times> 's) \<Rightarrow> 's \<Rightarrow> 'a list \<Rightarrow> nat \<Rightarrow> 'a list \<times> 's" where
  "heap_up lss s h j =
     (let i = parent j in
      if i = j then (h, s)
      else (case lss s (h ! j) (h ! i) of (b, s') \<Rightarrow> if \<not> b then (h, s') else heap_up lss s' (swap h i j) i))"
  by pat_completeness auto
termination
  by (relation "measure (\<lambda>(lss, s, h, j). j)") (auto simp: parent_fixed intro: parent_less)

definition down_child :: "('s \<Rightarrow> 'a \<Rightarrow> 'a \<Rightarrow> bool \<times> 's) \<Rightarrow> 's \<Rightarrow> 'a list \<Rightarrow> nat \<Rightarrow> nat \<Rightarrow> nat \<times> 's" where
  "down_child lss s h j1 n =
     (if j1 + 1 < n then (case lss s (h ! (j1 + 1)) (h ! j1) of (b, s') \<Rightarrow> (if b then j1 + 1 else j1, s'))
      else (j1, s))"

lemma down_child_ge: "down_child lss s h j1 n = (j, s') \<Longrightarrow> j1 \<le> j"
  by (auto simp: down_child_def split: if_splits prod.splits)

function heap_down :: "('s \<Rightarrow> 'a \<Rightarrow> 'a \<Rightarrow> bool \<times> 's) \<Rightarrow> 's \<Rightarrow> 'a list \<Rightarrow> nat \<Rightarrow> nat \<Rightarrow> 'a list \<times> 's" where
  "heap_down lss s h i n =
     (let j1 = 2 * i + 1 in
      if j1 \<ge> n then (h, s)
      else
        (case down_child lss s h j1 n of (j, s1) \<Rightarrow>
         case lss s1 (h ! j) (h ! i) of (b, s2) \<Rightarrow>
           if \<not> b then (h, s2) else heap_down lss s2 (swap h i j) j n))"
  by pat_completeness auto
termination
  by (relation "measure (\<lambda>(lss, s, h, i, n). n - i)") (auto dest!: down_child_ge [OF sym])

declare heap_up.simps [simp del] heap_down.simps [simp del]

fun heap_init_loop :: "('s \<Rightarrow> 'a \<Rightarrow> 'a \<Rightarrow> bool \<times> 's) \<Rightarrow> 's \<Rightarrow> 'a list \<Rightarrow> nat \<Rightarrow> 'a list \<times> 's" where
  "heap_init_loop lss s h 0 = (h, s)"
| "heap_init_loop lss s h (Suc i) =
     (case heap_down lss s h i (length h) of (h', s') \<Rightarrow> heap_init_loop lss s' h' i)"

definition heap_Init :: "('s \<Rightarrow> 'a \<Rightarrow> 'a \<Rightarrow> bool \<times> 's) \<Rightarrow> 's \<Rightarrow> 'a list \<Rightarrow> 'a list \<times> 's" where
  "heap_Init lss s h = heap_init_loop lss s h (length h div 2)"

definition heap_Push :: "('s \<Rightarrow> 'a \<Rightarrow> 'a \<Rightarrow> bool \<times> 's) \<Rightarrow> 's \<Rightarrow> 'a list \<Rightarrow> 'a \<Rightarrow> 'a list \<times> 's" where
  "heap_Push lss s h x = heap_up lss s (h @ [x]) (length h)"

definition heap_Pop :: "('s \<Rightarrow> 'a \<Rightarrow> 'a \<Rightarrow> bool \<times> 's) \<Rightarrow> 's \<Rightarrow> 'a list \<Rightarrow> ('a \<times> 'a list \<times> 's) go" where
  "heap_Pop lss s h =
     (if h = [] then Panic
      else
        (let n = length h - 1 in
         case heap_down lss s (swap h 0 n) 0 n of (h', s') \<Rightarrow> Ret (last h', butlast h', s')))"

subsection \<open>What a client provides and gets\<close>

lemma length_swap [simp]: "length (swap h i j) = length h"
  by (simp add: swap_def)

lemma swap_nth: "i < length h \<Longrightarrow> j < length h \<Longrightarrow> swap h i j ! k = (if k = j then h ! i else if k = i then h ! j else h ! k)"
  by (auto simp: swap_def nth_list_update)

lemma mset_swap': "i < length h \<Longrightarrow> j < length h \<Longrightarrow> mset (swap h i j) = mset h"
  by (cases "i = j") (auto simp: swap_def mset_swap list_update_swap)

text \<open>Whatever \<^verbatim>\<open>Less\<close> says, the operations keep the elements.\<close>

lemma mset_heap_up: "j < length h \<Longrightarrow> mset (fst (heap_up lss s h j)) = mset h"
proof (induction lss s h j rule: heap_up.induct)
  case (1 lss s h j)
  have "parent j < length h" using 1(2) parent_less [of j] parent_fixed [of j] by (cases "j = 0") auto
  with 1 show ?case by (subst heap_up.simps) (auto simp: Let_def mset_swap' split: prod.splits)
qed

lemma mset_heap_down: "n \<le> length h \<Longrightarrow> mset (fst (heap_down lss s h i n)) = mset h"
proof (induction lss s h i n rule: heap_down.induct)
  case (1 lss s h i n)
  show ?case
  proof (cases "2 * i + 1 \<ge> n")
    case True
    then show ?thesis by (subst heap_down.simps) simp
  next
    case False
    obtain j s1 where j: "down_child lss s h (2 * i + 1) n = (j, s1)" by fastforce
    obtain b s2 where b: "lss s1 (h ! j) (h ! i) = (b, s2)" by fastforce
    have "j < n" using j False by (auto simp: down_child_def split: if_splits prod.splits)
    then have "mset (swap h i j) = mset h" using False "1.prems" by (intro mset_swap') auto
    then show ?thesis using False j b "1.IH" [OF refl _ j [symmetric] b [symmetric]] "1.prems"
      by (subst heap_down.simps) (auto simp: Let_def)
  qed
qed

lemma heap_Push_mset: "heap_Push lss s h x = (h', s') \<Longrightarrow> mset h' = add_mset x (mset h)"
  using mset_heap_up [of "length h" "h @ [x]" lss s] by (simp add: heap_Push_def)

lemma heap_Pop_mset:
  assumes "heap_Pop lss s h = Ret (x, h', s')"
  shows "mset h = add_mset x (mset h')"
proof -
  let ?n = "length h - 1"
  have h: "h \<noteq> []" using assms by (auto simp: heap_Pop_def)
  obtain g where g: "heap_down lss s (swap h 0 ?n) 0 ?n = (g, s')" "x = last g" "h' = butlast g"
    using assms h by (auto simp: heap_Pop_def Let_def split: prod.splits)
  have "mset g = mset h" using mset_heap_down [of ?n "swap h 0 ?n" lss s 0] g(1) h by (simp add: mset_swap')
  moreover from this have "g \<noteq> []" using h by auto
  then have "mset g = mset (h' @ [x])" using g(2,3) by simp
  ultimately show ?thesis by simp
qed

lemma mset_heap_init_loop: "i \<le> length h \<Longrightarrow> mset (fst (heap_init_loop lss s h i)) = mset h"
proof (induction i arbitrary: s h)
  case (Suc i)
  obtain h' s' where d: "heap_down lss s h i (length h) = (h', s')" by fastforce
  then have m: "mset h' = mset h" using mset_heap_down [of "length h" h lss s i] by simp
  then have "length h' = length h" by (metis size_mset)
  then show ?case using Suc.IH [of h' s'] Suc.prems d m by simp
qed simp

lemma heap_Init_mset: "heap_Init lss s h = (h', s') \<Longrightarrow> mset h' = mset h"
  using mset_heap_init_loop [of "length h div 2" h lss s] by (simp add: heap_Init_def)

locale heap_order =
  fixes lss :: "'s \<Rightarrow> 'a \<Rightarrow> 'a \<Rightarrow> bool \<times> 's" and s0 :: 's and le :: "'a \<Rightarrow> 'a \<Rightarrow> bool" and A :: "'a set"
  assumes le_trans: "x \<in> A \<Longrightarrow> y \<in> A \<Longrightarrow> z \<in> A \<Longrightarrow> le x y \<Longrightarrow> le y z \<Longrightarrow> le x z"
    and lss_le: "x \<in> A \<Longrightarrow> y \<in> A \<Longrightarrow> lss s0 x y = (b, s) \<Longrightarrow> s = s0 \<and> (if b then le x y else le y x)"
    and le_refl: "x \<in> A \<Longrightarrow> le x x"
begin

definition heap :: "'a list \<Rightarrow> bool" where
  "heap h \<longleftrightarrow> (\<forall>k < length h. 0 < k \<longrightarrow> le (h ! parent k) (h ! k))"

lemma lss_cases:
  assumes "x \<in> A" "y \<in> A"
  obtains "lss s0 x y = (True, s0)" "le x y" | "lss s0 x y = (False, s0)" "le y x"
  using lss_le [OF assms] by (cases "lss s0 x y"; cases "fst (lss s0 x y)") auto

lemma heap_root_least:
  assumes "heap h" "set h \<subseteq> A" "k < length h"
  shows "le (h ! 0) (h ! k)"
  using assms(3)
proof (induction k rule: less_induct)
  case (less k)
  have mem: "h ! i \<in> A" if "i < length h" for i using assms(2) that by (auto simp: subset_iff)
  show ?case
  proof (cases "k = 0")
    case True
    then show ?thesis using le_refl mem [of 0] less.prems by simp
  next
    case False
    then have p: "parent k < k" by (simp add: parent_less)
    then have len: "0 < length h" "parent k < length h" using less.prems by auto
    have "le (h ! 0) (h ! parent k)" using less.IH [OF p len(2)] .
    moreover have "le (h ! parent k) (h ! k)" using less.prems assms(1) False by (simp add: heap_def)
    ultimately show ?thesis using le_trans [OF mem [OF len(1)] mem [OF len(2)] mem [OF less.prems]] by simp
  qed
qed

text \<open>A heap but for the element at \<open>j\<close>, which may have to move up.\<close>

definition up_heap :: "'a list \<Rightarrow> nat \<Rightarrow> bool" where
  "up_heap h j \<longleftrightarrow>
     (\<forall>k < length h. 0 < k \<and> k \<noteq> j \<longrightarrow> le (h ! parent k) (h ! k)) \<and>
     (0 < j \<longrightarrow> (\<forall>k < length h. 0 < k \<and> parent k = j \<longrightarrow> le (h ! parent j) (h ! k)))"

lemma up_heap_swap:
  assumes h: "up_heap h j" "set h \<subseteq> A" "j < length h" and j: "0 < j" and le: "le (h ! j) (h ! parent j)"
  shows "up_heap (swap h (parent j) j) (parent j)"
proof -
  let ?i = "parent j" and ?h = "swap h (parent j) j"
  have i: "?i < j" "?i < length h" using parent_less [OF j] h(3) by auto
  have mem: "h ! k \<in> A" if "k < length h" for k using h(2) that by (auto simp: subset_iff)
  have nth: "?h ! k = (if k = j then h ! ?i else if k = ?i then h ! j else h ! k)" for k
    using i h(3) by (intro swap_nth)
  have up: "le (h ! parent k) (h ! k)" if "k < length h" "0 < k" "k \<noteq> j" for k
    using h(1) that by (simp add: up_heap_def)
  have child: "le (h ! ?i) (h ! k)" if "k < length h" "0 < k" "parent k = j" for k
    using h(1) that j unfolding up_heap_def by blast
  have 1: "le (?h ! parent k) (?h ! k)" if k: "k < length h" "0 < k" "k \<noteq> ?i" for k
  proof -
    consider "k = j" | "k \<noteq> j" "parent k = j" | "k \<noteq> j" "parent k = ?i" "parent k \<noteq> j"
      | "k \<noteq> j" "parent k \<noteq> ?i" "parent k \<noteq> j" by blast
    then show ?thesis
    proof cases
      case 1
      then show ?thesis using le i by (simp add: nth)
    next
      case 2
      then show ?thesis using child [OF k(1,2)] k i by (simp add: nth)
    next
      case 3
      have "le (h ! ?i) (h ! k)" using up [OF k(1,2)] 3 by simp
      then have "le (h ! j) (h ! k)" using le le_trans mem k h(3) i by blast
      then show ?thesis using 3 k by (simp add: nth)
    next
      case 4
      then show ?thesis using up [OF k(1,2)] k by (simp add: nth)
    qed
  qed
  have 2: "le (?h ! parent ?i) (?h ! k)" if k: "0 < ?i" "k < length h" "0 < k" "parent k = ?i" for k
  proof -
    have pi: "parent ?i < ?i" using k(1) by (rule parent_less)
    have a: "le (h ! parent ?i) (h ! ?i)" using up [OF i(2) k(1)] i by simp
    have "?h ! parent ?i = h ! parent ?i" using pi i by (simp add: nth)
    moreover have "le (h ! parent ?i) (?h ! k)"
    proof (cases "k = j")
      case True
      then show ?thesis using a by (simp add: nth)
    next
      case False
      have "k \<noteq> ?i" using parent_less [OF k(3)] k(4) by auto
      moreover have "le (h ! ?i) (h ! k)" using up [OF k(2,3) False] k(4) by simp
      then have "le (h ! parent ?i) (h ! k)" using a le_trans mem k(2) i pi by (meson less_trans)
      ultimately show ?thesis using False by (simp add: nth)
    qed
    ultimately show ?thesis by simp
  qed
  show ?thesis using 1 2 unfolding up_heap_def length_swap by blast
qed

lemma up_ok:
  "up_heap h j \<Longrightarrow> set h \<subseteq> A \<Longrightarrow> j < length h \<Longrightarrow>
     \<exists>h'. heap_up lss s0 h j = (h', s0) \<and> heap h' \<and> mset h' = mset h"
proof (induction j arbitrary: h rule: less_induct)
  case (less j)
  show ?case
  proof (cases "j = 0")
    case True
    then show ?thesis
      using less.prems by (subst heap_up.simps) (simp add: parent_fixed [of 0, simplified] up_heap_def heap_def)
  next
    case False
    then have i: "parent j < j" "parent j < length h" using parent_less [of j] less.prems(3) by auto
    have mem: "h ! j \<in> A" "h ! parent j \<in> A" using less.prems i by (auto simp: subset_iff)
    from mem show ?thesis
    proof (cases rule: lss_cases)
      case 1
      have s: "up_heap (swap h (parent j) j) (parent j)"
        using up_heap_swap [OF less.prems _ 1(2)] False by simp
      have m: "mset (swap h (parent j) j) = mset h" using i less.prems(3) by (simp add: mset_swap')
      then have "set (swap h (parent j) j) \<subseteq> A" using less.prems(2) by (metis set_mset_mset)
      from less.IH [OF i(1) s this] i 1 m show ?thesis
        by (subst heap_up.simps) (simp add: Let_def)
    next
      case 2
      then have "heap h" using less.prems(1) by (auto simp: heap_def up_heap_def)
      then show ?thesis using 2 i by (subst heap_up.simps) (simp add: Let_def)
    qed
  qed
qed

text \<open>A heap from \<open>lo\<close> on, but for the element at \<open>i\<close>, which may have to move down.\<close>

definition down_heap :: "nat \<Rightarrow> 'a list \<Rightarrow> nat \<Rightarrow> nat \<Rightarrow> bool" where
  "down_heap lo h n i \<longleftrightarrow>
     lo \<le> i \<and> (\<forall>k < n. 0 < k \<and> lo \<le> parent k \<and> parent k \<noteq> i \<longrightarrow> le (h ! parent k) (h ! k)) \<and>
     (0 < i \<and> lo \<le> parent i \<longrightarrow> (\<forall>k < n. 0 < k \<and> parent k = i \<longrightarrow> le (h ! parent i) (h ! k)))"

definition part_heap :: "nat \<Rightarrow> 'a list \<Rightarrow> nat \<Rightarrow> bool" where
  "part_heap lo h n \<longleftrightarrow> (\<forall>k < n. 0 < k \<and> lo \<le> parent k \<longrightarrow> le (h ! parent k) (h ! k))"

lemma down_child_least:
  assumes "set h \<subseteq> A" "n \<le> length h" "2 * i + 1 < n"
  shows "\<exists>j. down_child lss s0 h (2 * i + 1) n = (j, s0) \<and> j < n \<and> 0 < j \<and> parent j = i \<and>
    (\<forall>k < n. 0 < k \<and> parent k = i \<longrightarrow> le (h ! j) (h ! k))"
proof -
  have child: "0 < k \<and> parent k = i \<longleftrightarrow> k = 2 * i + 1 \<or> k = 2 * i + 2" for k by (auto simp: parent_def)
  have mem: "h ! k \<in> A" if "k < n" for k using assms that by (auto simp: subset_iff)
  show ?thesis
  proof (cases "2 * i + 2 < n")
    case True
    then have "h ! (2 * i + 2) \<in> A" "h ! (2 * i + 1) \<in> A" using mem by auto
    then show ?thesis
    proof (cases rule: lss_cases)
      case 1
      then have "down_child lss s0 h (2 * i + 1) n = (2 * i + 2, s0)" using True by (simp add: down_child_def)
      moreover have "\<forall>k < n. 0 < k \<and> parent k = i \<longrightarrow> le (h ! (2 * i + 2)) (h ! k)"
        using 1 mem True le_refl by (auto simp: child)
      ultimately show ?thesis using True child [of "2 * i + 2"] by (intro exI [of _ "2 * i + 2"]) simp
    next
      case 2
      then have "down_child lss s0 h (2 * i + 1) n = (2 * i + 1, s0)" using True by (simp add: down_child_def)
      moreover have "\<forall>k < n. 0 < k \<and> parent k = i \<longrightarrow> le (h ! (2 * i + 1)) (h ! k)"
        using 2 mem assms(3) le_refl by (auto simp: child)
      ultimately show ?thesis using assms(3) child [of "2 * i + 1"] by (intro exI [of _ "2 * i + 1"]) simp
    qed
  next
    case False
    then have "down_child lss s0 h (2 * i + 1) n = (2 * i + 1, s0)" by (simp add: down_child_def)
    moreover have "\<forall>k < n. 0 < k \<and> parent k = i \<longrightarrow> le (h ! (2 * i + 1)) (h ! k)"
      using False mem assms(3) le_refl by (auto simp: child)
    ultimately show ?thesis using assms(3) child [of "2 * i + 1"] by (intro exI [of _ "2 * i + 1"]) simp
  qed
qed

lemma down_heap_swap:
  assumes h: "down_heap lo h n i" "n \<le> length h" and j: "j < n" "0 < j" "parent j = i"
    and least: "\<forall>k < n. 0 < k \<and> parent k = i \<longrightarrow> le (h ! j) (h ! k)" and le: "le (h ! j) (h ! i)"
  shows "down_heap lo (swap h i j) n j"
proof -
  have i: "i < j" using parent_less [OF j(2)] j(3) by simp
  have nth: "swap h i j ! k = (if k = j then h ! i else if k = i then h ! j else h ! k)" for k
    using i j h(2) by (intro swap_nth) auto
  have lo: "lo \<le> i" and ord: "\<And>k. k < n \<Longrightarrow> 0 < k \<Longrightarrow> lo \<le> parent k \<Longrightarrow> parent k \<noteq> i \<Longrightarrow> le (h ! parent k) (h ! k)"
    and above: "0 < i \<Longrightarrow> lo \<le> parent i \<Longrightarrow> le (h ! parent i) (h ! j)"
    using h(1) j by (auto simp: down_heap_def)
  have 1: "le (swap h i j ! parent k) (swap h i j ! k)"
    if k: "k < n" "0 < k" "lo \<le> parent k" "parent k \<noteq> j" for k
  proof (cases "parent k = i")
    case True
    then have "k \<noteq> i" using parent_less [OF k(2)] by auto
    then show ?thesis using True i least le k by (simp add: nth)
  next
    case False
    then have "k \<noteq> j" using j(3) by auto
    show ?thesis
    proof (cases "k = i")
      case True
      then show ?thesis using above k False \<open>k \<noteq> j\<close> by (simp add: nth)
    next
      case ne: False
      then show ?thesis using ord [OF k(1-3) False] \<open>k \<noteq> j\<close> False k(4) by (simp add: nth)
    qed
  qed
  have 2: "le (swap h i j ! i) (swap h i j ! k)" if k: "k < n" "0 < k" "parent k = j" for k
  proof -
    have "j < k" using parent_less [OF k(2)] k(3) by simp
    then show ?thesis using ord [OF k(1,2)] k(3) i lo by (simp add: nth)
  qed
  show ?thesis using 1 2 lo i j(3) unfolding down_heap_def by auto
qed

lemma down_ok:
  "down_heap lo h n i \<Longrightarrow> set h \<subseteq> A \<Longrightarrow> n \<le> length h \<Longrightarrow>
     \<exists>h'. heap_down lss s0 h i n = (h', s0) \<and> part_heap lo h' n \<and> mset h' = mset h \<and>
       (\<forall>k \<ge> n. k < length h \<longrightarrow> h' ! k = h ! k)"
proof (induction "n - i" arbitrary: h i rule: less_induct)
  case less
  show ?case
  proof (cases "2 * i + 1 < n")
    case False
    have "parent k \<noteq> i" if "k < n" "0 < k" for k using that False by (auto simp: parent_def)
    then have "part_heap lo h n" using less.prems(1) by (simp add: part_heap_def down_heap_def)
    then show ?thesis using False by (subst heap_down.simps) simp
  next
    case True
    obtain j where dc: "down_child lss s0 h (2 * i + 1) n = (j, s0)"
      and j: "j < n" "0 < j" "parent j = i" and least: "\<forall>k < n. 0 < k \<and> parent k = i \<longrightarrow> le (h ! j) (h ! k)"
      using down_child_least [OF less.prems(2,3) True] by blast
    have i: "i < j" using parent_less [OF j(2)] j(3) by simp
    have mem: "h ! k \<in> A" if "k < n" for k using less.prems(2,3) that by (auto simp: subset_iff)
    have "h ! j \<in> A" "h ! i \<in> A" using mem i j by auto
    then show ?thesis
    proof (cases rule: lss_cases)
      case 1
      have d: "down_heap lo (swap h i j) n j" by (rule down_heap_swap [OF less.prems(1,3) j least 1(2)])
      have m: "mset (swap h i j) = mset h" using i j less.prems(3) by (simp add: mset_swap')
      then have A: "set (swap h i j) \<subseteq> A" using less.prems(2) by (metis set_mset_mset)
      have "swap h i j ! k = h ! k" if "k \<ge> n" for k using that i j by (simp add: swap_def)
      moreover have "heap_down lss s0 h i n = heap_down lss s0 (swap h i j) j n"
        using True dc 1 by (subst heap_down.simps) (simp add: Let_def)
      moreover have "n - j < n - i" using i j(1) by simp
      ultimately show ?thesis using less.hyps [OF _ d A] less.prems(3) m by simp
    next
      case 2
      have "le (h ! i) (h ! k)" if "k < n" "0 < k" "parent k = i" for k
        using le_trans [OF mem mem mem, of i j k] 2(2) least that i j by auto
      then have "part_heap lo h n" using less.prems(1) by (auto simp: part_heap_def down_heap_def)
      then show ?thesis using True dc 2 by (subst heap_down.simps) (simp add: Let_def)
    qed
  qed
qed

lemma Push_ok:
  assumes "heap h" "set h \<subseteq> A" "x \<in> A"
  shows "\<exists>h'. heap_Push lss s0 h x = (h', s0) \<and> heap h' \<and> mset h' = add_mset x (mset h)"
proof -
  have "(h @ [x]) ! parent k = h ! parent k" "(h @ [x]) ! k = h ! k" if "k < length h" "0 < k" for k
    using that parent_less [of k] by (simp_all add: nth_append)
  moreover have "parent k \<noteq> length h" if "k < Suc (length h)" "0 < k" for k using that parent_less [of k] by auto
  ultimately have "up_heap (h @ [x]) (length h)" using assms(1) by (auto simp: up_heap_def heap_def less_Suc_eq)
  from up_ok [OF this] assms(2,3) show ?thesis by (auto simp: heap_Push_def)
qed

lemma Pop_ok:
  assumes "heap h" "set h \<subseteq> A" "h \<noteq> []"
  shows "\<exists>x h'. heap_Pop lss s0 h = Ret (x, h', s0) \<and> heap h' \<and> mset h = add_mset x (mset h') \<and> (\<forall>y\<in>set h. le x y)"
proof -
  define n where "n = length h - 1"
  have n: "n < length h" "length h = Suc n" using assms(3) by (auto simp: n_def)
  have nth: "swap h 0 n ! k = (if k = n then h ! 0 else if k = 0 then h ! n else h ! k)" for k
    using n by (intro swap_nth) auto
  have d: "down_heap 0 (swap h 0 n) n 0"
    using assms(1) n by (auto simp: down_heap_def heap_def nth parent_def)
  have m: "mset (swap h 0 n) = mset h" using n by (simp add: mset_swap')
  then have "set (swap h 0 n) \<subseteq> A" using assms(2) by (metis set_mset_mset)
  from down_ok [OF d this] obtain h' where h': "heap_down lss s0 (swap h 0 n) 0 n = (h', s0)" "part_heap 0 h' n"
    "mset h' = mset h" "h' ! n = h ! 0"
    using n m nth [of n] by auto
  have len: "length h' = Suc n" using h'(3) n(2) by (metis size_mset)
  then have split: "h' = butlast h' @ [h ! 0]" using h'(4)
    by (metis append_butlast_last_id diff_Suc_1 last_conv_nth length_0_conv nat.distinct(1))
  have "heap (butlast h')"
    using h'(2) len less_trans [OF parent_less] by (auto simp: heap_def part_heap_def nth_butlast)
  moreover have "mset h = add_mset (h ! 0) (mset (butlast h'))" 
    using h'(3) arg_cong [OF split, of mset] by simp
  moreover have "\<forall>y\<in>set h. le (h ! 0) y"
    using heap_root_least [OF assms(1,2)] by (auto simp: in_set_conv_nth)
  moreover have "last h' = h ! 0" using split by (metis last_snoc)
  moreover have "heap_Pop lss s0 h = Ret (last h', butlast h', s0)"
    unfolding heap_Pop_def Let_def n_def [symmetric] using h'(1) assms(3) by simp
  ultimately show ?thesis by auto
qed

lemma Init_ok:
  assumes "set h \<subseteq> A"
  shows "\<exists>h'. heap_Init lss s0 h = (h', s0) \<and> heap h' \<and> mset h' = mset h"
proof -
  have loop: "\<exists>h'. heap_init_loop lss s0 h i = (h', s0) \<and> heap h' \<and> mset h' = mset h"
    if "part_heap i h (length h)" "set h \<subseteq> A" for i h
    using that
  proof (induction i arbitrary: h)
    case 0
    then show ?case by (simp add: heap_def part_heap_def)
  next
    case (Suc i)
    have "down_heap i h (length h) i"
      using Suc.prems(1) by (auto simp: down_heap_def part_heap_def parent_def)
    from down_ok [OF this Suc.prems(2) order_refl] obtain h' where
      h': "heap_down lss s0 h i (length h) = (h', s0)" "part_heap i h' (length h)" "mset h' = mset h" by blast
    have "length h' = length h" "set h' \<subseteq> A" using h'(3) Suc.prems(2) by (metis size_mset, metis set_mset_mset)
    with Suc.IH [of h'] h' show ?case by simp
  qed
  have "part_heap (length h div 2) h (length h)"
    by (auto simp: part_heap_def parent_def)
  from loop [OF this assms] show ?thesis by (simp add: heap_Init_def)
qed

end

end
