(* ===== verification/Merge_Sort.thy ===== *)
theory Merge_Sort
  imports Engine Go_Heap "HOL-Library.Product_Lexorder"
begin

text \<open>
  The merge sort of a scattered streaming query, \<^verbatim>\<open>src/vt/vtgate/engine/merge_sort.go\<close>. The streams of the shards are
  parameters: the results that \<^verbatim>\<open>vcursor.StreamExecuteMulti\<close> hands to the callback for one shard, and the error that it returns.

  A goroutine per shard sends the fields and the rows of its stream over two channels. The rendez-vous is modelled by what
  the receiver gets: the rows in the order of the sends, up to a send of fields for which there is no room (the channel holds one, and
  only the first shard's is read, once). A receive of a row that can only end with the context ends with \<open>CtxDone\<close>. A receive of
  fields that can only end so gets nil: the sender leaves its callback with \<^verbatim>\<open>io.EOF\<close>, which its stream returns, and closes the channel.
  That the context is cancelled otherwise is not modelled.

  Of streams in the order of the query, the merged stream has all rows and is in that order (\<open>mergeSort_merges\<close>).
\<close>

subsection \<open>The heap of rows\<close>

record OrderbyParams =
  OCol :: nat
  Desc :: bool

record streamRow =
  srow :: row
  sid :: nat

text \<open>
  \<^verbatim>\<open>scatterHeap.Less\<close>. Its state is \<^verbatim>\<open>sh.err\<close>; \<open>Panic\<close> stays for an index out of range.
\<close>

fun less_from ::
  "'f float_ops \<Rightarrow> OrderbyParams list \<Rightarrow> row \<Rightarrow> row \<Rightarrow> engine_error option \<Rightarrow> (bool \<times> engine_error option) go" where
  "less_from F [] r1 r2 err = Ret (True, err)"
| "less_from F (order # orderBy) r1 r2 err =
     (if err \<noteq> None then Ret (True, err)
      else
        go_bind (slice_index r1 (OCol order)) (\<lambda>v1. go_bind (slice_index r2 (OCol order)) (\<lambda>v2.
          case NullsafeCompare F v1 v2 of
            Inl e \<Rightarrow> Ret (True, Some (ValueErr e))
          | Inr cmp \<Rightarrow>
              if cmp = 0 then less_from F orderBy r1 r2 err
              else Ret ((if Desc order then - cmp else cmp) < 0, err))))"

definition scatterHeap_Less ::
  "'f float_ops \<Rightarrow> OrderbyParams list \<Rightarrow> engine_error option go \<Rightarrow> streamRow \<Rightarrow> streamRow \<Rightarrow> bool \<times> engine_error option go" where
  "scatterHeap_Less F orderBy s a b =
     (case go_bind s (less_from F orderBy (srow a) (srow b)) of
        Panic \<Rightarrow> (True, Panic)
      | Ret (b_less, err) \<Rightarrow> (b_less, Ret err))"

subsection \<open>The streams\<close>

record streamHandle =
  hfields :: "Field list option option"
  hrow :: "row list"
  hblocked :: bool
  herr :: "engine_error option"

datatype stream_send = SendFields "Field list" | SendRow row

definition stream_sends :: "Result list \<Rightarrow> stream_send list" where
  "stream_sends qrs =
     concat (map (\<lambda>qr. (if length (Fields qr) \<noteq> 0 then [SendFields (Fields qr)] else []) @ map SendRow (Rows qr)) qrs)"

text \<open>The rows that get through when the channel of the fields takes \<open>n\<close> values, and whether the sender is stuck after them.\<close>

fun rows_sent :: "nat \<Rightarrow> stream_send list \<Rightarrow> row list \<times> bool" where
  "rows_sent n [] = ([], False)"
| "rows_sent n (SendFields f # ss) = (case n of 0 \<Rightarrow> ([], True) | Suc m \<Rightarrow> rows_sent m ss)"
| "rows_sent n (SendRow r # ss) = (case rows_sent n ss of (rows, blocked) \<Rightarrow> (r # rows, blocked))"

text \<open>
  What a first receive of fields yields when the channel of the rows takes \<open>n\<close> more: the fields, \<open>Some None\<close> (nil) when it is
  closed, \<open>None\<close> when the sender is stuck.
\<close>

fun fields_sent :: "nat \<Rightarrow> stream_send list \<Rightarrow> Field list option option" where
  "fields_sent n [] = Some None"
| "fields_sent n (SendFields f # ss) = Some (Some f)"
| "fields_sent n (SendRow r # ss) = (case n of 0 \<Rightarrow> None | Suc m \<Rightarrow> fields_sent m ss)"

definition runOneStream :: "nat \<Rightarrow> Result list \<times> engine_error option \<Rightarrow> streamHandle" where
  "runOneStream n stream =
     (let sends = stream_sends (fst stream); sent = rows_sent n sends in
      \<lparr>hfields = fields_sent 10 sends, hrow = fst sent, hblocked = snd sent, herr = snd stream\<rparr>)"

text \<open>A receive from \<^verbatim>\<open>handle.row\<close>: a row, none when the channel is closed, or the error to return.\<close>

definition receive :: "streamHandle \<Rightarrow> engine_error + row option \<times> streamHandle" where
  "receive h =
     (case hrow h of
        r # rs \<Rightarrow> Inr (Some r, h\<lparr>hrow := rs\<rparr>)
      | [] \<Rightarrow> if hblocked h then Inl CtxDone else (case herr h of Some e \<Rightarrow> Inl e | None \<Rightarrow> Inr (None, h)))"

subsection \<open>The merge sort\<close>

fun prime_heap :: "nat \<Rightarrow> streamHandle list \<Rightarrow> engine_error + streamRow list \<times> streamHandle list" where
  "prime_heap i [] = Inr ([], [])"
| "prime_heap i (h # hs) =
     (case receive h of
        Inl e \<Rightarrow> Inl e
      | Inr (r, h') \<Rightarrow>
          (case prime_heap (i + 1) hs of
             Inl e \<Rightarrow> Inl e
           | Inr (rows, hs') \<Rightarrow>
               Inr ((case r of None \<Rightarrow> [] | Some row \<Rightarrow> [\<lparr>srow = row, sid = i\<rparr>]) @ rows, h' # hs')))"

definition rows_left :: "streamHandle list \<Rightarrow> nat" where
  "rows_left hs = sum_list (map (length \<circ> hrow) hs)"

lemma heap_Push_length: "heap_Push lss s h x = (h', s') \<Longrightarrow> length h' = Suc (length h)"
  using arg_cong [OF heap_Push_mset, of lss s h x h' s' size] by simp

lemma heap_Pop_length: "heap_Pop lss s h = Ret (x, h', s') \<Longrightarrow> length h = Suc (length h')"
  using arg_cong [OF heap_Pop_mset, of lss s h x h' s' size] by simp

lemma rows_left_update:
  "i < length hs \<Longrightarrow> rows_left (hs[i := h']) + length (hrow (hs ! i)) = rows_left hs + length (hrow h')"
  by (induction hs arbitrary: i) (auto simp: rows_left_def split: nat.splits)

lemma rows_left_less: "i < length hs \<Longrightarrow> hrow (hs ! i) = r # hrow h' \<Longrightarrow> rows_left (hs[i := h']) < rows_left hs"
  using rows_left_update [of i hs h'] by simp

lemma receive_cases:
  assumes "receive h = Inr (r, h')"
  obtains "r = None" "h' = h" "hrow h = []" "herr h = None" "\<not> hblocked h"
    | row where "r = Some row" "hrow h = row # hrow h'" "h' = h\<lparr>hrow := hrow h'\<rparr>"
  using assms by (auto simp: receive_def split: list.splits if_splits option.splits)

function merge_loop ::
  "'f float_ops \<Rightarrow> OrderbyParams list \<Rightarrow> 'c callback \<Rightarrow> streamRow list \<Rightarrow> streamHandle list \<Rightarrow> 'c \<Rightarrow> (engine_error option \<times> 'c) go" where
  "merge_loop F orderBy cb rows handles c =
     (if length rows = 0 then Ret (None, c)
      else
        go_bind (heap_Pop (scatterHeap_Less F orderBy) (Ret None) rows) (\<lambda>(sr, rows1, s1).
        go_bind s1 (\<lambda>err1.
        if err1 \<noteq> None then Ret (err1, c)
        else
          go_bind (cb (empty_result\<lparr>Rows := [srow sr]\<rparr>) c) (\<lambda>(err2, c1).
          if err2 \<noteq> None then Ret (err2, c1)
          else
            go_bind (slice_index handles (sid sr)) (\<lambda>handle.
            case receive handle of
              Inl e \<Rightarrow> Ret (Some e, c1)
            | Inr (None, _) \<Rightarrow> merge_loop F orderBy cb rows1 handles c1
            | Inr (Some row, handle1) \<Rightarrow>
                (case heap_Push (scatterHeap_Less F orderBy) (Ret None) rows1 (sr\<lparr>srow := row\<rparr>) of
                   (rows2, s2) \<Rightarrow>
                     go_bind s2 (\<lambda>err3.
                     if err3 \<noteq> None then Ret (err3, c1)
                     else merge_loop F orderBy cb rows2 (handles[sid sr := handle1]) c1)))))))"
  by pat_completeness auto
termination
  apply (relation "measure (\<lambda>(F, orderBy, cb, rows, handles, c). length rows + rows_left handles)")
    apply simp
   apply (auto dest: heap_Pop_length) [1]
  apply (clarsimp simp: slice_index_def split: if_splits)
  apply (drule heap_Pop_length)
  apply (drule heap_Push_length [OF sym])
  apply (erule receive_cases)
   apply simp
  apply (simp add: rows_left_less)
  done

declare merge_loop.simps [simp del]

definition mergeSort ::
  "'f float_ops \<Rightarrow> OrderbyParams list \<Rightarrow> (Result list \<times> engine_error option) list \<Rightarrow> 'c callback \<Rightarrow> 'c \<Rightarrow>
     (engine_error option \<times> 'c) go" where
  "mergeSort F orderBy streams cb c =
     (case streams of
        [] \<Rightarrow> Panic
      | s # ss \<Rightarrow>
          (let handles = runOneStream 2 s # map (runOneStream 1) ss in
           case hfields (hd handles) of
             None \<Rightarrow> Ret (Some EOF, c)
           | Some None \<Rightarrow> Ret (herr (hd handles), c)
           | Some (Some flds) \<Rightarrow>
               go_bind (cb (empty_result\<lparr>Fields := flds\<rparr>) c) (\<lambda>(err, c1).
               if err \<noteq> None then Ret (err, c1)
               else
                 (case prime_heap 0 handles of
                    Inl e \<Rightarrow> Ret (Some e, c1)
                  | Inr (rows, handles1) \<Rightarrow>
                      (case heap_Init (scatterHeap_Less F orderBy) (Ret None) rows of
                         (rows1, s1) \<Rightarrow>
                           go_bind s1 (\<lambda>err1. if err1 \<noteq> None then Ret (err1, c1)
                             else merge_loop F orderBy cb rows1 handles1 c1))))))"

subsection \<open>The order of the rows\<close>

text \<open>
  A key for each value that a column may be ordered by: NULL comes first, then integers in their order, or
  byte strings in theirs.
\<close>

definition value_int :: "Value \<Rightarrow> int" where
  "value_int v =
     (if IsSigned (vtyp v) then the (parse_int 64 (vval v)) else int (the (parse_uint 64 (vval v))))"

definition vkey :: "Value \<Rightarrow> nat \<times> int \<times> string" where
  "vkey v = (if Value_IsNull v then (0, 0, []) else if isNumber (vtyp v) then (1, value_int v, []) else (1, 0, Value_ToBytes v))"

definition bytes_value :: "Value \<Rightarrow> bool" where
  "bytes_value v \<longleftrightarrow> \<not> Value_IsNull v \<and> \<not> isNumber (vtyp v) \<and> isByteComparable v"

text \<open>The values of a column of integers (\<open>ints\<close>) or of byte strings, NULL among them.\<close>

definition sort_value :: "bool \<Rightarrow> Value \<Rightarrow> bool" where
  "sort_value ints v \<longleftrightarrow> Value_IsNull v \<or> (if ints then int_value v (value_int v) else bytes_value v)"

lemma value_int_value: "int_value v i \<Longrightarrow> value_int v = i"
proof -
  assume v: "int_value v i"
  show ?thesis
  proof (cases "IsSigned (vtyp v)")
    case True
    then have "\<not> IsUnsigned (vtyp v)" using signed_types by blast
    then show ?thesis using v True by (auto simp: int_value_def value_int_def)
  next
    case False
    then have i: "0 \<le> i" "i < 2 ^ 64" "vval v = format_int i" using v by (auto simp: int_value_def)
    then have "nat i < 2 ^ 64" by (simp add: nat_less_iff)
    then show ?thesis using i False by (simp add: value_int_def format_int_nat)
  qed
qed

lemma NullsafeCompare_vkey:
  assumes "sort_value ints v" "sort_value ints w"
  shows "NullsafeCompare F v w = Inr (order_of (vkey v = vkey w) (vkey v < vkey w))"
proof -
  consider "Value_IsNull v \<or> Value_IsNull w" | "int_value v (value_int v)" "int_value w (value_int w)"
    | "bytes_value v" "bytes_value w"
    using assms by (auto simp: sort_value_def split: if_splits)
  then show ?thesis
  proof cases
    case 1
    then show ?thesis by (auto simp: NullsafeCompare_def vkey_def order_of_def)
  next
    case 2
    note n = int_value_numeric(2,3) [OF 2(1)] int_value_numeric(2,3) [OF 2(2)]
    show ?thesis
      using NullsafeCompare_ints [OF 2, of F] n by (auto simp: vkey_def order_of_def sgn_if)
  next
    case 3
    then show ?thesis
      by (auto simp: NullsafeCompare_def vkey_def order_of_def bytes_value_def compare_strings_def)
  qed
qed

fun row_le :: "OrderbyParams list \<Rightarrow> row \<Rightarrow> row \<Rightarrow> bool" where
  "row_le [] r1 r2 \<longleftrightarrow> True"
| "row_le (order # orderBy) r1 r2 \<longleftrightarrow>
     (let x = vkey (r1 ! OCol order); y = vkey (r2 ! OCol order) in
      if x = y then row_le orderBy r1 r2 else if Desc order then y < x else x < y)"

definition sortable :: "(nat \<Rightarrow> bool) \<Rightarrow> OrderbyParams list \<Rightarrow> row set" where
  "sortable ints orderBy =
     {r. list_all (\<lambda>order. OCol order < length r \<and> sort_value (ints (OCol order)) (r ! OCol order)) orderBy}"

lemma row_le_refl [simp]: "row_le orderBy r r"
  by (induction orderBy) (simp_all add: Let_def)

lemma row_le_total: "row_le orderBy r1 r2 \<or> row_le orderBy r2 r1"
  by (induction orderBy) (auto simp: Let_def)

lemma row_le_trans: "row_le orderBy r1 r2 \<Longrightarrow> row_le orderBy r2 r3 \<Longrightarrow> row_le orderBy r1 r3"
  by (induction orderBy) (auto simp: Let_def split: if_splits)

lemma less_from_row_le:
  "r1 \<in> sortable ints orderBy \<Longrightarrow> r2 \<in> sortable ints orderBy \<Longrightarrow>
     less_from F orderBy r1 r2 None = Ret (row_le orderBy r1 r2, None)"
proof (induction orderBy)
  case (Cons order orderBy)
  then have "NullsafeCompare F (r1 ! OCol order) (r2 ! OCol order) =
      Inr (order_of (vkey (r1 ! OCol order) = vkey (r2 ! OCol order)) (vkey (r1 ! OCol order) < vkey (r2 ! OCol order)))"
    by (intro NullsafeCompare_vkey [of "ints (OCol order)"]) (simp_all add: sortable_def)
  with Cons show ?case by (auto simp: sortable_def slice_index_def order_of_def Let_def)
qed simp

interpretation scatter: heap_order "scatterHeap_Less F orderBy" "Ret None" "\<lambda>a b. row_le orderBy (srow a) (srow b)"
    "{sr :: streamRow. srow sr \<in> sortable ints orderBy}"
  for F orderBy ints
proof
  fix x y z :: streamRow and b s
  assume x: "x \<in> {sr. srow sr \<in> sortable ints orderBy}" and y: "y \<in> {sr. srow sr \<in> sortable ints orderBy}"
  show "row_le orderBy (srow x) (srow y) \<Longrightarrow> row_le orderBy (srow y) (srow z) \<Longrightarrow> row_le orderBy (srow x) (srow z)"
    by (rule row_le_trans)
  show "row_le orderBy (srow x) (srow x)" by simp
  assume "scatterHeap_Less F orderBy (Ret None) x y = (b, s)"
  then show "s = Ret None \<and> (if b then row_le orderBy (srow x) (srow y) else row_le orderBy (srow y) (srow x))"
    using x y less_from_row_le [of "srow x" ints orderBy "srow y" F] row_le_total [of orderBy "srow x" "srow y"]
    by (auto simp: scatterHeap_Less_def)
qed

subsection \<open>The merged stream\<close>

text \<open>
  Between two iterations: the rows of the heap precede those still to come from their streams, a stream that has rows to come has
  one in the heap, and the streams are in order and end without an error.
\<close>

definition merge_inv :: "(nat \<Rightarrow> bool) \<Rightarrow> OrderbyParams list \<Rightarrow> streamRow list \<Rightarrow> streamHandle list \<Rightarrow> bool" where
  "merge_inv ints orderBy rows hs \<longleftrightarrow>
     (\<forall>sr\<in>set rows. srow sr \<in> sortable ints orderBy \<and> sid sr < length hs \<and>
        (\<forall>r\<in>set (hrow (hs ! sid sr)). row_le orderBy (srow sr) r)) \<and>
     (\<forall>i < length hs. hrow (hs ! i) \<noteq> [] \<longrightarrow> (\<exists>sr\<in>set rows. sid sr = i)) \<and>
     (\<forall>h\<in>set hs. herr h = None \<and> \<not> hblocked h \<and> sorted_wrt (row_le orderBy) (hrow h) \<and> set (hrow h) \<subseteq> sortable ints orderBy)"

lemma merge_least:
  assumes "merge_inv ints orderBy rows hs" "\<forall>y\<in>set rows. row_le orderBy (srow x) (srow y)" "r \<in> set (concat (map hrow hs))"
  shows "row_le orderBy (srow x) r"
proof -
  obtain h where "h \<in> set hs" "r \<in> set (hrow h)" using assms(3) by auto
  then obtain i where i: "i < length hs" "r \<in> set (hrow (hs ! i))" unfolding in_set_conv_nth [of h] by blast
  then have "hrow (hs ! i) \<noteq> []" by auto
  then obtain sr where "sr \<in> set rows" "sid sr = i" using assms(1) i(1) unfolding merge_inv_def by blast
  moreover from this have "row_le orderBy (srow sr) r" using assms(1) i(2) unfolding merge_inv_def by blast
  ultimately show ?thesis using assms(2) row_le_trans by blast
qed

lemma merge_inv_done:
  assumes "merge_inv ints orderBy rows hs" "mset rows = add_mset x (mset rows1)" "hrow (hs ! sid x) = []"
  shows "merge_inv ints orderBy rows1 hs"
proof -
  have "set rows = insert x (set rows1)" using arg_cong [OF assms(2), of set_mset] by simp
  then show ?thesis using assms(1,3) unfolding merge_inv_def by auto
qed

lemma merge_inv_next:
  assumes inv: "merge_inv ints orderBy rows hs" and x: "mset rows = add_mset x (mset rows1)"
    and h: "hrow (hs ! sid x) = row # hrow h'" "h' = (hs ! sid x)\<lparr>hrow := hrow h'\<rparr>"
    and y: "mset rows2 = add_mset (x\<lparr>srow := row\<rparr>) (mset rows1)"
  shows "merge_inv ints orderBy rows2 (hs[sid x := h'])"
proof -
  let ?hs = "hs[sid x := h']"
  have rows: "set rows = insert x (set rows1)" using arg_cong [OF x, of set_mset] by simp
  have rows2: "set rows2 = insert (x\<lparr>srow := row\<rparr>) (set rows1)" using arg_cong [OF y, of set_mset] by simp
  have xi: "sid x < length hs" using inv rows by (simp add: merge_inv_def)
  have old: "herr (hs ! sid x) = None" "\<not> hblocked (hs ! sid x)" "sorted_wrt (row_le orderBy) (row # hrow h')"
      "set (row # hrow h') \<subseteq> sortable ints orderBy"
    using inv xi h(1) unfolding merge_inv_def by (metis nth_mem)+
  have new: "herr h' = None" "\<not> hblocked h'" using h(2) old(1,2) by (metis streamHandle.select_convs(3,4) streamHandle.surjective streamHandle.update_convs(2))+
  have less: "r \<in> set (hrow (hs ! i))" if "r \<in> set (hrow (?hs ! i))" for r i
    using that h(1) by (cases "i = sid x") (auto simp: nth_list_update xi)
  have "\<forall>sr\<in>set rows2. srow sr \<in> sortable ints orderBy \<and> sid sr < length ?hs \<and>
      (\<forall>r\<in>set (hrow (?hs ! sid sr)). row_le orderBy (srow sr) r)"
  proof
    fix sr assume "sr \<in> set rows2"
    then consider "sr = x\<lparr>srow := row\<rparr>" | "sr \<in> set rows" using rows rows2 by auto
    then show "srow sr \<in> sortable ints orderBy \<and> sid sr < length ?hs \<and> (\<forall>r\<in>set (hrow (?hs ! sid sr)). row_le orderBy (srow sr) r)"
    proof cases
      case 1
      then show ?thesis using old xi by simp
    next
      case 2
      then show ?thesis using inv less unfolding merge_inv_def by auto
    qed
  qed
  moreover have "\<exists>sr\<in>set rows2. sid sr = i" if i: "i < length ?hs" "hrow (?hs ! i) \<noteq> []" for i
  proof (cases "i = sid x")
    case False
    then have "hrow (hs ! i) \<noteq> []" "i < length hs" using i by auto
    then obtain sr where "sr \<in> set rows" "sid sr = i" using inv unfolding merge_inv_def by blast
    then show ?thesis using False rows rows2 by auto
  qed (simp add: rows2)
  moreover have "herr g = None \<and> \<not> hblocked g \<and> sorted_wrt (row_le orderBy) (hrow g) \<and> set (hrow g) \<subseteq> sortable ints orderBy"
    if "g \<in> set ?hs" for g
  proof (cases "g = h'")
    case True
    then show ?thesis using new old by simp
  next
    case False
    then have "g \<in> set hs" using that set_update_subset_insert [of hs "sid x" h'] by auto
    then show ?thesis using inv unfolding merge_inv_def by blast
  qed
  ultimately show ?thesis unfolding merge_inv_def by blast
qed

lemma handle_rows_update:
  "i < length hs \<Longrightarrow> hrow (hs ! i) = row # hrow h' \<Longrightarrow>
     mset (concat (map hrow hs)) = add_mset row (mset (concat (map hrow (hs[i := h']))))"
  by (induction hs arbitrary: i) (auto split: nat.splits)

abbreviation rows_of :: "streamRow list \<Rightarrow> streamHandle list \<Rightarrow> row multiset" where
  "rows_of rows hs \<equiv> mset (map srow rows) + mset (concat (map hrow hs))"

lemma merge_loop_step:
  assumes inv: "merge_inv ints orderBy rows hs" and heap: "scatter.heap orderBy rows" and rows: "rows \<noteq> []"
  shows "\<exists>(x :: streamRow) rows' hs'. merge_loop F orderBy collect rows hs acc =
      merge_loop F orderBy collect rows' hs' (acc @ [empty_result\<lparr>Rows := [srow x]\<rparr>]) \<and>
    merge_inv ints orderBy rows' hs' \<and> scatter.heap orderBy rows' \<and>
    length rows' + rows_left hs' < length rows + rows_left hs \<and>
    rows_of rows hs = add_mset (srow x) (rows_of rows' hs') \<and> (\<forall>r\<in>#rows_of rows' hs'. row_le orderBy (srow x) r)"
proof -
  have sub: "set rows \<subseteq> {sr. srow sr \<in> sortable ints orderBy}" using inv by (auto simp: merge_inv_def)
  obtain x rows1 where pop: "heap_Pop (scatterHeap_Less F orderBy) (Ret None) rows = Ret (x, rows1, Ret None)"
    "scatter.heap orderBy rows1" "mset rows = add_mset x (mset rows1)" "\<forall>y\<in>set rows. row_le orderBy (srow x) (srow y)"
    using scatter.Pop_ok [OF heap sub rows, of F] by blast
  have x: "set rows = insert x (set rows1)" using arg_cong [OF pop(3), of set_mset] by simp
  have xi: "sid x < length hs" using inv x by (simp add: merge_inv_def)
  have ok: "herr (hs ! sid x) = None" "\<not> hblocked (hs ! sid x)" "set (hrow (hs ! sid x)) \<subseteq> sortable ints orderBy"
    using inv xi unfolding merge_inv_def by (metis nth_mem)+
  have least: "\<forall>r\<in>#rows_of rows1 hs. row_le orderBy (srow x) r" using merge_least [OF inv pop(4)] pop(4) x by auto
  have size: "length rows = Suc (length rows1)" using arg_cong [OF pop(3), of size] by simp
  have img: "mset (map srow rows) = add_mset (srow x) (mset (map srow rows1))"
    using arg_cong [OF pop(3), of "image_mset srow"] by simp
  note unfold = merge_loop.simps [of F orderBy collect rows hs] collect_def slice_index_def
  show ?thesis
  proof (cases "hrow (hs ! sid x)")
    case Nil
    have "receive (hs ! sid x) = Inr (None, hs ! sid x)" using Nil ok by (simp add: receive_def)
    then show ?thesis
      using merge_inv_done [OF inv pop(3) Nil] pop(1,2) rows xi least size img
      by (intro exI [of _ x] exI [of _ rows1] exI [of _ hs]) (simp add: unfold)
  next
    case (Cons row rs)
    let ?h = "(hs ! sid x)\<lparr>hrow := rs\<rparr>" and ?x = "x\<lparr>srow := row\<rparr>"
    have sub1: "set rows1 \<subseteq> {sr. srow sr \<in> sortable ints orderBy}" using sub x by auto
    have "?x \<in> {sr. srow sr \<in> sortable ints orderBy}" using ok(3) Cons by simp
    from scatter.Push_ok [OF pop(2) sub1 this, of F] obtain rows2 where
      push: "heap_Push (scatterHeap_Less F orderBy) (Ret None) rows1 ?x = (rows2, Ret None)" "scatter.heap orderBy rows2"
        "mset rows2 = add_mset ?x (mset rows1)" by blast
    have inv2: "merge_inv ints orderBy rows2 (hs[sid x := ?h])"
      by (rule merge_inv_next [OF inv pop(3) _ _ push(3)]) (simp_all add: Cons)
    have "length rows2 + rows_left (hs[sid x := ?h]) < length rows + rows_left hs"
      using size arg_cong [OF push(3), of size] rows_left_less [OF xi, of row ?h] Cons by simp
    moreover have "rows_of rows2 (hs[sid x := ?h]) = rows_of rows1 hs"
      using arg_cong [OF push(3), of "image_mset srow"] handle_rows_update [OF xi, of row ?h] Cons by simp
    moreover have "receive (hs ! sid x) = Inr (Some row, ?h)" using Cons by (simp add: receive_def)
    ultimately show ?thesis
      using inv2 pop(1) push(1,2) rows xi least img
      by (intro exI [of _ x] exI [of _ rows2] exI [of _ "hs[sid x := ?h]"]) (simp add: unfold)
  qed
qed

lemma merge_loop_ok:
  assumes "merge_inv ints orderBy rows hs" "scatter.heap orderBy rows"
  shows "\<exists>out. merge_loop F orderBy collect rows hs acc = Ret (None, acc @ out) \<and>
    mset (concat (map Rows out)) = rows_of rows hs \<and>
    sorted_wrt (row_le orderBy) (concat (map Rows out)) \<and> list_all (\<lambda>r. Fields r = []) out"
  using assms
proof (induction "length rows + rows_left hs" arbitrary: rows hs acc rule: less_induct)
  case less
  show ?case
  proof (cases "rows = []")
    case True
    then have "\<forall>i < length hs. hrow (hs ! i) = []" using less.prems(1) unfolding merge_inv_def by auto
    then have "concat (map hrow hs) = []" by (auto simp: in_set_conv_nth)
    then show ?thesis using True by (intro exI [of _ "[]"]) (subst merge_loop.simps, simp)
  next
    case False
    from merge_loop_step [OF less.prems False, of F acc] obtain x :: streamRow and rows' hs'
      where step: "merge_loop F orderBy collect rows hs acc =
          merge_loop F orderBy collect rows' hs' (acc @ [empty_result\<lparr>Rows := [srow x]\<rparr>])"
        and inv: "merge_inv ints orderBy rows' hs'" "scatter.heap orderBy rows'"
        and smaller: "length rows' + rows_left hs' < length rows + rows_left hs"
        and m: "rows_of rows hs = add_mset (srow x) (rows_of rows' hs')" "\<forall>r\<in>#rows_of rows' hs'. row_le orderBy (srow x) r"
      by blast
    let ?o = "empty_result\<lparr>Rows := [srow x]\<rparr>"
    from less.hyps [OF smaller inv, of "acc @ [?o]"] obtain out where
      out: "merge_loop F orderBy collect rows' hs' (acc @ [?o]) = Ret (None, (acc @ [?o]) @ out)"
        "mset (concat (map Rows out)) = rows_of rows' hs'"
        "sorted_wrt (row_le orderBy) (concat (map Rows out))" "list_all (\<lambda>r. Fields r = []) out" by blast
    have "\<forall>r\<in>set (concat (map Rows out)). row_le orderBy (srow x) r" using m(2) out(2) by (metis set_mset_mset)
    then show ?thesis using step m(1) out by (intro exI [of _ "?o # out"]) (simp add: empty_result_def)
  qed
qed

subsubsection \<open>The streams of the shards\<close>

text \<open>
  A stream as the callers of \<^verbatim>\<open>StreamExecuteMulti\<close> expect it: first the fields, then parts with rows, no error.
\<close>

definition shard_stream :: "Field list \<Rightarrow> row list \<Rightarrow> Result list \<times> engine_error option \<Rightarrow> bool" where
  "shard_stream flds rows s \<longleftrightarrow>
     flds \<noteq> [] \<and> snd s = None \<and>
     (\<exists>p ps. fst s = p # ps \<and> Fields p = flds \<and> Rows p = [] \<and> list_all (\<lambda>r. Fields r = []) ps \<and> concat (map Rows ps) = rows)"

lemma stream_sends_rows: "list_all (\<lambda>r. Fields r = []) ps \<Longrightarrow> stream_sends ps = map SendRow (concat (map Rows ps))"
  by (induction ps) (simp_all add: stream_sends_def)

lemma rows_sent_rows [simp]: "rows_sent n (map SendRow rs) = (rs, False)"
  by (induction rs) simp_all

lemma runOneStream_shard:
  assumes "shard_stream flds rows s" "0 < n"
  shows "runOneStream n s = \<lparr>hfields = Some (Some flds), hrow = rows, hblocked = False, herr = None\<rparr>"
proof -
  obtain p ps where s: "fst s = p # ps" "Fields p = flds" "Rows p = []" "list_all (\<lambda>r. Fields r = []) ps"
      "concat (map Rows ps) = rows" "flds \<noteq> []" "snd s = None"
    using assms(1) unfolding shard_stream_def by blast
  have "stream_sends (fst s) = SendFields flds # map SendRow rows"
    using s stream_sends_rows [OF s(4)] by (simp add: stream_sends_def)
  then show ?thesis using assms(2) s(7) by (cases n) (simp_all add: runOneStream_def Let_def)
qed

text \<open>Priming the heap with the first row of each stream.\<close>

lemma prime_heap_rows:
  assumes "\<forall>h\<in>set hs. herr h = None \<and> \<not> hblocked h"
  shows "prime_heap i hs = Inr (concat (map (\<lambda>(j, h). case hrow h of [] \<Rightarrow> [] | r # _ \<Rightarrow> [\<lparr>srow = r, sid = j\<rparr>]) (enumerate i hs)),
    map (\<lambda>h. h\<lparr>hrow := tl (hrow h)\<rparr>) hs)"
  using assms
proof (induction hs arbitrary: i)
  case (Cons h hs)
  then show ?case by (cases "hrow h") (simp_all add: receive_def)
qed simp

lemma prime_heap_inv:
  assumes "\<forall>h\<in>set hs. herr h = None \<and> \<not> hblocked h \<and> sorted_wrt (row_le orderBy) (hrow h) \<and> set (hrow h) \<subseteq> sortable ints orderBy"
  shows "\<exists>rows hs'. prime_heap 0 hs = Inr (rows, hs') \<and> merge_inv ints orderBy rows hs' \<and>
    rows_of rows hs' = mset (concat (map hrow hs))"
proof -
  let ?f = "\<lambda>(j, h). case hrow h of [] \<Rightarrow> [] | r # _ \<Rightarrow> [\<lparr>srow = r, sid = j\<rparr>]"
  let ?rows = "concat (map ?f (enumerate 0 hs))" and ?hs = "map (\<lambda>h. h\<lparr>hrow := tl (hrow h)\<rparr>) hs"
  have mem: "sr \<in> set ?rows \<longleftrightarrow> sid sr < length hs \<and> hrow (hs ! sid sr) \<noteq> [] \<and> srow sr = hd (hrow (hs ! sid sr))" for sr
  proof -
    have "sr \<in> set ?rows \<longleftrightarrow> (\<exists>j < length hs. sr \<in> set (?f (j, hs ! j)))" by (simp add: in_set_enumerate_eq Bex_def)
    also have "\<dots> \<longleftrightarrow> (\<exists>j < length hs. hrow (hs ! j) \<noteq> [] \<and> sr = \<lparr>srow = hd (hrow (hs ! j)), sid = j\<rparr>)"
      by (intro ex_cong1 conj_cong refl) (simp add: list.case_eq_if)
    finally show ?thesis by (cases sr) auto
  qed
  have "rows_of (concat (map ?f (enumerate i hs))) ?hs = mset (concat (map hrow hs))" for i
  proof (induction hs arbitrary: i)
    case (Cons h hs)
    from Cons [of "Suc i"] show ?case by (cases "hrow h") simp_all
  qed simp
  moreover have "merge_inv ints orderBy ?rows ?hs"
    unfolding merge_inv_def
  proof (intro conjI ballI allI impI)
    fix sr assume "sr \<in> set ?rows"
    then have sr: "sid sr < length hs" "hrow (hs ! sid sr) \<noteq> []" "srow sr = hd (hrow (hs ! sid sr))" using mem by auto
    with assms have ok: "sorted_wrt (row_le orderBy) (hrow (hs ! sid sr))" "set (hrow (hs ! sid sr)) \<subseteq> sortable ints orderBy" by auto
    show "srow sr \<in> sortable ints orderBy" using ok(2) sr(2,3) by auto
    show "sid sr < length ?hs" using sr(1) by simp
    fix r assume "r \<in> set (hrow (?hs ! sid sr))"
    then show "row_le orderBy (srow sr) r" using ok(1) sr by (cases "hrow (hs ! sid sr)") auto
  next
    fix i assume i: "i < length ?hs" "hrow (?hs ! i) \<noteq> []"
    then have "hrow (hs ! i) \<noteq> []" by (cases "hrow (hs ! i)") auto
    then have "\<lparr>srow = hd (hrow (hs ! i)), sid = i\<rparr> \<in> set ?rows" unfolding mem using i(1) by simp
    then show "\<exists>sr\<in>set ?rows. sid sr = i" by (metis streamRow.select_convs(2))
  next
    fix h assume "h \<in> set ?hs"
    then obtain g where g: "g \<in> set hs" "h = g\<lparr>hrow := tl (hrow g)\<rparr>" by auto
    with assms have ok: "herr g = None" "\<not> hblocked g" "sorted_wrt (row_le orderBy) (hrow g)" "set (hrow g) \<subseteq> sortable ints orderBy" by auto
    show "herr h = None" "\<not> hblocked h" using g(2) ok(1,2) by simp_all
    show "sorted_wrt (row_le orderBy) (hrow h)" "set (hrow h) \<subseteq> sortable ints orderBy"
      using g(2) ok(3,4) by (cases "hrow g"; auto)+
  qed
  ultimately show ?thesis using assms prime_heap_rows [of hs 0] by auto
qed

lemma mergeSort_ok:
  assumes "list_all2 (shard_stream flds) rowss streams" "streams \<noteq> []"
    and "\<forall>rows\<in>set rowss. sorted_wrt (row_le orderBy) rows \<and> set rows \<subseteq> sortable ints orderBy"
  shows "\<exists>out. mergeSort F orderBy streams collect [] = Ret (None, empty_result\<lparr>Fields := flds\<rparr> # out) \<and>
    mset (concat (map Rows out)) = mset (concat rowss) \<and>
    sorted_wrt (row_le orderBy) (concat (map Rows out)) \<and> list_all (\<lambda>r. Fields r = []) out"
proof -
  let ?h = "\<lambda>rows. \<lparr>hfields = Some (Some flds), hrow = rows, hblocked = False, herr = None\<rparr>"
  obtain s ss where s: "streams = s # ss" using assms(2) by (cases streams) auto
  then obtain r rs where r: "rowss = r # rs" using assms(1) by (cases rowss) auto
  have "map (runOneStream 1) ss = map ?h rs"
    using assms(1) unfolding s r list_all2_Cons
    by (auto simp: list_all2_conv_all_nth runOneStream_shard simp del: One_nat_def intro!: nth_equalityI)
  moreover have "runOneStream 2 s = ?h r" using assms(1) s r runOneStream_shard [of flds r s 2] by simp
  ultimately have hs: "runOneStream 2 s # map (runOneStream 1) ss = map ?h rowss" using r by simp
  have "\<forall>h\<in>set (map ?h rowss). herr h = None \<and> \<not> hblocked h \<and> sorted_wrt (row_le orderBy) (hrow h) \<and> set (hrow h) \<subseteq> sortable ints orderBy"
    using assms(3) by auto
  from prime_heap_inv [OF this] obtain rows hs' where
    p: "prime_heap 0 (map ?h rowss) = Inr (rows, hs')" "merge_inv ints orderBy rows hs'" "rows_of rows hs' = mset (concat rowss)"
    by (auto simp: comp_def)
  have "set rows \<subseteq> {sr. srow sr \<in> sortable ints orderBy}" using p(2) by (auto simp: merge_inv_def)
  from scatter.Init_ok [OF this, of F] obtain rows1 where
    i: "heap_Init (scatterHeap_Less F orderBy) (Ret None) rows = (rows1, Ret None)" "scatter.heap orderBy rows1" "mset rows1 = mset rows"
    by blast
  have "merge_inv ints orderBy rows1 hs'" using p(2) mset_eq_setD [OF i(3)] by (simp add: merge_inv_def)
  from merge_loop_ok [OF this i(2), of F "[empty_result\<lparr>Fields := flds\<rparr>]"] obtain out where
    out: "merge_loop F orderBy collect rows1 hs' [empty_result\<lparr>Fields := flds\<rparr>] = Ret (None, empty_result\<lparr>Fields := flds\<rparr> # out)"
      "mset (concat (map Rows out)) = rows_of rows1 hs'" "sorted_wrt (row_le orderBy) (concat (map Rows out))"
      "list_all (\<lambda>r. Fields r = []) out" by auto
  have "rows_of rows1 hs' = mset (concat rowss)" using p(3) arg_cong [OF i(3), of "image_mset srow"] by simp
  moreover have "mergeSort F orderBy streams collect [] = Ret (None, empty_result\<lparr>Fields := flds\<rparr> # out)"
    unfolding mergeSort_def s list.case hs Let_def using p(1) i(1) out(1) r by (simp add: collect_def)
  ultimately show ?thesis using out by auto
qed

subsubsection \<open>No row is lost\<close>

text \<open>A stream that is not at its good end has a row in the heap.\<close>

definition covered :: "streamRow list \<Rightarrow> streamHandle list \<Rightarrow> bool" where
  "covered rows hs \<longleftrightarrow>
     (\<forall>i < length hs. hrow (hs ! i) \<noteq> [] \<or> herr (hs ! i) \<noteq> None \<or> hblocked (hs ! i) \<longrightarrow> (\<exists>sr\<in>set rows. sid sr = i))"

lemma merge_loop_returns:
  assumes "merge_loop F orderBy collect rows hs acc = Ret (None, res)" "rows \<noteq> []"
  obtains (closed) x rows1 where "heap_Pop (scatterHeap_Less F orderBy) (Ret None) rows = Ret (x, rows1, Ret None)"
      "sid x < length hs" "receive (hs ! sid x) = Inr (None, hs ! sid x)"
      "merge_loop F orderBy collect rows1 hs (acc @ [empty_result\<lparr>Rows := [srow x]\<rparr>]) = Ret (None, res)"
    | (more) x rows1 row h' rows2 where "heap_Pop (scatterHeap_Less F orderBy) (Ret None) rows = Ret (x, rows1, Ret None)"
      "sid x < length hs" "receive (hs ! sid x) = Inr (Some row, h')"
      "heap_Push (scatterHeap_Less F orderBy) (Ret None) rows1 (x\<lparr>srow := row\<rparr>) = (rows2, Ret None)"
      "merge_loop F orderBy collect rows2 (hs[sid x := h']) (acc @ [empty_result\<lparr>Rows := [srow x]\<rparr>]) = Ret (None, res)"
proof -
  from assms obtain x rows1 where
    pop: "heap_Pop (scatterHeap_Less F orderBy) (Ret None) rows = Ret (x, rows1, Ret None)" and xi: "sid x < length hs"
    by (subst (asm) merge_loop.simps) (auto simp: go_bind_Ret_iff slice_index_def split: if_splits)
  let ?acc = "acc @ [empty_result\<lparr>Rows := [srow x]\<rparr>]"
  note unfold = merge_loop.simps [of F orderBy collect rows hs] collect_def slice_index_def
  show ?thesis
  proof (cases "receive (hs ! sid x)")
    case (Inr p)
    then obtain r h' where r: "receive (hs ! sid x) = Inr (r, h')" by (cases p) auto
    from r show ?thesis
    proof (cases rule: receive_cases)
      case 1
      then show ?thesis using closed [OF pop xi] assms pop xi r by (simp add: unfold)
    next
      case (2 row)
      obtain rows2 s2 where push: "heap_Push (scatterHeap_Less F orderBy) (Ret None) rows1 (x\<lparr>srow := row\<rparr>) = (rows2, s2)"
        by fastforce
      have "go_bind s2 (\<lambda>err. if err \<noteq> None then Ret (err, ?acc)
          else merge_loop F orderBy collect rows2 (hs[sid x := h']) ?acc) = Ret (None, res)"
        using assms pop xi r 2(1) push by (simp add: unfold)
      then have "s2 = Ret None" "merge_loop F orderBy collect rows2 (hs[sid x := h']) ?acc = Ret (None, res)"
        by (auto simp: go_bind_Ret_iff split: if_splits)
      then show ?thesis using more [OF pop xi] r 2(1) push by simp
    qed
  qed (use assms pop xi in \<open>simp add: unfold\<close>)
qed

lemma covered_closed:
  assumes "covered rows hs" "mset rows = add_mset x (mset rows1)" "receive (hs ! sid x) = Inr (None, h')"
  shows "covered rows1 hs"
proof -
  have "set rows = insert x (set rows1)" using arg_cong [OF assms(2), of set_mset] by simp
  then show ?thesis using assms(1,3) unfolding covered_def by (auto elim!: receive_cases)
qed

lemma covered_more:
  assumes "covered rows hs" "mset rows = add_mset x (mset rows1)" "mset rows2 = add_mset (x\<lparr>srow := row\<rparr>) (mset rows1)"
  shows "covered rows2 (hs[sid x := h'])"
proof -
  have "set rows = insert x (set rows1)" "set rows2 = insert (x\<lparr>srow := row\<rparr>) (set rows1)"
    using arg_cong [OF assms(2), of set_mset] arg_cong [OF assms(3), of set_mset] by simp_all
  then show ?thesis using assms(1) unfolding covered_def by (auto simp: nth_list_update)
qed

lemma merge_loop_complete:
  assumes "merge_loop F orderBy collect rows hs acc = Ret (None, res)" "covered rows hs"
  shows "\<exists>out. res = acc @ out \<and> mset (concat (map Rows out)) = rows_of rows hs \<and> (\<forall>h\<in>set hs. herr h = None \<and> \<not> hblocked h)"
  using assms
proof (induction "length rows + rows_left hs" arbitrary: rows hs acc rule: less_induct)
  case less
  show ?case
  proof (cases "rows = []")
    case True
    then have h: "\<forall>i < length hs. hrow (hs ! i) = [] \<and> herr (hs ! i) = None \<and> \<not> hblocked (hs ! i)"
      using less.prems(2) unfolding covered_def by auto
    then have "concat (map hrow hs) = []" by (auto simp: in_set_conv_nth)
    moreover have "res = acc" using less.prems(1) True by (subst (asm) merge_loop.simps) simp
    ultimately show ?thesis using True h by (auto simp: in_set_conv_nth)
  next
    case False
    from less.prems(1) False show ?thesis
    proof (cases rule: merge_loop_returns)
      case (closed x rows1)
      have m: "mset rows = add_mset x (mset rows1)" by (rule heap_Pop_mset [OF closed(1)])
      have "length rows1 + rows_left hs < length rows + rows_left hs" using arg_cong [OF m, of size] by simp
      from less.hyps [OF this closed(4) covered_closed [OF less.prems(2) m closed(3)]]
      show ?thesis using arg_cong [OF m, of "image_mset srow"] by (auto simp: empty_result_def)
    next
      case (more x rows1 row h' rows2)
      have m: "mset rows = add_mset x (mset rows1)" "mset rows2 = add_mset (x\<lparr>srow := row\<rparr>) (mset rows1)"
        by (rule heap_Pop_mset [OF more(1)], rule heap_Push_mset [OF more(4)])
      have h: "hrow (hs ! sid x) = row # hrow h'" "herr h' = herr (hs ! sid x)" "hblocked h' = hblocked (hs ! sid x)"
        using more(3) by (auto simp: receive_def split: list.splits if_splits option.splits)
      have "length rows2 + rows_left (hs[sid x := h']) < length rows + rows_left hs"
        using arg_cong [OF m(1), of size] arg_cong [OF m(2), of size] rows_left_less [OF more(2) h(1)] by simp
      from less.hyps [OF this more(5) covered_more [OF less.prems(2) m]] obtain out where
        out: "res = (acc @ [empty_result\<lparr>Rows := [srow x]\<rparr>]) @ out"
          "mset (concat (map Rows out)) = rows_of rows2 (hs[sid x := h'])"
          "\<forall>g\<in>set (hs[sid x := h']). herr g = None \<and> \<not> hblocked g" by blast
      have "herr h' = None \<and> \<not> hblocked h'" using out(3) more(2) by (simp add: set_update_memI)
      then have "herr g = None \<and> \<not> hblocked g" if "g \<in> set hs" for g
        using that out(3) h(2,3) by (metis in_set_conv_nth length_list_update nth_list_update_neq nth_mem)
      then show ?thesis
        using out(1,2) arg_cong [OF m(1), of "image_mset srow"] arg_cong [OF m(2), of "image_mset srow"]
          handle_rows_update [OF more(2) h(1)]
        by (intro exI [of _ "empty_result\<lparr>Rows := [srow x]\<rparr> # out"]) (simp add: empty_result_def)
    qed
  qed
qed

lemma prime_heap_covered:
  "prime_heap i hs = Inr (rows, hs') \<Longrightarrow> length hs' = length hs \<and> rows_of rows hs' = mset (concat (map hrow hs)) \<and>
     (\<forall>j < length hs. herr (hs' ! j) = herr (hs ! j) \<and> hblocked (hs' ! j) = hblocked (hs ! j) \<and>
        (hrow (hs' ! j) \<noteq> [] \<or> herr (hs' ! j) \<noteq> None \<or> hblocked (hs' ! j) \<longrightarrow> (\<exists>sr\<in>set rows. sid sr = i + j)))"
proof (induction hs arbitrary: i rows hs')
  case (Cons h hs)
  then obtain r h1 rows1 hs1 where p: "receive h = Inr (r, h1)" "prime_heap (i + 1) hs = Inr (rows1, hs1)" "hs' = h1 # hs1"
      "rows = (case r of None \<Rightarrow> [] | Some row \<Rightarrow> [\<lparr>srow = row, sid = i\<rparr>]) @ rows1"
    by (auto split: sum.splits prod.splits)
  note IH = Cons.IH [OF p(2)]
  from p(1) show ?case
  proof (cases rule: receive_cases)
    case 1
    then show ?thesis using IH p(3,4) by (auto simp: nth_Cons split: nat.splits)
  next
    case (2 row)
    have "herr h1 = herr h" "hblocked h1 = hblocked h" using p(1) 2(1) by (auto simp: receive_def split: list.splits if_splits option.splits)
    then show ?thesis using 2(1,2) IH p(3,4) by (auto simp: nth_Cons split: nat.splits)
  qed
qed simp

definition sent_rows :: "stream_send list \<Rightarrow> row list" where
  "sent_rows ss = concat (map (\<lambda>s. case s of SendFields f \<Rightarrow> [] | SendRow r \<Rightarrow> [r]) ss)"

lemma rows_sent_all: "\<not> snd (rows_sent n ss) \<Longrightarrow> fst (rows_sent n ss) = sent_rows ss"
  by (induction n ss rule: rows_sent.induct) (auto simp: sent_rows_def split: nat.splits prod.splits)

lemma sent_rows_map [simp]: "sent_rows (map SendRow rs) = rs"
  by (induction rs) (simp_all add: sent_rows_def)

lemma sent_rows_append [simp]: "sent_rows (xs @ ys) = sent_rows xs @ sent_rows ys"
  by (simp add: sent_rows_def)

lemma sent_rows_sends: "sent_rows (stream_sends qrs) = concat (map Rows qrs)"
proof (induction qrs)
  case (Cons qr qrs)
  have "sent_rows [SendFields f] = []" "sent_rows [] = []" for f by (simp_all add: sent_rows_def)
  then show ?case using Cons by (simp add: stream_sends_def)
qed (simp add: stream_sends_def sent_rows_def)

lemma runOneStream_rows: "\<not> hblocked (runOneStream n s) \<Longrightarrow> hrow (runOneStream n s) = concat (map Rows (fst s))"
  using rows_sent_all [of n "stream_sends (fst s)"] by (simp add: runOneStream_def Let_def sent_rows_sends)

lemma herr_runOneStream [simp]: "herr (runOneStream n s) = snd s"
  by (simp add: runOneStream_def Let_def)

lemma fields_sent_closed: "SendFields f \<in> set ss \<Longrightarrow> fields_sent n ss \<noteq> Some None"
  by (induction n ss rule: fields_sent.induct) (auto split: nat.splits)

lemma runOneStream_fields:
  assumes "\<exists>r\<in>set (fst s). Fields r \<noteq> []"
  shows "hfields (runOneStream n s) \<noteq> Some None"
proof -
  obtain r where "r \<in> set (fst s)" "Fields r \<noteq> []" using assms by blast
  then have "SendFields (Fields r) \<in> set (stream_sends (fst s))" by (force simp: stream_sends_def)
  then show ?thesis by (simp add: runOneStream_def Let_def fields_sent_closed)
qed

lemma mergeSort_returns:
  assumes "mergeSort F orderBy (s # ss) collect [] = Ret (None, out)" "\<exists>r\<in>set (fst s). Fields r \<noteq> []"
  shows "\<exists>flds rows hs' rows1. prime_heap 0 (runOneStream 2 s # map (runOneStream 1) ss) = Inr (rows, hs') \<and>
    heap_Init (scatterHeap_Less F orderBy) (Ret None) rows = (rows1, Ret None) \<and>
    merge_loop F orderBy collect rows1 hs' [empty_result\<lparr>Fields := flds\<rparr>] = Ret (None, out)"
proof -
  obtain flds where f: "hfields (runOneStream 2 s) = Some (Some flds)"
  proof (cases "hfields (runOneStream 2 s)")
    case None
    then show ?thesis using assms(1) by (simp add: mergeSort_def Let_def)
  next
    case (Some f)
    then show ?thesis using runOneStream_fields [OF assms(2), of 2] that by (cases f) auto
  qed
  obtain rows hs' where p: "prime_heap 0 (runOneStream 2 s # map (runOneStream 1) ss) = Inr (rows, hs')"
    using assms(1) f by (auto simp: mergeSort_def collect_def simp del: prime_heap.simps split: sum.splits)
  obtain rows1 s1 where i: "heap_Init (scatterHeap_Less F orderBy) (Ret None) rows = (rows1, s1)" by fastforce
  have "go_bind s1 (\<lambda>err1. if err1 \<noteq> None then Ret (err1, [empty_result\<lparr>Fields := flds\<rparr>])
      else merge_loop F orderBy collect rows1 hs' [empty_result\<lparr>Fields := flds\<rparr>]) = Ret (None, out)"
    using assms(1) f p i by (simp add: mergeSort_def collect_def del: prime_heap.simps)
  then show ?thesis using p i by (auto simp: go_bind_Ret_iff split: if_splits)
qed

lemma NewInt64_key:
  assumes "- (2 ^ 63) \<le> i" "i < 2 ^ 63"
  shows "vkey (NewInt64 i) = (1, i, [])" "sort_value True (NewInt64 i)"
  using int_value_numeric(2,3) [OF int_value_NewInt64 [OF assms]] value_int_value [OF int_value_NewInt64 [OF assms]]
    int_value_NewInt64 [OF assms]
  by (simp_all add: vkey_def sort_value_def)

subsection \<open>Properties\<close>



text \<open>
  C8. A merge sort never ends without an error unless the result is complete: whatever the streams and the order, when it returns no
  error and the first shard has sent fields, no stream has ended with an error and every row of every stream has been sent on once.
\<close>
theorem mergeSort_complete:
  assumes "mergeSort F orderBy (s # ss) collect [] = Ret (None, out)" "\<exists>r\<in>set (fst s). Fields r \<noteq> []"
  shows "list_all (\<lambda>t. snd t = None) (s # ss) \<and>
    mset (concat (map Rows out)) = mset (concat (map (\<lambda>t. concat (map Rows (fst t))) (s # ss)))"
proof -
  define hs where "hs = runOneStream 2 s # map (runOneStream 1) ss"
  obtain flds rows hs' rows1 where p: "prime_heap 0 hs = Inr (rows, hs')"
    and i: "heap_Init (scatterHeap_Less F orderBy) (Ret None) rows = (rows1, Ret None)"
    and l: "merge_loop F orderBy collect rows1 hs' [empty_result\<lparr>Fields := flds\<rparr>] = Ret (None, out)"
    using mergeSort_returns [OF assms] unfolding hs_def by blast
  note pc = prime_heap_covered [OF p]
  have len: "length hs' = length hs" using pc by blast
  have m: "mset rows1 = mset rows" by (rule heap_Init_mset [OF i])
  then have "covered rows1 hs'" using pc mset_eq_setD [OF m] by (simp add: covered_def)
  from merge_loop_complete [OF l this] obtain out' where out: "out = [empty_result\<lparr>Fields := flds\<rparr>] @ out'"
    "mset (concat (map Rows out')) = rows_of rows1 hs'" "\<forall>h\<in>set hs'. herr h = None \<and> \<not> hblocked h" by blast
  have ok: "herr h = None \<and> \<not> hblocked h" if mem: "h \<in> set hs" for h
  proof -
    obtain j where j: "j < length hs" "hs ! j = h" using mem unfolding in_set_conv_nth by blast
    then have "hs' ! j \<in> set hs'" using len nth_mem [of j hs'] by (simp only:)
    moreover have "herr (hs' ! j) = herr (hs ! j)" "hblocked (hs' ! j) = hblocked (hs ! j)" using pc j(1) by blast+
    ultimately show ?thesis using out(3) j(2) by simp
  qed
  have s: "snd s = None" "hrow (runOneStream 2 s) = concat (map Rows (fst s))"
    using ok [of "runOneStream 2 s"] by (simp_all add: hs_def runOneStream_rows)
  have ss: "snd t = None \<and> hrow (runOneStream 1 t) = concat (map Rows (fst t))" if "t \<in> set ss" for t
  proof -
    have "runOneStream 1 t \<in> set hs" using that unfolding hs_def by (simp del: One_nat_def)
    from ok [OF this] show ?thesis using runOneStream_rows [of 1 t] by simp
  qed
  have "map hrow (map (runOneStream 1) ss) = map (\<lambda>t. concat (map Rows (fst t))) ss" using ss by (simp del: One_nat_def)
  then have rows: "concat (map hrow hs) = concat (map (\<lambda>t. concat (map Rows (fst t))) (s # ss))"
    using s(2) by (simp only: hs_def list.map concat.simps)
  have "mset (concat (map Rows out)) = rows_of rows1 hs'" using out(1,2) by (simp add: empty_result_def)
  also have "\<dots> = rows_of rows hs'" using arg_cong [OF m, of "image_mset srow"] by simp
  also have "\<dots> = mset (concat (map hrow hs))" using pc by blast
  finally show ?thesis using s(1) ss rows by (simp add: list_all_iff)
qed

theorem mergeSort_complete_witness:
  "let s = ([empty_result\<lparr>Fields := [int_field]\<rparr>, empty_result\<lparr>Rows := [[NewInt64 3]]\<rparr>], None) in
   \<exists>out. mergeSort (undefined :: unit float_ops) [] [s] collect [] = Ret (None, out) \<and> mset (concat (map Rows out)) = {#[NewInt64 3]#}"
proof -
  let ?s = "([empty_result\<lparr>Fields := [int_field]\<rparr>, empty_result\<lparr>Rows := [[NewInt64 3]]\<rparr>], None)"
  have "shard_stream [int_field] [[NewInt64 3]] ?s" by (simp add: shard_stream_def empty_result_def)
  then have "\<exists>out. mergeSort (undefined :: unit float_ops) [] [?s] collect [] = Ret (None, out)"
    using mergeSort_ok [of "[int_field]" "[[[NewInt64 3]]]" "[?s]" "[]" "\<lambda>_. True" "undefined :: unit float_ops"]
    by (auto simp: sortable_def)
  then obtain out where o: "mergeSort (undefined :: unit float_ops) [] [?s] collect [] = Ret (None, out)" by blast
  have "\<exists>r\<in>set (fst ?s). Fields r \<noteq> []" by (simp add: empty_result_def)
  from mergeSort_complete [OF o this] o show ?thesis by (auto simp: empty_result_def)
qed

end
