(* ===== verification/Route.thy ===== *)
theory Route
  imports Merge_Sort
begin

text \<open>
  The primitives of the query engine that send queries to shards, \<^verbatim>\<open>src/vt/vtgate/engine/route.go\<close>, and those for
  subqueries, \<^verbatim>\<open>subquery.go\<close> and \<^verbatim>\<open>pullout_subquery.go\<close> next to it.

  The interface \<^verbatim>\<open>VCursor\<close> is a parameter: a record of what its methods return. Its results are functions of the arguments; a
  list of errors is nil when it is empty. Of a vindex, a route uses \<^verbatim>\<open>Map\<close> only, which is a field of the route. The timeout
  of a query is not modelled. \<^verbatim>\<open>sort.Slice\<close> leaves the order of equal rows open: it is a parameter, which gets the comparison,
  the variable that the comparison sets, and the rows. A warning is kept as the error that it is made of.

  A route with an \<^verbatim>\<open>IN\<close> clause sends to each shard the values that the shard owns (\<open>paramsSelectIn_ksids\<close>); the
  streamed rows of a scatter are the rows of the shards in the order of the query (\<open>scatter_stream\<close>).
\<close>

subsection \<open>Queries and cursors\<close>

record BoundQuery =
  Sql :: string
  BindVariables :: bind_vars

record 'q VCursor =
  VC_ResolveDestinations ::
    "string \<Rightarrow> Value list option \<Rightarrow> Destination list \<Rightarrow> engine_error + 'q ResolvedShard list \<times> Value list list"
  VC_ExecuteMultiShard ::
    "'q ResolvedShard list \<Rightarrow> BoundQuery list \<Rightarrow> bool \<Rightarrow> bool \<Rightarrow> Result \<times> engine_error option list"
  VC_StreamExecuteMulti ::
    "string \<Rightarrow> 'q ResolvedShard list \<Rightarrow> bind_vars list \<Rightarrow> Result list \<times> engine_error option"
  VC_AutocommitApproval :: bool

type_synonym sorter =
  "(engine_error option go \<Rightarrow> row \<Rightarrow> row \<Rightarrow> bool \<times> engine_error option go) \<Rightarrow> engine_error option go \<Rightarrow> row list \<Rightarrow>
     row list \<times> engine_error option go"

datatype RouteOpcode =
  SelectUnsharded | SelectEqualUnique | SelectEqual | SelectIN | SelectScatter | SelectNext | SelectDBA | SelectReference
  | OtherRoute int

record Route =
  ROpcode :: RouteOpcode
  RKeyspace :: string
  RQuery :: string
  RFieldQuery :: string
  RVindex :: "Value list \<Rightarrow> (engine_error + Destination list) go"
  RValues :: "PlanValue list"
  ROrderBy :: "OrderbyParams list"
  RTruncateColumnCount :: nat
  ScatterErrorsAsWarnings :: bool

definition routeName :: "RouteOpcode \<Rightarrow> string" where
  "routeName code =
     (case code of
        SelectUnsharded \<Rightarrow> ''SelectUnsharded''
      | SelectEqualUnique \<Rightarrow> ''SelectEqualUnique''
      | SelectEqual \<Rightarrow> ''SelectEqual''
      | SelectIN \<Rightarrow> ''SelectIN''
      | SelectScatter \<Rightarrow> ''SelectScatter''
      | SelectNext \<Rightarrow> ''SelectNext''
      | SelectDBA \<Rightarrow> ''SelectDBA''
      | SelectReference \<Rightarrow> ''SelectReference''
      | OtherRoute _ \<Rightarrow> [])"

definition Route_RouteType :: "Route \<Rightarrow> string" where
  "Route_RouteType route = routeName (ROpcode route)"

text \<open>\<^verbatim>\<open>vterrors.Aggregate\<close>; it calls a method of each error, which panics for nil.\<close>

fun present :: "'e option list \<Rightarrow> 'e list go" where
  "present [] = Ret []"
| "present (e # es) = (case e of None \<Rightarrow> Panic | Some err \<Rightarrow> go_bind (present es) (\<lambda>errs. Ret (err # errs)))"

definition Aggregate :: "engine_error option list \<Rightarrow> engine_error option go" where
  "Aggregate errs = (if errs = [] then Ret None else go_bind (present errs) (\<lambda>es. Ret (Some (Aggregated es))))"

definition getQueries :: "string \<Rightarrow> bind_vars list \<Rightarrow> BoundQuery list" where
  "getQueries query bvs = map (\<lambda>bv. \<lparr>Sql = query, BindVariables = bv\<rparr>) bvs"

definition execShard ::
  "'q VCursor \<Rightarrow> string \<Rightarrow> bind_vars \<Rightarrow> 'q ResolvedShard \<Rightarrow> bool \<Rightarrow> bool \<Rightarrow> (Result \<times> engine_error option) go" where
  "execShard vc query bindVars rs isDML canAutocommit =
     (let autocommit = canAutocommit \<and> VC_AutocommitApproval vc in
      case VC_ExecuteMultiShard vc [rs] [\<lparr>Sql = query, BindVariables = bindVars\<rparr>] isDML autocommit of
        (result, errs) \<Rightarrow> go_bind (Aggregate errs) (\<lambda>err. Ret (result, err)))"

definition shardVars :: "bind_vars \<Rightarrow> Value list list \<Rightarrow> bind_vars list" where
  "shardVars bv mapVals =
     map (\<lambda>vals. AList.update ''__vals'' \<lparr>bv_Type = T_Tuple, bv_Value = [], bv_Values = vals\<rparr> bv) mapVals"

subsection \<open>The shards of a query\<close>

type_synonym 'q params = "(engine_error + 'q ResolvedShard list \<times> bind_vars list) go"

definition wrap :: "string \<Rightarrow> engine_error + 'a \<Rightarrow> engine_error + 'a" where
  "wrap msg r = (case r of Inl err \<Rightarrow> Inl (Wrapped msg err) | Inr x \<Rightarrow> Inr x)"

text \<open>Every shard gets the same variables.\<close>

definition same_vars :: "bind_vars \<Rightarrow> 'q ResolvedShard list \<times> 'v \<Rightarrow> 'q ResolvedShard list \<times> bind_vars list" where
  "same_vars bindVars r = (fst r, replicate (length (fst r)) bindVars)"

definition paramsAllShards :: "Route \<Rightarrow> 'q VCursor \<Rightarrow> bind_vars \<Rightarrow> 'q params" where
  "paramsAllShards route vc bindVars =
     go_try (Ret (wrap ''paramsAllShards'' (VC_ResolveDestinations vc (RKeyspace route) None [DestinationAllShards])))
       (\<lambda>r. Ret (Inr (same_vars bindVars r)))"

definition paramsAnyShard :: "Route \<Rightarrow> 'q VCursor \<Rightarrow> bind_vars \<Rightarrow> 'q params" where
  "paramsAnyShard route vc bindVars =
     go_try (Ret (wrap ''paramsAnyShard'' (VC_ResolveDestinations vc (RKeyspace route) None [DestinationAnyShard])))
       (\<lambda>r. Ret (Inr (same_vars bindVars r)))"

definition resolveShards ::
  "Route \<Rightarrow> 'q VCursor \<Rightarrow> Value list \<Rightarrow> (engine_error + 'q ResolvedShard list \<times> Value list list) go" where
  "resolveShards route vc vindexKeys =
     go_try (RVindex route vindexKeys) (\<lambda>destinations.
       Ret (VC_ResolveDestinations vc (RKeyspace route) (Some vindexKeys) destinations))"

definition plan_res :: "plan_error + 'a \<Rightarrow> engine_error + 'a" where
  "plan_res r = (case r of Inl err \<Rightarrow> Inl (PlanErr err) | Inr x \<Rightarrow> Inr x)"

definition paramsSelectEqual :: "Route \<Rightarrow> 'q VCursor \<Rightarrow> bind_vars \<Rightarrow> 'q params" where
  "paramsSelectEqual route vc bindVars =
     go_bind (slice_index (RValues route) 0) (\<lambda>pv.
     go_try (Ret (wrap ''paramsSelectEqual'' (plan_res (ResolveValue pv bindVars)))) (\<lambda>key.
     go_bind (resolveShards route vc [key]) (\<lambda>r.
     go_try (Ret (wrap ''paramsSelectEqual'' r)) (\<lambda>r. Ret (Inr (same_vars bindVars r))))))"

definition paramsSelectIn :: "Route \<Rightarrow> 'q VCursor \<Rightarrow> bind_vars \<Rightarrow> 'q params" where
  "paramsSelectIn route vc bindVars =
     go_bind (slice_index (RValues route) 0) (\<lambda>pv.
     go_try (Ret (wrap ''paramsSelectIn'' (plan_res (ResolveList pv bindVars)))) (\<lambda>keys.
     go_bind (resolveShards route vc keys) (\<lambda>r.
     go_try (Ret (wrap ''paramsSelectIn'' r)) (\<lambda>(rss, values). Ret (Inr (rss, shardVars bindVars values))))))"

text \<open>The switch on the opcode that \<^verbatim>\<open>execute\<close> and \<^verbatim>\<open>StreamExecute\<close> share; \<open>err\<close> is the error of its default case.\<close>

definition route_params :: "Route \<Rightarrow> 'q VCursor \<Rightarrow> bind_vars \<Rightarrow> engine_error \<Rightarrow> 'q params" where
  "route_params route vc bindVars err =
     (case ROpcode route of
        SelectScatter \<Rightarrow> paramsAllShards route vc bindVars
      | SelectEqual \<Rightarrow> paramsSelectEqual route vc bindVars
      | SelectEqualUnique \<Rightarrow> paramsSelectEqual route vc bindVars
      | SelectIN \<Rightarrow> paramsSelectIn route vc bindVars
      | OtherRoute _ \<Rightarrow> Ret (Inl err)
      | _ \<Rightarrow> paramsAnyShard route vc bindVars)"

definition resolveSingleShard ::
  "'q VCursor \<Rightarrow> (Value list \<Rightarrow> (engine_error + Destination list) go) \<Rightarrow> string \<Rightarrow> Value \<Rightarrow>
     (engine_error + ('q ResolvedShard \<times> byte list) option) go" where
  "resolveSingleShard vc vmap keyspace vindexKey =
     go_try (vmap [vindexKey]) (\<lambda>destinations.
     go_bind (slice_index destinations 0) (\<lambda>d.
       case d of
         DestinationNone \<Rightarrow> Ret (Inr None)
       | DestinationKeyspaceID ksid \<Rightarrow>
           go_try (Ret (VC_ResolveDestinations vc keyspace None destinations)) (\<lambda>(rss, _).
             case rss of [rs] \<Rightarrow> Ret (Inr (Some (rs, ksid))) | _ \<Rightarrow> Ret (Inl (MapsToShards (length rss))))
       | _ \<Rightarrow> Ret (Inl (NotUniqueKsid d))))"

subsection \<open>Execution\<close>

definition Route_GetFields :: "Route \<Rightarrow> 'q VCursor \<Rightarrow> bind_vars \<Rightarrow> (engine_error + Result) go" where
  "Route_GetFields route vc bindVars =
     go_try (Ret (VC_ResolveDestinations vc (RKeyspace route) None [DestinationAnyShard])) (\<lambda>(rss, _).
       case rss of
         [rs] \<Rightarrow>
           go_bind (execShard vc (RFieldQuery route) bindVars rs False False) (\<lambda>(qr, err).
             case err of
               Some e \<Rightarrow> Ret (Inl e)
             | None \<Rightarrow> go_bind (Truncate (RTruncateColumnCount route) qr) (\<lambda>r. Ret (Inr r)))
       | _ \<Rightarrow> Ret (Inl (NoShards (RKeyspace route))))"

text \<open>The comparison of \<^verbatim>\<open>route.sort\<close> is that of \<^verbatim>\<open>scatterHeap.Less\<close> on bare rows. The copy leaves out \<^verbatim>\<open>Extras\<close>.\<close>

definition sort_less ::
  "'f float_ops \<Rightarrow> OrderbyParams list \<Rightarrow> engine_error option go \<Rightarrow> row \<Rightarrow> row \<Rightarrow> bool \<times> engine_error option go" where
  "sort_less F orderBy s r1 r2 =
     (case go_bind s (less_from F orderBy r1 r2) of Panic \<Rightarrow> (True, Panic) | Ret (b, err) \<Rightarrow> (b, Ret err))"

definition Route_sort :: "'f float_ops \<Rightarrow> sorter \<Rightarrow> Route \<Rightarrow> Result \<Rightarrow> (engine_error + Result) go" where
  "Route_sort F sort_Slice route inr =
     (case sort_Slice (sort_less F (ROrderBy route)) (Ret None) (Rows inr) of
        (rows, s) \<Rightarrow>
          go_bind s (\<lambda>err.
            case err of Some e \<Rightarrow> Ret (Inl e) | None \<Rightarrow> Ret (Inr (inr\<lparr>Rows := rows, Extras := None\<rparr>))))"

text \<open>The result, and the errors that became warnings of the session.\<close>

definition execute ::
  "'f float_ops \<Rightarrow> sorter \<Rightarrow> Route \<Rightarrow> 'q VCursor \<Rightarrow> bind_vars \<Rightarrow> bool \<Rightarrow> ((engine_error + Result) \<times> engine_error list) go" where
  "execute F sort_Slice route vc bindVars wantfields =
     go_bind (route_params route vc bindVars UnsupportedRoute) (\<lambda>p.
       case p of
         Inl err \<Rightarrow> Ret (Inl err, [])
       | Inr (rss, bvs) \<Rightarrow>
           if length rss = 0 then
             (if wantfields then go_bind (Route_GetFields route vc bindVars) (\<lambda>r. Ret (r, []))
              else Ret (Inr empty_result, []))
           else
             (case VC_ExecuteMultiShard vc rss (getQueries (RQuery route) bvs) False False of
                (result, errs) \<Rightarrow>
                  if errs \<noteq> [] \<and> \<not> ScatterErrorsAsWarnings route then
                    go_bind (Aggregate errs) (\<lambda>err. Ret (Inl (the err), []))
                  else
                    (let warnings = List.map_filter (\<lambda>e. e) errs in
                     if length (ROrderBy route) = 0 then Ret (Inr result, warnings)
                     else go_bind (Route_sort F sort_Slice route result) (\<lambda>r. Ret (r, warnings)))))"

definition Route_Execute ::
  "'f float_ops \<Rightarrow> sorter \<Rightarrow> Route \<Rightarrow> 'q VCursor \<Rightarrow> bind_vars \<Rightarrow> bool \<Rightarrow> ((engine_error + Result) \<times> engine_error list) go" where
  "Route_Execute F sort_Slice route vc bindVars wantfields =
     go_bind (execute F sort_Slice route vc bindVars wantfields) (\<lambda>(r, warnings).
       case r of
         Inl err \<Rightarrow> Ret (Inl err, warnings)
       | Inr qr \<Rightarrow> go_bind (Truncate (RTruncateColumnCount route) qr) (\<lambda>qr'. Ret (Inr qr', warnings)))"

text \<open>The streams that \<^verbatim>\<open>mergeSort\<close> opens, one for each shard.\<close>

fun shard_streams :: "'q VCursor \<Rightarrow> string \<Rightarrow> 'q ResolvedShard list \<Rightarrow> bind_vars list \<Rightarrow> (Result list \<times> engine_error option) list go" where
  "shard_streams vc query [] bvs = Ret []"
| "shard_streams vc query (rs # rss) bvs =
     (case bvs of
        [] \<Rightarrow> Panic
      | bv # bvs' \<Rightarrow>
          go_bind (shard_streams vc query rss bvs') (\<lambda>ss. Ret (VC_StreamExecuteMulti vc query [rs] [bv] # ss)))"

definition Route_StreamExecute ::
  "'f float_ops \<Rightarrow> Route \<Rightarrow> 'q VCursor \<Rightarrow> bind_vars \<Rightarrow> bool \<Rightarrow> 'c callback \<Rightarrow> 'c \<Rightarrow> (engine_error option \<times> 'c) go" where
  "Route_StreamExecute F route vc bindVars wantfields cb c =
     go_bind (route_params route vc bindVars (NotStreamable (RQuery route))) (\<lambda>p.
       case p of
         Inl err \<Rightarrow> Ret (Some err, c)
       | Inr (rss, bvs) \<Rightarrow>
           if length rss = 0 then
             (if wantfields then
                go_bind (Route_GetFields route vc bindVars) (\<lambda>r. case r of Inl err \<Rightarrow> Ret (Some err, c) | Inr qr \<Rightarrow> cb qr c)
              else Ret (None, c))
           else if length (ROrderBy route) = 0 then
             (case VC_StreamExecuteMulti vc (RQuery route) rss bvs of
                (rs, final) \<Rightarrow> feed (truncating (RTruncateColumnCount route) cb) rs final c)
           else
             go_bind (shard_streams vc (RQuery route) rss bvs) (\<lambda>streams.
               mergeSort F (ROrderBy route) streams (truncating (RTruncateColumnCount route) cb) c))"

subsection \<open>Subqueries\<close>

definition pick_columns :: "nat list \<Rightarrow> 'a list \<Rightarrow> 'a list go" where
  "pick_columns cols xs = go_list (map (slice_index xs) cols)"

definition buildFields :: "nat list \<Rightarrow> Result \<Rightarrow> Field list go" where
  "buildFields cols inner = (if length (Fields inner) = 0 then Ret [] else pick_columns cols (Fields inner))"

definition buildResult :: "nat list \<Rightarrow> Result \<Rightarrow> Result go" where
  "buildResult cols inner =
     go_bind (buildFields cols inner) (\<lambda>flds.
     go_bind (go_list (map (pick_columns cols) (Rows inner))) (\<lambda>rows.
       Ret (empty_result\<lparr>Fields := flds, Rows := rows, RowsAffected := RowsAffected inner\<rparr>)))"

record Subquery =
  SCols :: "nat list"
  SInput :: prim

definition Subquery_Execute :: "Subquery \<Rightarrow> bind_vars \<Rightarrow> bool \<Rightarrow> (engine_error + Result) go" where
  "Subquery_Execute sq bindVars wantfields =
     go_try (Execute_of (SInput sq) bindVars wantfields) (\<lambda>inner. go_bind (buildResult (SCols sq) inner) (\<lambda>r. Ret (Inr r)))"

definition Subquery_StreamExecute ::
  "Subquery \<Rightarrow> bind_vars \<Rightarrow> bool \<Rightarrow> 'c callback \<Rightarrow> 'c \<Rightarrow> (engine_error option \<times> 'c) go" where
  "Subquery_StreamExecute sq bindVars wantfields cb c =
     StreamExecute_of (SInput sq) bindVars wantfields (\<lambda>inner c. go_bind (buildResult (SCols sq) inner) (\<lambda>r. cb r c)) c"

definition Subquery_GetFields :: "Subquery \<Rightarrow> bind_vars \<Rightarrow> (engine_error + Result) go" where
  "Subquery_GetFields sq bindVars =
     go_try (GetFields_of (SInput sq) bindVars) (\<lambda>inner.
       go_bind (buildFields (SCols sq) inner) (\<lambda>flds. Ret (Inr (empty_result\<lparr>Fields := flds\<rparr>))))"

datatype PulloutOpcode = PulloutValue | PulloutIn | PulloutNotIn | PulloutExists | OtherPullout int

record PulloutSubquery =
  POpcode :: PulloutOpcode
  SubqueryResult :: string
  HasValues :: string
  PSubquery :: prim
  Underlying :: prim

definition Int64BindVariable :: "int \<Rightarrow> BindVariable" where
  "Int64BindVariable v = ValueBindVariable (NewInt64 v)"

definition NullBindVariable :: BindVariable where
  "NullBindVariable = \<lparr>bv_Type = T_Null, bv_Value = [], bv_Values = []\<rparr>"

definition tuple_variable :: "Value list \<Rightarrow> BindVariable" where
  "tuple_variable vs = \<lparr>bv_Type = T_Tuple, bv_Value = [], bv_Values = vs\<rparr>"

definition execSubquery :: "PulloutSubquery \<Rightarrow> bind_vars \<Rightarrow> (engine_error + bind_vars) go" where
  "execSubquery ps bindVars =
     go_try (Execute_of (PSubquery ps) bindVars False) (\<lambda>result.
       let put = AList.update in
       case POpcode ps of
         PulloutValue \<Rightarrow>
           (case Rows result of
              [] \<Rightarrow> Ret (Inr (put (SubqueryResult ps) NullBindVariable bindVars))
            | [row] \<Rightarrow>
                (case row of
                   [v] \<Rightarrow> Ret (Inr (put (SubqueryResult ps) (ValueBindVariable v) bindVars))
                 | _ \<Rightarrow> Ret (Inl SubqueryColumns))
            | _ \<Rightarrow> Ret (Inl SubqueryRows))
       | PulloutExists \<Rightarrow>
           Ret (Inr (put (HasValues ps) (Int64BindVariable (if Rows result = [] then 0 else 1)) bindVars))
       | OtherPullout _ \<Rightarrow> Ret (Inr bindVars)
       | _ \<Rightarrow>
           (case Rows result of
              [] \<Rightarrow>
                Ret (Inr (put (SubqueryResult ps) (tuple_variable [NewInt64 0]) (put (HasValues ps) (Int64BindVariable 0) bindVars)))
            | row # rows \<Rightarrow>
                if length row \<noteq> 1 then Ret (Inl SubqueryColumns)
                else
                  go_bind (go_list (map (\<lambda>r. slice_index r 0) (row # rows))) (\<lambda>vs.
                    Ret (Inr (put (SubqueryResult ps) (tuple_variable vs) (put (HasValues ps) (Int64BindVariable 1) bindVars))))))"

definition PulloutSubquery_Execute :: "PulloutSubquery \<Rightarrow> bind_vars \<Rightarrow> bool \<Rightarrow> (engine_error + Result) go" where
  "PulloutSubquery_Execute ps bindVars wantfields =
     go_try (execSubquery ps bindVars) (\<lambda>combinedVars. Execute_of (Underlying ps) combinedVars wantfields)"

definition PulloutSubquery_StreamExecute ::
  "PulloutSubquery \<Rightarrow> bind_vars \<Rightarrow> bool \<Rightarrow> 'c callback \<Rightarrow> 'c \<Rightarrow> (engine_error option \<times> 'c) go" where
  "PulloutSubquery_StreamExecute ps bindVars wantfields cb c =
     go_bind (execSubquery ps bindVars) (\<lambda>r. case r of
       Inl err \<Rightarrow> Ret (Some err, c)
     | Inr combinedVars \<Rightarrow> StreamExecute_of (Underlying ps) combinedVars wantfields cb c)"

definition PulloutSubquery_GetFields :: "PulloutSubquery \<Rightarrow> bind_vars \<Rightarrow> (engine_error + Result) go" where
  "PulloutSubquery_GetFields ps bindVars =
     (let put = AList.update;
          combinedVars =
            (case POpcode ps of
               PulloutValue \<Rightarrow> put (SubqueryResult ps) NullBindVariable bindVars
             | PulloutExists \<Rightarrow> put (HasValues ps) (Int64BindVariable 0) bindVars
             | OtherPullout _ \<Rightarrow> bindVars
             | _ \<Rightarrow> put (SubqueryResult ps) (tuple_variable [NewInt64 0]) (put (HasValues ps) (Int64BindVariable 0) bindVars)) in
      GetFields_of (Underlying ps) combinedVars)"

subsection \<open>Where the values of a query go\<close>

text \<open>A vindex and the resolver of shards as a route sees them.\<close>

definition vindex_op :: "(Value list \<Rightarrow> (vindex_error + 'a) go) \<Rightarrow> Value list \<Rightarrow> (engine_error + 'a) go" where
  "vindex_op f ids = go_bind (f ids) (\<lambda>r. Ret (case r of Inl err \<Rightarrow> Inl (VindexErr err) | Inr x \<Rightarrow> Inr x))"

definition vcursor_ResolveDestinations ::
  "'q Resolver \<Rightarrow> (nat \<Rightarrow> nat) \<Rightarrow> nat \<Rightarrow> string \<Rightarrow> Value list option \<Rightarrow> Destination list \<Rightarrow>
     engine_error + 'q ResolvedShard list \<times> Value list list" where
  "vcursor_ResolveDestinations r pick tabletType keyspace ids destinations =
     (case ResolveDestinations r pick keyspace tabletType ids destinations of Inl err \<Rightarrow> Inl (ResolveErr err) | Inr x \<Rightarrow> Inr x)"

text \<open>A keyspace whose shards cut the key space and are all served.\<close>

definition served ::
  "'q Resolver \<Rightarrow> string \<Rightarrow> nat \<Rightarrow> ShardReference list \<Rightarrow> (string \<Rightarrow> 'q ResolvedShard) \<Rightarrow> bool" where
  "served r keyspace tabletType shs f \<longleftrightarrow>
     (\<exists>keyspace1 sk. GetKeyspaceShards r keyspace tabletType = Inr (keyspace1, sk, shs) \<and>
        list_all (\<lambda>sh. resolve_shard r keyspace1 tabletType (Name sh) = Inr (f (Name sh))) shs) \<and>
     partitioned shs \<and> distinct (map Name shs)"

lemma vindex_op_ksids:
  "list_all (Vindex_accepts coll v) ids \<Longrightarrow>
     vindex_op (Vindex_Map coll v) ids = Ret (Inr (map (\<lambda>i. ksid_destination (Vindex_ksid coll v i)) ids))"
  by (simp add: vindex_op_def Vindex_Map_ksids)

lemma served_ksids:
  assumes "served r keyspace tabletType shs f" "length vs = length ks"
  shows "\<exists>ns. ResolveDestinations r pick keyspace tabletType (Some vs) (map ksid_destination ks) =
      Inr (map f ns, map (\<lambda>n. map fst (filter (\<lambda>(v, k). owns shs n k) (zip vs ks))) ns) \<and>
    distinct ns \<and> set ns = {n. \<exists>k\<in>set ks. owns shs n k}"
  using assms ResolveDestinations_ksids [of r keyspace tabletType _ _ shs f vs ks pick] by (auto simp: served_def list_all_iff)

lemma served_ksid:
  assumes "served r keyspace tabletType shs f"
  shows "\<exists>n. {m. owns shs m (Some k)} = {n} \<and>
    ResolveDestinations r pick keyspace tabletType None [DestinationKeyspaceID k] = Inr ([f n], [])"
proof -
  obtain keyspace1 sk where g: "GetKeyspaceShards r keyspace tabletType = Inr (keyspace1, sk, shs)"
    and all: "\<And>sh. sh \<in> set shs \<Longrightarrow> resolve_shard r keyspace1 tabletType (Name sh) = Inr (f (Name sh))"
    and p: "partitioned shs" using assms by (auto simp: served_def list_all_iff)
  obtain sh where sh: "filter (\<lambda>sh. KeyRangeContains (SR_KeyRange sh) k) shs = [sh]"
    "targets pick (DestinationKeyspaceID k) shs = (None :: resolver_error resolve_error option, [Name sh])"
    using partitioned_ksid [OF p] by blast
  have own: "x \<in> set shs \<and> KeyRangeContains (SR_KeyRange x) k \<longleftrightarrow> x = sh" for x
    using arg_cong [OF sh(1), of set] by auto
  have "owns shs m (Some k) \<longleftrightarrow> (\<exists>x. (x \<in> set shs \<and> KeyRangeContains (SR_KeyRange x) k) \<and> Name x = m)" for m
    by (auto simp: owns_def)
  then have "{m. owns shs m (Some k)} = {Name sh}" by (auto simp: own)
  moreover have "pairs_of pick shs (enumerate 0 [DestinationKeyspaceID k]) = [(Name sh, 0)]" using sh(2) by (simp add: pairs_of_def)
  then have "ResolveDestinations r pick keyspace tabletType None [DestinationKeyspaceID k] = Inr ([f (Name sh)], [])"
    using ResolveDestinations_groups [OF g, of "[DestinationKeyspaceID k]" pick "[(Name sh, 0)]" f None] sh(2) all [of sh] own [of sh]
    by (simp add: firsts_def)
  ultimately show ?thesis by (intro exI [of _ "Name sh"] conjI)
qed

lemma owned_values: "map fst (filter (\<lambda>(v, k). P k) (zip vs (map g vs))) = filter (\<lambda>v. P (g v)) vs"
  by (induction vs) simp_all

text \<open>Two ways to a shard, from a list of values and from a single one.\<close>

lemma paramsSelectIn_ksids:
  assumes "served r (RKeyspace route) tabletType shs f"
    and "VC_ResolveDestinations vc = vcursor_ResolveDestinations r pick tabletType"
    and "RVindex route = vindex_op (Vindex_Map coll vx)" "RValues route = [pv]"
    and "ResolveList pv bindVars = Inr keys" "list_all (Vindex_accepts coll vx) keys"
  shows "\<exists>ns. paramsSelectIn route vc bindVars =
      Ret (Inr (map f ns,
        map (\<lambda>n. AList.update ''__vals'' (tuple_variable (filter (\<lambda>v. owns shs n (Vindex_ksid coll vx v)) keys)) bindVars) ns)) \<and>
    distinct ns \<and> set ns = {n. \<exists>v\<in>set keys. owns shs n (Vindex_ksid coll vx v)}"
proof -
  let ?g = "Vindex_ksid coll vx"
  obtain ns where ns: "ResolveDestinations r pick (RKeyspace route) tabletType (Some keys) (map ksid_destination (map ?g keys)) =
      Inr (map f ns, map (\<lambda>n. filter (\<lambda>v. owns shs n (?g v)) keys) ns)"
    "distinct ns" "set ns = {n. \<exists>k\<in>set (map ?g keys). owns shs n k}"
    using served_ksids [OF assms(1), of keys "map ?g keys" pick] by (auto simp: owned_values)
  have "resolveShards route vc keys = Ret (Inr (map f ns, map (\<lambda>n. filter (\<lambda>v. owns shs n (?g v)) keys) ns))"
    using ns(1) by (simp add: resolveShards_def assms(2,3) vindex_op_ksids [OF assms(6)] vcursor_ResolveDestinations_def comp_def)
  then have "paramsSelectIn route vc bindVars =
      Ret (Inr (map f ns, map (\<lambda>n. AList.update ''__vals'' (tuple_variable (filter (\<lambda>v. owns shs n (?g v)) keys)) bindVars) ns))"
    using assms(4,5) by (simp add: paramsSelectIn_def slice_index_def plan_res_def wrap_def shardVars_def tuple_variable_def)
  then show ?thesis using ns(2,3) by (intro exI [of _ ns]) simp
qed

lemma resolveSingleShard_ksid:
  assumes "served r keyspace tabletType shs f"
    and "VC_ResolveDestinations vc = vcursor_ResolveDestinations r pick tabletType" "Vindex_accepts coll vx v"
  shows "case Vindex_ksid coll vx v of
      None \<Rightarrow> resolveSingleShard vc (vindex_op (Vindex_Map coll vx)) keyspace v = Ret (Inr None)
    | Some k \<Rightarrow> \<exists>n. {m. owns shs m (Some k)} = {n} \<and>
        resolveSingleShard vc (vindex_op (Vindex_Map coll vx)) keyspace v = Ret (Inr (Some (f n, k)))"
proof (cases "Vindex_ksid coll vx v")
  case None
  then show ?thesis
    using vindex_op_ksids [of coll vx "[v]"] assms(3) by (simp add: resolveSingleShard_def slice_index_def ksid_destination_def)
next
  case (Some k)
  obtain n where n: "{m. owns shs m (Some k)} = {n}"
    "ResolveDestinations r pick keyspace tabletType (None :: Value list option) [DestinationKeyspaceID k] = Inr ([f n], [])"
    using served_ksid [OF assms(1)] by blast
  have "resolveSingleShard vc (vindex_op (Vindex_Map coll vx)) keyspace v = Ret (Inr (Some (f n, k)))"
    using vindex_op_ksids [of coll vx "[v]"] assms(3) Some n(2)
    by (simp add: resolveSingleShard_def slice_index_def ksid_destination_def assms(2) vcursor_ResolveDestinations_def)
  then show ?thesis using n(1) Some by auto
qed

subsection \<open>Streams\<close>

text \<open>
  What a merge sort does with a callback is to hand it, one after the other, the results that it would collect.
\<close>

lemma merge_loop_Nil: "merge_loop F orderBy cb [] hs c = Ret (None, c)"
  by (subst merge_loop.simps) simp

text \<open>One round of the loop, from the row that it takes off the heap.\<close>

definition merge_next ::
  "'f float_ops \<Rightarrow> OrderbyParams list \<Rightarrow> streamRow \<Rightarrow> streamRow list \<Rightarrow> streamHandle list \<Rightarrow>
     (engine_error option + streamRow list \<times> streamHandle list) go" where
  "merge_next F orderBy sr rows1 hs =
     go_bind (slice_index hs (sid sr)) (\<lambda>handle.
       case receive handle of
         Inl e \<Rightarrow> Ret (Inl (Some e))
       | Inr (None, _) \<Rightarrow> Ret (Inr (rows1, hs))
       | Inr (Some row, handle1) \<Rightarrow>
           (case heap_Push (scatterHeap_Less F orderBy) (Ret None) rows1 (sr\<lparr>srow := row\<rparr>) of
              (rows2, s2) \<Rightarrow>
                go_bind s2 (\<lambda>err3. if err3 \<noteq> None then Ret (Inl err3) else Ret (Inr (rows2, hs[sid sr := handle1])))))"

lemma merge_next_bind:
  "go_bind (merge_next F orderBy sr rows1 hs) k =
     go_bind (slice_index hs (sid sr)) (\<lambda>handle.
       case receive handle of
         Inl e \<Rightarrow> k (Inl (Some e))
       | Inr (None, _) \<Rightarrow> k (Inr (rows1, hs))
       | Inr (Some row, handle1) \<Rightarrow>
           (case heap_Push (scatterHeap_Less F orderBy) (Ret None) rows1 (sr\<lparr>srow := row\<rparr>) of
              (rows2, s2) \<Rightarrow>
                go_bind s2 (\<lambda>err3. if err3 \<noteq> None then k (Inl err3) else k (Inr (rows2, hs[sid sr := handle1])))))"
proof (cases "slice_index hs (sid sr)")
  case (Ret h)
  then show ?thesis
    by (cases "snd (heap_Push (scatterHeap_Less F orderBy) (Ret None) rows1 (sr\<lparr>srow := the (fst (projr (receive h)))\<rparr>))")
      (auto simp: merge_next_def split: sum.splits option.splits prod.splits)
qed (simp add: merge_next_def)

lemma merge_loop_round:
  assumes "rows \<noteq> []"
  shows "merge_loop F orderBy cb rows hs c =
    go_bind (heap_Pop (scatterHeap_Less F orderBy) (Ret None) rows) (\<lambda>(sr, rows1, s1).
    go_bind s1 (\<lambda>err1.
      if err1 \<noteq> None then Ret (err1, c)
      else
        go_bind (cb (empty_result\<lparr>Rows := [srow sr]\<rparr>) c) (\<lambda>(err2, c1).
          if err2 \<noteq> None then Ret (err2, c1)
          else
            go_bind (merge_next F orderBy sr rows1 hs) (\<lambda>r.
              case r of Inl e \<Rightarrow> Ret (e, c1) | Inr (rows2, hs2) \<Rightarrow> merge_loop F orderBy cb rows2 hs2 c1))))"
  using assms
  by (subst merge_loop.simps)
    (auto simp: merge_next_bind split: sum.splits option.splits prod.splits intro!: go_bind_cong)

lemma merge_next_less:
  assumes "heap_Pop (scatterHeap_Less F orderBy) (Ret None) rows = Ret (sr, rows1, s1)"
    and "merge_next F orderBy sr rows1 hs = Ret (Inr (rows2, hs2))"
  shows "length rows2 + rows_left hs2 < length rows + rows_left hs"
  using assms(2) heap_Pop_length [OF assms(1)] rows_left_less [of "sid sr" hs]
  by (auto simp: merge_next_def slice_index_def go_bind_Ret_iff split: if_splits sum.splits option.splits prod.splits
      elim!: receive_cases dest: heap_Push_length)

lemma merge_loop_replays:
  assumes "merge_loop F orderBy (truncating n collect) rows hs acc = Ret (err, acc')"
  shows "\<exists>out. acc' = acc @ out \<and> (\<forall>(cb :: 'c callback) c. merge_loop F orderBy (truncating n cb) rows hs c = feed cb out err c)"
  using assms
proof (induction "length rows + rows_left hs" arbitrary: rows hs acc rule: less_induct)
  case less
  show ?case
  proof (cases "rows = []")
    case True
    then show ?thesis using less.prems by (auto simp: merge_loop_Nil)
  next
    case False
    note rnd = merge_loop_round [OF False]
    obtain sr rows1 err1 where pop: "heap_Pop (scatterHeap_Less F orderBy) (Ret None) rows = Ret (sr, rows1, Ret err1)"
      using less.prems unfolding rnd by (auto simp: go_bind_Ret_iff)
    show ?thesis
    proof (cases err1)
      case (Some e)
      then show ?thesis using less.prems unfolding rnd by (auto simp: pop)
    next
      case None
      obtain r nxt where r: "Truncate n (empty_result\<lparr>Rows := [srow sr]\<rparr>) = Ret r" "merge_next F orderBy sr rows1 hs = Ret nxt"
        using less.prems unfolding rnd by (auto simp: pop None truncating_def collect_def go_bind_Ret_iff)
      have run: "merge_loop F orderBy (truncating n cb) rows hs c = go_bind (cb r c) (\<lambda>(err2, c1).
          case err2 of Some e \<Rightarrow> Ret (Some e, c1) | None \<Rightarrow>
            (case nxt of Inl e \<Rightarrow> Ret (e, c1) | Inr (rows2, hs2) \<Rightarrow> merge_loop F orderBy (truncating n cb) rows2 hs2 c1))" for cb c
        unfolding rnd by (auto simp: pop None r truncating_def intro!: go_bind_cong split: option.splits)
      show ?thesis
      proof (cases nxt)
        case (Inl e)
        have "acc' = acc @ [r]" "err = e" using less.prems unfolding run by (simp_all add: collect_def Inl)
        then show ?thesis unfolding run Inl sum.case by (intro exI [of _ "[r]"]) (simp cong: option.case_cong)
      next
        case (Inr x)
        obtain rows2 hs2 where x: "x = (rows2, hs2)" by (cases x)
        have "merge_loop F orderBy (truncating n collect) rows2 hs2 (acc @ [r]) = Ret (err, acc')"
          using less.prems unfolding run by (simp add: collect_def Inr x)
        from less.hyps [OF merge_next_less [OF pop] this] r(2) obtain out where
          "acc' = (acc @ [r]) @ out" "\<forall>(cb :: 'c callback) c. merge_loop F orderBy (truncating n cb) rows2 hs2 c = feed cb out err c"
          by (auto simp: Inr x)
        then show ?thesis unfolding run Inr x sum.case prod.case by (intro exI [of _ "r # out"]) (simp cong: option.case_cong)
      qed
    qed
  qed
qed

lemma feed_truncating:
  assumes "feed (truncating n collect) rs final acc = Ret (err, acc')"
  shows "\<exists>out. acc' = acc @ out \<and> (\<forall>(cb :: 'c callback) c. feed (truncating n cb) rs final c = feed cb out err c)"
  using assms
proof (induction rs arbitrary: acc)
  case (Cons r rs)
  then obtain t where t: "Truncate n r = Ret t" by (auto simp: truncating_def collect_def go_bind_Ret_iff)
  have "truncating n collect r acc = Ret (None, acc @ [t])" by (simp add: truncating_def collect_def t)
  then have "feed (truncating n collect) rs final (acc @ [t]) = Ret (err, acc')" using Cons.prems by simp
  from Cons.IH [OF this] obtain out where
    "acc' = (acc @ [t]) @ out" "\<forall>(cb :: 'c callback) c. feed (truncating n cb) rs final c = feed cb out err c" by blast
  then show ?case using t by (intro exI [of _ "t # out"]) (auto simp: truncating_def [of n _ r] cong: option.case_cong)
qed auto

definition merge_start ::
  "'f float_ops \<Rightarrow> OrderbyParams list \<Rightarrow> streamHandle list \<Rightarrow> (engine_error option + streamRow list \<times> streamHandle list) go" where
  "merge_start F orderBy handles =
     (case prime_heap 0 handles of
        Inl e \<Rightarrow> Ret (Inl (Some e))
      | Inr (rows, handles1) \<Rightarrow>
          (case heap_Init (scatterHeap_Less F orderBy) (Ret None) rows of
             (rows1, s1) \<Rightarrow> go_bind s1 (\<lambda>err1. if err1 \<noteq> None then Ret (Inl err1) else Ret (Inr (rows1, handles1)))))"

lemma merge_start_bind:
  "go_bind (merge_start F orderBy handles) k =
     (case prime_heap 0 handles of
        Inl e \<Rightarrow> k (Inl (Some e))
      | Inr (rows, handles1) \<Rightarrow>
          (case heap_Init (scatterHeap_Less F orderBy) (Ret None) rows of
             (rows1, s1) \<Rightarrow> go_bind s1 (\<lambda>err1. if err1 \<noteq> None then k (Inl err1) else k (Inr (rows1, handles1)))))"
  by (cases "snd (heap_Init (scatterHeap_Less F orderBy) (Ret None) (fst (projr (prime_heap 0 handles))))")
    (auto simp: merge_start_def split: sum.splits prod.splits)

lemma mergeSort_start:
  assumes "handles = runOneStream 2 s # map (runOneStream 1) ss"
  shows "mergeSort F orderBy (s # ss) cb c =
    (case hfields (hd handles) of
       None \<Rightarrow> Ret (Some EOF, c)
     | Some None \<Rightarrow> Ret (herr (hd handles), c)
     | Some (Some flds) \<Rightarrow>
         go_bind (cb (empty_result\<lparr>Fields := flds\<rparr>) c) (\<lambda>(err, c1).
           if err \<noteq> None then Ret (err, c1)
           else
             go_bind (merge_start F orderBy handles) (\<lambda>r.
               case r of Inl e \<Rightarrow> Ret (e, c1) | Inr (rows, hs) \<Rightarrow> merge_loop F orderBy cb rows hs c1)))"
  unfolding merge_start_bind assms mergeSort_def list.case Let_def sum.case prod.case by (rule refl)

lemma mergeSort_replays:
  fixes cb :: "'c callback"
  assumes "mergeSort F orderBy streams (truncating n collect) [] = Ret (err, out)"
  shows "mergeSort F orderBy streams (truncating n cb) c = feed cb out err c"
proof (cases streams)
  case Nil
  then show ?thesis using assms by (simp add: mergeSort_def)
next
  case (Cons s ss)
  define hs where "hs = runOneStream 2 s # map (runOneStream 1) ss"
  note ms = mergeSort_start [OF hs_def, of F orderBy]
  note run = assms [unfolded Cons ms]
  consider "hfields (hd hs) = None" | "hfields (hd hs) = Some None" | flds where "hfields (hd hs) = Some (Some flds)"
    by (cases "hfields (hd hs)") auto
  then show ?thesis
  proof cases
    case 1
    then show ?thesis using run unfolding Cons ms by simp
  next
    case 2
    then show ?thesis using run unfolding Cons ms by auto
  next
    case 3
    have tr: "truncating n collect (empty_result\<lparr>Fields := flds\<rparr>) [] =
        go_bind (Truncate n (empty_result\<lparr>Fields := flds\<rparr>)) (\<lambda>t. Ret (None, [t]))"
      by (simp add: truncating_def collect_def)
    obtain t nxt where t: "Truncate n (empty_result\<lparr>Fields := flds\<rparr>) = Ret t" "merge_start F orderBy hs = Ret nxt"
      using run by (auto simp: 3 tr go_bind_Ret_iff)
    have eq: "mergeSort F orderBy streams (truncating n cb) c = go_bind (cb t c) (\<lambda>(err, c1).
        case err of Some e \<Rightarrow> Ret (Some e, c1) | None \<Rightarrow>
          (case nxt of Inl e \<Rightarrow> Ret (e, c1) | Inr (rows, hs) \<Rightarrow> merge_loop F orderBy (truncating n cb) rows hs c1))"
      unfolding Cons ms 3 option.case
      by (auto simp: t truncating_def [of n cb "empty_result\<lparr>Fields := flds\<rparr>" c] intro!: go_bind_cong split: option.splits)
    show ?thesis
    proof (cases nxt)
      case (Inl e)
      have "out = [t]" "err = e" using run by (simp_all add: 3 t Inl tr)
      then show ?thesis unfolding eq Inl sum.case by (simp cong: option.case_cong)
    next
      case (Inr x)
      obtain rows hs' where x: "x = (rows, hs')" by (cases x)
      have "merge_loop F orderBy (truncating n collect) rows hs' [t] = Ret (err, out)" using run by (simp add: 3 t tr Inr x)
      from merge_loop_replays [OF this] obtain out' where
        "out = [t] @ out'" "\<forall>(cb :: 'c callback) c. merge_loop F orderBy (truncating n cb) rows hs' c = feed cb out' err c"
        by (elim exE conjE)
      then show ?thesis unfolding eq Inr x sum.case prod.case by (simp cong: option.case_cong)
    qed
  qed
qed

lemma truncating_0 [simp]: "truncating 0 cb = cb"
  by (intro ext) (simp add: truncating_def Truncate_def)

lemma Route_StreamExecute_replays:
  fixes cb :: "'c callback"
  assumes "Route_StreamExecute F route vc bindVars want collect [] = Ret (err, out)"
  shows "Route_StreamExecute F route vc bindVars want cb c = feed cb out err c"
proof -
  obtain p where p: "route_params route vc bindVars (NotStreamable (RQuery route)) = Ret p"
    using assms by (auto simp: Route_StreamExecute_def go_bind_Ret_iff)
  show ?thesis
  proof (cases p)
    case (Inl e)
    then show ?thesis using assms p by (auto simp: Route_StreamExecute_def)
  next
    case (Inr q)
    obtain rss bvs where q: "q = (rss, bvs)" by (cases q)
    note run = Route_StreamExecute_def [of F route vc bindVars want, unfolded p Inr q go_bind.simps sum.case prod.case]
    note ran = assms [unfolded run]
    consider "rss = []" "want" | "rss = []" "\<not> want" | "rss \<noteq> []" "ROrderBy route = []" | "rss \<noteq> []" "ROrderBy route \<noteq> []" by blast
    then show ?thesis
    proof cases
      case 1
      then obtain r where r: "Route_GetFields route vc bindVars = Ret r" using ran by (auto simp: go_bind_Ret_iff)
      have "cb x c = go_bind (cb x c) (\<lambda>(err, c'). case err of Some e \<Rightarrow> Ret (Some e, c') | None \<Rightarrow> Ret (None, c'))" for x
        by (cases "cb x c") (auto split: option.splits)
      then show ?thesis unfolding run using ran 1 r by (cases r) (auto simp: collect_def cong: option.case_cong)
    next
      case 2
      then show ?thesis unfolding run using ran by auto
    next
      case 3
      obtain rs final where s: "VC_StreamExecuteMulti vc (RQuery route) rss bvs = (rs, final)" by fastforce
      then have "feed (truncating (RTruncateColumnCount route) collect) rs final [] = Ret (err, out)" using ran 3 by simp
      from feed_truncating [where 'c = 'c, OF this] show ?thesis unfolding run using s 3 by auto
    next
      case 4
      then obtain streams where s: "shard_streams vc (RQuery route) rss bvs = Ret streams" using ran by (auto simp: go_bind_Ret_iff)
      then have "mergeSort F (ROrderBy route) streams (truncating (RTruncateColumnCount route) collect) [] = Ret (err, out)"
        using ran 4 by simp
      from mergeSort_replays [OF this] show ?thesis unfolding run using s 4 by simp
    qed
  qed
qed

text \<open>
  A route as the input of another primitive; the session's warnings are not part of what it delivers. The stream of a primitive is a
  value, so this is used only for routes whose streaming does not panic (\<open>StreamExecute_route_prim\<close>).
\<close>

definition route_prim :: "'f float_ops \<Rightarrow> sorter \<Rightarrow> Route \<Rightarrow> 'q VCursor \<Rightarrow> prim" where
  "route_prim F sort_Slice route vc =
     \<lparr>Execute_of = \<lambda>bindVars want. go_bind (Route_Execute F sort_Slice route vc bindVars want) (\<lambda>(r, _). Ret r),
      GetFields_of = Route_GetFields route vc,
      Stream_of = \<lambda>bindVars want.
        (case Route_StreamExecute F route vc bindVars want collect [] of Ret (err, out) \<Rightarrow> (out, err) | Panic \<Rightarrow> ([], None))\<rparr>"

lemma StreamExecute_route_prim:
  "Route_StreamExecute F route vc bindVars want collect [] \<noteq> Panic \<Longrightarrow>
     StreamExecute_of (route_prim F sort_Slice route vc) bindVars want cb c = Route_StreamExecute F route vc bindVars want cb c"
  using Route_StreamExecute_replays [of F route vc bindVars want _ _ cb c]
  by (cases "Route_StreamExecute F route vc bindVars want collect []")
    (auto simp: StreamExecute_of_def route_prim_def)

lemma shard_streams_same:
  "shard_streams vc query rss (replicate (length rss) bv) = Ret (map (\<lambda>rs. VC_StreamExecuteMulti vc query [rs] [bv]) rss)"
  by (induction rss) simp_all

lemma scatter_stream:
  assumes "ROpcode route = SelectScatter" "ROrderBy route \<noteq> []" "RTruncateColumnCount route = 0"
    and "VC_ResolveDestinations vc (RKeyspace route) None [DestinationAllShards] = Inr (rss, vss)" "rss \<noteq> []"
    and "list_all2 (\<lambda>rows rs. shard_stream flds rows (VC_StreamExecuteMulti vc (RQuery route) [rs] [bindVars])) rowss rss"
    and "\<forall>rows\<in>set rowss. sorted_wrt (row_le (ROrderBy route)) rows \<and> set rows \<subseteq> sortable ints (ROrderBy route)"
  shows "\<exists>out. Route_StreamExecute F route vc bindVars want collect [] = Ret (None, empty_result\<lparr>Fields := flds\<rparr> # out) \<and>
    mset (concat (map Rows out)) = mset (concat rowss) \<and>
    sorted_wrt (row_le (ROrderBy route)) (concat (map Rows out)) \<and> list_all (\<lambda>r. Fields r = []) out"
proof -
  let ?ss = "map (\<lambda>rs. VC_StreamExecuteMulti vc (RQuery route) [rs] [bindVars]) rss"
  have "Route_StreamExecute F route vc bindVars want collect [] = mergeSort F (ROrderBy route) ?ss collect []"
    using assms(1-5)
    by (simp add: Route_StreamExecute_def route_params_def paramsAllShards_def wrap_def same_vars_def shard_streams_same)
  moreover have "list_all2 (shard_stream flds) rowss ?ss" "?ss \<noteq> []" using assms(5,6) by (simp_all add: list.rel_map)
  ultimately show ?thesis using mergeSort_ok [OF _ _ assms(7), of flds ?ss F] by simp
qed

lemma firsts_distinct: "distinct ns \<Longrightarrow> firsts ns = ns"
  by (simp add: firsts_def distinct_remdups_id)

lemma served_all:
  assumes "served r keyspace tabletType shs f"
  shows "ResolveDestinations r pick keyspace tabletType None [DestinationAllShards] = Inr (map (\<lambda>sh. f (Name sh)) shs, [])"
proof -
  obtain keyspace1 sk where g: "GetKeyspaceShards r keyspace tabletType = Inr (keyspace1, sk, shs)"
    and all: "\<And>sh. sh \<in> set shs \<Longrightarrow> resolve_shard r keyspace1 tabletType (Name sh) = Inr (f (Name sh))"
    and d: "distinct (map Name shs)" using assms by (auto simp: served_def list_all_iff)
  have "pairs_of pick shs (enumerate 0 [DestinationAllShards]) = map (\<lambda>sh. (Name sh, 0)) shs" by (simp add: pairs_of_def comp_def)
  then show ?thesis
    using ResolveDestinations_groups [OF g, of "[DestinationAllShards]" pick "map (\<lambda>sh. (Name sh, 0)) shs" f None] all d
    by (auto simp: comp_def firsts_distinct)
qed

subsection \<open>Counting over shards\<close>

text \<open>What \<^verbatim>\<open>select k, count(*) from t group by k order by k\<close> gives for the values \<open>t\<close> of the column \<^verbatim>\<open>k\<close>.\<close>

definition group_counts :: "int list \<Rightarrow> (int \<times> int) list" where
  "group_counts t = map (\<lambda>k. (k, int (count_list t k))) (sorted_list_of_set (set t))"

definition int64_keys :: "int list \<Rightarrow> bool" where
  "int64_keys t \<longleftrightarrow> list_all (\<lambda>k. - (2 ^ 63) \<le> k \<and> k < 2 ^ 63) t"

lemma group_counts_keys [simp]: "map fst (group_counts t) = sorted_list_of_set (set t)"
  by (simp add: group_counts_def comp_def)

lemma distinct_only: "distinct xs \<Longrightarrow> filter (\<lambda>x. x = k) xs = (if k \<in> set xs then [k] else [])"
  by (induction xs) auto

lemma group_counts_total: "total_of (group_counts t) k = int (count_list t k)"
proof -
  have "filter (\<lambda>p. fst p = k) (group_counts t) = map (\<lambda>x. (x, int (count_list t x))) (filter (\<lambda>x. x = k) (sorted_list_of_set (set t)))"
    by (simp add: group_counts_def filter_map comp_def)
  moreover have "filter (\<lambda>x. x = k) (sorted_list_of_set (set t)) = (if k \<in> set t then [k] else [])"
    by (simp add: distinct_only)
  ultimately show ?thesis by (auto simp: total_of_def)
qed

lemma group_counts_sum: "sum_list (map snd (group_counts t)) = int (length t)"
proof -
  have "sum_list (map (\<lambda>k. int (count_list t k)) (sorted_list_of_set (set t))) = (\<Sum>k\<in>set t. int (count_list t k))"
    by (subst sum.distinct_set_conv_list [symmetric]) simp_all
  also have "\<dots> = int (length t)" using sum_count_set [of t "set t"] by (simp flip: of_nat_sum)
  finally show ?thesis by (simp add: group_counts_def comp_def)
qed

lemma total_of_append [simp]: "total_of (xs @ ys) k = total_of xs k + total_of ys k"
  by (simp add: total_of_def)

lemma total_of_groups: "total_of (concat (map group_counts ts)) k = int (count_list (concat ts) k)"
  by (induction ts) (simp_all add: group_counts_total, simp add: total_of_def)

lemma total_of_mset: "mset ps = mset qs \<Longrightarrow> total_of ps k = total_of qs k"
proof -
  assume "mset ps = mset qs"
  then have "image_mset snd (filter_mset (\<lambda>p. fst p = k) (mset ps)) = image_mset snd (filter_mset (\<lambda>p. fst p = k) (mset qs))" by simp
  from arg_cong [OF this, of sum_mset] show ?thesis by (simp add: total_of_def flip: mset_filter mset_map sum_mset_sum_list)
qed

lemma remdups_adj_sorted:
  fixes xs :: "int list"
  assumes "sorted xs"
  shows "remdups_adj xs = sorted_list_of_set (set xs)"
proof (rule sorted_distinct_set_unique)
  show "distinct (remdups_adj xs)" using assms by (induction xs rule: remdups_adj.induct) (auto simp: order.order_iff_strict)
qed (use assms in \<open>simp_all add: sorted_remdups_adj\<close>)

lemma sum_runs_groups:
  assumes "mset ps = mset (concat (map group_counts ts))" "sorted (map fst ps)"
  shows "sum_runs ps = group_counts (concat ts)"
proof -
  have "set ps = set (concat (map group_counts ts))" by (rule mset_eq_setD [OF assms(1)])
  moreover have "fst ` set (group_counts t) = set t" for t by (simp add: group_counts_def image_image)
  ultimately have "set (map fst ps) = set (concat ts)" by (simp add: image_UN)
  then show ?thesis
    using sum_runs_sorted [OF assms(2)] remdups_adj_sorted [OF assms(2)]
    by (simp add: total_of_mset [OF assms(1)] total_of_groups group_counts_def)
qed

lemma counts_ok_groups:
  assumes "list_all int64_keys ts" "int (length (concat ts)) < 2 ^ 63"
  shows "counts_ok (concat (map group_counts ts))"
proof -
  have "sum_list (map snd (concat (map group_counts ts))) = int (length (concat ts))"
    by (induction ts) (simp_all add: group_counts_sum)
  moreover have "list_all (\<lambda>(k, n). - (2 ^ 63) \<le> k \<and> k < 2 ^ 63 \<and> 0 \<le> n) (concat (map group_counts ts))"
    using assms(1) by (auto simp: list_all_iff int64_keys_def group_counts_def)
  ultimately show ?thesis using assms(2) by (simp add: counts_ok_def)
qed

lemma mset_map_preimage: "mset rows = mset (map g xs) \<Longrightarrow> \<exists>ys. rows = map g ys \<and> mset ys = mset xs"
proof (induction rows arbitrary: xs)
  case (Cons r rows)
  then have "r \<in> set (map g xs)" by (metis mset_eq_setD list.set_intros(1))
  then obtain x as bs where x: "xs = as @ x # bs" "r = g x" by (auto simp: in_set_conv_decomp)
  then have "mset rows = mset (map g (as @ bs))" using Cons.prems by simp
  from Cons.IH [OF this] obtain ys where "rows = map g ys" "mset ys = mset (as @ bs)" by blast
  then show ?case using x by (intro exI [of _ "x # ys"]) simp
qed simp

definition by_key :: "OrderbyParams list" where
  "by_key = [\<lparr>OCol = 0, Desc = False\<rparr>]"

lemma count_row_key:
  assumes "- (2 ^ 63) \<le> fst p" "fst p < 2 ^ 63"
  shows "vkey (count_row p ! 0) = (1, fst p, [])" "count_row p \<in> sortable (\<lambda>_. True) by_key"
  using NewInt64_key [OF assms] by (simp_all add: count_row_def sortable_def by_key_def)

lemma row_le_counts:
  assumes "- (2 ^ 63) \<le> fst p" "fst p < 2 ^ 63" "- (2 ^ 63) \<le> fst q" "fst q < 2 ^ 63"
  shows "row_le by_key (count_row p) (count_row q) \<longleftrightarrow> fst p \<le> fst q"
  using count_row_key(1) [OF assms(1,2)] count_row_key(1) [OF assms(3,4)] by (auto simp: by_key_def Let_def)

lemma sorted_counts:
  assumes "counts_ok ps"
  shows "sorted_wrt (row_le by_key) (map count_row ps) \<longleftrightarrow> sorted (map fst ps)"
proof -
  have k: "- (2 ^ 63) \<le> fst p \<and> fst p < 2 ^ 63" if "p \<in> set ps" for p using assms that by (auto simp: counts_ok_def list_all_iff)
  then show ?thesis by (induction ps) (auto simp: row_le_counts)
qed

end
