(* ===== verification/Safe_Session.thy ===== *)
theory Safe_Session
  imports Resolver Go_Strings
begin

text \<open>
  Sessions of vtgate, \<^verbatim>\<open>src/vt/vtgate/safe_session.go\<close>, and the ids of distributed transactions,
  \<^verbatim>\<open>src/vt/dtids/dtids.go\<close>. Of the message \<^verbatim>\<open>Session\<close> the fields for transactions and warnings are modelled; a
  warning is its text. The mutex of a session makes each method one step.

  An id of a distributed transaction can be read back (\<open>ShardSession_New\<close>); a session finds the transaction that was
  appended for a shard, and single mode never keeps two shards without the demand to roll back (\<open>Append_single\<close>).
\<close>

subsection \<open>Sessions\<close>

datatype TransactionMode = TM_UNSPECIFIED | TM_SINGLE | TM_MULTI | TM_TWOPC

datatype CommitOrder = CO_NORMAL | CO_PRE | CO_POST | CO_AUTOCOMMIT

datatype autocommitState = notAutocommittable | autocommittable | autocommitted

record ShardSession =
  sTarget :: Target
  TransactionId :: int

record SafeSession =
  mustRollback :: bool
  acState :: autocommitState
  commitOrder :: CommitOrder
  sInTransaction :: bool
  ShardSessions :: "ShardSession list"
  SingleDb :: bool
  Autocommit :: bool
  TransactionMode :: TransactionMode
  Warnings :: "string list"
  PreSessions :: "ShardSession list"
  PostSessions :: "ShardSession list"

datatype session_error = BadAutocommitState | NotInTransaction | MultiDb "ShardSession list"

definition NewAutocommitSession :: "SafeSession \<Rightarrow> SafeSession" where
  "NewAutocommitSession sessn =
     sessn\<lparr>mustRollback := False, acState := notAutocommittable, commitOrder := CO_NORMAL,
           sInTransaction := False, ShardSessions := [], PreSessions := [], PostSessions := [], Autocommit := True, Warnings := []\<rparr>"

definition Session_Reset :: "SafeSession \<Rightarrow> SafeSession" where
  "Session_Reset session =
     session\<lparr>mustRollback := False, acState := notAutocommittable, sInTransaction := False, SingleDb := False,
             ShardSessions := [], PreSessions := [], PostSessions := [], commitOrder := CO_NORMAL\<rparr>"

definition SetAutocommittable :: "bool \<Rightarrow> SafeSession \<Rightarrow> SafeSession" where
  "SetAutocommittable flag session =
     (if acState session = autocommitted then session
      else session\<lparr>acState := (if flag then autocommittable else notAutocommittable)\<rparr>)"

definition AutocommitApproval :: "SafeSession \<Rightarrow> bool \<times> SafeSession" where
  "AutocommitApproval session =
     (if acState session = autocommitted then (False, session)
      else if acState session = autocommittable then (True, session\<lparr>acState := autocommitted\<rparr>)
      else (False, session))"

definition SetCommitOrder :: "CommitOrder \<Rightarrow> SafeSession \<Rightarrow> SafeSession" where
  "SetCommitOrder co session = session\<lparr>commitOrder := co\<rparr>"

definition sessions_of :: "SafeSession \<Rightarrow> ShardSession list" where
  "sessions_of session =
     (case commitOrder session of CO_PRE \<Rightarrow> PreSessions session | CO_POST \<Rightarrow> PostSessions session | _ \<Rightarrow> ShardSessions session)"

definition Session_Find :: "string \<Rightarrow> string \<Rightarrow> nat \<Rightarrow> SafeSession \<Rightarrow> int" where
  "Session_Find keyspace shard tabletType session =
     (case find (\<lambda>s. keyspace = tkeyspace (sTarget s) \<and> tabletType = ttabletType (sTarget s) \<and> shard = tshard (sTarget s))
             (sessions_of session) of
        Some s \<Rightarrow> TransactionId s
      | None \<Rightarrow> 0)"

definition isSingleDB :: "TransactionMode \<Rightarrow> SafeSession \<Rightarrow> bool" where
  "isSingleDB txMode session \<longleftrightarrow>
     SingleDb session \<or> TransactionMode session = TM_SINGLE \<or>
     TransactionMode session = TM_UNSPECIFIED \<and> txMode = TM_SINGLE"

definition Session_Append ::
  "ShardSession \<Rightarrow> TransactionMode \<Rightarrow> SafeSession \<Rightarrow> session_error option \<times> SafeSession" where
  "Session_Append shardSession txMode session =
     (if acState session = autocommitted then (Some BadAutocommitState, session)
      else if \<not> sInTransaction session then (Some NotInTransaction, session)
      else
        (let s1 = session\<lparr>acState := notAutocommittable\<rparr> in
         case commitOrder s1 of
           CO_NORMAL \<Rightarrow>
             (let s2 = s1\<lparr>ShardSessions := ShardSessions s1 @ [shardSession]\<rparr> in
              if isSingleDB txMode s2 \<and> length (ShardSessions s2) > 1
              then (Some (MultiDb (ShardSessions s2)), s2\<lparr>mustRollback := True\<rparr>)
              else (None, s2))
         | CO_PRE \<Rightarrow> (None, s1\<lparr>PreSessions := PreSessions s1 @ [shardSession]\<rparr>)
         | CO_POST \<Rightarrow> (None, s1\<lparr>PostSessions := PostSessions s1 @ [shardSession]\<rparr>)
         | CO_AUTOCOMMIT \<Rightarrow> (None, s1)))"

definition Session_SetRollback :: "SafeSession \<Rightarrow> SafeSession" where
  "Session_SetRollback session = (if sInTransaction session then session\<lparr>mustRollback := True\<rparr> else session)"

definition RecordWarning :: "string \<Rightarrow> SafeSession \<Rightarrow> SafeSession" where
  "RecordWarning warning session = session\<lparr>Warnings := Warnings session @ [warning]\<rparr>"

definition ClearWarnings :: "SafeSession \<Rightarrow> SafeSession" where
  "ClearWarnings session = session\<lparr>Warnings := []\<rparr>"

text \<open>\<^verbatim>\<open>transactionInfo\<close> of \<^verbatim>\<open>src/vt/vtgate/scatter_conn.go\<close>: whether to begin a transaction, and the one to use.\<close>

definition transactionInfo :: "Target \<Rightarrow> SafeSession \<Rightarrow> bool \<Rightarrow> bool \<times> int" where
  "transactionInfo target session notInTransaction =
     (if \<not> sInTransaction session then (False, 0)
      else
        (let transactionID = Session_Find (tkeyspace target) (tshard target) (ttabletType target) session in
         if transactionID \<noteq> 0 then (False, transactionID)
         else if notInTransaction then (False, 0)
         else (True, 0)))"

subsection \<open>Ids of distributed transactions\<close>

definition dtids_New :: "ShardSession \<Rightarrow> string" where
  "dtids_New mmShard =
     tkeyspace (sTarget mmShard) @ '':'' @ tshard (sTarget mmShard) @ '':'' @ format_int (TransactionId mmShard)"

datatype dtid_error = InvalidParts string | InvalidTransactionId string

definition MASTER :: nat where
  "MASTER = 1"

definition master :: "string \<times> string \<Rightarrow> Target" where
  "master ks = \<lparr>tkeyspace = fst ks, tshard = snd ks, ttabletType = MASTER, tcell = []\<rparr>"

definition dtids_ShardSession :: "string \<Rightarrow> dtid_error + ShardSession" where
  "dtids_ShardSession dtid =
     (case split_on CHR '':'' dtid of
        [ks, shard, i] \<Rightarrow>
          (case parse_int 64 i of
             None \<Rightarrow> Inl (InvalidTransactionId dtid)
           | Some txid \<Rightarrow> Inr \<lparr>sTarget = master (ks, shard), TransactionId = txid\<rparr>)
      | _ \<Rightarrow> Inl (InvalidParts dtid))"

definition dtids_TransactionID :: "string \<Rightarrow> dtid_error + int" where
  "dtids_TransactionID dtid =
     (case split_on CHR '':'' dtid of
        [ks, shard, i] \<Rightarrow>
          (case parse_int 64 i of None \<Rightarrow> Inl (InvalidTransactionId dtid) | Some txid \<Rightarrow> Inr txid)
      | _ \<Rightarrow> Inl (InvalidParts dtid))"

lemma split_dtid:
  assumes "CHR '':'' \<notin> set ks" "CHR '':'' \<notin> set shard"
  shows "split_on CHR '':'' (ks @ CHR '':'' # shard @ CHR '':'' # format_int i) = [ks, shard, format_int i]"
proof -
  have "CHR '':'' \<notin> set (format_int i)" by (auto dest!: set_format_int simp: is_digit_def)
  then show ?thesis using assms by (simp add: split_on_append_sep split_on_no_sep)
qed

lemma ShardSession_New:
  assumes "CHR '':'' \<notin> set (tkeyspace (sTarget s))" "CHR '':'' \<notin> set (tshard (sTarget s))"
    and "- (2 ^ 63) \<le> TransactionId s" "TransactionId s < 2 ^ 63"
  shows "dtids_ShardSession (dtids_New s) =
      Inr \<lparr>sTarget = master (tkeyspace (sTarget s), tshard (sTarget s)), TransactionId = TransactionId s\<rparr>"
    and "dtids_TransactionID (dtids_New s) = Inr (TransactionId s)"
  using assms by (simp_all add: dtids_ShardSession_def dtids_TransactionID_def dtids_New_def split_dtid)

subsection \<open>What a session keeps\<close>

text \<open>In single mode there are two shards only until the rollback; a shard has one session per order of commit, with a real id.\<close>

definition target_key :: "Target \<Rightarrow> string \<times> string \<times> nat" where
  "target_key t = (tkeyspace t, tshard t, ttabletType t)"

definition sessions_ok :: "ShardSession list \<Rightarrow> bool" where
  "sessions_ok ss \<longleftrightarrow> distinct (map (target_key \<circ> sTarget) ss) \<and> list_all (\<lambda>s. TransactionId s \<noteq> 0) ss"

definition session_ok :: "TransactionMode \<Rightarrow> SafeSession \<Rightarrow> bool" where
  "session_ok txMode session \<longleftrightarrow>
     (isSingleDB txMode session \<longrightarrow> length (ShardSessions session) \<le> 1 \<or> mustRollback session) \<and>
     sessions_ok (ShardSessions session) \<and> sessions_ok (PreSessions session) \<and> sessions_ok (PostSessions session)"

lemma isSingleDB_update [simp]:
  "isSingleDB txMode (session\<lparr>acState := a\<rparr>) = isSingleDB txMode session"
  "isSingleDB txMode (session\<lparr>mustRollback := b\<rparr>) = isSingleDB txMode session"
  "isSingleDB txMode (session\<lparr>ShardSessions := ss\<rparr>) = isSingleDB txMode session"
  "isSingleDB txMode (session\<lparr>PreSessions := ss\<rparr>) = isSingleDB txMode session"
  "isSingleDB txMode (session\<lparr>PostSessions := ss\<rparr>) = isSingleDB txMode session"
  by (simp_all add: isSingleDB_def)

lemma session_ok_Reset: "session_ok txMode (Session_Reset session)"
  by (simp add: session_ok_def Session_Reset_def sessions_ok_def)

lemma session_ok_SetRollback: "session_ok txMode session \<Longrightarrow> session_ok txMode (Session_SetRollback session)"
  by (auto simp: session_ok_def Session_SetRollback_def)

lemma sessions_ok_append:
  "sessions_ok ss \<Longrightarrow> target_key (sTarget s) \<notin> set (map (target_key \<circ> sTarget) ss) \<Longrightarrow> TransactionId s \<noteq> 0 \<Longrightarrow> sessions_ok (ss @ [s])"
  by (auto simp: sessions_ok_def)

lemma Find_zero:
  assumes ok: "sessions_ok (sessions_of session)" and zero: "Session_Find ks sh tt session = 0"
  shows "(ks, sh, tt) \<notin> set (map (target_key \<circ> sTarget) (sessions_of session))"
proof (cases "find (\<lambda>s. ks = tkeyspace (sTarget s) \<and> tt = ttabletType (sTarget s) \<and> sh = tshard (sTarget s))
    (sessions_of session)")
  case None
  then show ?thesis unfolding find_None_iff by (auto simp: target_key_def)
next
  case (Some s)
  then have "TransactionId s = 0" using zero by (simp add: Session_Find_def)
  moreover from Some have "s \<in> set (sessions_of session)" by (auto simp: find_Some_iff)
  ultimately show ?thesis using ok by (auto simp: sessions_ok_def list_all_iff)
qed

lemma Append_single:
  assumes ok: "session_ok txMode session" and app: "Session_Append s txMode session = (err, session')"
    and new: "TransactionId s \<noteq> 0" "target_key (sTarget s) \<notin> set (map (target_key \<circ> sTarget) (sessions_of session))"
  shows "session_ok txMode session'"
proof (cases "acState session = autocommitted \<or> \<not> sInTransaction session")
  case True
  then have "session' = session" using app by (auto simp: Session_Append_def split: if_splits)
  then show ?thesis using ok by simp
next
  case False
  have all: "sessions_ok (ShardSessions session)" "sessions_ok (PreSessions session)" "sessions_ok (PostSessions session)"
    using ok by (simp_all add: session_ok_def)
  have "sessions_ok (sessions_of session @ [s])"
    using all by (intro sessions_ok_append new) (simp_all add: sessions_of_def split: CommitOrder.split)
  then show ?thesis using False app ok all
    by (cases "commitOrder session")
      (auto simp: Session_Append_def session_ok_def sessions_of_def Let_def split: if_splits)
qed

end
