(* ===== verification/Tablet_2pc.thy ===== *)
theory Tablet_2pc
  imports Safe_Session "HOL-Library.AList"
begin

text \<open>
  The tablet's side of two-phase commit, \<^verbatim>\<open>src/vt/vttablet/tabletserver\<close>: the pool of prepared transactions
  (\<^verbatim>\<open>tx_prep_pool.go\<close>), the tables of the metadata manager (\<^verbatim>\<open>twopc.go\<close>), the requests (\<^verbatim>\<open>tx_executor.go\<close>), and the
  recovery from the redo log (\<^verbatim>\<open>prepareFromRedo\<close> of \<^verbatim>\<open>tx_engine.go\<close>).

  The database is a value of \<open>tables\<close>: a transaction works on a copy, and its commit installs the copy. Every call
  to the database has an outcome, which a parameter of each request chooses: it works, it fails, or its answer is lost after it
  was done. A connection in use is not in \<open>activePool\<close>, as \<^verbatim>\<open>Get\<close> finds only those that are not. The column
  \<^verbatim>\<open>time_created\<close> is left out, and so are transactions of the isolation level \<^verbatim>\<open>AUTOCOMMIT\<close>, for which \<^verbatim>\<open>Begin\<close> opens no
  transaction in the database and \<^verbatim>\<open>LocalCommit\<close> has nothing to do. \<open>journal\<close> lists the transactions the database has committed, in order; the id of
  the distributed transaction each belongs to is there for the theorems only.

  What one request does to one distributed transaction is a function of its part of the state (\<open>view\<close>), and requests leave the parts
  of the others alone.
\<close>

subsection \<open>The database\<close>

datatype outcome = Fine | Fails | Lost

type_synonym faults = "nat \<Rightarrow> outcome"

datatype TransactionState = UNKNOWN | PREPARE | COMMIT | ROLLBACK

datatype prep_error = errPrepCommitting | errPrepFailed | DuplicateDtid string | PrepareLimit nat

datatype tx_error =
    TwopcDisabled
  | NotActive int
  | PrepareFailed int prep_error
  | CannotCommit string prep_error
  | Prep prep_error
  | DuplicateKey string
  | SqlSyntax
  | CouldNotTransition TransactionState string
  | UnexpectedState string
  | RowCountExceeded
  | DbError
  | Unreachable

record tables =
  redo_state :: "(string \<times> nat) list"
  redo_statement :: "(string \<times> string list) list"
  dt_state :: "(string \<times> TransactionState) list"
  dt_participant :: "(string \<times> (string \<times> string) list) list"
  journal :: "(string option \<times> string list) list"

definition RedoStateFailed :: nat where
  "RedoStateFailed = 0"

definition RedoStatePrepared :: nat where
  "RedoStatePrepared = 1"

subsection \<open>The metadata manager\<close>

text \<open>An insert of no rows is not a statement, and an insert of a key that is there is an error.\<close>

definition SaveRedo :: "string \<Rightarrow> string list \<Rightarrow> tables \<Rightarrow> tx_error + tables" where
  "SaveRedo dtid queries d =
     (if map_of (redo_state d) dtid \<noteq> None then Inl (DuplicateKey dtid)
      else if queries = [] then Inl SqlSyntax
      else if map_of (redo_statement d) dtid \<noteq> None then Inl (DuplicateKey dtid)
      else Inr (d\<lparr>redo_state := AList.update dtid RedoStatePrepared (redo_state d),
                  redo_statement := AList.update dtid queries (redo_statement d)\<rparr>))"

definition UpdateRedo :: "string \<Rightarrow> nat \<Rightarrow> tables \<Rightarrow> tx_error + tables" where
  "UpdateRedo dtid st d = Inr (d\<lparr>redo_state := AList.map_entry dtid (\<lambda>_. st) (redo_state d)\<rparr>)"

definition DeleteRedo :: "string \<Rightarrow> tables \<Rightarrow> tx_error + tables" where
  "DeleteRedo dtid d =
     Inr (d\<lparr>redo_state := AList.delete dtid (redo_state d), redo_statement := AList.delete dtid (redo_statement d)\<rparr>)"

definition TwoPC_CreateTransaction :: "string \<Rightarrow> (string \<times> string) list \<Rightarrow> tables \<Rightarrow> tx_error + tables" where
  "TwoPC_CreateTransaction dtid participants d =
     (if map_of (dt_state d) dtid \<noteq> None then Inl (DuplicateKey dtid)
      else if participants = [] then Inl SqlSyntax
      else if map_of (dt_participant d) dtid \<noteq> None then Inl (DuplicateKey dtid)
      else Inr (d\<lparr>dt_state := AList.update dtid PREPARE (dt_state d),
                  dt_participant := AList.update dtid participants (dt_participant d)\<rparr>))"

definition Transition :: "string \<Rightarrow> TransactionState \<Rightarrow> tables \<Rightarrow> tx_error + tables" where
  "Transition dtid st d =
     (if map_of (dt_state d) dtid = Some PREPARE
      then Inr (d\<lparr>dt_state := AList.update dtid st (dt_state d)\<rparr>)
      else Inl (CouldNotTransition st dtid))"

definition DeleteTransaction :: "string \<Rightarrow> tables \<Rightarrow> tx_error + tables" where
  "DeleteTransaction dtid d =
     Inr (d\<lparr>dt_state := AList.delete dtid (dt_state d), dt_participant := AList.delete dtid (dt_participant d)\<rparr>)"

record TransactionMetadata =
  Dtid :: string
  State :: TransactionState
  Participants :: "(string \<times> string) list"

definition TwoPC_ReadTransaction :: "faults \<Rightarrow> string \<Rightarrow> tables \<Rightarrow> tx_error + TransactionMetadata" where
  "TwoPC_ReadTransaction w dtid d =
     (if w 0 \<noteq> Fine then Inl DbError
      else
        case map_of (dt_state d) dtid of
          None \<Rightarrow> Inr \<lparr>Dtid = [], State = UNKNOWN, Participants = []\<rparr>
        | Some st \<Rightarrow>
            if st = UNKNOWN then Inl (UnexpectedState dtid)
            else if w 1 \<noteq> Fine then Inl DbError
            else Inr \<lparr>Dtid = dtid, State = st,
                      Participants = (case map_of (dt_participant d) dtid of None \<Rightarrow> [] | Some ps \<Rightarrow> ps)\<rparr>)"

text \<open>The rows of \<^verbatim>\<open>sqlReadAllRedo\<close>, and the loop that groups them; more than 10000 rows are an error.\<close>

definition statements_of :: "tables \<Rightarrow> string \<Rightarrow> string list" where
  "statements_of d i = (case map_of (redo_statement d) i of None \<Rightarrow> [] | Some ss \<Rightarrow> ss)"

definition redo_rows :: "tables \<Rightarrow> (string \<times> nat \<times> string) list" where
  "redo_rows d =
     concat (map (\<lambda>(dtid, st). map (\<lambda>s. (dtid, st, s)) (statements_of d dtid)) (sort_key fst (redo_state d)))"

function redo_groups :: "(string \<times> nat \<times> string) list \<Rightarrow> (string \<times> nat \<times> string list) list" where
  "redo_groups [] = []"
| "redo_groups ((dtid, st, s) # rows) =
     (dtid, st, s # map (snd \<circ> snd) (takeWhile (\<lambda>r. fst r = dtid) rows)) # redo_groups (dropWhile (\<lambda>r. fst r = dtid) rows)"
  by pat_completeness auto
termination
  by (relation "measure length") (auto simp: less_Suc_eq_le length_dropWhile_le)

definition ReadAllRedo :: "outcome \<Rightarrow> tables \<Rightarrow> tx_error + (string \<times> string list) list \<times> (string \<times> string list) list" where
  "ReadAllRedo o1 d =
     (if o1 \<noteq> Fine then Inl DbError
      else if length (redo_rows d) > 10000 then Inl RowCountExceeded
      else
        (let gs = redo_groups (redo_rows d) in
         Inr (map (\<lambda>(i, st, qs). (i, qs)) (filter (\<lambda>(i, st, qs). st = RedoStatePrepared) gs),
              map (\<lambda>(i, st, qs). (i, qs)) (filter (\<lambda>(i, st, qs). st \<noteq> RedoStatePrepared) gs))))"

subsection \<open>The pool of prepared transactions\<close>

record TxConnection =
  TransactionID :: int
  Queries :: "string list"

record TxPreparedPool =
  pp_conns :: "(string \<times> TxConnection) list"
  pp_reserved :: "(string \<times> prep_error) list"
  pp_capacity :: nat

definition NewTxPreparedPool :: "int \<Rightarrow> TxPreparedPool" where
  "NewTxPreparedPool cap = \<lparr>pp_conns = [], pp_reserved = [], pp_capacity = nat cap\<rparr>"

definition Prep_Put :: "TxConnection \<Rightarrow> string \<Rightarrow> TxPreparedPool \<Rightarrow> prep_error + TxPreparedPool" where
  "Prep_Put c dtid pp =
     (if map_of (pp_reserved pp) dtid \<noteq> None then Inl (DuplicateDtid dtid)
      else if map_of (pp_conns pp) dtid \<noteq> None then Inl (DuplicateDtid dtid)
      else if length (pp_conns pp) \<ge> pp_capacity pp then Inl (PrepareLimit (pp_capacity pp))
      else Inr (pp\<lparr>pp_conns := AList.update dtid c (pp_conns pp)\<rparr>))"

definition FetchForRollback :: "string \<Rightarrow> TxPreparedPool \<Rightarrow> TxConnection option \<times> TxPreparedPool" where
  "FetchForRollback dtid pp =
     (if map_of (pp_reserved pp) dtid \<noteq> None
      then (None, pp\<lparr>pp_reserved := AList.delete dtid (pp_reserved pp)\<rparr>)
      else (map_of (pp_conns pp) dtid, pp\<lparr>pp_conns := AList.delete dtid (pp_conns pp)\<rparr>))"

definition FetchForCommit :: "string \<Rightarrow> TxPreparedPool \<Rightarrow> prep_error + TxConnection option \<times> TxPreparedPool" where
  "FetchForCommit dtid pp =
     (case map_of (pp_reserved pp) dtid of
        Some err \<Rightarrow> Inl err
      | None \<Rightarrow>
          (case map_of (pp_conns pp) dtid of
             None \<Rightarrow> Inr (None, pp)
           | Some c \<Rightarrow>
               Inr (Some c, pp\<lparr>pp_conns := AList.delete dtid (pp_conns pp),
                               pp_reserved := AList.update dtid errPrepCommitting (pp_reserved pp)\<rparr>)))"

definition SetFailed :: "string \<Rightarrow> TxPreparedPool \<Rightarrow> TxPreparedPool" where
  "SetFailed dtid pp = pp\<lparr>pp_reserved := AList.update dtid errPrepFailed (pp_reserved pp)\<rparr>"

definition Forget :: "string \<Rightarrow> TxPreparedPool \<Rightarrow> TxPreparedPool" where
  "Forget dtid pp = pp\<lparr>pp_reserved := AList.delete dtid (pp_reserved pp)\<rparr>"

definition Prep_FetchAll :: "TxPreparedPool \<Rightarrow> TxConnection list \<times> TxPreparedPool" where
  "Prep_FetchAll pp = (map snd (pp_conns pp), pp\<lparr>pp_conns := [], pp_reserved := []\<rparr>)"

subsection \<open>Transactions of a tablet\<close>

record tablet =
  twopcEnabled :: bool
  activePool :: "(int \<times> TxConnection) list"
  lastID :: int
  preparedPool :: TxPreparedPool
  db :: tables

text \<open>\<^verbatim>\<open>tx_pool.go\<close>: \<open>TxPool_Get\<close> takes the connection, so that no other request finds it.\<close>

definition TxPool_Begin :: "outcome \<Rightarrow> tablet \<Rightarrow> (tx_error + int) \<times> tablet" where
  "TxPool_Begin o1 t =
     (if o1 \<noteq> Fine then (Inl DbError, t)
      else
        (let transactionID = lastID t + 1 in
         (Inr transactionID,
          t\<lparr>lastID := transactionID,
            activePool := AList.update transactionID \<lparr>TransactionID = transactionID, Queries = []\<rparr> (activePool t)\<rparr>)))"

definition TxPool_Get :: "int \<Rightarrow> tablet \<Rightarrow> (TxConnection \<times> tablet) option" where
  "TxPool_Get transactionID t =
     (case map_of (activePool t) transactionID of
        None \<Rightarrow> None
      | Some c \<Rightarrow> Some (c, t\<lparr>activePool := AList.delete transactionID (activePool t)\<rparr>))"

definition LocalCommit :: "outcome \<Rightarrow> tables \<Rightarrow> tablet \<Rightarrow> tx_error option \<times> tablet" where
  "LocalCommit o1 d t =
     (case o1 of
        Fine \<Rightarrow> (None, t\<lparr>db := d\<rparr>)
      | Fails \<Rightarrow> (Some DbError, t)
      | Lost \<Rightarrow> (Some DbError, t\<lparr>db := d\<rparr>))"

definition record_commit :: "string option \<Rightarrow> TxConnection \<Rightarrow> tables \<Rightarrow> tables" where
  "record_commit label c d = d\<lparr>journal := journal d @ [(label, Queries c)]\<rparr>"

definition TxPool_Commit :: "outcome \<Rightarrow> int \<Rightarrow> tablet \<Rightarrow> tx_error option \<times> tablet" where
  "TxPool_Commit o1 transactionID t =
     (case TxPool_Get transactionID t of
        None \<Rightarrow> (Some (NotActive transactionID), t)
      | Some (c, t1) \<Rightarrow> LocalCommit o1 (record_commit None c (db t1)) t1)"

definition TxPool_Rollback :: "outcome \<Rightarrow> int \<Rightarrow> tablet \<Rightarrow> tx_error option \<times> tablet" where
  "TxPool_Rollback o1 transactionID t =
     (case TxPool_Get transactionID t of
        None \<Rightarrow> (Some (NotActive transactionID), t)
      | Some (c, t1) \<Rightarrow> (if o1 = Fine then None else Some DbError, t1))"

definition RecordQuery :: "int \<Rightarrow> string \<Rightarrow> tablet \<Rightarrow> tablet" where
  "RecordQuery transactionID query t =
     t\<lparr>activePool := AList.map_entry transactionID (\<lambda>c. c\<lparr>Queries := Queries c @ [query]\<rparr>) (activePool t)\<rparr>"

definition AdjustLastID :: "int \<Rightarrow> tablet \<Rightarrow> tablet" where
  "AdjustLastID i t = (if lastID t < i then t\<lparr>lastID := i\<rparr> else t)"

text \<open>
  A transaction within a request: \<^verbatim>\<open>LocalBegin\<close>, the statements, \<^verbatim>\<open>LocalCommit\<close>, and \<^verbatim>\<open>LocalConclude\<close> of what was not
  committed. The outcomes are those of the begin, of the statements, and of the commit.
\<close>

definition local_tx :: "faults \<Rightarrow> (tables \<Rightarrow> tx_error + tables) \<Rightarrow> tablet \<Rightarrow> tx_error option \<times> tablet" where
  "local_tx w f t =
     (if w 0 \<noteq> Fine then (Some DbError, t)
      else
        (let t1 = t\<lparr>lastID := lastID t + 1\<rparr> in
         case (if w 1 \<noteq> Fine then Inl DbError else f (db t1)) of
           Inl e \<Rightarrow> (Some e, t1)
         | Inr d \<Rightarrow> LocalCommit (w 2) d t1))"

subsection \<open>The requests\<close>

definition Prepare :: "faults \<Rightarrow> int \<Rightarrow> string \<Rightarrow> tablet \<Rightarrow> tx_error option \<times> tablet" where
  "Prepare w transactionID dtid t =
     (if \<not> twopcEnabled t then (Some TwopcDisabled, t)
      else
        case TxPool_Get transactionID t of
          None \<Rightarrow> (Some (NotActive transactionID), t)
        | Some (c, t1) \<Rightarrow>
            if Queries c = [] then (None, t1)
            else
              (case Prep_Put c dtid (preparedPool t1) of
                 Inl e \<Rightarrow> (Some (PrepareFailed transactionID e), t1)
               | Inr pp \<Rightarrow> local_tx w (SaveRedo dtid (Queries c)) (t1\<lparr>preparedPool := pp\<rparr>)))"

definition markFailed :: "faults \<Rightarrow> string \<Rightarrow> tablet \<Rightarrow> tablet" where
  "markFailed w dtid t =
     snd (local_tx w (UpdateRedo dtid RedoStateFailed) (t\<lparr>preparedPool := SetFailed dtid (preparedPool t)\<rparr>))"

definition CommitPrepared :: "faults \<Rightarrow> string \<Rightarrow> tablet \<Rightarrow> tx_error option \<times> tablet" where
  "CommitPrepared w dtid t =
     (if \<not> twopcEnabled t then (Some TwopcDisabled, t)
      else
        case FetchForCommit dtid (preparedPool t) of
          Inl e \<Rightarrow> (Some (CannotCommit dtid e), t)
        | Inr (None, pp) \<Rightarrow> (None, t\<lparr>preparedPool := pp\<rparr>)
        | Inr (Some c, pp) \<Rightarrow>
            (let t1 = t\<lparr>preparedPool := pp\<rparr> in
             case (if w 0 \<noteq> Fine then Inl DbError else DeleteRedo dtid (db t1)) of
               Inl e \<Rightarrow> (Some e, markFailed (\<lambda>i. w (i + 2)) dtid t1)
             | Inr d \<Rightarrow>
                 (case LocalCommit (w 1) (record_commit (Some dtid) c d) t1 of
                    (Some e, t2) \<Rightarrow> (Some e, markFailed (\<lambda>i. w (i + 2)) dtid t2)
                  | (None, t2) \<Rightarrow> (None, t2\<lparr>preparedPool := Forget dtid (preparedPool t2)\<rparr>))))"

definition RollbackPrepared :: "faults \<Rightarrow> string \<Rightarrow> int \<Rightarrow> tablet \<Rightarrow> tx_error option \<times> tablet" where
  "RollbackPrepared w dtid originalID t =
     (if \<not> twopcEnabled t then (Some TwopcDisabled, t)
      else
        (let (err, t1) = local_tx w (DeleteRedo dtid) t;
             (c, pp) = FetchForRollback dtid (preparedPool t1);
             t2 = t1\<lparr>preparedPool := pp\<rparr>
         in (err, if originalID \<noteq> 0 then snd (TxPool_Rollback (w 3) originalID t2) else t2)))"

definition CreateTransaction :: "faults \<Rightarrow> string \<Rightarrow> (string \<times> string) list \<Rightarrow> tablet \<Rightarrow> tx_error option \<times> tablet" where
  "CreateTransaction w dtid participants t =
     (if \<not> twopcEnabled t then (Some TwopcDisabled, t)
      else local_tx w (TwoPC_CreateTransaction dtid participants) t)"

definition StartCommit :: "faults \<Rightarrow> int \<Rightarrow> string \<Rightarrow> tablet \<Rightarrow> tx_error option \<times> tablet" where
  "StartCommit w transactionID dtid t =
     (if \<not> twopcEnabled t then (Some TwopcDisabled, t)
      else
        case TxPool_Get transactionID t of
          None \<Rightarrow> (Some (NotActive transactionID), t)
        | Some (c, t1) \<Rightarrow>
            (case (if w 0 \<noteq> Fine then Inl DbError else Transition dtid COMMIT (db t1)) of
               Inl e \<Rightarrow> (Some e, t1)
             | Inr d \<Rightarrow> LocalCommit (w 1) (record_commit (Some dtid) c d) t1))"

definition SetRollback :: "faults \<Rightarrow> string \<Rightarrow> int \<Rightarrow> tablet \<Rightarrow> tx_error option \<times> tablet" where
  "SetRollback w dtid transactionID t =
     (if \<not> twopcEnabled t then (Some TwopcDisabled, t)
      else
        local_tx w (Transition dtid ROLLBACK)
          (if transactionID \<noteq> 0 then snd (TxPool_Rollback (w 3) transactionID t) else t))"

definition ConcludeTransaction :: "faults \<Rightarrow> string \<Rightarrow> tablet \<Rightarrow> tx_error option \<times> tablet" where
  "ConcludeTransaction w dtid t =
     (if \<not> twopcEnabled t then (Some TwopcDisabled, t) else local_tx w (DeleteTransaction dtid) t)"

definition ReadTransaction :: "faults \<Rightarrow> string \<Rightarrow> tablet \<Rightarrow> tx_error + TransactionMetadata" where
  "ReadTransaction w dtid t = (if \<not> twopcEnabled t then Inl TwopcDisabled else TwoPC_ReadTransaction w dtid (db t))"

subsection \<open>Recovery\<close>

definition txid_of :: "string \<Rightarrow> int" where
  "txid_of dtid = (case dtids_TransactionID dtid of Inl e \<Rightarrow> 0 | Inr i \<Rightarrow> i)"

fun resurrect :: "(nat \<Rightarrow> faults) \<Rightarrow> (string \<times> string list) list \<Rightarrow> tablet \<Rightarrow> tx_error list \<times> tablet" where
  "resurrect w [] t = ([], t)"
| "resurrect w ((dtid, queries) # txs) t =
     (let (errs, t2) =
        (if w 0 0 \<noteq> Fine then ([DbError], t)
         else
           (let t1 = t\<lparr>lastID := lastID t + 1\<rparr> in
            if list_ex (\<lambda>j. w 0 (Suc j) \<noteq> Fine) [0..<length queries] then ([DbError], t1)
            else
              case Prep_Put \<lparr>TransactionID = lastID t1, Queries = queries\<rparr> dtid (preparedPool t1) of
                Inl e \<Rightarrow> ([Prep e], t1)
              | Inr pp \<Rightarrow> ([], t1\<lparr>preparedPool := pp\<rparr>)));
          (errs', t3) = resurrect (\<lambda>i. w (Suc i)) txs t2
      in (errs @ errs', t3))"

definition prepareFromRedo :: "outcome \<Rightarrow> (nat \<Rightarrow> faults) \<Rightarrow> tablet \<Rightarrow> tx_error list \<times> tablet" where
  "prepareFromRedo o1 w t =
     (case ReadAllRedo o1 (db t) of
        Inl e \<Rightarrow> ([e], t)
      | Inr (prepared, failed) \<Rightarrow>
          (let (errs, t1) = resurrect w prepared t;
               t2 = t1\<lparr>preparedPool := fold (\<lambda>tx. SetFailed (fst tx)) failed (preparedPool t1)\<rparr>;
               maxid = fold (\<lambda>tx m. max m (txid_of (fst tx))) (prepared @ failed) 0
           in (errs, AdjustLastID maxid t2)))"

definition rollbackPrepared :: "tablet \<Rightarrow> tablet" where
  "rollbackPrepared t = t\<lparr>preparedPool := snd (Prep_FetchAll (preparedPool t))\<rparr>"

text \<open>
  \<^verbatim>\<open>RollbackNonBusy\<close> leaves the connections that \<^verbatim>\<open>GetOutdated\<close> does not return: those in use, which are not in \<open>activePool\<close>, and those that
  were registered without a timeout, which are the transactions \<open>spared\<close>.
\<close>

definition rollbackTransactions :: "(int \<Rightarrow> bool) \<Rightarrow> tablet \<Rightarrow> tablet" where
  "rollbackTransactions spared t = (rollbackPrepared t)\<lparr>activePool := filter (spared \<circ> fst) (activePool t)\<rparr>"

definition TxEngine_open :: "bool \<Rightarrow> outcome \<Rightarrow> (nat \<Rightarrow> faults) \<Rightarrow> tablet \<Rightarrow> tx_error list \<times> tablet" where
  "TxEngine_open readWrite o1 w t = (if twopcEnabled t \<and> readWrite then prepareFromRedo o1 w t else ([], t))"

subsection \<open>One distributed transaction at one tablet\<close>

text \<open>What a tablet knows of a distributed transaction, and what its database has committed for it.\<close>

record view =
  vRedo :: "nat option"
  vStmts :: "string list option"
  vState :: "TransactionState option"
  vParts :: "(string \<times> string) list option"
  vConn :: "string list option"
  vReserved :: bool
  vDone :: "string list list"

definition view :: "string \<Rightarrow> tablet \<Rightarrow> view" where
  "view i t =
     \<lparr>vRedo = map_of (redo_state (db t)) i, vStmts = map_of (redo_statement (db t)) i,
      vState = map_of (dt_state (db t)) i, vParts = map_of (dt_participant (db t)) i,
      vConn = map_option Queries (map_of (pp_conns (preparedPool t)) i),
      vReserved = (map_of (pp_reserved (preparedPool t)) i \<noteq> None),
      vDone = map snd (filter (\<lambda>e. fst e = Some i) (journal (db t)))\<rparr>"

definition queries_of :: "int \<Rightarrow> tablet \<Rightarrow> string list option" where
  "queries_of i t = map_option Queries (map_of (activePool t) i)"

lemma view_simps [simp]:
  "view i (t\<lparr>activePool := a\<rparr>) = view i t"
  "view i (t\<lparr>lastID := n\<rparr>) = view i t"
  by (simp_all add: view_def)

lemma TxPool_Get_cases:
  obtains "TxPool_Get j t = None" "queries_of j t = None"
  | c where "TxPool_Get j t = Some (c, t\<lparr>activePool := AList.delete j (activePool t)\<rparr>)" "queries_of j t = Some (Queries c)"
  by (cases "map_of (activePool t) j") (auto simp: TxPool_Get_def queries_of_def)

lemma view_TxPool [simp]:
  "view i (snd (TxPool_Begin o1 t)) = view i t"
  "view i (snd (TxPool_Rollback o1 j t)) = view i t"
  "view i (RecordQuery j q t) = view i t"
  "view i (AdjustLastID n t) = view i t"
  by (simp_all add: TxPool_Begin_def TxPool_Rollback_def TxPool_Get_def RecordQuery_def AdjustLastID_def Let_def split: option.split)

lemma view_TxPool_Commit [simp]: "view i (snd (TxPool_Commit o1 j t)) = view i t"
  by (auto simp: TxPool_Commit_def TxPool_Get_def LocalCommit_def record_commit_def view_def split: option.split outcome.split)

text \<open>A transaction of the metadata manager does nothing or what its statements do, and that it does when it returns no error.\<close>

lemma local_tx_cases:
  assumes "local_tx w f t = (err, t')"
  obtains "err \<noteq> None" "\<And>i. view i t' = view i t" "preparedPool t' = preparedPool t"
  | d where "f (db t) = Inr d" "\<And>i. view i t' = view i (t\<lparr>db := d\<rparr>)" "preparedPool t' = preparedPool t" "err = None \<or> w 2 = Lost"
  using assms unfolding local_tx_def LocalCommit_def Let_def
  by (cases "w 2"; cases "f (db t)") (auto simp: view_def split: if_splits)

lemma local_tx_Fine:
  assumes "w = (\<lambda>_. Fine)" "f (db t) = Inr d"
  shows "local_tx w f t = (None, t\<lparr>lastID := lastID t + 1, db := d\<rparr>)"
  using assms by (simp add: local_tx_def LocalCommit_def)

lemma journal_filter_append [simp]:
  "map snd (filter (\<lambda>e. fst e = Some i) (xs @ [(l, q)])) =
     map snd (filter (\<lambda>e. fst e = Some i) xs) @ (if l = Some i then [q] else [])"
  by simp

lemmas alist_maps = update_conv' delete_conv' AList.map_of_map_entry

lemma view_SaveRedo:
  assumes "SaveRedo dtid q (db t) = Inr d"
  shows "view i (t\<lparr>db := d\<rparr>) = (if i = dtid then (view i t)\<lparr>vRedo := Some 1, vStmts := Some q\<rparr> else view i t)"
    and "q \<noteq> []" "vRedo (view dtid t) = None"
  using assms by (auto simp: SaveRedo_def view_def alist_maps RedoStatePrepared_def split: if_splits)

lemma view_UpdateRedo:
  assumes "UpdateRedo dtid n (db t) = Inr d"
  shows "view i (t\<lparr>db := d\<rparr>) = (if i = dtid then (view i t)\<lparr>vRedo := map_option (\<lambda>_. n) (vRedo (view i t))\<rparr> else view i t)"
  using assms by (auto simp: UpdateRedo_def view_def alist_maps split: option.split)

lemma view_DeleteRedo:
  assumes "DeleteRedo dtid (db t) = Inr d"
  shows "view i (t\<lparr>db := d\<rparr>) = (if i = dtid then (view i t)\<lparr>vRedo := None, vStmts := None\<rparr> else view i t)"
  using assms by (auto simp: DeleteRedo_def view_def alist_maps)

lemma view_CreateTransaction_db:
  assumes "TwoPC_CreateTransaction dtid ps (db t) = Inr d"
  shows "view i (t\<lparr>db := d\<rparr>) = (if i = dtid then (view i t)\<lparr>vState := Some PREPARE, vParts := Some ps\<rparr> else view i t)"
    and "vState (view dtid t) = None"
  using assms by (auto simp: TwoPC_CreateTransaction_def view_def alist_maps split: if_splits)

lemma view_Transition:
  assumes "Transition dtid st (db t) = Inr d"
  shows "view i (t\<lparr>db := d\<rparr>) = (if i = dtid then (view i t)\<lparr>vState := Some st\<rparr> else view i t)"
    and "vState (view dtid t) = Some PREPARE"
  using assms by (auto simp: Transition_def view_def alist_maps split: if_splits)

lemma view_DeleteTransaction:
  assumes "DeleteTransaction dtid (db t) = Inr d"
  shows "view i (t\<lparr>db := d\<rparr>) = (if i = dtid then (view i t)\<lparr>vState := None, vParts := None\<rparr> else view i t)"
  using assms by (auto simp: DeleteTransaction_def view_def alist_maps)

lemma view_record_commit:
  "view i (t\<lparr>db := record_commit (Some dtid) c d\<rparr>) =
     (if i = dtid then (view i (t\<lparr>db := d\<rparr>))\<lparr>vDone := vDone (view i (t\<lparr>db := d\<rparr>)) @ [Queries c]\<rparr> else view i (t\<lparr>db := d\<rparr>))"
  by (simp add: view_def record_commit_def)

lemma view_Put:
  assumes "Prep_Put c dtid (preparedPool t) = Inr pp"
  shows "view i (t\<lparr>preparedPool := pp\<rparr>) = (if i = dtid then (view i t)\<lparr>vConn := Some (Queries c)\<rparr> else view i t)"
    and "\<not> vReserved (view dtid t)" "vConn (view dtid t) = None"
  using assms by (auto simp: Prep_Put_def view_def alist_maps split: if_splits)

lemma view_SetFailed:
  "view i (t\<lparr>preparedPool := SetFailed dtid (preparedPool t)\<rparr>) = (if i = dtid then (view i t)\<lparr>vReserved := True\<rparr> else view i t)"
  by (simp add: SetFailed_def view_def alist_maps)

lemma view_Forget:
  "view i (t\<lparr>preparedPool := Forget dtid (preparedPool t)\<rparr>) = (if i = dtid then (view i t)\<lparr>vReserved := False\<rparr> else view i t)"
  by (simp add: Forget_def view_def alist_maps)

lemma view_FetchForRollback:
  "view i (t\<lparr>preparedPool := snd (FetchForRollback dtid (preparedPool t))\<rparr>) =
     (if i \<noteq> dtid then view i t
      else if vReserved (view i t) then (view i t)\<lparr>vReserved := False\<rparr> else (view i t)\<lparr>vConn := None\<rparr>)"
  by (simp add: FetchForRollback_def view_def alist_maps)

lemma FetchForCommit_cases:
  obtains e where "FetchForCommit dtid (preparedPool t) = Inl e" "vReserved (view dtid t)"
  | "FetchForCommit dtid (preparedPool t) = Inr (None, preparedPool t)" "\<not> vReserved (view dtid t)" "vConn (view dtid t) = None"
  | c pp where "FetchForCommit dtid (preparedPool t) = Inr (Some c, pp)" "\<not> vReserved (view dtid t)"
      "vConn (view dtid t) = Some (Queries c)"
      "\<And>i. view i (t\<lparr>preparedPool := pp\<rparr>) = (if i = dtid then (view i t)\<lparr>vConn := None, vReserved := True\<rparr> else view i t)"
  by (cases "map_of (pp_reserved (preparedPool t)) dtid"; cases "map_of (pp_conns (preparedPool t)) dtid")
    (simp_all add: FetchForCommit_def view_def alist_maps)

subsection \<open>What the requests do\<close>

lemma prepare_put_cases:
  assumes "Prep_Put c dtid (preparedPool t) = Inr pp"
    and "local_tx w (SaveRedo dtid (Queries c)) (t\<lparr>preparedPool := pp\<rparr>) = (err, t')"
  obtains "err \<noteq> None" "\<And>i. view i t' = (if i = dtid then (view i t)\<lparr>vConn := Some (Queries c)\<rparr> else view i t)"
  | "vRedo (view dtid t) = None"
      "\<And>i. view i t' =
         (if i = dtid then (view i t)\<lparr>vConn := Some (Queries c), vRedo := Some 1, vStmts := Some (Queries c)\<rparr> else view i t)"
  using assms(2)
proof (cases rule: local_tx_cases)
  case 1
  then show ?thesis using that(1) view_Put(1) [OF assms(1)] by simp
next
  case (2 d)
  note put = view_Put [OF assms(1)] and save = view_SaveRedo [OF 2(1)]
  have "view i t' =
      (if i = dtid then (view i t)\<lparr>vConn := Some (Queries c), vRedo := Some 1, vStmts := Some (Queries c)\<rparr> else view i t)" for i
    using 2(2) [of i] save(1) [of i] put(1) [of i] by auto
  moreover have "vRedo (view dtid t) = None" using save(3) put(1) [of dtid] by simp
  ultimately show ?thesis using that(2) by blast
qed

lemma Prepare_cases:
  assumes Prep: "Prepare w j dtid t = (err, t')"
  obtains "\<And>i. view i t' = view i t" "err = None \<Longrightarrow> queries_of j t = Some []"
  | q where "queries_of j t = Some q" "q \<noteq> []" "vConn (view dtid t) = None" "\<not> vReserved (view dtid t)" "err \<noteq> None"
      "\<And>i. view i t' = (if i = dtid then (view i t)\<lparr>vConn := Some q\<rparr> else view i t)"
  | q where "queries_of j t = Some q" "q \<noteq> []" "vConn (view dtid t) = None" "\<not> vReserved (view dtid t)" "vRedo (view dtid t) = None"
      "\<And>i. view i t' = (if i = dtid then (view i t)\<lparr>vConn := Some q, vRedo := Some 1, vStmts := Some q\<rparr> else view i t)"
proof (cases rule: TxPool_Get_cases [of j t])
  case 1
  then show ?thesis using Prep that(1) by (auto simp: Prepare_def split: if_splits)
next
  case (2 c)
  define t1 where "t1 = t\<lparr>activePool := AList.delete j (activePool t)\<rparr>"
  have v1: "view i t1 = view i t" for i by (simp add: t1_def)
  have Get: "TxPool_Get j t = Some (c, t1)" using 2 by (simp add: t1_def)
  show ?thesis
  proof (cases "\<not> twopcEnabled t \<or> Queries c = [] \<or> (\<exists>e. Prep_Put c dtid (preparedPool t1) = Inl e)")
    case True
    then show ?thesis using Prep Get 2(2) v1 that(1) by (auto simp: Prepare_def split: if_splits)
  next
    case False
    then obtain pp where put: "Prep_Put c dtid (preparedPool t1) = Inr pp"
      by (cases "Prep_Put c dtid (preparedPool t1)") auto
    then have "local_tx w (SaveRedo dtid (Queries c)) (t1\<lparr>preparedPool := pp\<rparr>) = (err, t')"
      using Prep Get False by (simp add: Prepare_def)
    with put show ?thesis
      by (rule prepare_put_cases) (use view_Put [OF put] v1 2 False that(2,3) in auto)
  qed
qed

lemma markFailed_cases:
  obtains "\<And>i. view i (markFailed w dtid t) = (if i = dtid then (view i t)\<lparr>vReserved := True\<rparr> else view i t)"
  | "\<And>i. view i (markFailed w dtid t) =
        (if i = dtid then (view i t)\<lparr>vReserved := True, vRedo := map_option (\<lambda>_. 0) (vRedo (view i t))\<rparr> else view i t)"
proof -
  obtain err t' where "local_tx w (UpdateRedo dtid RedoStateFailed) (t\<lparr>preparedPool := SetFailed dtid (preparedPool t)\<rparr>) = (err, t')"
    by fastforce
  then have t': "markFailed w dtid t = t'"
    and l: "local_tx w (UpdateRedo dtid RedoStateFailed) (t\<lparr>preparedPool := SetFailed dtid (preparedPool t)\<rparr>) = (err, t')"
    by (simp_all add: markFailed_def)
  from l show ?thesis
  proof (cases rule: local_tx_cases)
    case 1
    then show ?thesis using that(1) by (simp add: t' view_SetFailed)
  next
    case (2 d)
    then show ?thesis using view_UpdateRedo [OF 2(1)] that(2) by (auto simp: t' view_SetFailed RedoStateFailed_def)
  qed
qed

text \<open>A commit that fails leaves the transaction reserved, with its redo log; one whose answer is lost, reserved without it.\<close>

lemma CommitPrepared_cases:
  assumes Comm: "CommitPrepared w dtid t = (err, t')"
  obtains "\<And>i. view i t' = view i t"
      "err = None \<Longrightarrow> \<not> vReserved (view dtid t) \<and> vConn (view dtid t) = None"
  | q n where "\<not> vReserved (view dtid t)" "vConn (view dtid t) = Some q" "err \<noteq> None"
      "\<And>i. view i t' = (if i = dtid then (view i t)\<lparr>vConn := None, vReserved := True, vRedo := n\<rparr> else view i t)"
      "n = None \<longleftrightarrow> vRedo (view dtid t) = None"
  | q b where "\<not> vReserved (view dtid t)" "vConn (view dtid t) = Some q" "err = None \<longleftrightarrow> \<not> b"
      "\<And>i. view i t' =
         (if i = dtid then (view i t)\<lparr>vConn := None, vReserved := b, vRedo := None, vStmts := None, vDone := vDone (view i t) @ [q]\<rparr>
          else view i t)"
proof (cases rule: FetchForCommit_cases [of dtid t])
  case (1 e)
  then show ?thesis using Comm that(1) by (auto simp: CommitPrepared_def split: if_splits)
next
  case 2
  then show ?thesis using Comm that(1) by (auto simp: CommitPrepared_def split: if_splits)
next
  case (3 c pp)
  define t1 where "t1 = t\<lparr>preparedPool := pp\<rparr>"
  define d where "d = record_commit (Some dtid) c (projr (DeleteRedo dtid (db t1)))"
  have v1: "view i t1 = (if i = dtid then (view i t)\<lparr>vConn := None, vReserved := True\<rparr> else view i t)" for i
    using 3(4) by (simp add: t1_def)
  have "DeleteRedo dtid (db t1) = Inr (projr (DeleteRedo dtid (db t1)))" by (simp add: DeleteRedo_def)
  note v2 = view_DeleteRedo [OF this]
  have vd: "view i (t1\<lparr>db := d\<rparr>) =
      (if i = dtid then (view i t)\<lparr>vConn := None, vReserved := True, vRedo := None, vStmts := None, vDone := vDone (view i t) @ [Queries c]\<rparr>
       else view i t)" for i
    by (simp add: d_def view_record_commit v2 v1)
  consider (off) "\<not> twopcEnabled t" | (ok) "t' = t1\<lparr>db := d, preparedPool := Forget dtid (preparedPool t1)\<rparr>" "err = None"
    | (failed) w' where "t' = markFailed w' dtid t1" "err \<noteq> None"
    | (lost) w' where "t' = markFailed w' dtid (t1\<lparr>db := d\<rparr>)" "err \<noteq> None"
    using Comm 3(1) unfolding CommitPrepared_def LocalCommit_def
    by (cases "w 0"; cases "w 1") (auto simp: t1_def d_def DeleteRedo_def split: if_splits)
  then show ?thesis
  proof cases
    case off
    then show ?thesis using Comm that(1) by (auto simp: CommitPrepared_def)
  next
    case ok
    have "t' = (t1\<lparr>db := d\<rparr>)\<lparr>preparedPool := Forget dtid (preparedPool (t1\<lparr>db := d\<rparr>))\<rparr>" using ok by simp
    then have "view i t' = (if i = dtid then (view i (t1\<lparr>db := d\<rparr>))\<lparr>vReserved := False\<rparr> else view i (t1\<lparr>db := d\<rparr>))" for i
      by (simp only: view_Forget)
    then show ?thesis using that(3) [OF 3(2,3), of False] ok by (simp add: vd)
  next
    case failed
    then show ?thesis
      by (cases rule: markFailed_cases [of w' dtid t1])
        (use that(2) [OF 3(2,3), of "vRedo (view dtid t)"] that(2) [OF 3(2,3), of "map_option (\<lambda>_. 0) (vRedo (view dtid t))"] v1 in auto)
  next
    case lost
    then show ?thesis
      by (cases rule: markFailed_cases [of w' dtid "t1\<lparr>db := d\<rparr>"]) (use that(3) [OF 3(2,3), of True] vd in auto)
  qed
qed

lemma delete_redo_view:
  assumes "local_tx w (DeleteRedo dtid) t = (err, t')"
  obtains "err \<noteq> None" "\<And>i. view i t' = view i t"
  | "\<And>i. view i t' = (if i = dtid then (view i t)\<lparr>vRedo := None, vStmts := None\<rparr> else view i t)"
  using assms
proof (cases rule: local_tx_cases)
  case (2 d)
  then show ?thesis using that(2) view_DeleteRedo [OF 2(1)] by simp
qed (rule that)

lemma RollbackPrepared_cases:
  assumes Roll: "RollbackPrepared w dtid j t = (err, t')"
  obtains "err \<noteq> None" "\<And>i. view i t' = view i t"
  | v where "v = view dtid t \<and> err \<noteq> None \<or> v = (view dtid t)\<lparr>vRedo := None, vStmts := None\<rparr>"
      "\<And>i. view i t' =
         (if i \<noteq> dtid then view i t else if vReserved v then v\<lparr>vReserved := False\<rparr> else v\<lparr>vConn := None\<rparr>)"
proof -
  obtain e1 t1 where l: "local_tx w (DeleteRedo dtid) t = (e1, t1)" by fastforce
  define t2 where "t2 = t1\<lparr>preparedPool := snd (FetchForRollback dtid (preparedPool t1))\<rparr>"
  consider (off) "err \<noteq> None" "t' = t" | (on) "err = e1" "\<And>i. view i t' = view i t2"
    using Roll l by (auto simp: RollbackPrepared_def t2_def Let_def split: if_splits prod.splits)
  then show ?thesis
  proof cases
    case off
    then show ?thesis using that(1) by simp
  next
    case on
    from l show ?thesis
      by (rule delete_redo_view) (use on that(2) [of "view dtid t1"] in \<open>auto simp: t2_def view_FetchForRollback\<close>)
  qed
qed

lemma CreateTransaction_cases:
  assumes "CreateTransaction w dtid ps t = (err, t')"
  obtains "err \<noteq> None" "\<And>i. view i t' = view i t"
  | "vState (view dtid t) = None"
      "\<And>i. view i t' = (if i = dtid then (view i t)\<lparr>vState := Some PREPARE, vParts := Some ps\<rparr> else view i t)"
proof (cases "twopcEnabled t")
  case True
  then have "local_tx w (TwoPC_CreateTransaction dtid ps) t = (err, t')" using assms by (simp add: CreateTransaction_def)
  then show ?thesis
  proof (cases rule: local_tx_cases)
    case (2 d)
    then show ?thesis using that(2) view_CreateTransaction_db [OF 2(1)] by simp
  qed (rule that(1))
next
  case False
  then have "err \<noteq> None" "t' = t" using assms by (auto simp: CreateTransaction_def)
  then show ?thesis using that(1) by simp
qed

lemma StartCommit_cases:
  assumes "StartCommit w j dtid t = (err, t')"
  obtains "err \<noteq> None" "\<And>i. view i t' = view i t"
  | q where "vState (view dtid t) = Some PREPARE" "queries_of j t = Some q"
      "\<And>i. view i t' = (if i = dtid then (view i t)\<lparr>vState := Some COMMIT, vDone := vDone (view i t) @ [q]\<rparr> else view i t)"
proof (cases rule: TxPool_Get_cases [of j t])
  case 1
  then show ?thesis using assms that(1) by (auto simp: StartCommit_def split: if_splits)
next
  case (2 c)
  define t1 where "t1 = t\<lparr>activePool := AList.delete j (activePool t)\<rparr>"
  have Get: "TxPool_Get j t = Some (c, t1)" using 2 by (simp add: t1_def)
  have v1: "view i t1 = view i t" for i by (simp add: t1_def)
  consider "err \<noteq> None" "t' = t \<or> t' = t1"
    | d where "Transition dtid COMMIT (db t1) = Inr d" "t' = t1\<lparr>db := record_commit (Some dtid) c d\<rparr>"
  proof (cases "Transition dtid COMMIT (db t1)")
    case (Inl e)
    then show ?thesis using assms Get that(1) by (cases "w 0 = Fine") (auto simp: StartCommit_def split: if_splits)
  next
    case (Inr d)
    then have "err \<noteq> None \<and> (t' = t \<or> t' = t1) \<or> t' = t1\<lparr>db := record_commit (Some dtid) c d\<rparr>"
      using assms Get by (cases "w 1") (auto simp: StartCommit_def LocalCommit_def split: if_splits)
    then show ?thesis using Inr that by blast
  qed
  then show ?thesis
  proof cases
    case 1
    then show ?thesis using that(1) v1 by auto
  next
    case (2 d)
    note tr = view_Transition [OF 2(1), unfolded v1]
    show ?thesis using that(2) [OF tr(2) \<open>queries_of j t = Some (Queries c)\<close>] tr(1) by (simp add: 2(2) view_record_commit)
  qed
qed

lemma SetRollback_cases:
  assumes "SetRollback w dtid j t = (err, t')"
  obtains "err \<noteq> None" "\<And>i. view i t' = view i t"
  | "vState (view dtid t) = Some PREPARE" "\<And>i. view i t' = (if i = dtid then (view i t)\<lparr>vState := Some ROLLBACK\<rparr> else view i t)"
proof (cases "twopcEnabled t")
  case True
  define t1 where "t1 = (if j \<noteq> 0 then snd (TxPool_Rollback (w 3) j t) else t)"
  have v1: "view i t1 = view i t" for i by (simp add: t1_def)
  have "local_tx w (Transition dtid ROLLBACK) t1 = (err, t')" using assms True by (simp add: SetRollback_def t1_def)
  then show ?thesis
  proof (cases rule: local_tx_cases)
    case 1
    then show ?thesis using that(1) v1 by simp
  next
    case (2 d)
    then show ?thesis using that(2) view_Transition [OF 2(1)] by (simp add: v1)
  qed
next
  case False
  then have "err \<noteq> None" "t' = t" using assms by (auto simp: SetRollback_def)
  then show ?thesis using that(1) by simp
qed

lemma ConcludeTransaction_cases:
  assumes "ConcludeTransaction w dtid t = (err, t')"
  obtains "err \<noteq> None" "\<And>i. view i t' = view i t"
  | "\<And>i. view i t' = (if i = dtid then (view i t)\<lparr>vState := None, vParts := None\<rparr> else view i t)"
proof (cases "twopcEnabled t")
  case True
  then have "local_tx w (DeleteTransaction dtid) t = (err, t')" using assms by (simp add: ConcludeTransaction_def)
  then show ?thesis
  proof (cases rule: local_tx_cases)
    case (2 d)
    then show ?thesis using that(2) view_DeleteTransaction [OF 2(1)] by simp
  qed (rule that(1))
next
  case False
  then have "err \<noteq> None" "t' = t" using assms by (auto simp: ConcludeTransaction_def)
  then show ?thesis using that(1) by simp
qed

lemma ReadTransaction_Inr:
  assumes "ReadTransaction w dtid t = Inr md"
  shows "(Dtid md = [] \<and> vState (view dtid t) = None) \<or>
    (Dtid md = dtid \<and> vState (view dtid t) = Some (State md) \<and>
      Participants md = (case vParts (view dtid t) of None \<Rightarrow> [] | Some ps \<Rightarrow> ps))"
  using assms by (auto simp: ReadTransaction_def TwoPC_ReadTransaction_def view_def split: if_splits option.splits)

subsection \<open>What recovery restores\<close>

lemma redo_groups_rows:
  assumes "distinct (map fst L)"
  shows "redo_groups (concat (map (\<lambda>(i, st). map (\<lambda>s. (i, st, s)) (stm i)) L)) =
    map (\<lambda>(i, st). (i, st, stm i)) (filter (\<lambda>(i, st). stm i \<noteq> []) L)"
  using assms
proof (induction L)
  case (Cons x L)
  obtain i st where x: "x = (i, st)" by fastforce
  define rest where "rest = concat (map (\<lambda>(i, st). map (\<lambda>s. (i, st, s)) (stm i)) L)"
  have IH: "redo_groups rest = map (\<lambda>(i, st). (i, st, stm i)) (filter (\<lambda>(i, st). stm i \<noteq> []) L)"
    using Cons by (simp add: rest_def)
  show ?case
  proof (cases "stm i")
    case Nil
    then show ?thesis using IH by (simp add: x rest_def)
  next
    case (Cons s ss)
    have other: "fst r \<noteq> i" if "r \<in> set rest" for r
      using that \<open>distinct (map fst (x # L))\<close> by (force simp: rest_def x)
    have ends: "takeWhile (\<lambda>r. fst r = i) rest = []" "dropWhile (\<lambda>r. fst r = i) rest = rest"
      by (cases rest, simp, simp add: other)+
    have rows: "concat (map (\<lambda>(i, st). map (\<lambda>s. (i, st, s)) (stm i)) (x # L)) = (i, st, s) # map (\<lambda>s. (i, st, s)) ss @ rest"
      by (simp add: x Cons rest_def)
    have "takeWhile (\<lambda>r. fst r = i) (map (\<lambda>s. (i, st, s)) ss @ rest) = map (\<lambda>s. (i, st, s)) ss"
      "dropWhile (\<lambda>r. fst r = i) (map (\<lambda>s. (i, st, s)) ss @ rest) = rest"
      by (induction ss) (simp_all add: ends)
    then show ?thesis unfolding rows using IH by (simp add: x Cons comp_def)
  qed
qed simp

lemma ReadAllRedo_spec:
  assumes "distinct (map fst (redo_state d))" "ReadAllRedo o1 d = Inr (prepared, failed)"
  shows "(i, q) \<in> set prepared \<longleftrightarrow> map_of (redo_state d) i = Some 1 \<and> statements_of d i = q \<and> q \<noteq> []"
    and "(i, q) \<in> set failed \<longleftrightarrow> (\<exists>n. map_of (redo_state d) i = Some n \<and> n \<noteq> 1) \<and> statements_of d i = q \<and> q \<noteq> []"
    and "distinct (map fst prepared)"
proof -
  define L where "L = filter (\<lambda>(i, st). statements_of d i \<noteq> []) (sort_key fst (redo_state d))"
  have d: "distinct (map fst (sort_key fst (redo_state d)))" using assms(1) by (simp add: distinct_map)
  have "redo_groups (redo_rows d) = map (\<lambda>(i, st). (i, st, statements_of d i)) L"
    unfolding redo_rows_def L_def by (rule redo_groups_rows [OF d])
  then have eqs: "prepared = map (\<lambda>(i, st). (i, statements_of d i)) (filter (\<lambda>(i, st). st = 1) L)"
    "failed = map (\<lambda>(i, st). (i, statements_of d i)) (filter (\<lambda>(i, st). st \<noteq> 1) L)"
    using assms(2)
    by (simp_all add: ReadAllRedo_def Let_def RedoStatePrepared_def filter_map comp_def case_prod_unfold split: if_splits)
  have in_L: "(i, st) \<in> set L \<longleftrightarrow> map_of (redo_state d) i = Some st \<and> statements_of d i \<noteq> []" for i st
    using assms(1) by (auto simp: L_def map_of_eq_Some_iff)
  show "(i, q) \<in> set prepared \<longleftrightarrow> map_of (redo_state d) i = Some 1 \<and> statements_of d i = q \<and> q \<noteq> []"
    unfolding eqs using in_L [of i 1] by force
  show "(i, q) \<in> set failed \<longleftrightarrow> (\<exists>n. map_of (redo_state d) i = Some n \<and> n \<noteq> 1) \<and> statements_of d i = q \<and> q \<noteq> []"
    unfolding eqs using in_L [of i] by force
  have "map fst prepared = map fst (filter (\<lambda>(i, st). st = 1) L)"
    by (simp add: eqs comp_def case_prod_unfold)
  then show "distinct (map fst prepared)" using d by (simp add: L_def distinct_map_filter)
qed

lemma resurrect_step:
  assumes "resurrect w ((dtid, q) # txs) t = ([], t')"
  obtains t1 where "resurrect (\<lambda>i. w (Suc i)) txs t1 = ([], t')" "db t1 = db t"
    "\<And>i. view i t1 = (if i = dtid then (view i t)\<lparr>vConn := Some q\<rparr> else view i t)"
proof -
  define t0 where "t0 = t\<lparr>lastID := lastID t + 1\<rparr>"
  define c where "c = \<lparr>TransactionID = lastID t0, Queries = q\<rparr>"
  obtain pp where "Prep_Put c dtid (preparedPool t0) = Inr pp" "resurrect (\<lambda>i. w (Suc i)) txs (t0\<lparr>preparedPool := pp\<rparr>) = ([], t')"
    using assms unfolding resurrect.simps Let_def t0_def [symmetric] c_def [symmetric]
    by (cases "Prep_Put c dtid (preparedPool t0)") (auto split: if_splits prod.splits)
  then show thesis using that view_Put(1) by (force simp: t0_def c_def)
qed

lemma resurrect_view:
  assumes "resurrect w txs t = ([], t')" "distinct (map fst txs)"
  shows "view i t' = (case map_of txs i of None \<Rightarrow> view i t | Some q \<Rightarrow> (view i t)\<lparr>vConn := Some q\<rparr>) \<and> db t' = db t"
  using assms
proof (induction txs arbitrary: w t)
  case (Cons tx txs)
  obtain dtid q where tx: "tx = (dtid, q)" by fastforce
  from Cons.prems(1) obtain t1 where t1: "resurrect (\<lambda>i. w (Suc i)) txs t1 = ([], t')" "db t1 = db t"
    "\<And>i. view i t1 = (if i = dtid then (view i t)\<lparr>vConn := Some q\<rparr> else view i t)"
    unfolding tx by (rule resurrect_step) blast
  have "map_of txs dtid = None" using Cons.prems(2) by (auto simp: tx map_of_eq_None_iff)
  then show ?case using Cons.IH [OF t1(1)] Cons.prems(2) t1(2,3) by (auto simp: tx split: option.split)
qed simp

lemma view_SetFailed_fold:
  "view i (t\<lparr>preparedPool := fold (\<lambda>tx. SetFailed (fst tx)) txs (preparedPool t)\<rparr>) =
     (if i \<in> fst ` set txs then (view i t)\<lparr>vReserved := True\<rparr> else view i t)"
proof (induction txs arbitrary: t)
  case (Cons tx txs)
  from Cons [of "t\<lparr>preparedPool := SetFailed (fst tx) (preparedPool t)\<rparr>"] show ?case
    by (auto simp: view_SetFailed)
qed (simp add: view_def)

text \<open>
  A restart: \<^verbatim>\<open>close\<close> rolls back and waits until the pool is empty, so that the spared transactions have ended too (or the process dies with all
  of them), and \<^verbatim>\<open>open\<close> recovers. The ids go on from \<open>now\<close>: the time of the start, or the last id where the process stays.
\<close>

definition restart :: "int \<Rightarrow> outcome \<Rightarrow> (nat \<Rightarrow> faults) \<Rightarrow> tablet \<Rightarrow> tx_error list \<times> tablet" where
  "restart now o1 w t = TxEngine_open True o1 w ((rollbackTransactions (\<lambda>_. False) t)\<lparr>lastID := now\<rparr>)"

lemma db_resurrect: "db (snd (resurrect w txs t)) = db t"
proof (induction txs arbitrary: w t)
  case (Cons tx txs)
  then show ?case by (cases tx) (simp add: Let_def case_prod_unfold split: sum.split)
qed simp

lemma db_restart: "db (snd (restart now o1 w t)) = db t"
  by (simp add: restart_def TxEngine_open_def prepareFromRedo_def AdjustLastID_def rollbackTransactions_def rollbackPrepared_def Let_def
      case_prod_unfold db_resurrect split: sum.split)

text \<open>A redo log has statements, and both tables know the transaction.\<close>

definition logged :: "view \<Rightarrow> bool" where
  "logged v \<longleftrightarrow> (vRedo v = None \<longleftrightarrow> vStmts v = None) \<and> vStmts v \<noteq> Some []"

lemma ReadAllRedo_view:
  assumes "distinct (map fst (redo_state (db t)))" "logged (view i t)" "ReadAllRedo o1 (db t) = Inr (prepared, failed)"
  shows "map_of prepared i = (if vRedo (view i t) = Some 1 then vStmts (view i t) else None)"
    and "i \<in> fst ` set failed \<longleftrightarrow> vRedo (view i t) \<noteq> None \<and> vRedo (view i t) \<noteq> Some 1"
proof -
  note spec = ReadAllRedo_spec [OF assms(1,3)]
  have st: "statements_of (db t) i = (case vStmts (view i t) of None \<Rightarrow> [] | Some q \<Rightarrow> q)"
    and re: "map_of (redo_state (db t)) i = vRedo (view i t)" by (simp_all add: statements_of_def view_def)
  show "map_of prepared i = (if vRedo (view i t) = Some 1 then vStmts (view i t) else None)"
  proof (cases "vRedo (view i t) = Some 1 \<and> vStmts (view i t) \<noteq> None")
    case True
    then obtain q where "vStmts (view i t) = Some q" by auto
    then show ?thesis using True assms(2) spec(1) [of i q] spec(3) by (auto simp: st re logged_def intro: map_of_is_SomeI)
  next
    case False
    then show ?thesis using assms(2) spec(1) [of i] by (auto simp: st re logged_def map_of_eq_None_iff split: option.splits)
  qed
  show "i \<in> fst ` set failed \<longleftrightarrow> vRedo (view i t) \<noteq> None \<and> vRedo (view i t) \<noteq> Some 1"
    using assms(2) spec(2) [of i] by (force simp: st re logged_def image_iff split: option.splits)
qed

lemma restart_view:
  assumes "restart now o1 w t = ([], t')" "twopcEnabled t" "distinct (map fst (redo_state (db t)))" "logged (view i t)"
  shows "view i t' = (view i t)\<lparr>vConn := (if vRedo (view i t) = Some 1 then vStmts (view i t) else None),
      vReserved := (vRedo (view i t) \<noteq> None \<and> vRedo (view i t) \<noteq> Some 1)\<rparr>"
    and "db t' = db t"
proof -
  define t0 where "t0 = (rollbackTransactions (\<lambda>_. False) t)\<lparr>lastID := now\<rparr>"
  have t0: "db t0 = db t" "view i t0 = (view i t)\<lparr>vConn := None, vReserved := False\<rparr>"
    by (simp_all add: t0_def rollbackTransactions_def rollbackPrepared_def Prep_FetchAll_def view_def)
  obtain prepared failed where read: "ReadAllRedo o1 (db t) = Inr (prepared, failed)"
    using assms(1,2) t0(1)
    by (cases "ReadAllRedo o1 (db t)") (auto simp: restart_def TxEngine_open_def prepareFromRedo_def t0_def [symmetric]
        rollbackTransactions_def rollbackPrepared_def split: if_splits)
  have en: "twopcEnabled t0" using assms(2) by (simp add: t0_def rollbackTransactions_def rollbackPrepared_def)
  obtain t1 where t1: "resurrect w prepared t0 = ([], t1)"
    and t': "t' = AdjustLastID (fold (\<lambda>tx m. max m (txid_of (fst tx))) (prepared @ failed) 0)
      (t1\<lparr>preparedPool := fold (\<lambda>tx. SetFailed (fst tx)) failed (preparedPool t1)\<rparr>)"
    using assms(1) en read t0(1)
    by (auto simp: restart_def TxEngine_open_def prepareFromRedo_def t0_def [symmetric] Let_def split: prod.splits)
  note spec = ReadAllRedo_spec [OF assms(3) read] and prep = ReadAllRedo_view(1) [OF assms(3,4) read]
    and fail = ReadAllRedo_view(2) [OF assms(3,4) read]
  have v1: "view i t1 = (case map_of prepared i of None \<Rightarrow> view i t0 | Some q \<Rightarrow> (view i t0)\<lparr>vConn := Some q\<rparr>)" "db t1 = db t"
    using resurrect_view [OF t1 spec(3)] t0(1) by simp_all
  show "db t' = db t" using v1(2) by (simp add: t' AdjustLastID_def)
  show "view i t' = (view i t)\<lparr>vConn := (if vRedo (view i t) = Some 1 then vStmts (view i t) else None),
      vReserved := (vRedo (view i t) \<noteq> None \<and> vRedo (view i t) \<noteq> Some 1)\<rparr>"
    using assms(4) by (auto simp: t' view_SetFailed_fold v1 t0(2) prep fail logged_def split: option.split)
qed

subsection \<open>The keys of the redo log\<close>

text \<open>The requests of the query service that concern transactions.\<close>

datatype request =
    RCommit int
  | RRollback int
  | RCreate string "(string \<times> string) list"
  | RPrepare int string
  | RStartCommit int string
  | RSetRollback string int
  | RConclude string
  | RCommitPrepared string
  | RRollbackPrepared string int

fun handle :: "faults \<Rightarrow> request \<Rightarrow> tablet \<Rightarrow> tx_error option \<times> tablet" where
  "handle w (RCommit j) t = TxPool_Commit (w 0) j t"
| "handle w (RRollback j) t = TxPool_Rollback (w 0) j t"
| "handle w (RCreate dtid ps) t = CreateTransaction w dtid ps t"
| "handle w (RPrepare j dtid) t = Prepare w j dtid t"
| "handle w (RStartCommit j dtid) t = StartCommit w j dtid t"
| "handle w (RSetRollback dtid j) t = SetRollback w dtid j t"
| "handle w (RConclude dtid) t = ConcludeTransaction w dtid t"
| "handle w (RCommitPrepared dtid) t = CommitPrepared w dtid t"
| "handle w (RRollbackPrepared dtid j) t = RollbackPrepared w dtid j t"

fun dtid_of :: "request \<Rightarrow> string option" where
  "dtid_of (RCommit j) = None"
| "dtid_of (RRollback j) = None"
| "dtid_of (RCreate dtid ps) = Some dtid"
| "dtid_of (RPrepare j dtid) = Some dtid"
| "dtid_of (RStartCommit j dtid) = Some dtid"
| "dtid_of (RSetRollback dtid j) = Some dtid"
| "dtid_of (RConclude dtid) = Some dtid"
| "dtid_of (RCommitPrepared dtid) = Some dtid"
| "dtid_of (RRollbackPrepared dtid j) = Some dtid"

definition redo_distinct :: "tables \<Rightarrow> bool" where
  "redo_distinct d \<longleftrightarrow> distinct (map fst (redo_state d))"

lemma redo_distinct_LocalCommit:
  "redo_distinct (db t) \<Longrightarrow> redo_distinct d \<Longrightarrow> redo_distinct (db (snd (LocalCommit o1 d t)))"
  by (cases o1) (simp_all add: LocalCommit_def)

lemma redo_distinct_local_tx:
  "redo_distinct (db t) \<Longrightarrow> (\<And>d. f (db t) = Inr d \<Longrightarrow> redo_distinct d) \<Longrightarrow> redo_distinct (db (snd (local_tx w f t)))"
  unfolding local_tx_def Let_def by (auto split: sum.split intro!: redo_distinct_LocalCommit)

lemma redo_distinct_mm:
  assumes "redo_distinct d0"
  shows "SaveRedo dtid q d0 = Inr d \<Longrightarrow> redo_distinct d"
    and "UpdateRedo dtid n d0 = Inr d \<Longrightarrow> redo_distinct d"
    and "DeleteRedo dtid d0 = Inr d \<Longrightarrow> redo_distinct d"
    and "TwoPC_CreateTransaction dtid ps d0 = Inr d \<Longrightarrow> redo_distinct d"
    and "Transition dtid st d0 = Inr d \<Longrightarrow> redo_distinct d"
    and "DeleteTransaction dtid d0 = Inr d \<Longrightarrow> redo_distinct d"
    and "redo_distinct (record_commit l c d0)"
  using assms
  by (auto simp: redo_distinct_def SaveRedo_def UpdateRedo_def DeleteRedo_def TwoPC_CreateTransaction_def Transition_def
      DeleteTransaction_def record_commit_def AList.distinct_map_entry split: if_splits intro: distinct_update distinct_delete)

lemma redo_distinct_markFailed: "redo_distinct (db t) \<Longrightarrow> redo_distinct (db (markFailed w dtid t))"
  unfolding markFailed_def by (rule redo_distinct_local_tx) (simp_all add: redo_distinct_mm(2))

lemma redo_distinct_CommitPrepared: "redo_distinct (db t) \<Longrightarrow> redo_distinct (db (snd (CommitPrepared w dtid t)))"
  unfolding CommitPrepared_def LocalCommit_def Let_def
  by (auto split: sum.split option.split outcome.split prod.split if_splits
      intro!: redo_distinct_markFailed redo_distinct_mm(7) dest: redo_distinct_mm(3))

lemma db_TxPool_Get: "TxPool_Get j t = Some (c, t1) \<Longrightarrow> db t1 = db t"
  by (auto simp: TxPool_Get_def split: option.splits)

lemma db_TxPool_Rollback: "db (snd (TxPool_Rollback o1 j t)) = db t"
  by (auto simp: TxPool_Rollback_def db_TxPool_Get split: option.split)

lemma handle_redo_distinct:
  assumes "redo_distinct (db t)"
  shows "redo_distinct (db (snd (handle w r t)))"
proof (cases r)
  case (RCommit j)
  then show ?thesis using assms
    by (auto simp: TxPool_Commit_def db_TxPool_Get split: option.split intro!: redo_distinct_LocalCommit redo_distinct_mm(7))
next
  case (RPrepare j dtid)
  then show ?thesis using assms
    by (auto simp: Prepare_def db_TxPool_Get split: option.split sum.split intro!: redo_distinct_local_tx dest: redo_distinct_mm(1))
next
  case (RStartCommit j dtid)
  then show ?thesis using assms
    by (auto simp: StartCommit_def db_TxPool_Get split: option.split sum.split if_splits
        intro!: redo_distinct_LocalCommit redo_distinct_mm(7) dest: redo_distinct_mm(5))
next
  case (RSetRollback dtid j)
  then show ?thesis using assms
    by (auto simp: SetRollback_def db_TxPool_Rollback intro!: redo_distinct_local_tx dest: redo_distinct_mm(5))
next
  case (RRollbackPrepared dtid j)
  have "redo_distinct (db (snd (local_tx w (DeleteRedo dtid) t)))"
    using assms by (auto intro!: redo_distinct_local_tx dest: redo_distinct_mm(3))
  then show ?thesis using assms RRollbackPrepared
    by (auto simp: RollbackPrepared_def Let_def db_TxPool_Rollback split: prod.split)
qed (use assms in \<open>auto simp: CreateTransaction_def ConcludeTransaction_def db_TxPool_Rollback redo_distinct_CommitPrepared
      intro!: redo_distinct_local_tx dest: redo_distinct_mm\<close>)

subsection \<open>What a request does to its transaction\<close>

text \<open>
  The requests as a relation on the view of the transaction they name: \<open>qs\<close> are the statements of the tablet's transaction the
  request names, \<open>ok\<close> says that it returns no error.
\<close>

fun effect :: "request \<Rightarrow> string list option \<Rightarrow> bool \<Rightarrow> view \<Rightarrow> view \<Rightarrow> bool" where
  "effect (RCommit j) qs ok v v' \<longleftrightarrow> v' = v"
| "effect (RRollback j) qs ok v v' \<longleftrightarrow> v' = v"
| "effect (RCreate dtid ps) qs ok v v' \<longleftrightarrow>
     \<not> ok \<and> v' = v \<or> vState v = None \<and> v' = v\<lparr>vState := Some PREPARE, vParts := Some ps\<rparr>"
| "effect (RPrepare j dtid) qs ok v v' \<longleftrightarrow>
     v' = v \<and> (ok \<longrightarrow> qs = Some []) \<or>
     (\<exists>q. qs = Some q \<and> q \<noteq> [] \<and> vConn v = None \<and> \<not> vReserved v \<and>
        (\<not> ok \<and> v' = v\<lparr>vConn := Some q\<rparr> \<or> vRedo v = None \<and> v' = v\<lparr>vConn := Some q, vRedo := Some 1, vStmts := Some q\<rparr>))"
| "effect (RStartCommit j dtid) qs ok v v' \<longleftrightarrow>
     \<not> ok \<and> v' = v \<or>
     (\<exists>q. qs = Some q \<and> vState v = Some PREPARE \<and> v' = v\<lparr>vState := Some COMMIT, vDone := vDone v @ [q]\<rparr>)"
| "effect (RSetRollback dtid j) qs ok v v' \<longleftrightarrow>
     \<not> ok \<and> v' = v \<or> vState v = Some PREPARE \<and> v' = v\<lparr>vState := Some ROLLBACK\<rparr>"
| "effect (RConclude dtid) qs ok v v' \<longleftrightarrow> \<not> ok \<and> v' = v \<or> v' = v\<lparr>vState := None, vParts := None\<rparr>"
| "effect (RCommitPrepared dtid) qs ok v v' \<longleftrightarrow>
     v' = v \<and> (ok \<longrightarrow> \<not> vReserved v \<and> vConn v = None) \<or>
     (\<exists>q. \<not> vReserved v \<and> vConn v = Some q \<and>
        (\<not> ok \<and> (\<exists>n. (n = None \<longleftrightarrow> vRedo v = None) \<and> v' = v\<lparr>vConn := None, vReserved := True, vRedo := n\<rparr>) \<or>
         v' = v\<lparr>vConn := None, vReserved := \<not> ok, vRedo := None, vStmts := None, vDone := vDone v @ [q]\<rparr>))"
| "effect (RRollbackPrepared dtid j) qs ok v v' \<longleftrightarrow>
     \<not> ok \<and> v' = v \<or>
     (\<exists>v1. (\<not> ok \<and> v1 = v \<or> v1 = v\<lparr>vRedo := None, vStmts := None\<rparr>) \<and>
        v' = (if vReserved v1 then v1\<lparr>vReserved := False\<rparr> else v1\<lparr>vConn := None\<rparr>))"

fun txid_arg :: "request \<Rightarrow> int" where
  "txid_arg (RPrepare j dtid) = j"
| "txid_arg (RStartCommit j dtid) = j"
| "txid_arg _ = 0"

lemma handle_frame:
  assumes "handle w r t = (err, t')" "dtid_of r \<noteq> Some i"
  shows "view i t' = view i t"
proof (cases r)
  case (RCreate dtid ps)
  then have "CreateTransaction w dtid ps t = (err, t')" "i \<noteq> dtid" using assms by auto
  then show ?thesis by (auto elim: CreateTransaction_cases)
next
  case (RPrepare j dtid)
  then have "Prepare w j dtid t = (err, t')" "i \<noteq> dtid" using assms by auto
  then show ?thesis by (auto elim: Prepare_cases)
next
  case (RStartCommit j dtid)
  then have "StartCommit w j dtid t = (err, t')" "i \<noteq> dtid" using assms by auto
  then show ?thesis by (auto elim: StartCommit_cases)
next
  case (RSetRollback dtid j)
  then have "SetRollback w dtid j t = (err, t')" "i \<noteq> dtid" using assms by auto
  then show ?thesis by (auto elim: SetRollback_cases)
next
  case (RConclude dtid)
  then have "ConcludeTransaction w dtid t = (err, t')" "i \<noteq> dtid" using assms by auto
  then show ?thesis by (auto elim: ConcludeTransaction_cases)
next
  case (RCommitPrepared dtid)
  then have "CommitPrepared w dtid t = (err, t')" "i \<noteq> dtid" using assms by auto
  then show ?thesis by (auto elim: CommitPrepared_cases)
next
  case (RRollbackPrepared dtid j)
  then have "RollbackPrepared w dtid j t = (err, t')" "i \<noteq> dtid" using assms by auto
  then show ?thesis by (auto elim: RollbackPrepared_cases)
next
  case (RCommit j)
  then show ?thesis using assms view_TxPool_Commit [of i "w 0" j t] by simp
next
  case (RRollback j)
  then show ?thesis using assms view_TxPool(2) [of i "w 0" j t] by simp
qed

lemma handle_effect:
  assumes "handle w r t = (err, t')" "dtid_of r = Some i"
  shows "effect r (queries_of (txid_arg r) t) (err = None) (view i t) (view i t')"
proof (cases r)
  case (RCreate dtid ps)
  then have "CreateTransaction w i ps t = (err, t')" using assms by auto
  then show ?thesis unfolding RCreate by (rule CreateTransaction_cases) simp_all
next
  case (RPrepare j dtid)
  then have "Prepare w j i t = (err, t')" using assms by auto
  then show ?thesis unfolding RPrepare by (rule Prepare_cases) simp_all
next
  case (RStartCommit j dtid)
  then have "StartCommit w j i t = (err, t')" using assms by auto
  then show ?thesis unfolding RStartCommit by (rule StartCommit_cases) simp_all
next
  case (RSetRollback dtid j)
  then have "SetRollback w i j t = (err, t')" using assms by auto
  then show ?thesis unfolding RSetRollback by (rule SetRollback_cases) simp_all
next
  case (RConclude dtid)
  then have "ConcludeTransaction w i t = (err, t')" using assms by auto
  then show ?thesis unfolding RConclude by (rule ConcludeTransaction_cases) simp_all
next
  case (RCommitPrepared dtid)
  then have "CommitPrepared w i t = (err, t')" using assms by auto
  then show ?thesis unfolding RCommitPrepared by (rule CommitPrepared_cases) auto
next
  case (RRollbackPrepared dtid j)
  then have "RollbackPrepared w i j t = (err, t')" using assms by auto
  then show ?thesis unfolding RRollbackPrepared by (rule RollbackPrepared_cases) auto
qed (use assms in auto)

end
