(* ===== verification/Two_Phase_Commit.thy ===== *)
theory Two_Phase_Commit
  imports Tablet_2pc
begin

text \<open>
  Distributed transactions over the tablets of a cluster. The requests vtgate may send are those of \<^verbatim>\<open>commit2PC\<close> and of
  \<^verbatim>\<open>Resolve\<close> (\<^verbatim>\<open>src/vt/vtgate/tx_conn.go\<close>); \<open>allowed\<close> has for each of them what must have been answered
  before. Everything else is free: any number of coordinators work at the same time, a request is executed late, or never, with
  any outcomes of its database calls, an answer may not reach the sender, and a tablet may restart at any moment, provided that
  it recovers every transaction of its redo log. A request that ends a transaction of the tablet or writes its dtid is executed at most
  once, as the transport does not repeat requests.

  The part of the cluster's state that belongs to one distributed transaction steps on its own (\<open>step_refines\<close>), and
  the invariant of this protocol (\<open>inv_step\<close>) gives atomicity in every reachable state.
\<close>

subsection \<open>The cluster\<close>

type_synonym shard = "string \<times> string"

definition key :: "ShardSession \<Rightarrow> shard" where
  "key s = (tkeyspace (sTarget s), tshard (sTarget s))"

record part =
  pPlan :: "ShardSession list option"
  pView :: "shard \<Rightarrow> view"
  pSent :: "(shard \<times> request) set"
  pExecuted :: "(shard \<times> request) set"
  pOks :: "(shard \<times> request) set"
  pSeen :: "(TransactionState \<times> shard list) set"
  pVotes :: "shard \<Rightarrow> string list option"

record cluster =
  ctab :: "shard \<Rightarrow> tablet"
  plan :: "string \<Rightarrow> ShardSession list option"
  sent :: "(shard \<times> request) set"
  executed :: "(shard \<times> request) set"
  oks :: "(shard \<times> request) set"
  seen :: "(string \<times> TransactionState \<times> shard list) set"
  votes :: "shard \<times> string \<Rightarrow> string list option"

definition about :: "string \<Rightarrow> (shard \<times> request) set \<Rightarrow> (shard \<times> request) set" where
  "about d R = {x \<in> R. dtid_of (snd x) = Some d}"

definition part_of :: "string \<Rightarrow> cluster \<Rightarrow> part" where
  "part_of d c =
     \<lparr>pPlan = plan c d, pView = (\<lambda>t. view d (ctab c t)), pSent = about d (sent c), pExecuted = about d (executed c),
      pOks = about d (oks c), pSeen = {(st, ps). (d, st, ps) \<in> seen c}, pVotes = (\<lambda>t. votes c (t, d))\<rparr>"

text \<open>A rollback was decided: a coordinator has read it, or has written it.\<close>

definition rolled :: "string \<Rightarrow> part \<Rightarrow> shard list \<Rightarrow> bool" where
  "rolled d p ps \<longleftrightarrow> (ROLLBACK, ps) \<in> pSeen p \<or> (PREPARE, ps) \<in> pSeen p \<and> (\<exists>t j. (t, RSetRollback d j) \<in> pOks p)"

definition mm_of :: "string \<Rightarrow> shard option" where
  "mm_of d = (case dtids_ShardSession d of Inl e \<Rightarrow> None | Inr s \<Rightarrow> Some (key s))"

fun allowed :: "part \<Rightarrow> shard \<Rightarrow> request \<Rightarrow> bool" where
  "allowed p t (RCommit j) \<longleftrightarrow> True"
| "allowed p t (RRollback j) \<longleftrightarrow> True"
| "allowed p t (RCreate d ps) \<longleftrightarrow> (\<exists>m ss. pPlan p = Some (m # ss) \<and> t = key m \<and> ps = map key ss)"
| "allowed p t (RPrepare j d) \<longleftrightarrow>
     (\<exists>m ss s. pPlan p = Some (m # ss) \<and> s \<in> set ss \<and> t = key s \<and> j = TransactionId s \<and>
        (key m, RCreate d (map key ss)) \<in> pOks p)"
| "allowed p t (RStartCommit j d) \<longleftrightarrow>
     (\<exists>m ss. pPlan p = Some (m # ss) \<and> t = key m \<and> j = TransactionId m \<and>
        (\<forall>s \<in> set ss. (key s, RPrepare (TransactionId s) d) \<in> pOks p))"
| "allowed p t (RCommitPrepared d) \<longleftrightarrow>
     (\<exists>m ss s. pPlan p = Some (m # ss) \<and> s \<in> set ss \<and> t = key s \<and> (key m, RStartCommit (TransactionId m) d) \<in> pOks p) \<or>
     (\<exists>ps. (COMMIT, ps) \<in> pSeen p \<and> t \<in> set ps)"
| "allowed p t (RSetRollback d j) \<longleftrightarrow> (\<exists>ps. (PREPARE, ps) \<in> pSeen p) \<and> mm_of d = Some t"
| "allowed p t (RRollbackPrepared d j) \<longleftrightarrow> (\<exists>ps. rolled d p ps \<and> t \<in> set ps)"
| "allowed p t (RConclude d) \<longleftrightarrow>
     (\<exists>m ss. pPlan p = Some (m # ss) \<and> t = key m \<and> (key m, RStartCommit (TransactionId m) d) \<in> pOks p \<and>
        (\<forall>s \<in> set ss. (key s, RCommitPrepared d) \<in> pOks p)) \<or>
     (\<exists>ps. (COMMIT, ps) \<in> pSeen p \<and> mm_of d = Some t \<and> (\<forall>q \<in> set ps. (q, RCommitPrepared d) \<in> pOks p)) \<or>
     (\<exists>ps. rolled d p ps \<and> mm_of d = Some t \<and> (\<forall>q \<in> set ps. \<exists>j. (q, RRollbackPrepared d j) \<in> pOks p))"

fun once :: "request \<Rightarrow> bool" where
  "once (RCreate d ps) = True"
| "once (RPrepare j d) = True"
| "once (RStartCommit j d) = True"
| "once _ = False"

definition request_part :: "cluster \<Rightarrow> request \<Rightarrow> part" where
  "request_part c r = part_of (case dtid_of r of None \<Rightarrow> [] | Some d \<Rightarrow> d) c"

text \<open>What a tablet promises when it answers a \<^verbatim>\<open>Prepare\<close>: the statements of the transaction.\<close>

fun record_vote :: "shard \<Rightarrow> request \<Rightarrow> bool \<Rightarrow> tablet \<Rightarrow> (shard \<times> string \<Rightarrow> string list option) \<Rightarrow> shard \<times> string \<Rightarrow> string list option" where
  "record_vote t (RPrepare j d) ok tb vs = (if ok then vs((t, d) := queries_of j tb) else vs)"
| "record_vote t _ ok tb vs = vs"

text \<open>The sessions of a commit are of different shards, and the dtid made from the first can be read back.\<close>

definition valid_plan :: "string \<Rightarrow> ShardSession list \<Rightarrow> bool" where
  "valid_plan d ss \<longleftrightarrow>
     2 \<le> length ss \<and> distinct (map key ss) \<and> d = dtids_New (hd ss) \<and> mm_of d = Some (key (hd ss)) \<and>
     list_all (\<lambda>s. ttabletType (sTarget s) = MASTER) ss"

inductive step :: "cluster \<Rightarrow> cluster \<Rightarrow> bool" where
  start: "valid_plan d ss \<Longrightarrow> plan c d = None \<Longrightarrow> step c (c\<lparr>plan := (plan c)(d := Some ss)\<rparr>)"
| send: "allowed (request_part c r) t r \<Longrightarrow> step c (c\<lparr>sent := insert (t, r) (sent c)\<rparr>)"
| execute: "(t, r) \<in> sent c \<Longrightarrow> \<not> once r \<or> (t, r) \<notin> executed c \<Longrightarrow> handle w r (ctab c t) = (err, tb) \<Longrightarrow>
    step c (c\<lparr>ctab := (ctab c)(t := tb), executed := insert (t, r) (executed c),
              oks := (if err = None then insert (t, r) (oks c) else oks c),
              votes := record_vote t r (err = None) (ctab c t) (votes c)\<rparr>)"
| read: "mm_of d = Some t \<Longrightarrow> ReadTransaction w d (ctab c t) = Inr md \<Longrightarrow> Dtid md \<noteq> [] \<Longrightarrow>
    step c (c\<lparr>seen := insert (d, State md, Participants md) (seen c)\<rparr>)"
| restart: "restart now o1 w (ctab c t) = ([], tb) \<Longrightarrow> twopcEnabled (ctab c t) \<Longrightarrow> step c (c\<lparr>ctab := (ctab c)(t := tb)\<rparr>)"
| begin_tx: "step c (c\<lparr>ctab := (ctab c)(t := snd (TxPool_Begin o1 (ctab c t)))\<rparr>)"
| statement: "step c (c\<lparr>ctab := (ctab c)(t := RecordQuery j q (ctab c t))\<rparr>)"

text \<open>At the start no tablet knows of a distributed transaction.\<close>

definition blank :: view where
  "blank = \<lparr>vRedo = None, vStmts = None, vState = None, vParts = None, vConn = None, vReserved = False, vDone = []\<rparr>"

definition initial :: "cluster \<Rightarrow> bool" where
  "initial c \<longleftrightarrow> plan c = (\<lambda>_. None) \<and> sent c = {} \<and> executed c = {} \<and> oks c = {} \<and> seen c = {} \<and> votes c = (\<lambda>_. None) \<and>
     (\<forall>t. redo_distinct (db (ctab c t)) \<and> (\<forall>d. view d (ctab c t) = blank))"

inductive reachable :: "cluster \<Rightarrow> bool" where
  init: "initial c \<Longrightarrow> reachable c"
| step: "reachable c \<Longrightarrow> step c c' \<Longrightarrow> reachable c'"

lemma reachable_redo_distinct: "reachable c \<Longrightarrow> redo_distinct (db (ctab c t))"
proof (induction arbitrary: t rule: reachable.induct)
  case (step c c')
  from step(2) show ?case
  proof cases
    case (execute t' r w err tb)
    then show ?thesis using step(3) [of t] step(3) [of t'] handle_redo_distinct [of "ctab c t'" w r] by auto
  next
    case (restart now o1 w t' tb)
    then show ?thesis using step(3) [of t] step(3) [of t'] db_restart [of now o1 w "ctab c t'"] by auto
  qed (use step(3) in \<open>auto simp: TxPool_Begin_def RecordQuery_def Let_def\<close>)
qed (simp add: initial_def del: split_paired_All)

lemma effect_logged: "effect r qs ok v v' \<Longrightarrow> logged v \<Longrightarrow> logged v'"
  by (cases r) (auto simp: logged_def split: if_splits)

definition recovered :: "view \<Rightarrow> view" where
  "recovered v = v\<lparr>vConn := (if vRedo v = Some 1 then vStmts v else None), vReserved := (vRedo v \<noteq> None \<and> vRedo v \<noteq> Some 1)\<rparr>"

lemma restart_recovered:
  assumes "restart now o1 w t = ([], t')" "twopcEnabled t" "redo_distinct (db t)" "logged (view i t)"
  shows "view i t' = recovered (view i t)"
  using restart_view(1) [OF assms(1,2) _ assms(4)] assms(3) by (simp add: redo_distinct_def recovered_def)

lemma reachable_logged: "reachable c \<Longrightarrow> logged (view d (ctab c t))"
proof (induction arbitrary: t rule: reachable.induct)
  case (step c c')
  from step(2) show ?case
  proof cases
    case (execute t' r w err tb)
    have "logged (view d tb)"
    proof (cases "dtid_of r = Some d")
      case True
      then show ?thesis using handle_effect [OF execute(4)] step(3) [of t'] effect_logged by blast
    next
      case False
      then show ?thesis using handle_frame [OF execute(4)] step(3) [of t'] by simp
    qed
    then show ?thesis using execute step(3) [of t] by auto
  next
    case (restart now o1 w t' tb)
    have "logged (view d tb)"
      using restart_recovered [OF restart(2,3) reachable_redo_distinct [OF step(1)] step(3)] step(3) [of t']
      by (simp add: recovered_def logged_def)
    then show ?thesis using restart step(3) [of t] by auto
  qed (use step(3) in auto)
qed (simp add: initial_def blank_def logged_def del: split_paired_All)

subsection \<open>The protocol of one transaction\<close>

fun part_vote :: "shard \<Rightarrow> request \<Rightarrow> bool \<Rightarrow> string list option \<Rightarrow> (shard \<Rightarrow> string list option) \<Rightarrow> shard \<Rightarrow> string list option" where
  "part_vote t (RPrepare j d) ok qs vs = (if ok then vs(t := qs) else vs)"
| "part_vote t _ ok qs vs = vs"

definition exec_part :: "shard \<Rightarrow> request \<Rightarrow> string list option \<Rightarrow> bool \<Rightarrow> view \<Rightarrow> part \<Rightarrow> part" where
  "exec_part t r qs ok v p =
     p\<lparr>pView := (pView p)(t := v), pExecuted := insert (t, r) (pExecuted p),
       pOks := (if ok then insert (t, r) (pOks p) else pOks p), pVotes := part_vote t r ok qs (pVotes p)\<rparr>"

lemma exec_part_simps [simp]:
  "pPlan (exec_part t r qs ok v p) = pPlan p"
  "pSent (exec_part t r qs ok v p) = pSent p"
  "pSeen (exec_part t r qs ok v p) = pSeen p"
  "pView (exec_part t r qs ok v p) = (pView p)(t := v)"
  "pExecuted (exec_part t r qs ok v p) = insert (t, r) (pExecuted p)"
  "pOks (exec_part t r qs ok v p) = (if ok then insert (t, r) (pOks p) else pOks p)"
  "pVotes (exec_part t r qs ok v p) = part_vote t r ok qs (pVotes p)"
  by (simp_all add: exec_part_def)

inductive pstep :: "string \<Rightarrow> part \<Rightarrow> part \<Rightarrow> bool" for d where
  p_start: "valid_plan d ss \<Longrightarrow> pPlan p = None \<Longrightarrow> pstep d p (p\<lparr>pPlan := Some ss\<rparr>)"
| p_send: "dtid_of r = Some d \<Longrightarrow> allowed p t r \<Longrightarrow> pstep d p (p\<lparr>pSent := insert (t, r) (pSent p)\<rparr>)"
| p_execute: "dtid_of r = Some d \<Longrightarrow> (t, r) \<in> pSent p \<Longrightarrow> \<not> once r \<or> (t, r) \<notin> pExecuted p \<Longrightarrow>
    effect r qs ok (pView p t) v \<Longrightarrow>
    pstep d p (exec_part t r qs ok v p)"
| p_read: "mm_of d = Some t \<Longrightarrow> vState (pView p t) = Some st \<Longrightarrow>
    pstep d p (p\<lparr>pSeen := insert (st, case vParts (pView p t) of None \<Rightarrow> [] | Some ps \<Rightarrow> ps) (pSeen p)\<rparr>)"
| p_restart: "pstep d p (p\<lparr>pView := (pView p)(t := recovered (pView p t))\<rparr>)"

lemma about_simps [simp]:
  "about d (insert (t, r) R) = (if dtid_of r = Some d then insert (t, r) (about d R) else about d R)"
  "(t, r) \<in> about d R \<longleftrightarrow> (t, r) \<in> R \<and> dtid_of r = Some d"
  by (auto simp: about_def)

lemma part_of_execute:
  assumes "(t, r) \<in> sent c" "\<not> once r \<or> (t, r) \<notin> executed c" "handle w r (ctab c t) = (err, tb)"
    and c': "c' = c\<lparr>ctab := (ctab c)(t := tb), executed := insert (t, r) (executed c),
              oks := (if err = None then insert (t, r) (oks c) else oks c),
              votes := record_vote t r (err = None) (ctab c t) (votes c)\<rparr>"
  shows "part_of d c' = part_of d c \<or> pstep d (part_of d c) (part_of d c')"
proof (cases "dtid_of r = Some d")
  case True
  note eff = handle_effect [OF assms(3) True]
  have "(\<lambda>s. record_vote t r (err = None) (ctab c t) (votes c) (s, d)) =
      part_vote t r (err = None) (queries_of (txid_arg r) (ctab c t)) (\<lambda>s. votes c (s, d))"
    using True by (cases r) auto
  then have "part_of d c' = exec_part t r (queries_of (txid_arg r) (ctab c t)) (err = None) (view d tb) (part_of d c)"
    using True by (auto simp: part_of_def c' exec_part_def)
  moreover have "pstep d (part_of d c) \<dots>"
    by (rule p_execute) (use True assms eff in \<open>auto simp: part_of_def\<close>)
  ultimately show ?thesis by simp
next
  case False
  have "(\<lambda>s. record_vote t r (err = None) (ctab c t) (votes c) (s, d)) = (\<lambda>s. votes c (s, d))"
    using False by (cases r) auto
  then show ?thesis using False handle_frame [OF assms(3) False] by (auto simp: part_of_def c')
qed

lemma step_refines:
  assumes "reachable c" "step c c'"
  shows "part_of d c' = part_of d c \<or> pstep d (part_of d c) (part_of d c')"
  using assms(2)
proof cases
  case (start d' ss)
  show ?thesis
  proof (cases "d' = d")
    case True
    have "pstep d (part_of d c) ((part_of d c)\<lparr>pPlan := Some ss\<rparr>)"
      by (rule p_start) (use start True in \<open>auto simp: part_of_def\<close>)
    then show ?thesis using True by (simp add: start part_of_def)
  qed (simp add: start part_of_def)
next
  case (send r t)
  show ?thesis
  proof (cases "dtid_of r = Some d")
    case True
    then have "pstep d (part_of d c) ((part_of d c)\<lparr>pSent := insert (t, r) (pSent (part_of d c))\<rparr>)"
      using send(2) by (intro p_send) (simp_all add: request_part_def)
    then show ?thesis using True by (simp add: send part_of_def)
  qed (simp add: send part_of_def)
next
  case (execute t r w err tb)
  show ?thesis by (rule part_of_execute [OF execute(2-4,1)])
next
  case (read d' t w md)
  show ?thesis
  proof (cases "d' = d")
    case True
    have "vState (view d (ctab c t)) = Some (State md)"
      "Participants md = (case vParts (view d (ctab c t)) of None \<Rightarrow> [] | Some ps \<Rightarrow> ps)"
      using ReadTransaction_Inr [OF read(3)] read(4) True by auto
    then have "pstep d (part_of d c) ((part_of d c)\<lparr>pSeen := insert (State md, Participants md) (pSeen (part_of d c))\<rparr>)"
      using p_read [of d t "part_of d c" "State md"] read(2) True by (simp add: part_of_def)
    moreover have "{(st, ps). (d, st, ps) \<in> insert (d, State md, Participants md) (seen c)} =
        insert (State md, Participants md) {(st, ps). (d, st, ps) \<in> seen c}" by auto
    ultimately show ?thesis using True by (simp add: read part_of_def)
  next
    case False
    then have "{(st, ps). (d, st, ps) \<in> insert (d', State md, Participants md) (seen c)} = {(st, ps). (d, st, ps) \<in> seen c}" by auto
    then show ?thesis by (simp add: read part_of_def)
  qed
next
  case (restart now o1 w t tb)
  have "view d tb = recovered (view d (ctab c t))"
    by (rule restart_recovered [OF restart(2,3) reachable_redo_distinct reachable_logged]) (rule assms)+
  then have "part_of d c' = (part_of d c)\<lparr>pView := (pView (part_of d c))(t := recovered (pView (part_of d c) t))\<rparr>"
    by (auto simp: restart part_of_def)
  then show ?thesis using p_restart [of d "part_of d c" t] by simp
qed (auto simp: part_of_def)

subsection \<open>The invariant\<close>

text \<open>
  Of a transaction of the sessions \<open>m # ss\<close>: \<open>m\<close> is the session of the metadata manager, whose tablet commits first. The
  transaction is settled when it can no longer be committed.
\<close>

abbreviation mm_view :: "part \<Rightarrow> ShardSession \<Rightarrow> view" where
  "mm_view p m \<equiv> pView p (key m)"

definition settled :: "string \<Rightarrow> part \<Rightarrow> ShardSession \<Rightarrow> ShardSession list \<Rightarrow> bool" where
  "settled d p m ss \<longleftrightarrow>
     (key m, RCreate d (map key ss)) \<in> pExecuted p \<and> vDone (mm_view p m) = [] \<and>
     (vState (mm_view p m) = None \<or> vState (mm_view p m) = Some ROLLBACK)"

text \<open>Why a request was sent.\<close>

fun sent_why :: "string \<Rightarrow> part \<Rightarrow> ShardSession \<Rightarrow> ShardSession list \<Rightarrow> shard \<Rightarrow> request \<Rightarrow> bool" where
  "sent_why d p m ss t (RCreate d' ps) \<longleftrightarrow> t = key m \<and> ps = map key ss"
| "sent_why d p m ss t (RPrepare j d') \<longleftrightarrow> (\<exists>s \<in> set ss. t = key s \<and> j = TransactionId s)"
| "sent_why d p m ss t (RStartCommit j d') \<longleftrightarrow>
     t = key m \<and> j = TransactionId m \<and> (\<forall>s \<in> set ss. (key s, RPrepare (TransactionId s) d) \<in> pOks p)"
| "sent_why d p m ss t (RCommitPrepared d') \<longleftrightarrow> t \<in> key ` set ss \<and> vDone (mm_view p m) \<noteq> []"
| "sent_why d p m ss t (RSetRollback d' j) \<longleftrightarrow> t = key m \<and> (key m, RCreate d (map key ss)) \<in> pExecuted p"
| "sent_why d p m ss t (RRollbackPrepared d' j) \<longleftrightarrow> t \<in> key ` set ss \<and> settled d p m ss"
| "sent_why d p m ss t (RConclude d') \<longleftrightarrow>
     t = key m \<and> (settled d p m ss \<or> vDone (mm_view p m) \<noteq> [] \<and> (\<forall>s \<in> set ss. (key s, RCommitPrepared d) \<in> pOks p))"
| "sent_why d p m ss t _ \<longleftrightarrow> True"

text \<open>What the tablet of the metadata manager knows.\<close>

definition mm_ok :: "string \<Rightarrow> part \<Rightarrow> ShardSession \<Rightarrow> ShardSession list \<Rightarrow> bool" where
  "mm_ok d p m ss \<longleftrightarrow>
     ((key m, RCreate d (map key ss)) \<notin> pExecuted p \<longrightarrow> vState (mm_view p m) = None \<and> vDone (mm_view p m) = [] \<and> pSeen p = {}) \<and>
     (vState (mm_view p m) = None \<or> vParts (mm_view p m) = Some (map key ss) \<and> vState (mm_view p m) \<noteq> Some UNKNOWN) \<and>
     (vState (mm_view p m) = Some COMMIT \<longrightarrow> vDone (mm_view p m) \<noteq> []) \<and>
     (vDone (mm_view p m) \<noteq> [] \<longrightarrow>
        (vState (mm_view p m) = None \<or> vState (mm_view p m) = Some COMMIT) \<and>
        (key m, RStartCommit (TransactionId m) d) \<in> pExecuted p) \<and>
     length (vDone (mm_view p m)) \<le> 1 \<and>
     ((key m, RStartCommit (TransactionId m) d) \<in> pOks p \<longrightarrow> vDone (mm_view p m) \<noteq> []) \<and>
     (vDone (mm_view p m) \<noteq> [] \<and> vState (mm_view p m) = None \<longrightarrow> (\<forall>s \<in> set ss. (key s, RCommitPrepared d) \<in> pOks p)) \<and>
     (\<forall>st ps. (st, ps) \<in> pSeen p \<longrightarrow>
        ps = map key ss \<and> (st = COMMIT \<longrightarrow> vDone (mm_view p m) \<noteq> []) \<and> (st = ROLLBACK \<longrightarrow> settled d p m ss)) \<and>
     (\<forall>j. (key m, RSetRollback d j) \<in> pOks p \<longrightarrow> settled d p m ss)"

text \<open>What became of a vote: the statements are committed, or the tablet can still commit them.\<close>

definition kept :: "view \<Rightarrow> string list \<Rightarrow> bool" where
  "kept v q \<longleftrightarrow>
     q = [] \<and> vDone v = [] \<and> vConn v = None \<and> vRedo v = None \<and> vStmts v = None \<or>
     q \<noteq> [] \<and> vDone v = [q] \<or>
     q \<noteq> [] \<and> vDone v = [] \<and> vRedo v \<noteq> None \<and> vStmts v = Some q \<and> (vConn v = Some q \<or> vReserved v)"

definition shard_ok :: "string \<Rightarrow> part \<Rightarrow> ShardSession \<Rightarrow> ShardSession list \<Rightarrow> ShardSession \<Rightarrow> bool" where
  "shard_ok d p m ss s \<longleftrightarrow>
     (vDone (pView p (key s)) \<noteq> [] \<longrightarrow>
        vDone (mm_view p m) \<noteq> [] \<and> vConn (pView p (key s)) = None \<and> vRedo (pView p (key s)) = None \<and> vStmts (pView p (key s)) = None) \<and>
     length (vDone (pView p (key s))) \<le> 1 \<and>
     ((key s, RPrepare (TransactionId s) d) \<notin> pExecuted p \<longrightarrow>
        vDone (pView p (key s)) = [] \<and> vConn (pView p (key s)) = None \<and> vRedo (pView p (key s)) = None \<and>
        vStmts (pView p (key s)) = None \<and> pVotes p (key s) = None) \<and>
     ((key s, RPrepare (TransactionId s) d) \<in> pOks p \<longrightarrow> pVotes p (key s) \<noteq> None) \<and>
     (\<forall>q. pVotes p (key s) = Some q \<longrightarrow> settled d p m ss \<or> kept (pView p (key s)) q) \<and>
     ((key s, RCommitPrepared d) \<in> pOks p \<longrightarrow>
        (\<exists>q. pVotes p (key s) = Some q \<and> vDone (pView p (key s)) = (if q = [] then [] else [q])))"

definition inv_run :: "string \<Rightarrow> part \<Rightarrow> ShardSession \<Rightarrow> ShardSession list \<Rightarrow> bool" where
  "inv_run d p m ss \<longleftrightarrow>
     valid_plan d (m # ss) \<and> pExecuted p \<subseteq> pSent p \<and> pOks p \<subseteq> pExecuted p \<and>
     (\<forall>t r. (t, r) \<in> pSent p \<longrightarrow> dtid_of r = Some d \<and> sent_why d p m ss t r) \<and>
     mm_ok d p m ss \<and> (\<forall>s \<in> set ss. shard_ok d p m ss s)"

definition inv :: "string \<Rightarrow> part \<Rightarrow> bool" where
  "inv d p \<longleftrightarrow>
     (case pPlan p of
        None \<Rightarrow> p = \<lparr>pPlan = None, pView = (\<lambda>_. blank), pSent = {}, pExecuted = {}, pOks = {}, pSeen = {}, pVotes = (\<lambda>_. None)\<rparr>
      | Some [] \<Rightarrow> False
      | Some (m # ss) \<Rightarrow> inv_run d p m ss)"

text \<open>Nothing of what the requests rest on is lost.\<close>

definition grows :: "string \<Rightarrow> part \<Rightarrow> part \<Rightarrow> ShardSession \<Rightarrow> ShardSession list \<Rightarrow> bool" where
  "grows d p p' m ss \<longleftrightarrow>
     pOks p \<subseteq> pOks p' \<and> pExecuted p \<subseteq> pExecuted p' \<and> (settled d p m ss \<longrightarrow> settled d p' m ss) \<and>
     (vDone (mm_view p m) \<noteq> [] \<longrightarrow> vDone (mm_view p' m) \<noteq> [])"

lemma sent_why_grows: "grows d p p' m ss \<Longrightarrow> sent_why d p m ss t r \<Longrightarrow> sent_why d p' m ss t r"
  by (cases r) (auto simp: grows_def)

lemma shard_ok_frame:
  assumes "shard_ok d p m ss s" "grows d p p' m ss" "pView p' (key s) = pView p (key s)" "pVotes p' (key s) = pVotes p (key s)"
    and "\<And>r. (key s, r) \<in> pExecuted p' \<longleftrightarrow> (key s, r) \<in> pExecuted p" "\<And>r. (key s, r) \<in> pOks p' \<longleftrightarrow> (key s, r) \<in> pOks p"
  shows "shard_ok d p' m ss s"
  using assms(1,2) unfolding shard_ok_def assms(3-6) grows_def by blast

lemma mm_ok_frame:
  assumes "mm_ok d p m ss" "grows d p p' m ss" "pSeen p' = pSeen p"
    and "vState (mm_view p' m) = vState (mm_view p m)" "vDone (mm_view p' m) = vDone (mm_view p m)" "vParts (mm_view p' m) = vParts (mm_view p m)"
    and "\<And>r. (key m, r) \<in> pExecuted p' \<longleftrightarrow> (key m, r) \<in> pExecuted p" "\<And>r. (key m, r) \<in> pOks p' \<longleftrightarrow> (key m, r) \<in> pOks p"
  shows "mm_ok d p' m ss"
  using assms(1,2) unfolding mm_ok_def assms(3-8) grows_def by blast

lemma key_neq: "valid_plan d (m # ss) \<Longrightarrow> s \<in> set ss \<Longrightarrow> key s \<noteq> key m"
  unfolding valid_plan_def by (metis distinct.simps(2) imageI list.set_map list.simps(9))

lemma key_inj: "valid_plan d (m # ss) \<Longrightarrow> s \<in> set ss \<Longrightarrow> s' \<in> set ss \<Longrightarrow> key s = key s' \<Longrightarrow> s = s'"
  by (auto simp: valid_plan_def distinct_map inj_on_def)

subsection \<open>The invariant is kept\<close>

lemma pSent_irrelevant [simp]:
  "settled d (p\<lparr>pSent := S\<rparr>) m ss = settled d p m ss"
  "mm_ok d (p\<lparr>pSent := S\<rparr>) m ss = mm_ok d p m ss"
  "shard_ok d (p\<lparr>pSent := S\<rparr>) m ss s = shard_ok d p m ss s"
  by (simp_all add: settled_def mm_ok_def shard_ok_def)

lemma sent_why_pSent [simp]: "sent_why d (p\<lparr>pSent := S\<rparr>) m ss t r = sent_why d p m ss t r"
  by (cases r) simp_all

lemma rolled_settled:
  assumes "inv_run d p m ss" "rolled d p ps"
  shows "settled d p m ss" "ps = map key ss"
proof -
  have mm: "mm_ok d p m ss" using assms(1) by (simp add: inv_run_def)
  have "t = key m" if "(t, RSetRollback d j) \<in> pOks p" for t j
    using that assms(1) unfolding inv_run_def by fastforce
  then show "settled d p m ss" "ps = map key ss" using assms(2) mm unfolding rolled_def mm_ok_def by blast+
qed

lemma allowed_why:
  assumes "inv_run d p m ss" "pPlan p = Some (m # ss)" "allowed p t r" "dtid_of r = Some d"
  shows "sent_why d p m ss t r"
proof -
  have mm: "mm_ok d p m ss" and mm_of: "mm_of d = Some (key m)" using assms(1) by (auto simp: inv_run_def valid_plan_def)
  have seen_created: "(key m, RCreate d (map key ss)) \<in> pExecuted p" if "(st, ps) \<in> pSeen p" for st ps
    using that mm unfolding mm_ok_def by blast
  have seen_commit: "ps = map key ss \<and> vDone (mm_view p m) \<noteq> []" if "(COMMIT, ps) \<in> pSeen p" for ps
    using that mm unfolding mm_ok_def by blast
  have started: "vDone (mm_view p m) \<noteq> []" if "(key m, RStartCommit (TransactionId m) d) \<in> pOks p"
    using that mm unfolding mm_ok_def by blast
  show ?thesis
  proof (cases r)
    case (RCommitPrepared d')
    then show ?thesis using assms(2-4) started by (auto dest: seen_commit)
  next
    case (RSetRollback d' j)
    then show ?thesis using assms(3,4) mm_of seen_created by auto
  next
    case (RRollbackPrepared d' j)
    then obtain ps where "rolled d p ps" "t \<in> set ps" using assms(3,4) by auto
    then show ?thesis using rolled_settled [OF assms(1) \<open>rolled d p ps\<close>] RRollbackPrepared by simp
  next
    case (RConclude d')
    then consider "t = key m" "vDone (mm_view p m) \<noteq> []" "\<forall>s \<in> set ss. (key s, RCommitPrepared d) \<in> pOks p"
      | ps where "rolled d p ps" "mm_of d = Some t"
      using assms(2-4) started seen_commit mm_of by fastforce
    then show ?thesis
    proof cases
      case 2
      then show ?thesis using rolled_settled [OF assms(1) 2(1)] RConclude mm_of by simp
    qed (simp add: RConclude)
  qed (use assms in auto)
qed

lemma inv_send:
  assumes "inv_run d p m ss" "pPlan p = Some (m # ss)" "allowed p t r" "dtid_of r = Some d"
  shows "inv_run d (p\<lparr>pSent := insert (t, r) (pSent p)\<rparr>) m ss"
  using assms(1,4) allowed_why [OF assms] unfolding inv_run_def by auto

lemma inv_execute:
  assumes "inv_run d p m ss" "(t, r) \<in> pSent p" "p' = exec_part t r qs ok v p"
    and "grows d p p' m ss" "mm_ok d p' m ss" "\<And>s. s \<in> set ss \<Longrightarrow> shard_ok d p' m ss s"
  shows "inv_run d p' m ss"
  using assms(1,2,5,6) sent_why_grows [OF assms(4)] unfolding inv_run_def by (auto simp: assms(3))

text \<open>A request to one tablet leaves what is known of the others.\<close>

lemma shard_ok_elsewhere:
  assumes "shard_ok d p m ss s" "grows d p p' m ss" "p' = exec_part t r qs ok v p" "key s \<noteq> t"
  shows "shard_ok d p' m ss s"
proof (rule shard_ok_frame [OF assms(1,2)])
  show "pVotes p' (key s) = pVotes p (key s)" using assms(4) by (cases r) (simp_all add: assms(3))
qed (use assms(4) in \<open>simp_all add: assms(3)\<close>)

lemma mm_ok_elsewhere:
  assumes "mm_ok d p m ss" "grows d p p' m ss" "p' = exec_part t r qs ok v p" "key m \<noteq> t"
  shows "mm_ok d p' m ss"
  by (rule mm_ok_frame [OF assms(1,2)]) (use assms(4) in \<open>simp_all add: assms(3)\<close>)

text \<open>A request to a shard that leaves the decision alone.\<close>

lemma grows_elsewhere:
  assumes "p' = exec_part t r qs ok v p" "key m \<noteq> t"
  shows "grows d p p' m ss"
  using assms(2) by (auto simp: grows_def settled_def assms(1))

lemma inv_execute_shard:
  assumes "inv_run d p m ss" "(key s, r) \<in> pSent p" "s \<in> set ss" "p' = exec_part (key s) r qs ok v p" "shard_ok d p' m ss s"
  shows "inv_run d p' m ss"
proof (rule inv_execute [OF assms(1,2,4)])
  have plan: "valid_plan d (m # ss)" and mm: "mm_ok d p m ss" and sh: "\<And>s. s \<in> set ss \<Longrightarrow> shard_ok d p m ss s"
    using assms(1) by (auto simp: inv_run_def)
  have neq: "key m \<noteq> key s" using key_neq [OF plan assms(3)] by simp
  show gr: "grows d p p' m ss" by (rule grows_elsewhere [OF assms(4) neq])
  show "mm_ok d p' m ss" by (rule mm_ok_elsewhere [OF mm gr assms(4) neq])
  show "shard_ok d p' m ss s'" if "s' \<in> set ss" for s'
  proof (cases "key s' = key s")
    case True
    then show ?thesis using key_inj [OF plan that assms(3)] assms(5) by simp
  next
    case False
    then show ?thesis by (rule shard_ok_elsewhere [OF sh [OF that] gr assms(4)])
  qed
qed

lemma inv_runD:
  assumes "inv_run d p m ss"
  shows "valid_plan d (m # ss)" "x \<in> pExecuted p \<Longrightarrow> x \<in> pSent p" "x \<in> pOks p \<Longrightarrow> x \<in> pExecuted p"
    "(t, r) \<in> pSent p \<Longrightarrow> sent_why d p m ss t r" "mm_ok d p m ss" "s \<in> set ss \<Longrightarrow> shard_ok d p m ss s"
  using assms unfolding inv_run_def by blast+

lemma inv_prepare:
  assumes inv: "inv_run d p m ss" and sent: "(t, RPrepare j d) \<in> pSent p" and fresh: "(t, RPrepare j d) \<notin> pExecuted p"
    and eff: "effect (RPrepare j d) qs ok (pView p t) v"
  shows "inv_run d (exec_part t (RPrepare j d) qs ok v p) m ss"
proof -
  obtain s where s: "s \<in> set ss" "t = key s" "j = TransactionId s"
    using inv_runD(4) [OF inv sent] by auto
  have "shard_ok d p m ss s" using inv s(1) by (simp add: inv_run_def)
  then have "vDone (pView p t) = []" "vConn (pView p t) = None" "vRedo (pView p t) = None" "vStmts (pView p t) = None"
    "(key s, RCommitPrepared d) \<notin> pOks p" "pVotes p (key s) = None"
    using fresh inv unfolding shard_ok_def inv_run_def s(2,3) by auto
  moreover from this have "(key s, RPrepare (TransactionId s) d) \<notin> pOks p" using fresh inv by (auto simp: inv_run_def s)
  ultimately have "shard_ok d (exec_part t (RPrepare j d) qs ok v p) m ss s"
    using eff by (auto simp: shard_ok_def kept_def s)
  then show ?thesis using inv_execute_shard [OF inv _ s(1) _] sent by (simp add: s(2))
qed

lemma voted:
  assumes "inv_run d p m ss" "vDone (mm_view p m) \<noteq> []" "s \<in> set ss"
  obtains q where "pVotes p (key s) = Some q" "kept (pView p (key s)) q"
proof -
  have "(key m, RStartCommit (TransactionId m) d) \<in> pExecuted p"
    using inv_runD(5) [OF assms(1)] assms(2) by (simp add: mm_ok_def)
  from inv_runD(4) [OF assms(1) inv_runD(2) [OF assms(1) this]]
  have "(key s, RPrepare (TransactionId s) d) \<in> pOks p" using assms(3) by simp
  moreover have "\<not> settled d p m ss" using assms(2) by (simp add: settled_def)
  ultimately show thesis using that inv_runD(6) [OF assms(1,3)] by (auto simp: shard_ok_def)
qed

lemma commit_prepared_kept:
  assumes eff: "effect (RCommitPrepared d) qs ok v v'" and kept: "kept v q"
    and empty: "vDone v \<noteq> [] \<Longrightarrow> vConn v = None \<and> vRedo v = None \<and> vStmts v = None"
  shows "kept v' q \<and> (ok \<or> vDone v = (if q = [] then [] else [q]) \<longrightarrow> vDone v' = (if q = [] then [] else [q])) \<and>
    (vDone v' \<noteq> [] \<longrightarrow> vConn v' = None \<and> vRedo v' = None \<and> vStmts v' = None) \<and> length (vDone v') \<le> 1"
proof (cases "vConn v")
  case None
  then have v': "v' = v" "ok \<Longrightarrow> \<not> vReserved v" using eff by auto
  show ?thesis using kept empty v'(2) None unfolding v'(1) kept_def by auto
next
  case (Some q')
  then have q: "vDone v = []" "vRedo v \<noteq> None" "vStmts v = Some q" "\<not> vReserved v \<Longrightarrow> q' = q"
    using kept empty unfolding kept_def by auto
  from eff Some consider "v' = v" "\<not> ok"
    | n where "\<not> ok" "n \<noteq> None" "v' = v\<lparr>vConn := None, vReserved := True, vRedo := n\<rparr>"
    | "\<not> vReserved v" "v' = v\<lparr>vConn := None, vReserved := \<not> ok, vRedo := None, vStmts := None, vDone := vDone v @ [q']\<rparr>"
    using q(2) by auto
  then show ?thesis by cases (use kept q Some in \<open>auto simp: kept_def\<close>)
qed

lemma inv_commit_prepared:
  assumes inv: "inv_run d p m ss" and sent: "(t, RCommitPrepared d) \<in> pSent p"
    and eff: "effect (RCommitPrepared d) qs ok (pView p t) v"
  shows "inv_run d (exec_part t (RCommitPrepared d) qs ok v p) m ss"
proof -
  obtain s where s: "s \<in> set ss" "t = key s" and fin: "vDone (mm_view p m) \<noteq> []"
    using inv_runD(4) [OF inv sent] by auto
  obtain q where q: "pVotes p (key s) = Some q" "kept (pView p (key s)) q" by (rule voted [OF inv fin s(1)])
  have neq: "key m \<noteq> key s" using key_neq [of d m ss s] inv s(1) by (auto simp: inv_run_def)
  have ok: "shard_ok d p m ss s" using inv s(1) by (simp add: inv_run_def)
  have gr: "grows d p (exec_part t (RCommitPrepared d) qs ok v p) m ss" by (rule grows_elsewhere) (use neq in \<open>simp_all add: s(2)\<close>)
  have "vDone (pView p t) \<noteq> [] \<Longrightarrow> vConn (pView p t) = None \<and> vRedo (pView p t) = None \<and> vStmts (pView p t) = None"
    using ok by (simp add: shard_ok_def s(2))
  from commit_prepared_kept [OF eff q(2) [folded s(2)] this]
  have "shard_ok d (exec_part t (RCommitPrepared d) qs ok v p) m ss s"
    using ok q(1) fin neq unfolding shard_ok_def by (simp add: s(2))
  then show ?thesis using inv_execute_shard [OF inv _ s(1) _] sent by (simp add: s(2))
qed

lemma inv_rollback_prepared:
  assumes inv: "inv_run d p m ss" and sent: "(t, RRollbackPrepared d j) \<in> pSent p"
    and eff: "effect (RRollbackPrepared d j) qs ok (pView p t) v"
  shows "inv_run d (exec_part t (RRollbackPrepared d j) qs ok v p) m ss"
proof -
  obtain s where s: "s \<in> set ss" "t = key s" and set: "settled d p m ss"
    using inv_runD(4) [OF inv sent] by auto
  have neq: "key m \<noteq> key s" using key_neq [of d m ss s] inv s(1) by (auto simp: inv_run_def)
  have ok: "shard_ok d p m ss s" using inv s(1) by (simp add: inv_run_def)
  have set': "settled d (exec_part t (RRollbackPrepared d j) qs ok v p) m ss" using set neq by (simp add: settled_def s(2))
  have none: "vDone (pView p (key s)) = []" using ok set by (auto simp: shard_ok_def settled_def)
  have v: "vDone v = []" "vConn (pView p (key s)) = None \<Longrightarrow> vConn v = None"
    "vRedo (pView p (key s)) = None \<Longrightarrow> vRedo v = None" "vStmts (pView p (key s)) = None \<Longrightarrow> vStmts v = None"
    using eff none unfolding s(2) by (auto split: if_splits)
  have "shard_ok d (exec_part t (RRollbackPrepared d j) qs ok v p) m ss s"
    using ok set' none v by (auto simp: shard_ok_def s(2))
  then show ?thesis using inv_execute_shard [OF inv _ s(1) _] sent by (simp add: s(2))
qed

lemma inv_execute_mm:
  assumes "inv_run d p m ss" "(key m, r) \<in> pSent p" "p' = exec_part (key m) r qs ok v p" "grows d p p' m ss" "mm_ok d p' m ss"
  shows "inv_run d p' m ss"
proof (rule inv_execute [OF assms(1-5)])
  show "shard_ok d p' m ss s" if "s \<in> set ss" for s
    by (rule shard_ok_elsewhere [OF inv_runD(6) [OF assms(1) that] assms(4,3)])
      (rule key_neq [OF inv_runD(1) [OF assms(1)] that])
qed

lemma inv_create:
  assumes inv: "inv_run d p m ss" and sent: "(t, RCreate d ps) \<in> pSent p" and fresh: "(t, RCreate d ps) \<notin> pExecuted p"
    and eff: "effect (RCreate d ps) qs ok (pView p t) v"
  shows "inv_run d (exec_part t (RCreate d ps) qs ok v p) m ss"
proof -
  have t: "t = key m" "ps = map key ss" using inv_runD(4) [OF inv sent] by simp_all
  have M: "vState (mm_view p m) = None" "vDone (mm_view p m) = []" "pSeen p = {}"
    "(key m, RStartCommit (TransactionId m) d) \<notin> pOks p"
    using inv_runD(5) [OF inv] fresh by (auto simp: mm_ok_def t)
  have noset: "(key m, RSetRollback d j) \<notin> pOks p" for j
    using inv_runD(4) [OF inv inv_runD(2) [OF inv inv_runD(3) [OF inv]], of "key m" "RSetRollback d j"] fresh by (auto simp: t)
  have v: "vDone v = []" "vState v = None \<or> vState v = Some PREPARE \<and> vParts v = Some ps" using eff M by (auto simp: t)
  show ?thesis unfolding t(1)
  proof (rule inv_execute_mm [OF inv _ refl])
    show "grows d p (exec_part (key m) (RCreate d ps) qs ok v p) m ss"
      using fresh M(2) by (auto simp: grows_def settled_def t)
    show "mm_ok d (exec_part (key m) (RCreate d ps) qs ok v p) m ss"
      using v M noset by (auto simp: mm_ok_def t)
  qed (use sent t in simp)
qed

lemma inv_start_commit:
  assumes inv: "inv_run d p m ss" and sent: "(t, RStartCommit j d) \<in> pSent p" and fresh: "(t, RStartCommit j d) \<notin> pExecuted p"
    and eff: "effect (RStartCommit j d) qs ok (pView p t) v"
  shows "inv_run d (exec_part t (RStartCommit j d) qs ok v p) m ss"
proof -
  have t: "t = key m" "j = TransactionId m" using inv_runD(4) [OF inv sent] by simp_all
  note mm = inv_runD(5) [OF inv]
  have M: "vDone (mm_view p m) = []" "(key m, RStartCommit (TransactionId m) d) \<notin> pOks p"
    using mm fresh by (auto simp: mm_ok_def t)
  define p' where "p' = exec_part (key m) (RStartCommit j d) qs ok v p"
  consider "\<not> ok" "v = mm_view p m"
    | q where "vState (mm_view p m) = Some PREPARE" "v = (mm_view p m)\<lparr>vState := Some COMMIT, vDone := [q]\<rparr>"
    using eff M(1) by (auto simp: t)
  then have "grows d p p' m ss \<and> mm_ok d p' m ss"
  proof cases
    case 1
    then have "settled d p' m ss = settled d p m ss" by (simp add: settled_def p'_def)
    then show ?thesis using 1 mm M by (simp add: grows_def mm_ok_def p'_def subset_insertI)
  next
    case 2
    then have "\<not> settled d p m ss" by (simp add: settled_def)
    then show ?thesis using 2 mm by (auto simp: grows_def mm_ok_def p'_def t)
  qed
  then show ?thesis using inv_execute_mm [OF inv _ p'_def] sent unfolding t(1) p'_def [symmetric] by blast
qed

lemma inv_set_rollback:
  assumes inv: "inv_run d p m ss" and sent: "(t, RSetRollback d j) \<in> pSent p"
    and eff: "effect (RSetRollback d j) qs ok (pView p t) v"
  shows "inv_run d (exec_part t (RSetRollback d j) qs ok v p) m ss"
proof -
  have t: "t = key m" and created: "(key m, RCreate d (map key ss)) \<in> pExecuted p" using inv_runD(4) [OF inv sent] by simp_all
  note mm = inv_runD(5) [OF inv]
  define p' where "p' = exec_part (key m) (RSetRollback d j) qs ok v p"
  consider "\<not> ok" "v = mm_view p m"
    | "vState (mm_view p m) = Some PREPARE" "v = (mm_view p m)\<lparr>vState := Some ROLLBACK\<rparr>"
    using eff by (auto simp: t)
  then have "grows d p p' m ss \<and> mm_ok d p' m ss"
  proof cases
    case 1
    then have "settled d p' m ss = settled d p m ss" by (simp add: settled_def p'_def)
    then show ?thesis using 1 mm by (simp add: grows_def mm_ok_def p'_def subset_insertI)
  next
    case 2
    then have "vDone (mm_view p m) = []" using mm by (auto simp: mm_ok_def)
    then have "settled d p' m ss" using 2 created by (simp add: settled_def p'_def)
    then show ?thesis using 2 mm by (auto simp: grows_def mm_ok_def p'_def)
  qed
  then show ?thesis using inv_execute_mm [OF inv _ p'_def] sent unfolding t p'_def [symmetric] by blast
qed

lemma inv_conclude:
  assumes inv: "inv_run d p m ss" and sent: "(t, RConclude d) \<in> pSent p"
    and eff: "effect (RConclude d) qs ok (pView p t) v"
  shows "inv_run d (exec_part t (RConclude d) qs ok v p) m ss"
proof -
  have t: "t = key m"
    and why: "settled d p m ss \<or> vDone (mm_view p m) \<noteq> [] \<and> (\<forall>s \<in> set ss. (key s, RCommitPrepared d) \<in> pOks p)"
    using inv_runD(4) [OF inv sent] by simp_all
  note mm = inv_runD(5) [OF inv]
  define p' where "p' = exec_part (key m) (RConclude d) qs ok v p"
  consider "v = mm_view p m" | "v = (mm_view p m)\<lparr>vState := None, vParts := None\<rparr>" using eff by (auto simp: t)
  then have "grows d p p' m ss \<and> mm_ok d p' m ss"
  proof cases
    case 1
    then have "settled d p' m ss = settled d p m ss" by (simp add: settled_def p'_def)
    then show ?thesis using 1 mm by (simp add: grows_def mm_ok_def p'_def subset_insertI)
  next
    case 2
    then have "settled d p m ss \<Longrightarrow> settled d p' m ss \<and> vDone (mm_view p m) = []" by (simp add: settled_def p'_def)
    then show ?thesis using 2 mm why by (auto simp: grows_def mm_ok_def p'_def)
  qed
  then show ?thesis using inv_execute_mm [OF inv _ p'_def] sent unfolding t p'_def [symmetric] by blast
qed

lemma inv_read:
  assumes inv: "inv_run d p m ss" and "mm_of d = Some t" "vState (pView p t) = Some st"
    and ps: "ps = (case vParts (pView p t) of None \<Rightarrow> [] | Some ps \<Rightarrow> ps)"
  shows "inv_run d (p\<lparr>pSeen := insert (st, ps) (pSeen p)\<rparr>) m ss"
proof -
  define p' where "p' = p\<lparr>pSeen := insert (st, ps) (pSeen p)\<rparr>"
  note mm = inv_runD(5) [OF inv]
  have t: "t = key m" using inv_runD(1) [OF inv] assms(2) by (simp add: valid_plan_def)
  have set: "settled d p' m ss = settled d p m ss" by (simp add: settled_def p'_def)
  have created: "(key m, RCreate d (map key ss)) \<in> pExecuted p" using mm assms(3) by (auto simp: mm_ok_def t)
  have new: "ps = map key ss" "st = COMMIT \<Longrightarrow> vDone (mm_view p m) \<noteq> []" "st = ROLLBACK \<Longrightarrow> settled d p m ss"
    using mm assms(3) ps created by (auto simp: mm_ok_def t settled_def)
  have "mm_ok d p' m ss" using mm new created unfolding mm_ok_def set by (simp add: p'_def)
  moreover have gr: "grows d p p' m ss" by (simp add: grows_def set) (simp add: p'_def)
  moreover have "shard_ok d p' m ss s" if "s \<in> set ss" for s
    by (rule shard_ok_frame [OF inv_runD(6) [OF inv that] gr]) (simp_all add: p'_def)
  ultimately show ?thesis using inv sent_why_grows [OF gr] unfolding p'_def [symmetric] inv_run_def by (auto simp: p'_def)
qed

lemma kept_recovered: "kept v q \<Longrightarrow> (vDone v \<noteq> [] \<Longrightarrow> vRedo v = None) \<Longrightarrow> kept (recovered v) q"
  by (auto simp: kept_def recovered_def)

lemma inv_restart:
  assumes inv: "inv_run d p m ss"
  shows "inv_run d (p\<lparr>pView := (pView p)(t := recovered (pView p t))\<rparr>) m ss"
proof -
  define p' where "p' = p\<lparr>pView := (pView p)(t := recovered (pView p t))\<rparr>"
  have same: "vState (pView p' u) = vState (pView p u)" "vDone (pView p' u) = vDone (pView p u)" "vParts (pView p' u) = vParts (pView p u)"
    "vRedo (pView p' u) = vRedo (pView p u)" "vStmts (pView p' u) = vStmts (pView p u)" for u
    by (simp_all add: p'_def recovered_def)
  have gr: "grows d p p' m ss" by (simp add: grows_def settled_def same) (simp add: p'_def)
  have "mm_ok d p' m ss" by (rule mm_ok_frame [OF inv_runD(5) [OF inv] gr]) (simp_all add: same, simp_all add: p'_def)
  moreover have "shard_ok d p' m ss s" if "s \<in> set ss" for s
  proof (cases "key s = t")
    case True
    have ok: "shard_ok d p m ss s" by (rule inv_runD(6) [OF inv that])
    have "vConn (pView p' (key s)) = None" if "vRedo (pView p (key s)) = None" using that True by (simp add: p'_def recovered_def)
    moreover have "kept (pView p' (key s)) q" if "kept (pView p (key s)) q" for q
      using kept_recovered [OF that] ok True by (simp add: shard_ok_def p'_def)
    moreover have "settled d p' m ss = settled d p m ss" by (simp add: settled_def same) (simp add: p'_def)
    moreover have "pExecuted p' = pExecuted p" "pOks p' = pOks p" "pVotes p' = pVotes p" by (simp_all add: p'_def)
    ultimately show ?thesis using ok unfolding shard_ok_def same by auto
  next
    case False
    show ?thesis by (rule shard_ok_frame [OF inv_runD(6) [OF inv that] gr]) (simp_all add: p'_def False)
  qed
  ultimately show ?thesis using inv sent_why_grows [OF gr] unfolding p'_def [symmetric] inv_run_def by (auto simp: p'_def)
qed

lemma inv_start:
  assumes "valid_plan d (m # ss)"
    and "p = \<lparr>pPlan = None, pView = (\<lambda>_. blank), pSent = {}, pExecuted = {}, pOks = {}, pSeen = {}, pVotes = (\<lambda>_. None)\<rparr>"
  shows "inv_run d (p\<lparr>pPlan := Some (m # ss)\<rparr>) m ss"
  using assms by (simp add: inv_run_def mm_ok_def shard_ok_def blank_def)

lemma inv_step:
  assumes "inv d p" "pstep d p p'"
  shows "inv d p'"
proof (cases "pPlan p")
  case None
  then have p: "p = \<lparr>pPlan = None, pView = (\<lambda>_. blank), pSent = {}, pExecuted = {}, pOks = {}, pSeen = {}, pVotes = (\<lambda>_. None)\<rparr>"
    using assms(1) by (simp add: inv_def)
  from assms(2) show ?thesis
  proof cases
    case (p_start ss)
    then obtain m ss' where "ss = m # ss'" by (cases ss) (auto simp: valid_plan_def)
    then show ?thesis using inv_start [OF _ p] p_start by (simp add: inv_def)
  next
    case (p_send r t)
    then show ?thesis by (cases r) (auto simp: p rolled_def)
  next
    case (p_restart t)
    then have "p' = p" by (simp add: p recovered_def blank_def fun_upd_idem)
    then show ?thesis using assms(1) by simp
  qed (auto simp: p blank_def)
next
  case (Some l)
  then obtain m ss where plan: "pPlan p = Some (m # ss)" and inv: "inv_run d p m ss"
    using assms(1) by (cases l) (auto simp: inv_def)
  from assms(2) have "pPlan p' = Some (m # ss) \<and> inv_run d p' m ss"
  proof cases
    case (p_send r t)
    then show ?thesis using inv_send [OF inv plan] plan by simp
  next
    case (p_execute r t qs ok v)
    have "inv_run d (exec_part t r qs ok v p) m ss"
      using p_execute(2-5) inv_create [OF inv] inv_prepare [OF inv] inv_start_commit [OF inv] inv_set_rollback [OF inv]
        inv_conclude [OF inv] inv_commit_prepared [OF inv] inv_rollback_prepared [OF inv]
      by (cases r) simp_all
    then show ?thesis using plan by (simp add: p_execute)
  next
    case (p_read t st)
    then show ?thesis using inv_read [OF inv p_read(2,3) refl] plan by simp
  next
    case (p_restart t)
    then show ?thesis using inv_restart [OF inv] plan by simp
  qed (use plan in auto)
  then show ?thesis by (simp add: inv_def)
qed

lemma reachable_inv: "reachable c \<Longrightarrow> inv d (part_of d c)"
proof (induction rule: reachable.induct)
  case (init c)
  then show ?case by (simp add: initial_def inv_def part_of_def about_def fun_eq_iff del: split_paired_All)
next
  case (step c c')
  from step_refines [OF step(1,2), of d] step(3) show ?case using inv_step by auto
qed

subsection \<open>What stays\<close>

lemma step_keeps:
  assumes "step c c'"
  shows "oks c \<subseteq> oks c'" "seen c \<subseteq> seen c'" "plan c d = Some ss \<Longrightarrow> plan c' d = Some ss"
  using assms by (cases; auto)+

lemma steps_keep:
  assumes "step\<^sup>*\<^sup>* c c'"
  shows "oks c \<subseteq> oks c'" "seen c \<subseteq> seen c'" "plan c d = Some ss \<Longrightarrow> plan c' d = Some ss"
  using assms
proof (induction rule: rtranclp_induct)
  case (step b c')
  {
    case 1
    then show ?case using step step_keeps(1) [OF step(2)] by blast
  next
    case 2
    then show ?case using step step_keeps(2) [OF step(2)] by blast
  next
    case 3
    then show ?case using step step_keeps(3) [OF step(2)] by blast
  }
qed auto

lemma reachable_steps: "step\<^sup>*\<^sup>* c c' \<Longrightarrow> reachable c \<Longrightarrow> reachable c'"
  by (induction rule: rtranclp_induct) (auto intro: reachable.step)

lemma allowed_steps:
  assumes "step\<^sup>*\<^sup>* c c'" "allowed (part_of d c) t r" "dtid_of r = Some d"
  shows "allowed (part_of d c') t r"
proof -
  have plan: "pPlan (part_of d c') = Some ss" if "pPlan (part_of d c) = Some ss" for ss
    using that steps_keep(3) [OF assms(1)] by (simp add: part_of_def)
  have oks: "x \<in> pOks (part_of d c')" if "x \<in> pOks (part_of d c)" for x
    using that steps_keep(1) [OF assms(1)] by (auto simp: part_of_def about_def)
  have seen: "x \<in> pSeen (part_of d c')" if "x \<in> pSeen (part_of d c)" for x
    using that steps_keep(2) [OF assms(1)] by (auto simp: part_of_def)
  have rolled: "rolled d (part_of d c') ps" if "rolled d (part_of d c) ps" for ps
    using that oks seen unfolding rolled_def by blast
  show ?thesis using assms(2,3)
  proof (cases r)
    case (RConclude d')
    then show ?thesis using assms(2,3) plan oks seen rolled by simp blast
  next
    case (RCommitPrepared d')
    then show ?thesis using assms(2,3) plan oks seen by simp blast
  qed (auto dest: plan oks seen rolled)
qed

text \<open>The statements a tablet has committed for a distributed transaction.\<close>

definition committed :: "cluster \<Rightarrow> shard \<Rightarrow> string \<Rightarrow> string list list" where
  "committed c t d = map snd (filter (\<lambda>e. fst e = Some d) (journal (db (ctab c t))))"

lemma committed_view: "committed c t d = vDone (view d (ctab c t))"
  by (simp add: committed_def view_def)

lemma reachable_inv_run:
  assumes "reachable c" "plan c d = Some (m # ss)"
  shows "inv_run d (part_of d c) m ss"
  using reachable_inv [OF assms(1), of d] assms(2) by (simp add: inv_def part_of_def)

lemma part_of_sel [simp]:
  "pView (part_of d c) t = view d (ctab c t)"
  "pVotes (part_of d c) t = votes c (t, d)"
  "pPlan (part_of d c) = plan c d"
  "(t, r) \<in> pOks (part_of d c) \<longleftrightarrow> (t, r) \<in> oks c \<and> dtid_of r = Some d"
  "(t, r) \<in> pSent (part_of d c) \<longleftrightarrow> (t, r) \<in> sent c \<and> dtid_of r = Some d"
  "(t, r) \<in> pExecuted (part_of d c) \<longleftrightarrow> (t, r) \<in> executed c \<and> dtid_of r = Some d"
  "(st, ps) \<in> pSeen (part_of d c) \<longleftrightarrow> (d, st, ps) \<in> seen c"
  by (auto simp: part_of_def)

text \<open>A shard that has answered \<^verbatim>\<open>CommitPrepared\<close> without an error has committed what it voted for.\<close>

lemma answered_commits:
  assumes "reachable c" "plan c d = Some (m # ss)" "s \<in> set ss" "(key s, RCommitPrepared d) \<in> oks c"
  shows "\<exists>q. votes c (key s, d) = Some q \<and> committed c (key s) d = (if q = [] then [] else [q])"
  using inv_runD(6) [OF reachable_inv_run [OF assms(1,2)] assms(3)] assms(4) by (auto simp: shard_ok_def committed_view)

lemma concluded_commits:
  assumes "reachable c" "plan c d = Some (m # ss)" "committed c (key m) d \<noteq> []" "vState (view d (ctab c (key m))) = None" "s \<in> set ss"
  shows "\<exists>q. votes c (key s, d) = Some q \<and> committed c (key s) d = (if q = [] then [] else [q])"
proof (rule answered_commits [OF assms(1,2,5)])
  show "(key s, RCommitPrepared d) \<in> oks c"
    using inv_runD(5) [OF reachable_inv_run [OF assms(1,2)]] assms(3-5) by (auto simp: mm_ok_def committed_view)
qed

subsection \<open>Any run of the cluster\<close>

text \<open>The steps as functions: an action whose condition does not hold does nothing.\<close>

datatype action =
    A_start string "ShardSession list"
  | A_send shard request
  | A_execute shard request faults
  | A_read string faults
  | A_restart shard int outcome "nat \<Rightarrow> faults"
  | A_begin shard outcome
  | A_statement shard int string

definition executes :: "faults \<Rightarrow> shard \<Rightarrow> request \<Rightarrow> cluster \<Rightarrow> tx_error option \<times> cluster" where
  "executes w t r c =
     (let (err, tb) = handle w r (ctab c t) in
      (err, c\<lparr>ctab := (ctab c)(t := tb), executed := insert (t, r) (executed c),
              oks := (if err = None then insert (t, r) (oks c) else oks c),
              votes := record_vote t r (err = None) (ctab c t) (votes c)\<rparr>))"

fun act :: "action \<Rightarrow> cluster \<Rightarrow> cluster" where
  "act (A_start d ss) c = (if valid_plan d ss \<and> plan c d = None then c\<lparr>plan := (plan c)(d := Some ss)\<rparr> else c)"
| "act (A_send t r) c = (if allowed (request_part c r) t r then c\<lparr>sent := insert (t, r) (sent c)\<rparr> else c)"
| "act (A_execute t r w) c =
     (if (t, r) \<in> sent c \<and> (\<not> once r \<or> (t, r) \<notin> executed c) then snd (executes w t r c) else c)"
| "act (A_read d w) c =
     (case mm_of d of
        None \<Rightarrow> c
      | Some t \<Rightarrow>
          (case ReadTransaction w d (ctab c t) of
             Inl e \<Rightarrow> c
           | Inr md \<Rightarrow> if Dtid md = [] then c else c\<lparr>seen := insert (d, State md, Participants md) (seen c)\<rparr>))"
| "act (A_restart t now o1 w) c =
     (case restart now o1 w (ctab c t) of
        ([], tb) \<Rightarrow> if twopcEnabled (ctab c t) then c\<lparr>ctab := (ctab c)(t := tb)\<rparr> else c
      | _ \<Rightarrow> c)"
| "act (A_begin t o1) c = c\<lparr>ctab := (ctab c)(t := snd (TxPool_Begin o1 (ctab c t)))\<rparr>"
| "act (A_statement t j q) c = c\<lparr>ctab := (ctab c)(t := RecordQuery j q (ctab c t))\<rparr>"

lemma executes_step:
  assumes "(t, r) \<in> sent c" "\<not> once r \<or> (t, r) \<notin> executed c"
  shows "step c (snd (executes w t r c))"
  using step.execute [OF assms, of w] by (cases "handle w r (ctab c t)") (simp add: executes_def)

lemma act_step: "step\<^sup>*\<^sup>* c (act a c)"
proof (cases a)
  case (A_restart t now o1 w)
  obtain errs tb where r: "restart now o1 w (ctab c t) = (errs, tb)" by fastforce
  show ?thesis unfolding A_restart
    using step.restart [of now o1 w c t tb] r by (cases errs) (auto intro: r_into_rtranclp)
qed (auto intro!: r_into_rtranclp step.intros executes_step split: option.split sum.split)

lemma acts_step: "step\<^sup>*\<^sup>* c (fold act as c)"
  by (induction "as" arbitrary: c) (auto intro: act_step rtranclp_trans)

lemma step_act: "step c c' \<Longrightarrow> \<exists>a. act a c = c'"
proof (induction rule: step.induct)
  case (start d ss c)
  then show ?case by (intro exI [of _ "A_start d ss"]) simp
next
  case (send c r t)
  then show ?case by (intro exI [of _ "A_send t r"]) simp
next
  case (execute t r c w err tb)
  then show ?case by (intro exI [of _ "A_execute t r w"]) (simp add: executes_def)
next
  case (read d t w c md)
  then show ?case by (intro exI [of _ "A_read d w"]) simp
next
  case (restart now o1 w c t tb)
  then show ?case by (intro exI [of _ "A_restart t now o1 w"]) simp
next
  case (begin_tx c t o1)
  show ?case by (rule exI [of _ "A_begin t o1"]) simp
next
  case (statement c t j q)
  show ?case by (rule exI [of _ "A_statement t j q"]) simp
qed

text \<open>The conditions of the steps can be evaluated.\<close>

lemma about_code [code]: "about d R = Set.filter (\<lambda>x. dtid_of (snd x) = Some d) R"
  by (auto simp: about_def)

lemma part_of_code [code]:
  "part_of d c =
     \<lparr>pPlan = plan c d, pView = (\<lambda>t. view d (ctab c t)), pSent = about d (sent c), pExecuted = about d (executed c),
      pOks = about d (oks c), pSeen = snd ` Set.filter (\<lambda>x. fst x = d) (seen c), pVotes = (\<lambda>t. votes c (t, d))\<rparr>"
  by (force simp: part_of_def)

fun sets_rollback :: "string \<Rightarrow> request \<Rightarrow> bool" where
  "sets_rollback d (RSetRollback d' j) \<longleftrightarrow> d' = d"
| "sets_rollback d _ \<longleftrightarrow> False"

fun rolls_back :: "string \<Rightarrow> request \<Rightarrow> bool" where
  "rolls_back d (RRollbackPrepared d' j) \<longleftrightarrow> d' = d"
| "rolls_back d _ \<longleftrightarrow> False"

lemma sets_rollback_iff: "(\<exists>t j. (t, RSetRollback d j) \<in> R) \<longleftrightarrow> (\<exists>x \<in> R. sets_rollback d (snd x))"
proof -
  have "sets_rollback d r \<longleftrightarrow> (\<exists>j. r = RSetRollback d j)" for r by (cases r) auto
  then show ?thesis by (metis prod.collapse snd_conv)
qed

lemma rolls_back_iff: "(\<exists>j. (q, RRollbackPrepared d j) \<in> R) \<longleftrightarrow> (\<exists>x \<in> R. fst x = q \<and> rolls_back d (snd x))"
proof -
  have "rolls_back d r \<longleftrightarrow> (\<exists>j. r = RRollbackPrepared d j)" for r by (cases r) auto
  then show ?thesis by (metis fst_conv prod.collapse snd_conv)
qed

lemma rolled_code [code]:
  "rolled d p ps \<longleftrightarrow> (ROLLBACK, ps) \<in> pSeen p \<or> (PREPARE, ps) \<in> pSeen p \<and> (\<exists>x \<in> pOks p. sets_rollback d (snd x))"
  unfolding rolled_def sets_rollback_iff ..

lemma seen_ex: "(\<exists>ps. (st, ps) \<in> S \<and> P ps) \<longleftrightarrow> (\<exists>x \<in> S. fst x = st \<and> P (snd x))"
  by (metis fst_conv prod.collapse snd_conv)

lemma rolled_ex: "(\<exists>ps. rolled d p ps \<and> P ps) \<longleftrightarrow> (\<exists>x \<in> pSeen p. rolled d p (snd x) \<and> P (snd x))"
  by (metis rolled_def snd_conv)

lemma plan_ex: "(\<exists>m ss. l = Some (m # ss) \<and> P m ss) \<longleftrightarrow> (case l of Some (m # ss) \<Rightarrow> P m ss | _ \<Rightarrow> False)"
  by (auto split: option.split list.split)

lemma allowed_code [code]:
  "allowed p t (RCommit j) \<longleftrightarrow> True"
  "allowed p t (RRollback j) \<longleftrightarrow> True"
  "allowed p t (RCreate d ps) \<longleftrightarrow> (case pPlan p of Some (m # ss) \<Rightarrow> t = key m \<and> ps = map key ss | _ \<Rightarrow> False)"
  "allowed p t (RPrepare j d) \<longleftrightarrow>
     (case pPlan p of
        Some (m # ss) \<Rightarrow> (\<exists>s \<in> set ss. t = key s \<and> j = TransactionId s \<and> (key m, RCreate d (map key ss)) \<in> pOks p)
      | _ \<Rightarrow> False)"
  "allowed p t (RStartCommit j d) \<longleftrightarrow>
     (case pPlan p of
        Some (m # ss) \<Rightarrow> t = key m \<and> j = TransactionId m \<and> (\<forall>s \<in> set ss. (key s, RPrepare (TransactionId s) d) \<in> pOks p)
      | _ \<Rightarrow> False)"
  "allowed p t (RCommitPrepared d) \<longleftrightarrow>
     (case pPlan p of
        Some (m # ss) \<Rightarrow> (\<exists>s \<in> set ss. t = key s \<and> (key m, RStartCommit (TransactionId m) d) \<in> pOks p)
      | _ \<Rightarrow> False) \<or>
     (\<exists>x \<in> pSeen p. fst x = COMMIT \<and> t \<in> set (snd x))"
  "allowed p t (RSetRollback d j) \<longleftrightarrow> (\<exists>x \<in> pSeen p. fst x = PREPARE) \<and> mm_of d = Some t"
  "allowed p t (RRollbackPrepared d j) \<longleftrightarrow> (\<exists>x \<in> pSeen p. rolled d p (snd x) \<and> t \<in> set (snd x))"
  "allowed p t (RConclude d) \<longleftrightarrow>
     (case pPlan p of
        Some (m # ss) \<Rightarrow> t = key m \<and> (key m, RStartCommit (TransactionId m) d) \<in> pOks p \<and> (\<forall>s \<in> set ss. (key s, RCommitPrepared d) \<in> pOks p)
      | _ \<Rightarrow> False) \<or>
     (\<exists>x \<in> pSeen p. fst x = COMMIT \<and> mm_of d = Some t \<and> (\<forall>q \<in> set (snd x). (q, RCommitPrepared d) \<in> pOks p)) \<or>
     (\<exists>x \<in> pSeen p. rolled d p (snd x) \<and> mm_of d = Some t \<and> (\<forall>q \<in> set (snd x). \<exists>y \<in> pOks p. fst y = q \<and> rolls_back d (snd y)))"
  unfolding allowed.simps plan_ex seen_ex rolled_ex rolls_back_iff [symmetric] Bex_def
  using seen_ex [of PREPARE "pSeen p" "\<lambda>_. True"] by (auto split: option.split list.split)

subsection \<open>An example\<close>

definition fresh_tablet :: tablet where
  "fresh_tablet =
     \<lparr>twopcEnabled = True, activePool = [], lastID = 0, preparedPool = NewTxPreparedPool 10,
      db = \<lparr>redo_state = [], redo_statement = [], dt_state = [], dt_participant = [], journal = []\<rparr>\<rparr>"

definition idle :: cluster where
  "idle = \<lparr>ctab = (\<lambda>_. fresh_tablet), plan = (\<lambda>_. None), sent = {}, executed = {}, oks = {}, seen = {}, votes = (\<lambda>_. None)\<rparr>"

lemma initial_idle: "initial idle"
  by (simp add: initial_def idle_def fresh_tablet_def redo_distinct_def view_def blank_def NewTxPreparedPool_def)

definition session_at :: "string \<Rightarrow> ShardSession" where
  "session_at shard = \<lparr>sTarget = master (''ks'', shard), TransactionId = 1\<rparr>"

text \<open>Two shards; the second votes, the first commits, and the answer of the second's commit is lost.\<close>

definition example_run :: "action list" where
  "example_run =
     [A_begin (''ks'', ''a'') Fine, A_statement (''ks'', ''a'') 1 ''x'', A_begin (''ks'', ''b'') Fine, A_statement (''ks'', ''b'') 1 ''y'',
      A_start ''ks:a:1'' [session_at ''a'', session_at ''b''],
      A_send (''ks'', ''a'') (RCreate ''ks:a:1'' [(''ks'', ''b'')]), A_execute (''ks'', ''a'') (RCreate ''ks:a:1'' [(''ks'', ''b'')]) (\<lambda>_. Fine),
      A_send (''ks'', ''b'') (RPrepare 1 ''ks:a:1''), A_execute (''ks'', ''b'') (RPrepare 1 ''ks:a:1'') (\<lambda>_. Fine),
      A_send (''ks'', ''a'') (RStartCommit 1 ''ks:a:1''), A_execute (''ks'', ''a'') (RStartCommit 1 ''ks:a:1'') (\<lambda>_. Fine)]"

lemma parse_int_code [code]:
  "parse_int bits s =
     (case s of
        [] \<Rightarrow> None
      | c # cs \<Rightarrow>
          (let neg = (c = CHR ''-''); t = (if c = CHR ''+'' \<or> c = CHR ''-'' then cs else s) in
           if t = [] \<or> \<not> list_all is_digit t then None
           else if \<not> neg \<and> int (dec_val t) \<ge> 2 ^ (bits - 1) then None
           else if neg \<and> int (dec_val t) > 2 ^ (bits - 1) then None
           else Some (if neg then - int (dec_val t) else int (dec_val t))))"
  by (cases s) (simp_all add: parse_int_def Let_def)

text \<open>The second shard commits while its answer is lost; it restarts, and a resolver concludes the transaction.\<close>

definition example_end :: "action list" where
  "example_end =
     [A_read ''ks:a:1'' (\<lambda>_. Fine), A_send (''ks'', ''b'') (RCommitPrepared ''ks:a:1''),
      A_execute (''ks'', ''b'') (RCommitPrepared ''ks:a:1'') (\<lambda>i. if i = 1 then Lost else Fine),
      A_restart (''ks'', ''b'') 5 Fine (\<lambda>_ _. Fine), A_execute (''ks'', ''b'') (RCommitPrepared ''ks:a:1'') (\<lambda>_. Fine),
      A_send (''ks'', ''a'') (RConclude ''ks:a:1''), A_execute (''ks'', ''a'') (RConclude ''ks:a:1'') (\<lambda>_. Fine)]"

text \<open>The other decision: a resolver is faster than the coordinator.\<close>

definition example_rollback :: "action list" where
  "example_rollback =
     take 9 example_run @
     [A_read ''ks:a:1'' (\<lambda>_. Fine), A_send (''ks'', ''a'') (RStartCommit 1 ''ks:a:1''), A_send (''ks'', ''a'') (RSetRollback ''ks:a:1'' 1),
      A_execute (''ks'', ''a'') (RSetRollback ''ks:a:1'' 1) (\<lambda>_. Fine), A_execute (''ks'', ''a'') (RStartCommit 1 ''ks:a:1'') (\<lambda>_. Fine)]"

lemma acts_reachable: "reachable (fold act as idle)"
  by (rule reachable_steps [OF acts_step reachable.init [OF initial_idle]])

lemma example_state:
  "plan (fold act example_run idle) ''ks:a:1'' = Some [session_at ''a'', session_at ''b'']"
  "committed (fold act example_run idle) (''ks'', ''a'') ''ks:a:1'' = [[''x'']]"
  by code_simp+

lemma example_end_state:
  "plan (fold act (example_run @ example_end) idle) ''ks:a:1'' = Some [session_at ''a'', session_at ''b'']"
  "committed (fold act (example_run @ example_end) idle) (''ks'', ''a'') ''ks:a:1'' = [[''x'']]"
  "map_of (dt_state (db (ctab (fold act (example_run @ example_end) idle) (''ks'', ''a'')))) ''ks:a:1'' = None"
  "votes (fold act (example_run @ example_end) idle) ((''ks'', ''b''), ''ks:a:1'') = Some [''y'']"
  by code_simp+

lemma example_rollback_state:
  "plan (fold act example_rollback idle) ''ks:a:1'' = Some [session_at ''a'', session_at ''b'']"
  "((''ks'', ''a''), RSetRollback ''ks:a:1'' 1) \<in> oks (fold act example_rollback idle)"
  by code_simp+

lemma key_session_at: "key (session_at sh) = (''ks'', sh)"
  by (simp add: session_at_def key_def master_def)

subsection \<open>Properties\<close>

text \<open>The tablet has the statements in its redo log, and the transaction is prepared or reserved for the retry of an operator.\<close>

definition recoverable :: "tablet \<Rightarrow> string \<Rightarrow> string list \<Rightarrow> bool" where
  "recoverable t d q \<longleftrightarrow>
     map_of (redo_statement (db t)) d = Some q \<and> map_of (redo_state (db t)) d \<noteq> None \<and>
     (map_option Queries (map_of (pp_conns (preparedPool t)) d) = Some q \<or> map_of (pp_reserved (preparedPool t)) d \<noteq> None)"

text \<open>
  C1. Atomicity. In every reachable state either no shard has committed the distributed transaction, or the metadata manager has
  committed it once, and so has every other shard the statements it voted for, unless they are still in its redo log and it can commit them.
\<close>

theorem two_phase_atomic:
  assumes "reachable c" "plan c d = Some (m # ss)"
  shows "committed c (key m) d = [] \<and> (\<forall>s \<in> set ss. committed c (key s) d = []) \<or>
    (\<exists>q. committed c (key m) d = [q]) \<and>
    (\<forall>s \<in> set ss. \<exists>q. votes c (key s, d) = Some q \<and>
       (committed c (key s) d = (if q = [] then [] else [q]) \<or>
        committed c (key s) d = [] \<and> recoverable (ctab c (key s)) d q))"
proof (cases "committed c (key m) d = []")
  note inv = reachable_inv_run [OF assms]
  case True
  then have "committed c (key s) d = []" if "s \<in> set ss" for s
    using inv_runD(6) [OF inv that] by (auto simp: shard_ok_def committed_view)
  then show ?thesis using True by simp
next
  note inv = reachable_inv_run [OF assms]
  case False
  then have "\<exists>q. committed c (key m) d = [q]"
    using inv_runD(5) [OF inv] by (cases "committed c (key m) d") (auto simp: mm_ok_def committed_view)
  moreover have "\<exists>q. votes c (key s, d) = Some q \<and> (committed c (key s) d = (if q = [] then [] else [q]) \<or>
      committed c (key s) d = [] \<and> recoverable (ctab c (key s)) d q)" if s: "s \<in> set ss" for s
  proof -
    have "vDone (mm_view (part_of d c) m) \<noteq> []" using False by (simp add: committed_view)
    then obtain q where "votes c (key s, d) = Some q" "kept (view d (ctab c (key s))) q" by (rule voted [OF inv _ s]) auto
    then show ?thesis by (auto simp: kept_def recoverable_def committed_view view_def)
  qed
  ultimately show ?thesis by blast
qed

theorem two_phase_atomic_witness:
  "committed (fold act example_run idle) (''ks'', ''a'') ''ks:a:1'' = [[''x'']] \<and>
   (\<exists>q. votes (fold act example_run idle) ((''ks'', ''b''), ''ks:a:1'') = Some q \<and>
     (committed (fold act example_run idle) (''ks'', ''b'') ''ks:a:1'' = (if q = [] then [] else [q]) \<or>
      committed (fold act example_run idle) (''ks'', ''b'') ''ks:a:1'' = [] \<and>
      recoverable (ctab (fold act example_run idle) (''ks'', ''b'')) ''ks:a:1'' q))"
  using two_phase_atomic [OF acts_reachable example_state(1)] example_state(2) by (simp add: key_session_at)

text \<open>
  C19. When the metadata manager has committed a distributed transaction and has forgotten it, every shard has committed exactly the
  statements it voted for.
\<close>

theorem concluded_everywhere:
  assumes "reachable c" "plan c d = Some (m # ss)" "committed c (key m) d \<noteq> []"
    and "map_of (dt_state (db (ctab c (key m)))) d = None"
  shows "\<forall>s \<in> set ss. \<exists>q. votes c (key s, d) = Some q \<and> committed c (key s) d = (if q = [] then [] else [q])"
  using concluded_commits [OF assms(1-3)] assms(4) by (simp add: view_def)

theorem concluded_everywhere_witness:
  "committed (fold act (example_run @ example_end) idle) (''ks'', ''b'') ''ks:a:1'' = [[''y'']]"
  using concluded_everywhere [OF acts_reachable example_end_state(1)] example_end_state(2-4) by (simp add: key_session_at)

text \<open>
  C18. A rollback is final: when a coordinator was told that the transaction is set to be rolled back, then no shard has committed it,
  and none ever will, whatever requests are still on their way.
\<close>

theorem rollback_final:
  assumes "reachable c" "plan c d = Some (m # ss)" "(key m, RSetRollback d j) \<in> oks c" "step\<^sup>*\<^sup>* c c'"
  shows "\<forall>s \<in> set (m # ss). committed c' (key s) d = []"
proof -
  note c' = reachable_steps [OF assms(4,1)] steps_keep(3) [OF assms(4,2)]
  note inv = reachable_inv_run [OF c']
  have "settled d (part_of d c') m ss"
    using inv_runD(5) [OF inv] steps_keep(1) [OF assms(4)] assms(3) by (auto simp: mm_ok_def)
  then have m: "committed c' (key m) d = []" by (simp add: settled_def committed_view)
  then show ?thesis using inv_runD(6) [OF inv] by (auto simp: shard_ok_def committed_view)
qed

theorem rollback_final_witness:
  "\<forall>as. committed (fold act as (fold act example_rollback idle)) (''ks'', ''a'') ''ks:a:1'' = [] \<and>
     committed (fold act as (fold act example_rollback idle)) (''ks'', ''b'') ''ks:a:1'' = []"
  using rollback_final [OF acts_reachable example_rollback_state(1), unfolded key_session_at, OF example_rollback_state(2) acts_step]
  by (simp add: key_session_at)

text \<open>
  C40. Why the steps ask for a complete recovery: when a tablet that restarts cannot read its redo log, it serves on, and
  \<^verbatim>\<open>CommitPrepared\<close> of a transaction in the redo log answers without an error and commits nothing.
\<close>

theorem failed_recovery_answers:
  assumes "twopcEnabled t" "o1 \<noteq> Fine" "restart now o1 w t = (errs, t')"
  shows "errs = [DbError] \<and> CommitPrepared w' d t' = (None, t') \<and> db t' = db t"
  using assms
  by (auto simp: restart_def TxEngine_open_def prepareFromRedo_def ReadAllRedo_def rollbackTransactions_def rollbackPrepared_def Prep_FetchAll_def
      CommitPrepared_def FetchForCommit_def)

theorem failed_recovery_answers_witness:
  "\<exists>errs t'. restart 5 Fails (\<lambda>_ _. Fine) (ctab (fold act example_run idle) (''ks'', ''b'')) = (errs, t') \<and>
     map_of (redo_statement (db t')) ''ks:a:1'' = Some [''y''] \<and> CommitPrepared (\<lambda>_. Fine) ''ks:a:1'' t' = (None, t')"
proof -
  let ?t = "ctab (fold act example_run idle) (''ks'', ''b'')"
  obtain errs t' where r: "restart 5 Fails (\<lambda>_ _. Fine) ?t = (errs, t')" by fastforce
  have "twopcEnabled ?t" "map_of (redo_statement (db ?t)) ''ks:a:1'' = Some [''y'']" by code_simp+
  then show ?thesis using r failed_recovery_answers [OF _ _ r, of "\<lambda>_. Fine" "''ks:a:1''"] by auto
qed

end
