(* ===== verification/Tx_Conn.thy ===== *)
theory Tx_Conn
  imports Two_Phase_Commit "HOL-Library.Multiset"
begin

text \<open>
  The transactions of vtgate, \<^verbatim>\<open>src/vt/vtgate/tx_conn.go\<close>, and the transactions a scattered request begins,
  \<^verbatim>\<open>multiGoTransaction\<close> of \<^verbatim>\<open>src/vt/vtgate/scatter_conn.go\<close>. The gateway is a parameter, functions on a state \<open>'w\<close> of the
  world; the text of an error is another. The goroutines of \<^verbatim>\<open>runSessions\<close> and \<^verbatim>\<open>runTargets\<close> run one after
  the other: what they do in another order, or what others do in between, is the gateway's. Those of \<^verbatim>\<open>multiGoTransaction\<close> share the
  session; they run interleaved in any order, which a schedule gives.

  The locale \<open>two_phase_gateway\<close> says what a gateway promises about the cluster of \<^verbatim>\<open>Two_Phase_Commit\<close>; in it a commit and a resolution
  are runs of the cluster. It has two interpretations, a gateway without faults (\<open>direct\<close>) and one with any faults, any delays, and any steps of
  others in between (\<open>net\<close>).
\<close>

subsection \<open>The model\<close>

datatype txconn_error =
    Gateway tx_error
  | Aggregated "tx_error list"
  | ModeDisallowed TransactionMode TransactionMode
  | TwopcDisallowed
  | PrePostNotAllowed
  | BadDtid dtid_error
  | InvalidState TransactionState

record 'w TxConn =
  gw_request :: "Target \<Rightarrow> request \<Rightarrow> 'w \<Rightarrow> tx_error option \<times> 'w"
  gw_ReadTransaction :: "Target \<Rightarrow> string \<Rightarrow> 'w \<Rightarrow> (tx_error + TransactionMetadata) \<times> 'w"
  mode :: TransactionMode
  error_text :: "txconn_error \<Rightarrow> string"

fun AggrError :: "tx_error list \<Rightarrow> txconn_error option" where
  "AggrError [] = None"
| "AggrError [e] = Some (Gateway e)"
| "AggrError es = Some (Aggregated es)"

fun run_all :: "('a \<Rightarrow> 'w \<Rightarrow> tx_error option \<times> 'w) \<Rightarrow> 'a list \<Rightarrow> 'w \<Rightarrow> tx_error list \<times> 'w" where
  "run_all action [] w = ([], w)"
| "run_all action (s # ss) w =
     (let (err, w1) = action s w; (errs, w2) = run_all action ss w1 in (case err of None \<Rightarrow> errs | Some e \<Rightarrow> e # errs, w2))"

definition runSessions ::
  "(ShardSession \<Rightarrow> 'w \<Rightarrow> tx_error option \<times> 'w) \<Rightarrow> ShardSession list \<Rightarrow> 'w \<Rightarrow> txconn_error option \<times> 'w" where
  "runSessions action ss w = (let (errs, w1) = run_all action ss w in (AggrError errs, w1))"

definition runTargets :: "(Target \<Rightarrow> 'w \<Rightarrow> tx_error option \<times> 'w) \<Rightarrow> Target list \<Rightarrow> 'w \<Rightarrow> txconn_error option \<times> 'w" where
  "runTargets action ts w = (let (errs, w1) = run_all action ts w in (AggrError errs, w1))"

definition Rollback :: "'w TxConn \<Rightarrow> SafeSession \<Rightarrow> 'w \<Rightarrow> txconn_error option \<times> SafeSession \<times> 'w" where
  "Rollback txc session w =
     (if \<not> sInTransaction session then (None, session, w)
      else
        (let allsessions = PreSessions session @ ShardSessions session @ PostSessions session;
             (err, w1) = runSessions
               (\<lambda>s w. if TransactionId s = 0 then (None, w) else gw_request txc (sTarget s) (RRollback (TransactionId s)) w) allsessions w
         in (err, Session_Reset session, w1)))"

definition clear_id :: "ShardSession \<Rightarrow> ShardSession" where
  "clear_id s = s\<lparr>TransactionId := 0\<rparr>"

fun commit_shards :: "'w TxConn \<Rightarrow> ShardSession list \<Rightarrow> 'w \<Rightarrow> tx_error option \<times> ShardSession list \<times> 'w" where
  "commit_shards txc [] w = (None, [], w)"
| "commit_shards txc (s # ss) w =
     (case gw_request txc (sTarget s) (RCommit (TransactionId s)) w of
        (Some e, w1) \<Rightarrow> (Some e, clear_id s # ss, w1)
      | (None, w1) \<Rightarrow> (let (err, ss', w2) = commit_shards txc ss w1 in (err, clear_id s # ss', w2)))"

definition commitNormal :: "'w TxConn \<Rightarrow> SafeSession \<Rightarrow> 'w \<Rightarrow> txconn_error option \<times> SafeSession \<times> 'w" where
  "commitNormal txc session w =
     (let commit = (\<lambda>s. gw_request txc (sTarget s) (RCommit (TransactionId s)));
          (err, w1) = runSessions commit (PreSessions session) w;
          session1 = session\<lparr>PreSessions := map clear_id (PreSessions session)\<rparr>
      in if err \<noteq> None then (err, snd (Rollback txc session1 w1))
         else
           (let (err, ss, w2) = commit_shards txc (ShardSessions session1) w1;
                session2 = session1\<lparr>ShardSessions := ss\<rparr>
            in case err of
                 Some e \<Rightarrow> (Some (Gateway e), snd (Rollback txc session2 w2))
               | None \<Rightarrow>
                   (let (err, w3) = runSessions commit (PostSessions session2) w2;
                        session3 = session2\<lparr>PostSessions := map clear_id (PostSessions session2)\<rparr>
                    in case err of
                         None \<Rightarrow> (None, session3, w3)
                       | Some e \<Rightarrow>
                           (None, RecordWarning (''post-operation transaction had an error: '' @ error_text txc e) session3, w3))))"

definition resumeRollback :: "'w TxConn \<Rightarrow> Target \<Rightarrow> TransactionMetadata \<Rightarrow> 'w \<Rightarrow> txconn_error option \<times> 'w" where
  "resumeRollback txc target transaction w =
     (case runTargets (\<lambda>t. gw_request txc t (RRollbackPrepared (Dtid transaction) 0)) (map master (Participants transaction)) w of
        (Some e, w1) \<Rightarrow> (Some e, w1)
      | (None, w1) \<Rightarrow> (let (err, w2) = gw_request txc target (RConclude (Dtid transaction)) w1 in (map_option Gateway err, w2)))"

definition resumeCommit :: "'w TxConn \<Rightarrow> Target \<Rightarrow> TransactionMetadata \<Rightarrow> 'w \<Rightarrow> txconn_error option \<times> 'w" where
  "resumeCommit txc target transaction w =
     (case runTargets (\<lambda>t. gw_request txc t (RCommitPrepared (Dtid transaction))) (map master (Participants transaction)) w of
        (Some e, w1) \<Rightarrow> (Some e, w1)
      | (None, w1) \<Rightarrow> (let (err, w2) = gw_request txc target (RConclude (Dtid transaction)) w1 in (map_option Gateway err, w2)))"

definition Resolve :: "'w TxConn \<Rightarrow> string \<Rightarrow> 'w \<Rightarrow> txconn_error option \<times> 'w" where
  "Resolve txc dtid w =
     (case dtids_ShardSession dtid of
        Inl e \<Rightarrow> (Some (BadDtid e), w)
      | Inr mmShard \<Rightarrow>
          (case gw_ReadTransaction txc (sTarget mmShard) dtid w of
             (Inl e, w1) \<Rightarrow> (Some (Gateway e), w1)
           | (Inr transaction, w1) \<Rightarrow>
               if Dtid transaction = [] then (None, w1)
               else
                 (case State transaction of
                    PREPARE \<Rightarrow>
                      (case gw_request txc (sTarget mmShard) (RSetRollback (Dtid transaction) (TransactionId mmShard)) w1 of
                         (Some e, w2) \<Rightarrow> (Some (Gateway e), w2)
                       | (None, w2) \<Rightarrow> resumeRollback txc (sTarget mmShard) transaction w2)
                  | ROLLBACK \<Rightarrow> resumeRollback txc (sTarget mmShard) transaction w1
                  | COMMIT \<Rightarrow> resumeCommit txc (sTarget mmShard) transaction w1
                  | UNKNOWN \<Rightarrow> (Some (InvalidState UNKNOWN), w1))))"

definition commit2PC :: "'w TxConn \<Rightarrow> SafeSession \<Rightarrow> 'w \<Rightarrow> txconn_error option \<times> SafeSession \<times> 'w" where
  "commit2PC txc session w =
     (if PreSessions session \<noteq> [] \<or> PostSessions session \<noteq> [] then (Some PrePostNotAllowed, snd (Rollback txc session w))
      else
        case ShardSessions session of
          mmShard # s # rest \<Rightarrow>
            (let participants = map key (s # rest);
                 dtid = dtids_New mmShard
             in case gw_request txc (sTarget mmShard) (RCreate dtid participants) w of
                  (Some e, w1) \<Rightarrow> (Some (Gateway e), snd (Rollback txc session w1))
                | (None, w1) \<Rightarrow>
                    (case runSessions (\<lambda>s. gw_request txc (sTarget s) (RPrepare (TransactionId s) dtid)) (s # rest) w1 of
                       (Some e, w2) \<Rightarrow> (Some e, session, snd (Resolve txc dtid w2))
                     | (None, w2) \<Rightarrow>
                         (case gw_request txc (sTarget mmShard) (RStartCommit (TransactionId mmShard) dtid) w2 of
                            (Some e, w3) \<Rightarrow> (Some (Gateway e), session, w3)
                          | (None, w3) \<Rightarrow>
                              (case runSessions (\<lambda>s. gw_request txc (sTarget s) (RCommitPrepared dtid)) (s # rest) w3 of
                                 (Some e, w4) \<Rightarrow> (Some e, session, w4)
                               | (None, w4) \<Rightarrow>
                                   (let (err, w5) = gw_request txc (sTarget mmShard) (RConclude dtid) w4
                                    in (map_option Gateway err, session, w5))))))
        | _ \<Rightarrow> commitNormal txc session w)"

definition Commit :: "'w TxConn \<Rightarrow> SafeSession \<Rightarrow> 'w \<Rightarrow> txconn_error option \<times> SafeSession \<times> 'w" where
  "Commit txc session w =
     (let (err, session1, w1) =
        (if \<not> sInTransaction session then (None, session, w)
         else if TransactionMode session = TM_TWOPC \<and> mode txc \<noteq> TM_TWOPC then (Some TwopcDisallowed, snd (Rollback txc session w))
         else if TransactionMode session = TM_TWOPC \<or> TransactionMode session = TM_UNSPECIFIED \<and> mode txc = TM_TWOPC
              then commit2PC txc session w
         else commitNormal txc session w)
      in (err, Session_Reset session1, w1))"

definition TxConn_Begin :: "'w TxConn \<Rightarrow> SafeSession \<Rightarrow> 'w \<Rightarrow> txconn_error option \<times> SafeSession \<times> 'w" where
  "TxConn_Begin txc session w =
     (let (err, session1, w1) = (if sInTransaction session then Commit txc session w else (None, session, w)) in
      if err \<noteq> None then (err, session1, w1)
      else if TransactionMode session1 = TM_MULTI \<and> mode txc = TM_SINGLE
      then (Some (ModeDisallowed (TransactionMode session1) (mode txc)), session1, w1)
      else if TransactionMode session1 = TM_TWOPC \<and> mode txc \<noteq> TM_TWOPC
      then (Some (ModeDisallowed (TransactionMode session1) (mode txc)), session1, w1)
      else (None, session1\<lparr>sInTransaction := True\<rparr>, w1))"

subsection \<open>Transactions a scattered request begins\<close>

text \<open>
  The action on a shard gets the transaction to use, or is told to begin one, and returns the transaction it has begun.
  \<open>fatal\<close> holds of errors whose code is \<^verbatim>\<open>RESOURCE_EXHAUSTED\<close> or \<^verbatim>\<open>ABORTED\<close>; the errors of \<^verbatim>\<open>Append\<close> have
  others.

  The goroutine of a shard has four steps between which others may run: \<^verbatim>\<open>transactionInfo\<close> (its two looks at the session are one step, as no
  goroutine changes whether the session is in a transaction), the action, \<^verbatim>\<open>Append\<close>, and \<^verbatim>\<open>endAction\<close>. \<open>shard_pc\<close> is where it
  stands, with the values of its variables.
\<close>

datatype 'e scatter_error = ActionError 'e | AppendError session_error

type_synonym ('q, 'e, 'w) shardAction = "'q ResolvedShard \<Rightarrow> nat \<Rightarrow> bool \<Rightarrow> int \<Rightarrow> 'w \<Rightarrow> int \<times> 'e option \<times> 'w"

datatype 'e shard_pc =
    Started
  | Looked bool int
  | Acted bool int "'e option"
  | Ending "'e scatter_error option"
  | Finished

record ('e, 'w) scatter =
  pcs :: "'e shard_pc list"
  allErrors :: "'e scatter_error list"
  scSession :: SafeSession
  scWorld :: 'w

definition endAction :: "('e \<Rightarrow> bool) \<Rightarrow> 'e scatter_error option \<Rightarrow> SafeSession \<Rightarrow> 'e scatter_error list \<times> SafeSession" where
  "endAction fatal err session =
     (case err of
        None \<Rightarrow> ([], session)
      | Some (ActionError e) \<Rightarrow> ([ActionError e], if fatal e then Session_SetRollback session else session)
      | Some (AppendError e) \<Rightarrow> ([AppendError e], session))"

definition oneShard ::
  "TransactionMode \<Rightarrow> ('e \<Rightarrow> bool) \<Rightarrow> bool \<Rightarrow> ('q, 'e, 'w) shardAction \<Rightarrow> 'q ResolvedShard list \<Rightarrow> nat \<Rightarrow> ('e, 'w) scatter \<Rightarrow>
     ('e, 'w) scatter" where
  "oneShard txMode fatal notInTransaction action rss i st =
     (if length rss \<le> i then st
      else
        case pcs st ! i of
          Started \<Rightarrow>
            (let (shouldBegin, transactionID) = transactionInfo (rTarget (rss ! i)) (scSession st) notInTransaction
             in st\<lparr>pcs := (pcs st)[i := Looked shouldBegin transactionID]\<rparr>)
        | Looked shouldBegin transactionID \<Rightarrow>
            (let (transactionID', err, w) = action (rss ! i) i shouldBegin transactionID (scWorld st)
             in st\<lparr>pcs := (pcs st)[i := Acted shouldBegin transactionID' err], scWorld := w\<rparr>)
        | Acted shouldBegin transactionID err \<Rightarrow>
            if shouldBegin \<and> transactionID \<noteq> 0 then
              (let (appendErr, session) = Session_Append \<lparr>sTarget = rTarget (rss ! i), TransactionId = transactionID\<rparr> txMode (scSession st);
                   err' = (case appendErr of Some e \<Rightarrow> Some (AppendError e) | None \<Rightarrow> map_option ActionError err)
               in st\<lparr>pcs := (pcs st)[i := Ending err'], scSession := session\<rparr>)
            else st\<lparr>pcs := (pcs st)[i := Ending (map_option ActionError err)]\<rparr>
        | Ending err \<Rightarrow>
            (let (errs, session) = endAction fatal err (scSession st)
             in st\<lparr>pcs := (pcs st)[i := Finished], allErrors := allErrors st @ errs, scSession := session\<rparr>)
        | Finished \<Rightarrow> st)"

text \<open>
  A schedule is a list of shards, each of which makes a step; \<^verbatim>\<open>wg.Wait\<close> returns when all goroutines have finished, so the schedule is
  followed by enough steps of each (\<open>all_shards_finish\<close>).
\<close>

definition all_shards ::
  "TransactionMode \<Rightarrow> ('e \<Rightarrow> bool) \<Rightarrow> bool \<Rightarrow> ('q, 'e, 'w) shardAction \<Rightarrow> 'q ResolvedShard list \<Rightarrow> nat list \<Rightarrow> ('e, 'w) scatter \<Rightarrow>
     ('e, 'w) scatter" where
  "all_shards txMode fatal notInTransaction action rss sched =
     fold (oneShard txMode fatal notInTransaction action rss) (sched @ concat (replicate 4 [0..<length rss]))"

definition multiGoTransaction ::
  "'w TxConn \<Rightarrow> ('e \<Rightarrow> bool) \<Rightarrow> nat list \<Rightarrow> 'q ResolvedShard list \<Rightarrow> SafeSession \<Rightarrow> bool \<Rightarrow> ('q, 'e, 'w) shardAction \<Rightarrow> 'w \<Rightarrow>
     'e scatter_error list \<times> SafeSession \<times> 'w" where
  "multiGoTransaction txc fatal sched rss session notInTransaction action w =
     (if rss = [] then ([], session, w)
      else
        (let st = all_shards (mode txc) fatal notInTransaction action rss sched
               \<lparr>pcs = replicate (length rss) Started, allErrors = [], scSession = session, scWorld = w\<rparr>
         in if mustRollback (scSession st) then (allErrors st, snd (Rollback txc (scSession st) (scWorld st)))
            else (allErrors st, scSession st, scWorld st)))"

subsection \<open>The gateway\<close>

text \<open>
  What two-phase commit relies on: a request reaches the tablet of its target, or not, while the cluster goes on; when the gateway
  returns no error, the tablet has answered the request without one. What the gateway reads was there to be read.
\<close>

definition target_shard :: "Target \<Rightarrow> shard" where
  "target_shard t = (tkeyspace t, tshard t)"

lemma target_shard_simps [simp]: "target_shard (sTarget s) = key s" "target_shard (master sh) = sh"
  by (simp_all add: target_shard_def key_def master_def)

locale two_phase_gateway =
  fixes txc :: "'w TxConn" and cl :: "'w \<Rightarrow> cluster"
  assumes request_law: "reachable (cl w) \<Longrightarrow> allowed (request_part (cl w) r) (target_shard t) r \<Longrightarrow> gw_request txc t r w = (err, w') \<Longrightarrow>
      step\<^sup>*\<^sup>* (cl w) (cl w') \<and> (err = None \<longrightarrow> (target_shard t, r) \<in> oks (cl w'))"
    and read_law: "mm_of d = Some (target_shard t) \<Longrightarrow> gw_ReadTransaction txc t d w = (res, w') \<Longrightarrow>
      step\<^sup>*\<^sup>* (cl w) (cl w') \<and>
      (\<forall>md. res = Inr md \<longrightarrow> Dtid md = [] \<or> Dtid md = d \<and> (d, State md, Participants md) \<in> seen (cl w'))"
begin

lemma run_all_steps:
  assumes "reachable (cl w)" "\<And>x. x \<in> set xs \<Longrightarrow> dtid_of (rq x) = Some d \<and> allowed (part_of d (cl w)) (target_shard (tg x)) (rq x)"
    and "run_all (\<lambda>x. gw_request txc (tg x) (rq x)) xs w = (errs, w')"
  shows "step\<^sup>*\<^sup>* (cl w) (cl w') \<and> (errs = [] \<longrightarrow> (\<forall>x \<in> set xs. (target_shard (tg x), rq x) \<in> oks (cl w')))"
  using assms
proof (induction xs arbitrary: w errs w')
  case (Cons x xs)
  obtain err w1 where r1: "gw_request txc (tg x) (rq x) w = (err, w1)" by fastforce
  obtain errs2 w2 where r2: "run_all (\<lambda>x. gw_request txc (tg x) (rq x)) xs w1 = (errs2, w2)" by fastforce
  have res: "errs = (case err of None \<Rightarrow> errs2 | Some e \<Rightarrow> e # errs2)" "w' = w2" using Cons.prems(3) r1 r2 by auto
  have "allowed (request_part (cl w) (rq x)) (target_shard (tg x)) (rq x)"
    using Cons.prems(2) [of x] by (simp add: request_part_def)
  from request_law [OF Cons.prems(1) this r1]
  have s1: "step\<^sup>*\<^sup>* (cl w) (cl w1)" and ok1: "err = None \<Longrightarrow> (target_shard (tg x), rq x) \<in> oks (cl w1)" by auto
  have "step\<^sup>*\<^sup>* (cl w1) (cl w2) \<and> (errs2 = [] \<longrightarrow> (\<forall>x \<in> set xs. (target_shard (tg x), rq x) \<in> oks (cl w2)))"
    by (rule Cons.IH [OF reachable_steps [OF s1 Cons.prems(1)] _ r2]) (use Cons.prems(2) allowed_steps [OF s1] in auto)
  then show ?case using s1 ok1 steps_keep(1) [of "cl w1" "cl w2"] by (auto simp: res split: option.splits)
qed simp

lemma request_steps:
  assumes "reachable (cl w)" "dtid_of r = Some d" "allowed (part_of d (cl w)) (target_shard t) r" "gw_request txc t r w = (err, w')"
  shows "step\<^sup>*\<^sup>* (cl w) (cl w')" "reachable (cl w')" "err = None \<Longrightarrow> (target_shard t, r) \<in> oks (cl w')"
  using request_law [OF assms(1) _ assms(4)] assms(2,3) reachable_steps [OF _ assms(1)] by (auto simp: request_part_def)

lemma AggrError_None: "AggrError errs = None \<longleftrightarrow> errs = []"
  by (cases errs rule: AggrError.cases) simp_all

lemma runSessions_steps:
  assumes "reachable (cl w)" "\<And>s. s \<in> set ss \<Longrightarrow> dtid_of (rq s) = Some d \<and> allowed (part_of d (cl w)) (key s) (rq s)"
    and "runSessions (\<lambda>s. gw_request txc (sTarget s) (rq s)) ss w = (err, w')"
  shows "step\<^sup>*\<^sup>* (cl w) (cl w')" "reachable (cl w')" "err = None \<Longrightarrow> s \<in> set ss \<Longrightarrow> (key s, rq s) \<in> oks (cl w')"
proof -
  obtain errs where run: "run_all (\<lambda>s. gw_request txc (sTarget s) (rq s)) ss w = (errs, w')" and err: "err = AggrError errs"
    using assms(3) by (auto simp: runSessions_def split: prod.splits)
  have *: "step\<^sup>*\<^sup>* (cl w) (cl w') \<and> (errs = [] \<longrightarrow> (\<forall>s \<in> set ss. (target_shard (sTarget s), rq s) \<in> oks (cl w')))"
    by (rule run_all_steps [where d = d, OF assms(1) _ run]) (use assms(2) in simp)
  show "step\<^sup>*\<^sup>* (cl w) (cl w')" "reachable (cl w')" "err = None \<Longrightarrow> s \<in> set ss \<Longrightarrow> (key s, rq s) \<in> oks (cl w')"
    using * reachable_steps [OF _ assms(1)] by (auto simp: err AggrError_None)
qed

lemma runTargets_steps:
  assumes "reachable (cl w)" "dtid_of r = Some d" "\<And>p. p \<in> set ps \<Longrightarrow> allowed (part_of d (cl w)) p r"
    and "runTargets (\<lambda>t. gw_request txc t r) (map master ps) w = (err, w')"
  shows "step\<^sup>*\<^sup>* (cl w) (cl w')" "reachable (cl w')" "err = None \<Longrightarrow> p \<in> set ps \<Longrightarrow> (p, r) \<in> oks (cl w')"
proof -
  obtain errs where run: "run_all (\<lambda>t. gw_request txc t r) (map master ps) w = (errs, w')" and err: "err = AggrError errs"
    using assms(4) by (auto simp: runTargets_def split: prod.splits)
  have *: "step\<^sup>*\<^sup>* (cl w) (cl w') \<and> (errs = [] \<longrightarrow> (\<forall>t \<in> set (map master ps). (target_shard t, r) \<in> oks (cl w')))"
    by (rule run_all_steps [where d = d and tg = "\<lambda>t. t" and rq = "\<lambda>_. r", OF assms(1) _ run]) (use assms(2,3) in auto)
  show "step\<^sup>*\<^sup>* (cl w) (cl w')" "reachable (cl w')" "err = None \<Longrightarrow> p \<in> set ps \<Longrightarrow> (p, r) \<in> oks (cl w')"
    using * reachable_steps [OF _ assms(1)] by (auto simp: err AggrError_None)
qed

end

lemma rolled_steps: "step\<^sup>*\<^sup>* c c' \<Longrightarrow> rolled d (part_of d c) ps \<Longrightarrow> rolled d (part_of d c') ps"
  using steps_keep(1,2) [of c c'] unfolding rolled_def by (force simp: subset_iff)

lemma conclude_rolled:
  assumes "rolled d (part_of d c) ps" "mm_of d = Some t" "\<And>p. p \<in> set ps \<Longrightarrow> (p, RRollbackPrepared d 0) \<in> oks c"
  shows "allowed (part_of d c) t (RConclude d)"
  unfolding allowed.simps
  by (rule disjI2, rule disjI2, rule exI [of _ ps]) (auto simp: assms(1,2) intro!: exI [of _ 0] assms(3))

lemma conclude_commit:
  assumes "(d, COMMIT, ps) \<in> seen c" "mm_of d = Some t" "\<And>p. p \<in> set ps \<Longrightarrow> (p, RCommitPrepared d) \<in> oks c"
  shows "allowed (part_of d c) t (RConclude d)"
  unfolding allowed.simps by (rule disjI2, rule disjI1, rule exI [of _ ps]) (auto simp: assms(1,2) intro!: assms(3))

context two_phase_gateway
begin

lemma resumeRollback_steps:
  assumes "reachable (cl w)" "rolled d (part_of d (cl w)) (Participants md)" "Dtid md = d" "mm_of d = Some (target_shard t)"
    and "resumeRollback txc t md w = (err, w')"
  shows "step\<^sup>*\<^sup>* (cl w) (cl w') \<and> (err = None \<longrightarrow> (target_shard t, RConclude d) \<in> oks (cl w'))"
proof -
  obtain e1 w1 where run: "runTargets (\<lambda>t. gw_request txc t (RRollbackPrepared d 0)) (map master (Participants md)) w = (e1, w1)" by fastforce
  note s1 = runTargets_steps [where d = d, OF assms(1) _ _ run]
  have st1: "step\<^sup>*\<^sup>* (cl w) (cl w1)" by (rule s1(1)) (use assms(2) in auto)
  show ?thesis
  proof (cases e1)
    case (Some e)
    then show ?thesis using assms(3,5) run st1 by (auto simp: resumeRollback_def)
  next
    case None
    obtain e2 where r2: "gw_request txc t (RConclude d) w1 = (e2, w')" and err: "err = map_option Gateway e2"
      using assms(3,5) run None by (auto simp: resumeRollback_def split: prod.splits)
    have "(p, RRollbackPrepared d 0) \<in> oks (cl w1)" if "p \<in> set (Participants md)" for p
      using assms(2) None that by (intro s1(3)) auto
    then have "allowed (part_of d (cl w1)) (target_shard t) (RConclude d)"
      by (rule conclude_rolled [OF rolled_steps [OF st1 assms(2)] assms(4)])
    from request_steps [OF reachable_steps [OF st1 assms(1)] _ this r2] st1 show ?thesis by (auto simp: err)
  qed
qed

lemma resumeCommit_steps:
  assumes "reachable (cl w)" "(d, COMMIT, Participants md) \<in> seen (cl w)" "Dtid md = d" "mm_of d = Some (target_shard t)"
    and "resumeCommit txc t md w = (err, w')"
  shows "step\<^sup>*\<^sup>* (cl w) (cl w') \<and> (err = None \<longrightarrow> (target_shard t, RConclude d) \<in> oks (cl w'))"
proof -
  obtain e1 w1 where run: "runTargets (\<lambda>t. gw_request txc t (RCommitPrepared d)) (map master (Participants md)) w = (e1, w1)" by fastforce
  note s1 = runTargets_steps [where d = d, OF assms(1) _ _ run]
  have st1: "step\<^sup>*\<^sup>* (cl w) (cl w1)" by (rule s1(1)) (use assms(2) in auto)
  show ?thesis
  proof (cases e1)
    case (Some e)
    then show ?thesis using assms(3,5) run st1 by (auto simp: resumeCommit_def)
  next
    case None
    obtain e2 where r2: "gw_request txc t (RConclude d) w1 = (e2, w')" and err: "err = map_option Gateway e2"
      using assms(3,5) run None by (auto simp: resumeCommit_def split: prod.splits)
    have "(p, RCommitPrepared d) \<in> oks (cl w1)" if "p \<in> set (Participants md)" for p
      using assms(2) None that by (intro s1(3)) auto
    then have "allowed (part_of d (cl w1)) (target_shard t) (RConclude d)"
      using steps_keep(2) [OF st1] assms(2,4) by (intro conclude_commit) auto
    from request_steps [OF reachable_steps [OF st1 assms(1)] _ this r2] st1 show ?thesis by (auto simp: err)
  qed
qed

lemma setRollback_steps:
  assumes "reachable (cl w)" "(d, PREPARE, Participants md) \<in> seen (cl w)" "Dtid md = d" "mm_of d = Some (target_shard t)"
    and "(case gw_request txc t (RSetRollback d j) w of
        (Some e, w1) \<Rightarrow> (Some (Gateway e), w1) | (None, w1) \<Rightarrow> resumeRollback txc t md w1) = (err, w')"
  shows "step\<^sup>*\<^sup>* (cl w) (cl w')"
proof -
  obtain e1 w1 where r1: "gw_request txc t (RSetRollback d j) w = (e1, w1)" by fastforce
  have "allowed (part_of d (cl w)) (target_shard t) (RSetRollback d j)" using assms(2,4) by auto
  note s1 = request_steps [OF assms(1) _ this r1]
  show ?thesis
  proof (cases e1)
    case (Some e)
    then show ?thesis using assms(5) r1 s1(1) by simp
  next
    case None
    then have "resumeRollback txc t md w1 = (err, w')" using assms(5) r1 by simp
    moreover have "rolled d (part_of d (cl w1)) (Participants md)"
      using assms(2) steps_keep(2) [OF s1(1)] s1(3) None by (auto simp: rolled_def simp del: split_paired_Ex)
    ultimately show ?thesis using resumeRollback_steps [OF s1(2) _ assms(3,4)] s1(1) by (auto intro: rtranclp_trans)
  qed
qed

lemma Resolve_steps:
  assumes "reachable (cl w)" "Resolve txc d w = (err, w')"
  shows "step\<^sup>*\<^sup>* (cl w) (cl w')"
proof (cases "dtids_ShardSession d")
  case (Inl e)
  then show ?thesis using assms(2) by (simp add: Resolve_def)
next
  case (Inr m)
  obtain res w1 where rd: "gw_ReadTransaction txc (sTarget m) d w = (res, w1)" by fastforce
  have mm: "mm_of d = Some (target_shard (sTarget m))" using Inr by (simp add: mm_of_def)
  note law = read_law [OF mm rd]
  then have st1: "step\<^sup>*\<^sup>* (cl w) (cl w1)" by blast
  note r1 = reachable_steps [OF st1 assms(1)]
  show ?thesis
  proof (cases "\<exists>md. res = Inr md \<and> Dtid md \<noteq> []")
    case False
    then show ?thesis using assms(2) Inr rd st1 by (auto simp: Resolve_def split: sum.splits if_splits)
  next
    case True
    then obtain md where res: "res = Inr md" "Dtid md = d" "d \<noteq> []" and seen: "(d, State md, Participants md) \<in> seen (cl w1)"
      using law by auto
    have "step\<^sup>*\<^sup>* (cl w1) (cl w')"
    proof (cases "State md")
      case UNKNOWN
      then show ?thesis using assms(2) Inr rd res by (simp add: Resolve_def)
    next
      case COMMIT
      then have "resumeCommit txc (sTarget m) md w1 = (err, w')" using assms(2) Inr rd res by (simp add: Resolve_def)
      then show ?thesis using resumeCommit_steps [OF r1 _ res(2) mm] seen COMMIT by simp
    next
      case ROLLBACK
      then have "resumeRollback txc (sTarget m) md w1 = (err, w')" using assms(2) Inr rd res by (simp add: Resolve_def)
      then show ?thesis using resumeRollback_steps [OF r1 _ res(2) mm] seen ROLLBACK by (simp add: rolled_def)
    next
      case PREPARE
      then show ?thesis using setRollback_steps [OF r1 _ res(2) mm] seen assms(2) Inr rd res by (simp add: Resolve_def)
    qed
    then show ?thesis by (rule rtranclp_trans [OF st1])
  qed
qed

text \<open>
  A commit of a planned transaction is a run of the cluster; when it returns no error, the start of the commit and every
  \<^verbatim>\<open>CommitPrepared\<close> were answered without one.
\<close>

lemma Rollback_steps:
  assumes "reachable (cl w)" "Rollback txc session w = (err, session', w')"
  shows "step\<^sup>*\<^sup>* (cl w) (cl w')"
proof -
  let ?action = "\<lambda>s w. if TransactionId s = 0 then (None, w) else gw_request txc (sTarget s) (RRollback (TransactionId s)) w"
  have "step\<^sup>*\<^sup>* (cl w) (cl w2)" if "run_all ?action ss w = (errs, w2)" "reachable (cl w)" for ss errs w w2
    using that
  proof (induction ss arbitrary: w errs)
    case (Cons s ss)
    obtain e w1 where a: "?action s w = (e, w1)" by fastforce
    obtain errs2 where run: "run_all ?action ss w1 = (errs2, w2)" using Cons.prems(1) a by (auto split: prod.splits)
    have "step\<^sup>*\<^sup>* (cl w) (cl w1)"
      using a request_law [OF Cons.prems(2), of "RRollback (TransactionId s)" "sTarget s"] by (auto split: if_splits)
    then show ?case using Cons.IH [OF run] reachable_steps [OF _ Cons.prems(2)] by (meson rtranclp_trans)
  qed simp
  then show ?thesis using assms by (auto simp: Rollback_def runSessions_def Let_def split: if_splits prod.splits)
qed

lemma commit_phase:
  assumes reach: "reachable (cl w)" and plan: "plan (cl w) d = Some (m # ss)"
    and prepared: "\<And>s. s \<in> set ss \<Longrightarrow> (key s, RPrepare (TransactionId s) d) \<in> oks (cl w)"
    and run: "(case gw_request txc (sTarget m) (RStartCommit (TransactionId m) d) w of
        (Some e, w3) \<Rightarrow> (Some (Gateway e), session, w3)
      | (None, w3) \<Rightarrow>
          (case runSessions (\<lambda>s. gw_request txc (sTarget s) (RCommitPrepared d)) ss w3 of
             (Some e, w4) \<Rightarrow> (Some e, session, w4)
           | (None, w4) \<Rightarrow>
               (let (err, w5) = gw_request txc (sTarget m) (RConclude d) w4 in (map_option Gateway err, session, w5)))) = (err, session', w')"
  shows "step\<^sup>*\<^sup>* (cl w) (cl w') \<and>
    (err = None \<longrightarrow> (key m, RStartCommit (TransactionId m) d) \<in> oks (cl w') \<and> (\<forall>s \<in> set ss. (key s, RCommitPrepared d) \<in> oks (cl w')))"
proof -
  obtain e3 w3 where r3: "gw_request txc (sTarget m) (RStartCommit (TransactionId m) d) w = (e3, w3)" by fastforce
  note s3 = request_steps [OF reach _ _ r3, of d]
  have s3: "step\<^sup>*\<^sup>* (cl w) (cl w3)" "reachable (cl w3)" "e3 = None \<Longrightarrow> (key m, RStartCommit (TransactionId m) d) \<in> oks (cl w3)"
    using s3 plan prepared by auto
  show ?thesis
  proof (cases e3)
    case (Some e)
    then show ?thesis using run r3 s3(1) by auto
  next
    case None
    obtain e4 w4 where r4: "runSessions (\<lambda>s. gw_request txc (sTarget s) (RCommitPrepared d)) ss w3 = (e4, w4)" by fastforce
    have "allowed (part_of d (cl w3)) (key s) (RCommitPrepared d)" if "s \<in> set ss" for s
      using that s3(3) None steps_keep(3) [OF s3(1) plan] by auto
    note s4 = runSessions_steps [where d = d, OF s3(2) _ r4]
    have s4: "step\<^sup>*\<^sup>* (cl w3) (cl w4)" "reachable (cl w4)" "e4 = None \<Longrightarrow> \<forall>s \<in> set ss. (key s, RCommitPrepared d) \<in> oks (cl w4)"
      using s4 \<open>\<And>s. s \<in> set ss \<Longrightarrow> allowed (part_of d (cl w3)) (key s) (RCommitPrepared d)\<close> by auto
    have st: "step\<^sup>*\<^sup>* (cl w) (cl w4)" by (rule rtranclp_trans [OF s3(1) s4(1)])
    show ?thesis
    proof (cases e4)
      case (Some e)
      then show ?thesis using run r3 None r4 st by auto
    next
      case e4: None
      obtain e5 where r5: "gw_request txc (sTarget m) (RConclude d) w4 = (e5, w')" and err: "err = map_option Gateway e5"
        using run r3 None r4 e4 by (auto split: prod.splits)
      have "(key m, RStartCommit (TransactionId m) d) \<in> oks (cl w4)" using s3(3) None steps_keep(1) [OF s4(1)] by auto
      then have "allowed (part_of d (cl w4)) (target_shard (sTarget m)) (RConclude d)"
        using s4(3) e4 steps_keep(3) [OF st plan] by auto
      note s5 = request_steps [OF s4(2) _ this r5]
      show ?thesis using rtranclp_trans [OF st s5(1)] steps_keep(1) [OF s5(1)] s4(3) e4 \<open>_ \<in> oks (cl w4)\<close> by auto
    qed
  qed
qed

end

context two_phase_gateway
begin

lemma commit2PC_steps:
  assumes reach: "reachable (cl w)" and ss: "ShardSessions session = m # s # rest" and d: "d = dtids_New m"
    and plan: "plan (cl w) d = Some (ShardSessions session)"
    and run: "commit2PC txc session w = (err, session', w')"
  shows "step\<^sup>*\<^sup>* (cl w) (cl w') \<and>
    (err = None \<longrightarrow> (key m, RStartCommit (TransactionId m) d) \<in> oks (cl w') \<and>
       (\<forall>t \<in> set (s # rest). (key t, RCommitPrepared d) \<in> oks (cl w')))"
proof (cases "PreSessions session \<noteq> [] \<or> PostSessions session \<noteq> []")
  case True
  then show ?thesis
    using run Rollback_steps [OF reach] by (cases "Rollback txc session w") (auto simp: commit2PC_def)
next
  case False
  let ?ss = "s # rest"
  obtain e1 w1 where r1: "gw_request txc (sTarget m) (RCreate d (map key ?ss)) w = (e1, w1)" by fastforce
  have "allowed (part_of d (cl w)) (target_shard (sTarget m)) (RCreate d (map key ?ss))" using plan ss by simp
  note s1 = request_steps [OF reach dtid_of.simps(3) this r1]
  show ?thesis
  proof (cases e1)
    case (Some e)
    then show ?thesis
      using run False ss r1 s1 Rollback_steps [OF s1(2)] by (cases "Rollback txc session w1") (auto simp: commit2PC_def d Let_def intro: rtranclp_trans)
  next
    case e1: None
    obtain e2 w2 where r2: "runSessions (\<lambda>s. gw_request txc (sTarget s) (RPrepare (TransactionId s) d)) ?ss w1 = (e2, w2)" by fastforce
    have plan1: "plan (cl w1) d = Some (m # ?ss)" using steps_keep(3) [OF s1(1) plan] ss by simp
    have "allowed (part_of d (cl w1)) (key t) (RPrepare (TransactionId t) d)" if "t \<in> set ?ss" for t
      using that s1(3) e1 plan1 by auto
    then have s2: "step\<^sup>*\<^sup>* (cl w1) (cl w2)" "reachable (cl w2)"
      "e2 = None \<Longrightarrow> t \<in> set ?ss \<Longrightarrow> (key t, RPrepare (TransactionId t) d) \<in> oks (cl w2)" for t
      using runSessions_steps [where d = d and rq = "\<lambda>s. RPrepare (TransactionId s) d", OF s1(2) _ r2] by simp_all
    have st: "step\<^sup>*\<^sup>* (cl w) (cl w2)" by (rule rtranclp_trans [OF s1(1) s2(1)])
    show ?thesis
    proof (cases e2)
      case (Some e)
      then show ?thesis
        using run False ss r1 r2 e1 Resolve_steps [OF s2(2)] st
        by (cases "Resolve txc d w2") (auto simp: commit2PC_def d Let_def intro: rtranclp_trans)
    next
      case None
      have "step\<^sup>*\<^sup>* (cl w2) (cl w') \<and>
          (err = None \<longrightarrow> (key m, RStartCommit (TransactionId m) d) \<in> oks (cl w') \<and> (\<forall>t \<in> set ?ss. (key t, RCommitPrepared d) \<in> oks (cl w')))"
        by (rule commit_phase [where session = session and session' = session', OF s2(2) steps_keep(3) [OF s2(1) plan1] s2(3) [OF None]])
          (use run [unfolded commit2PC_def ss list.case d [symmetric]] False r1 r2 e1 None in \<open>simp_all\<close>)
      then show ?thesis using st by (auto intro: rtranclp_trans)
    qed
  qed
qed

end

text \<open>A gateway that executes every request at once, without a fault.\<close>

definition direct_request :: "Target \<Rightarrow> request \<Rightarrow> cluster \<Rightarrow> tx_error option \<times> cluster" where
  "direct_request t r c =
     (let c1 = c\<lparr>sent := insert (target_shard t, r) (sent c)\<rparr> in
      if once r \<and> (target_shard t, r) \<in> executed c then (Some Unreachable, c1)
      else executes (\<lambda>_. Fine) (target_shard t) r c1)"

definition direct_read :: "Target \<Rightarrow> string \<Rightarrow> cluster \<Rightarrow> (tx_error + TransactionMetadata) \<times> cluster" where
  "direct_read t d c = (ReadTransaction (\<lambda>_. Fine) d (ctab c (target_shard t)), act (A_read d (\<lambda>_. Fine)) c)"

definition direct :: "TransactionMode \<Rightarrow> (txconn_error \<Rightarrow> string) \<Rightarrow> cluster TxConn" where
  "direct md txt = \<lparr>gw_request = direct_request, gw_ReadTransaction = direct_read, mode = md, error_text = txt\<rparr>"

text \<open>
  A gateway on a cluster where anything can happen: before each request others act, the request may be dropped, may be executed later,
  or is executed with any faults, with or without an answer.
\<close>

datatype fate = Dropped | Late | Delivered faults bool

record world =
  wcluster :: cluster
  wfates :: "nat \<Rightarrow> action list \<times> fate"

definition net_request :: "Target \<Rightarrow> request \<Rightarrow> world \<Rightarrow> tx_error option \<times> world" where
  "net_request t r w =
     (let c = fold act (fst (wfates w 0)) (wcluster w);
          c1 = c\<lparr>sent := insert (target_shard t, r) (sent c)\<rparr>;
          next = (\<lambda>c. w\<lparr>wcluster := c, wfates := (\<lambda>i. wfates w (Suc i))\<rparr>)
      in case snd (wfates w 0) of
           Dropped \<Rightarrow> (Some Unreachable, next c)
         | Late \<Rightarrow> (Some Unreachable, next c1)
         | Delivered f answered \<Rightarrow>
             (if once r \<and> (target_shard t, r) \<in> executed c then (Some Unreachable, next c1)
              else
                (let (err, c2) = executes f (target_shard t) r c1 in (if answered then err else Some Unreachable, next c2))))"

definition net_read :: "Target \<Rightarrow> string \<Rightarrow> world \<Rightarrow> (tx_error + TransactionMetadata) \<times> world" where
  "net_read t d w =
     (let c = fold act (fst (wfates w 0)) (wcluster w);
          next = (\<lambda>c. w\<lparr>wcluster := c, wfates := (\<lambda>i. wfates w (Suc i))\<rparr>)
      in case snd (wfates w 0) of
           Delivered f True \<Rightarrow> (ReadTransaction f d (ctab c (target_shard t)), next (act (A_read d f) c))
         | _ \<Rightarrow> (Inl Unreachable, next c))"

definition net :: "TransactionMode \<Rightarrow> (txconn_error \<Rightarrow> string) \<Rightarrow> world TxConn" where
  "net md txt = \<lparr>gw_request = net_request, gw_ReadTransaction = net_read, mode = md, error_text = txt\<rparr>"

lemma allowed_acts: "allowed (request_part c r) t r \<Longrightarrow> allowed (request_part (fold act as c) r) t r"
proof (cases "dtid_of r")
  case None
  then show "allowed (request_part (fold act as c) r) t r" by (cases r) simp_all
next
  case (Some d)
  assume "allowed (request_part c r) t r"
  then show "allowed (request_part (fold act as c) r) t r"
    using Some allowed_steps [OF acts_step [of c "as"]] by (simp add: request_part_def)
qed

lemma deliver_steps:
  assumes "allowed (request_part c r) t r" "\<not> (once r \<and> (t, r) \<in> executed c)"
    and "executes f t r (c\<lparr>sent := insert (t, r) (sent c)\<rparr>) = (err, c')"
  shows "step\<^sup>*\<^sup>* c c'" "err = None \<Longrightarrow> (t, r) \<in> oks c'"
proof -
  let ?c1 = "c\<lparr>sent := insert (t, r) (sent c)\<rparr>"
  have "step c ?c1" by (rule step.send [OF assms(1)])
  moreover have "step ?c1 (snd (executes f t r ?c1))" by (rule executes_step) (use assms(2) in auto)
  ultimately show "step\<^sup>*\<^sup>* c c'" using assms(3) by (auto intro: rtranclp_trans)
  show "err = None \<Longrightarrow> (t, r) \<in> oks c'" using assms(3) by (auto simp: executes_def split: prod.splits)
qed

lemma read_steps:
  assumes "mm_of d = Some t" "ReadTransaction f d (ctab c t) = Inr md"
  shows "Dtid md = [] \<or> Dtid md = d \<and> (d, State md, Participants md) \<in> seen (act (A_read d f) c)"
  using assms ReadTransaction_Inr [OF assms(2)] by auto

interpretation direct_gw: two_phase_gateway "direct md txt" "\<lambda>c. c"
proof
  fix w w' :: cluster and r t err
  assume *: "allowed (request_part w r) (target_shard t) r" "gw_request (direct md txt) t r w = (err, w')"
  show "step\<^sup>*\<^sup>* w w' \<and> (err = None \<longrightarrow> (target_shard t, r) \<in> oks w')"
  proof (cases "once r \<and> (target_shard t, r) \<in> executed w")
    case True
    then show ?thesis using * by (auto simp: direct_def direct_request_def Let_def intro: step.send)
  next
    case False
    then have "executes (\<lambda>_. Fine) (target_shard t) r (w\<lparr>sent := insert (target_shard t, r) (sent w)\<rparr>) = (err, w')"
      using *(2) by (simp add: direct_def direct_request_def Let_def split: if_splits)
    then show ?thesis using deliver_steps [OF *(1) False] by auto
  qed
next
  fix w w' :: cluster and d t res
  assume "mm_of d = Some (target_shard t)" "gw_ReadTransaction (direct md txt) t d w = (res, w')"
  then show "step\<^sup>*\<^sup>* w w' \<and> (\<forall>md. res = Inr md \<longrightarrow> Dtid md = [] \<or> Dtid md = d \<and> (d, State md, Participants md) \<in> seen w')"
    using act_step [of w "A_read d (\<lambda>_. Fine)"] read_steps [of d "target_shard t"] by (auto simp: direct_def direct_read_def simp del: act.simps)
qed

interpretation net_gw: two_phase_gateway "net md txt" wcluster
proof
  fix w w' :: world and r t err
  assume *: "allowed (request_part (wcluster w) r) (target_shard t) r" "gw_request (net md txt) t r w = (err, w')"
  define c where "c = fold act (fst (wfates w 0)) (wcluster w)"
  let ?c1 = "c\<lparr>sent := insert (target_shard t, r) (sent c)\<rparr>"
  have st: "step\<^sup>*\<^sup>* (wcluster w) c" unfolding c_def by (rule acts_step)
  have al: "allowed (request_part c r) (target_shard t) r" unfolding c_def by (rule allowed_acts [OF *(1)])
  have s1: "step\<^sup>*\<^sup>* (wcluster w) ?c1" using st step.send [OF al] by simp
  have run: "net_request t r w = (err, w')" using *(2) by (simp add: net_def)
  show "step\<^sup>*\<^sup>* (wcluster w) (wcluster w') \<and> (err = None \<longrightarrow> (target_shard t, r) \<in> oks (wcluster w'))"
  proof (cases "\<exists>f b. snd (wfates w 0) = Delivered f b \<and> \<not> (once r \<and> (target_shard t, r) \<in> executed c)")
    case False
    then show ?thesis using run st s1 unfolding net_request_def c_def [symmetric] Let_def by (cases "snd (wfates w 0)") auto
  next
    case True
    then obtain f b where f: "snd (wfates w 0) = Delivered f b" and fresh: "\<not> (once r \<and> (target_shard t, r) \<in> executed c)" by blast
    obtain e c2 where ex: "executes f (target_shard t) r ?c1 = (e, c2)" by fastforce
    have "wcluster w' = c2" "err = (if b then e else Some Unreachable)"
      using run fresh ex unfolding net_request_def c_def [symmetric] Let_def f by (auto split: if_splits)
    then show ?thesis using deliver_steps [OF al fresh ex] st by (auto intro: rtranclp_trans)
  qed
next
  fix w w' :: world and d t res
  assume *: "mm_of d = Some (target_shard t)" "gw_ReadTransaction (net md txt) t d w = (res, w')"
  define c where "c = fold act (fst (wfates w 0)) (wcluster w)"
  have st: "step\<^sup>*\<^sup>* (wcluster w) c" unfolding c_def by (rule acts_step)
  have run: "net_read t d w = (res, w')" using *(2) by (simp add: net_def)
  show "step\<^sup>*\<^sup>* (wcluster w) (wcluster w') \<and>
      (\<forall>md. res = Inr md \<longrightarrow> Dtid md = [] \<or> Dtid md = d \<and> (d, State md, Participants md) \<in> seen (wcluster w'))"
  proof (cases "\<exists>f. snd (wfates w 0) = Delivered f True")
    case False
    then show ?thesis using run st unfolding net_read_def c_def [symmetric] Let_def by (auto split: fate.splits bool.splits)
  next
    case True
    then obtain f where f: "snd (wfates w 0) = Delivered f True" by blast
    have "wcluster w' = act (A_read d f) c" "res = ReadTransaction f d (ctab c (target_shard t))"
      using run unfolding net_read_def c_def [symmetric] Let_def f by (auto simp del: act.simps)
    then show ?thesis using read_steps [OF *(1)] act_step [of c "A_read d f"] st by (metis rtranclp_trans)
  qed
qed

subsection \<open>Requests without faults\<close>

abbreviation fine :: faults where
  "fine \<equiv> \<lambda>_. Fine"

lemma fine_SetRollback:
  assumes "twopcEnabled t" "vState (view d t) = Some PREPARE"
  shows "fst (handle fine (RSetRollback d j) t) = None"
proof -
  define t1 where "t1 = (if j \<noteq> 0 then snd (TxPool_Rollback Fine j t) else t)"
  have "view d t1 = view d t" by (simp add: t1_def)
  then have "map_of (dt_state (db t1)) d = Some PREPARE" using assms(2) by (simp add: view_def)
  then have "local_tx fine (Transition d ROLLBACK) t1 = (None, t1\<lparr>lastID := lastID t1 + 1, db := projr (Transition d ROLLBACK (db t1))\<rparr>)"
    by (intro local_tx_Fine) (simp_all add: Transition_def)
  then show ?thesis using assms(1) by (simp add: SetRollback_def t1_def)
qed

lemma fine_Conclude:
  assumes "twopcEnabled t"
  shows "fst (handle fine (RConclude d) t) = None" "vState (view d (snd (handle fine (RConclude d) t))) = None"
    "vDone (view d (snd (handle fine (RConclude d) t))) = vDone (view d t)"
  using assms by (simp_all add: ConcludeTransaction_def local_tx_Fine [OF refl, of "DeleteTransaction d"] DeleteTransaction_def view_def delete_conv')

lemma fine_CommitPrepared:
  assumes "twopcEnabled t" "\<not> vReserved (view d t)"
  shows "fst (handle fine (RCommitPrepared d) t) = None"
  using assms by (auto simp: CommitPrepared_def FetchForCommit_def view_def DeleteRedo_def LocalCommit_def Let_def split: option.split)

lemma fine_RollbackPrepared:
  assumes "twopcEnabled t" "\<not> vReserved (view d t)"
  shows "fst (handle fine (RRollbackPrepared d 0) t) = None"
    "vRedo (view d (snd (handle fine (RRollbackPrepared d 0) t))) = None \<and> vStmts (view d (snd (handle fine (RRollbackPrepared d 0) t))) = None \<and>
     vConn (view d (snd (handle fine (RRollbackPrepared d 0) t))) = None"
  using assms by (simp_all add: RollbackPrepared_def local_tx_Fine [OF refl, of "DeleteRedo d"] DeleteRedo_def FetchForRollback_def view_def delete_conv')

lemma direct_run_all:
  assumes "distinct ps" "\<not> once r" "\<And>p. p \<in> set ps \<Longrightarrow> fst (handle fine r (ctab c p)) = None"
  shows "\<exists>c'. run_all (\<lambda>t. direct_request t r) (map master ps) c = ([], c') \<and>
    (\<forall>t. ctab c' t = (if t \<in> set ps then snd (handle fine r (ctab c t)) else ctab c t))"
  using assms
proof (induction ps arbitrary: c)
  case (Cons p ps)
  obtain tb where h: "handle fine r (ctab c p) = (None, tb)" using Cons.prems(3) [of p] by (cases "handle fine r (ctab c p)") auto
  obtain c1 where d: "direct_request (master p) r c = (None, c1)" and c1: "ctab c1 = (ctab c)(p := tb)"
    using Cons.prems(2) h by (simp add: direct_request_def executes_def Let_def)
  have "fst (handle fine r (ctab c1 q)) = None" if "q \<in> set ps" for q
    using that Cons.prems(1,3) by (auto simp: c1)
  with Cons.IH [of c1] Cons.prems(1,2) obtain c' where c': "run_all (\<lambda>t. direct_request t r) (map master ps) c1 = ([], c')"
    "\<forall>t. ctab c' t = (if t \<in> set ps then snd (handle fine r (ctab c1 t)) else ctab c1 t)" by auto
  show ?case
    by (rule exI [of _ c']) (use c' d h Cons.prems(1) in \<open>auto simp: c1\<close>)
qed simp

lemma direct_runTargets:
  assumes "distinct ps" "\<not> once r" "\<And>p. p \<in> set ps \<Longrightarrow> fst (handle fine r (ctab c p)) = None"
  obtains c' where "runTargets (\<lambda>t. direct_request t r) (map master ps) c = (None, c')"
    "\<And>t. ctab c' t = (if t \<in> set ps then snd (handle fine r (ctab c t)) else ctab c t)"
  using direct_run_all [OF assms] by (auto simp: runTargets_def)

text \<open>Both ways to end a transaction reach the end, when the tablets serve and no shard has to wait for an operator.\<close>

lemma direct_conclude:
  assumes "twopcEnabled (ctab c (target_shard t))"
  obtains c' where "direct_request t (RConclude d) c = (None, c')"
    "ctab c' = (ctab c)(target_shard t := snd (handle fine (RConclude d) (ctab c (target_shard t))))"
  using fine_Conclude(1) [OF assms, of d]
  by (cases "handle fine (RConclude d) (ctab c (target_shard t))") (simp add: direct_request_def executes_def Let_def)

definition resume_request :: "bool \<Rightarrow> string \<Rightarrow> request" where
  "resume_request commit d = (if commit then RCommitPrepared d else RRollbackPrepared d 0)"

lemma direct_resume:
  assumes "distinct ps" "target_shard t \<notin> set ps" "twopcEnabled (ctab c (target_shard t))"
    and "\<And>p. p \<in> set ps \<Longrightarrow> twopcEnabled (ctab c p) \<and> \<not> vReserved (view d (ctab c p))"
    and "Dtid md = d" "Participants md = ps"
  obtains c' where "(if commit then resumeCommit (direct mo txt) t md c else resumeRollback (direct mo txt) t md c) = (None, c')"
    "\<And>p. p \<in> set ps \<Longrightarrow> ctab c' p = snd (handle fine (resume_request commit d) (ctab c p))"
    "vState (view d (ctab c' (target_shard t))) = None"
    "vDone (view d (ctab c' (target_shard t))) = vDone (view d (ctab c (target_shard t)))"
proof -
  have again: "\<not> once (resume_request commit d)" by (simp add: resume_request_def)
  have fine: "fst (handle fine (resume_request commit d) (ctab c p)) = None" if "p \<in> set ps" for p
    using assms(4) [OF that] fine_CommitPrepared fine_RollbackPrepared(1) by (simp add: resume_request_def)
  obtain c1 where run: "runTargets (\<lambda>t. direct_request t (resume_request commit d)) (map master ps) c = (None, c1)"
    and c1: "\<And>t. ctab c1 t = (if t \<in> set ps then snd (handle fine (resume_request commit d) (ctab c t)) else ctab c t)"
    using direct_runTargets [OF assms(1) again fine] by metis
  have en: "twopcEnabled (ctab c1 (target_shard t))" using assms(2,3) by (simp add: c1)
  obtain c' where concl: "direct_request t (RConclude d) c1 = (None, c')"
    and c': "ctab c' = (ctab c1)(target_shard t := snd (handle fine (RConclude d) (ctab c1 (target_shard t))))"
    by (rule direct_conclude [OF en])
  show thesis
  proof (rule that)
    show "(if commit then resumeCommit (direct mo txt) t md c else resumeRollback (direct mo txt) t md c) = (None, c')"
      using run concl assms(5,6)
      by (simp add: resumeCommit_def resumeRollback_def direct_def resume_request_def split: if_splits)
  qed (use fine_Conclude [OF en, of d] assms(2) in \<open>auto simp: c' c1\<close>)
qed

lemma SetRollback_enabled: "twopcEnabled (snd (handle w (RSetRollback d j) t)) = twopcEnabled t"
  by (auto simp: SetRollback_def local_tx_def LocalCommit_def TxPool_Rollback_def TxPool_Get_def Let_def
      split: option.split sum.split outcome.split)

lemma direct_read_state:
  assumes "reachable c" "plan c d = Some (m # ss)" "vState (view d (ctab c (key m))) = Some st" "twopcEnabled (ctab c (key m))" "key m' = key m"
  obtains c1 where "direct_read (sTarget m') d c = (Inr \<lparr>Dtid = d, State = st, Participants = map key ss\<rparr>, c1)" "ctab c1 = ctab c"
proof -
  note mm = inv_runD(5) [OF reachable_inv_run [OF assms(1,2)]]
  have "vParts (view d (ctab c (key m))) = Some (map key ss)" "st \<noteq> UNKNOWN" using mm assms(3) by (auto simp: mm_ok_def)
  then have "ReadTransaction (\<lambda>_. Fine) d (ctab c (key m)) = Inr \<lparr>Dtid = d, State = st, Participants = map key ss\<rparr>"
    using assms(3,4) by (simp add: ReadTransaction_def TwoPC_ReadTransaction_def view_def)
  moreover have "ctab (act (A_read d (\<lambda>_. Fine)) c) = ctab c" by (auto split: option.split sum.split)
  ultimately show thesis using that assms(5) by (simp add: direct_read_def del: act.simps)
qed

lemma direct_set_rollback:
  assumes "twopcEnabled (ctab c (target_shard t))" "vState (view d (ctab c (target_shard t))) = Some PREPARE"
  obtains c' tb where "direct_request t (RSetRollback d j) c = (None, c')" "ctab c' = (ctab c)(target_shard t := tb)"
    "twopcEnabled tb" "vDone (view d tb) = vDone (view d (ctab c (target_shard t)))"
proof -
  obtain tb where h: "handle fine (RSetRollback d j) (ctab c (target_shard t)) = (None, tb)"
    using fine_SetRollback [OF assms] by (metis prod.collapse)
  then obtain c' where c': "direct_request t (RSetRollback d j) c = (None, c')" "ctab c' = (ctab c)(target_shard t := tb)"
    by (simp add: direct_request_def executes_def)
  show thesis
  proof (rule that [OF c'])
    show "twopcEnabled tb" using SetRollback_enabled [of fine d j "ctab c (target_shard t)"] h assms(1) by simp
    show "vDone (view d tb) = vDone (view d (ctab c (target_shard t)))" using handle_effect [OF h, of d] by auto
  qed
qed

lemma direct_decide:
  assumes "twopcEnabled (ctab c (target_shard t))" "vState (view d (ctab c (target_shard t))) = Some st"
  obtains c' where "st = PREPARE \<Longrightarrow> direct_request t (RSetRollback d j) c = (None, c')" "st \<noteq> PREPARE \<Longrightarrow> c' = c"
    "\<And>u. u \<noteq> target_shard t \<Longrightarrow> ctab c' u = ctab c u" "twopcEnabled (ctab c' (target_shard t))"
    "vDone (view d (ctab c' (target_shard t))) = vDone (view d (ctab c (target_shard t)))"
proof (cases "st = PREPARE")
  case True
  show thesis
    by (rule direct_set_rollback [OF assms(1), of d j]) (use assms(2) True that in auto)
next
  case False
  then show thesis using that [of c] assms(1) by simp
qed

text \<open>A resolution without faults, from the state of the metadata manager.\<close>

lemma direct_Resolve:
  assumes reach: "reachable c" and plan: "plan c d = Some (m # ss)" and st: "vState (view d (ctab c (key m))) = Some st"
    and en: "\<forall>s \<in> set (m # ss). twopcEnabled (ctab c (key s))" and free: "\<forall>s \<in> set ss. \<not> vReserved (view d (ctab c (key s)))"
  obtains c' where "Resolve (direct mo txt) d c = (None, c')" "vState (view d (ctab c' (key m))) = None"
    "vDone (view d (ctab c' (key m))) = vDone (view d (ctab c (key m)))"
    "\<And>s. s \<in> set ss \<Longrightarrow> ctab c' (key s) = snd (handle fine (resume_request (st = COMMIT) d) (ctab c (key s)))"
proof -
  note inv = reachable_inv_run [OF reach plan]
  have vp: "valid_plan d (m # ss)" by (rule inv_runD(1) [OF inv])
  then obtain m' where m': "dtids_ShardSession d = Inr m'" "key m' = key m"
    by (auto simp: valid_plan_def mm_of_def split: sum.splits)
  have d: "d \<noteq> []" using vp by (auto simp: valid_plan_def dtids_New_def)
  have dist: "distinct (map key ss)" "key m \<notin> set (map key ss)" using vp by (auto simp: valid_plan_def)
  have unk: "st \<noteq> UNKNOWN" using inv_runD(5) [OF inv] st by (auto simp: mm_ok_def)
  let ?md = "\<lparr>Dtid = d, State = st, Participants = map key ss\<rparr>"
  obtain c1 where rd: "direct_read (sTarget m') d c = (Inr ?md, c1)" and c1: "ctab c1 = ctab c"
    by (rule direct_read_state [OF reach plan st _ m'(2)]) (use en in auto)
  have en1: "twopcEnabled (ctab c1 (target_shard (sTarget m')))" and st1: "vState (view d (ctab c1 (target_shard (sTarget m')))) = Some st"
    using en st by (simp_all add: c1 m'(2))
  obtain c2 where set: "st = PREPARE \<Longrightarrow> direct_request (sTarget m') (RSetRollback d (TransactionId m')) c1 = (None, c2)"
      "st \<noteq> PREPARE \<Longrightarrow> c2 = c1"
    and c2: "\<And>t. t \<noteq> key m \<Longrightarrow> ctab c2 t = ctab c t" "twopcEnabled (ctab c2 (key m))"
      "vDone (view d (ctab c2 (key m))) = vDone (view d (ctab c (key m)))"
    using direct_decide [OF en1 st1, of "TransactionId m'"] by (metis c1 m'(2) target_shard_simps(1))
  have parts: "twopcEnabled (ctab c2 p) \<and> \<not> vReserved (view d (ctab c2 p))" if p: "p \<in> set (map key ss)" for p
  proof -
    obtain s where s: "s \<in> set ss" "p = key s" using p by auto
    show ?thesis using en free s c2(1) [OF key_neq [OF vp s(1)]] by simp
  qed
  obtain c' where c': "(if st = COMMIT then resumeCommit (direct mo txt) (sTarget m') ?md c2 else resumeRollback (direct mo txt) (sTarget m') ?md c2) =
      (None, c')" "\<And>p. p \<in> set (map key ss) \<Longrightarrow> ctab c' p = snd (handle fine (resume_request (st = COMMIT) d) (ctab c2 p))"
    "vState (view d (ctab c' (key m))) = None" "vDone (view d (ctab c' (key m))) = vDone (view d (ctab c2 (key m)))"
    by (rule direct_resume [of "map key ss" "sTarget m'" c2 d "?md" "st = COMMIT" mo "txt", OF dist(1)])
      (use dist(2) c2(2) parts m'(2) in \<open>simp_all del: set_map\<close>)
  show thesis
  proof (rule that)
    show "Resolve (direct mo txt) d c = (None, c')"
      using c'(1) set rd m'(1) d unk by (cases st) (simp_all add: Resolve_def direct_def)
    show "ctab c' (key s) = snd (handle fine (resume_request (st = COMMIT) d) (ctab c (key s)))" if "s \<in> set ss" for s
      using c'(2) [of "key s"] c2(1) [OF key_neq [OF vp that]] that by simp
  qed (use c' c2 in simp_all)
qed

subsection \<open>Sessions through a scattered request\<close>

lemma endAction_ok:
  assumes "endAction fatal err session = (errs, session')" "session_ok txMode session \<and> (mustRollback session \<longrightarrow> sInTransaction session)"
  shows "session_ok txMode session' \<and> (mustRollback session' \<longrightarrow> sInTransaction session')"
proof -
  have "session' = session \<or> session' = Session_SetRollback session"
    using assms(1) by (auto simp: endAction_def split: option.splits scatter_error.splits if_splits)
  then show ?thesis using assms(2) session_ok_SetRollback [of txMode session] by (auto simp: Session_SetRollback_def split: if_splits)
qed

text \<open>
  While the goroutines run, a shard for which a transaction is to be begun has none yet in the session: the others only append
  transactions of other shards.
\<close>

fun begins :: "'e shard_pc \<Rightarrow> bool" where
  "begins (Looked b _) = b"
| "begins (Acted b _ _) = b"
| "begins _ = False"

definition session_keys :: "SafeSession \<Rightarrow> (string \<times> string \<times> nat) set" where
  "session_keys session = (target_key \<circ> sTarget) ` set (sessions_of session)"

definition scatter_ok :: "TransactionMode \<Rightarrow> 'q ResolvedShard list \<Rightarrow> ('e, 'w) scatter \<Rightarrow> bool" where
  "scatter_ok txMode rss st \<longleftrightarrow>
     length (pcs st) = length rss \<and> session_ok txMode (scSession st) \<and>
     (mustRollback (scSession st) \<longrightarrow> sInTransaction (scSession st)) \<and>
     (\<forall>i < length rss. begins (pcs st ! i) \<longrightarrow> target_key (rTarget (rss ! i)) \<notin> session_keys (scSession st))"

lemma session_keys_SetRollback [simp]: "session_keys (Session_SetRollback session) = session_keys session"
  by (simp add: session_keys_def sessions_of_def Session_SetRollback_def split: CommitOrder.split)

lemma endAction_keys: "endAction fatal err session = (errs, session') \<Longrightarrow> session_keys session' = session_keys session"
  by (auto simp: endAction_def split: option.splits scatter_error.splits if_splits)

lemma Append_keys:
  "Session_Append s txMode session = (e, session') \<Longrightarrow> session_keys session' \<subseteq> insert (target_key (sTarget s)) (session_keys session)"
  by (auto simp: Session_Append_def session_keys_def sessions_of_def Let_def split: if_splits CommitOrder.splits)

lemma Append_keeps:
  assumes "Session_Append s txMode session = (e, session')" "session_ok txMode session" "mustRollback session \<longrightarrow> sInTransaction session"
    and "TransactionId s \<noteq> 0" "target_key (sTarget s) \<notin> session_keys session"
  shows "session_ok txMode session' \<and> (mustRollback session' \<longrightarrow> sInTransaction session')"
proof -
  have "session_ok txMode session'" using Append_single [OF assms(2,1)] assms(4,5) by (simp add: session_keys_def)
  moreover have "mustRollback session' \<longrightarrow> sInTransaction session'"
    using assms(1,3) by (auto simp: Session_Append_def Let_def split: if_splits CommitOrder.splits)
  ultimately show ?thesis by simp
qed

lemma transactionInfo_begins:
  assumes "transactionInfo target session nit = (True, i)" "session_ok txMode session"
  shows "target_key target \<notin> session_keys session"
proof -
  have "Session_Find (tkeyspace target) (tshard target) (ttabletType target) session = 0"
    using assms(1) by (auto simp: transactionInfo_def Let_def split: if_splits)
  moreover have "sessions_ok (sessions_of session)" using assms(2) by (auto simp: session_ok_def sessions_of_def split: CommitOrder.split)
  ultimately show ?thesis using Find_zero by (metis target_key_def session_keys_def set_map)
qed

text \<open>A step of one goroutine that adds at most its own target to the session.\<close>

lemma scatter_ok_step:
  assumes "scatter_ok txMode rss st" and dist: "distinct (map (target_key \<circ> rTarget) rss)" and i: "i < length rss"
    and "session_ok txMode session \<and> (mustRollback session \<longrightarrow> sInTransaction session)"
    and "session_keys session \<subseteq> insert (target_key (rTarget (rss ! i))) (session_keys (scSession st))"
    and "begins pc \<Longrightarrow> target_key (rTarget (rss ! i)) \<notin> session_keys session"
  shows "scatter_ok txMode rss (st\<lparr>pcs := (pcs st)[i := pc], allErrors := errs, scSession := session, scWorld := w\<rparr>)"
proof -
  have "target_key (rTarget (rss ! j)) \<noteq> target_key (rTarget (rss ! i))" if "j < length rss" "j \<noteq> i" for j
    using nth_eq_iff_index_eq [OF dist, of j i] that i by simp
  then show ?thesis using assms by (auto simp: scatter_ok_def nth_list_update)
qed

lemma oneShard_ok:
  assumes ok: "scatter_ok txMode rss st" and dist: "distinct (map (target_key \<circ> rTarget) rss)"
  shows "scatter_ok txMode rss (oneShard txMode fatal nit action rss i st)"
proof (cases "i < length rss")
  case True
  note st = ok [unfolded scatter_ok_def] and step = scatter_ok_step [OF ok dist True]
  show ?thesis
  proof (cases "pcs st ! i")
    case Started
    obtain b j where info: "transactionInfo (rTarget (rss ! i)) (scSession st) nit = (b, j)" by fastforce
    then show ?thesis
      using Started True step [of "scSession st" "Looked b j" "scWorld st" "allErrors st"] st transactionInfo_begins [of "rTarget (rss ! i)" _ nit j txMode]
      by (auto simp: oneShard_def)
  next
    case (Looked b j)
    obtain j' err w where "action (rss ! i) i b j (scWorld st) = (j', err, w)" by (metis prod.collapse)
    then show ?thesis using Looked True step [of "scSession st" "Acted b j' err" w "allErrors st"] st by (force simp: oneShard_def)
  next
    case (Acted b j err)
    show ?thesis
    proof (cases "b \<and> j \<noteq> 0")
      case app: True
      let ?s = "\<lparr>sTarget = rTarget (rss ! i), TransactionId = j\<rparr>"
      obtain e session where a: "Session_Append ?s txMode (scSession st) = (e, session)" by fastforce
      have "target_key (rTarget (rss ! i)) \<notin> session_keys (scSession st)" using st Acted True app by force
      then have "session_ok txMode session \<and> (mustRollback session \<longrightarrow> sInTransaction session)"
        using Append_keeps [OF a] st app by simp
      then show ?thesis
        using step [of session "Ending (case e of Some e \<Rightarrow> Some (AppendError e) | None \<Rightarrow> map_option ActionError err)" "scWorld st" "allErrors st"]
          Append_keys [OF a] Acted True app a by (simp add: oneShard_def)
    qed (use Acted True step [of "scSession st" "Ending (map_option ActionError err)" "scWorld st" "allErrors st"] st in \<open>force simp: oneShard_def\<close>)
  next
    case (Ending err)
    obtain errs session where e: "endAction fatal err (scSession st) = (errs, session)" by fastforce
    then show ?thesis
      using Ending True step [of session Finished "scWorld st" "allErrors st @ errs"] endAction_ok [OF e] endAction_keys [OF e] st
      by (auto simp: oneShard_def)
  qed (use ok in \<open>simp add: oneShard_def\<close>)
qed (use ok in \<open>simp add: oneShard_def\<close>)

lemma all_shards_ok:
  assumes "scatter_ok txMode rss st" "distinct (map (target_key \<circ> rTarget) rss)"
  shows "scatter_ok txMode rss (all_shards txMode fatal nit action rss sched st)"
proof -
  have "scatter_ok txMode rss (fold (oneShard txMode fatal nit action rss) is st)" for "is"
    using assms(1) by (induction "is" arbitrary: st) (auto intro: oneShard_ok [OF _ assms(2)])
  then show ?thesis unfolding all_shards_def .
qed

text \<open>Every goroutine finishes.\<close>

lemma count_list_upt: "j < n \<Longrightarrow> count_list [0..<n] j = 1"
  by (induction n) (auto simp: less_Suc_eq)

fun steps_left :: "'e shard_pc \<Rightarrow> nat" where
  "steps_left Started = 4"
| "steps_left (Looked _ _) = 3"
| "steps_left (Acted _ _ _) = 2"
| "steps_left (Ending _) = 1"
| "steps_left Finished = 0"

lemma oneShard_pcs:
  assumes "length (pcs st) = length rss" "j < length rss"
  shows "length (pcs (oneShard txMode fatal nit action rss i st)) = length rss"
    and "steps_left (pcs (oneShard txMode fatal nit action rss i st) ! j) = steps_left (pcs st ! j) - (if i = j then 1 else 0)"
  using assms by (auto simp: oneShard_def nth_list_update Let_def split: shard_pc.splits prod.splits)

lemma run_shards_pcs:
  assumes "length (pcs st) = length rss" "j < length rss"
  shows "length (pcs (fold (oneShard txMode fatal nit action rss) is st)) = length rss \<and>
    steps_left (pcs (fold (oneShard txMode fatal nit action rss) is st) ! j) = steps_left (pcs st ! j) - count_list is j"
  using assms(1) by (induction "is" arbitrary: st) (auto simp: oneShard_pcs [OF _ assms(2)])

lemma all_shards_finish:
  assumes "length (pcs st) = length rss" "j < length rss"
  shows "pcs (all_shards txMode fatal nit action rss sched st) ! j = Finished"
proof -
  have "count_list [0..<length rss] j = 1" using assms(2) by (simp add: count_list_upt)
  then have "4 \<le> count_list (sched @ concat (replicate 4 [0..<length rss])) j" by (simp add: numeral_eq_Suc)
  moreover have "steps_left (pcs st ! j) \<le> 4" by (cases "pcs st ! j") auto
  ultimately have "steps_left (pcs (all_shards txMode fatal nit action rss sched st) ! j) = 0"
    unfolding all_shards_def by (simp only: run_shards_pcs [OF assms] diff_is_0_eq)
  then show ?thesis by (cases "pcs (all_shards txMode fatal nit action rss sched st) ! j") auto
qed

subsection \<open>The requests of a commit\<close>

text \<open>A gateway that keeps a list of the requests.\<close>

definition recorded :: "'w TxConn \<Rightarrow> ((Target \<times> request) list \<times> 'w) TxConn" where
  "recorded txc =
     \<lparr>gw_request = (\<lambda>t r (l, w). let (e, w1) = gw_request txc t r w in (e, l @ [(t, r)], w1)),
      gw_ReadTransaction = (\<lambda>t d (l, w). let (res, w1) = gw_ReadTransaction txc t d w in (res, l, w1)),
      mode = mode txc, error_text = error_text txc\<rparr>"

abbreviation commit_of :: "ShardSession \<Rightarrow> Target \<times> request" where
  "commit_of s \<equiv> (sTarget s, RCommit (TransactionId s))"

abbreviation rollback_of :: "ShardSession \<Rightarrow> Target \<times> request" where
  "rollback_of s \<equiv> (sTarget s, RRollback (TransactionId s))"

lemma recorded_request: "\<exists>e w1. gw_request (recorded txc) t r (l, w) = (e, l @ [(t, r)], w1)"
  by (simp add: recorded_def case_prod_unfold Let_def)

lemma run_commits_recorded:
  "\<exists>errs w1. run_all (\<lambda>s. gw_request (recorded txc) (sTarget s) (RCommit (TransactionId s))) ss (l, w) = (errs, l @ map commit_of ss, w1)"
proof (induction ss arbitrary: l w)
  case (Cons s ss)
  obtain e w1 where "gw_request (recorded txc) (sTarget s) (RCommit (TransactionId s)) (l, w) = (e, l @ [commit_of s], w1)"
    using recorded_request [of txc "sTarget s" "RCommit (TransactionId s)" l w] by blast
  then show ?case using Cons [of "l @ [commit_of s]" w1] by (auto split: option.split)
qed simp

lemma run_rollbacks_recorded:
  "\<exists>errs w1. run_all (\<lambda>s w. if TransactionId s = 0 then (None, w) else gw_request (recorded txc) (sTarget s) (RRollback (TransactionId s)) w) ss (l, w) =
     (errs, l @ map rollback_of (filter (\<lambda>s. TransactionId s \<noteq> 0) ss), w1)"
proof (induction ss arbitrary: l w)
  case (Cons s ss)
  obtain e w1 where "gw_request (recorded txc) (sTarget s) (RRollback (TransactionId s)) (l, w) = (e, l @ [rollback_of s], w1)"
    using recorded_request [of txc "sTarget s" "RRollback (TransactionId s)" l w] by blast
  then show ?case using Cons [of "l @ [rollback_of s]" w1] Cons [of l w] by (auto split: option.split)
qed simp

lemma Rollback_recorded:
  assumes "sInTransaction session"
  shows "\<exists>err w1. Rollback (recorded txc) session (l, w) = (err, Session_Reset session,
    l @ map rollback_of (filter (\<lambda>s. TransactionId s \<noteq> 0) (PreSessions session @ ShardSessions session @ PostSessions session)), w1)"
  using assms run_rollbacks_recorded [of txc "PreSessions session @ ShardSessions session @ PostSessions session" l w]
  by (auto simp: Rollback_def runSessions_def Let_def)

lemma commit_shards_recorded:
  "\<exists>n err w1. commit_shards (recorded txc) ss (l, w) = (err, map clear_id (take n ss) @ drop n ss, l @ map commit_of (take n ss), w1) \<and>
     n \<le> length ss \<and> (err = None \<longrightarrow> n = length ss)"
proof (induction ss arbitrary: l w)
  case (Cons s ss)
  obtain e w1 where r: "gw_request (recorded txc) (sTarget s) (RCommit (TransactionId s)) (l, w) = (e, l @ [commit_of s], w1)"
    using recorded_request [of txc "sTarget s" "RCommit (TransactionId s)" l w] by blast
  show ?case
  proof (cases e)
    case None
    obtain n err w2 where "commit_shards (recorded txc) ss (l @ [commit_of s], w1) =
        (err, map clear_id (take n ss) @ drop n ss, (l @ [commit_of s]) @ map commit_of (take n ss), w2)" "n \<le> length ss" "err = None \<longrightarrow> n = length ss"
      using Cons [of "l @ [commit_of s]" w1] by blast
    then show ?thesis using r None by (intro exI [of _ "Suc n"]) simp
  next
    case (Some x)
    then show ?thesis using r by (intro exI [of _ 1]) simp
  qed
qed simp

lemma filter_cleared: "filter (\<lambda>s. TransactionId s \<noteq> 0) (map clear_id ss) = []"
  by (simp add: clear_id_def)

lemma normal_requests:
  assumes run: "commitNormal (recorded txc) session ([], w) = (err, session1, l, w')" and "sInTransaction session"
    and r1: "run_all (\<lambda>s. gw_request (recorded txc) (sTarget s) (RCommit (TransactionId s))) (PreSessions session) ([], w) =
      (errs1, map commit_of (PreSessions session), w1)"
    and r2: "commit_shards (recorded txc) (ShardSessions session) (map commit_of (PreSessions session), w1) =
      (err2, map clear_id (take n (ShardSessions session)) @ drop n (ShardSessions session),
       map commit_of (PreSessions session) @ map commit_of (take n (ShardSessions session)), w2)"
    and n: "err2 = None \<longrightarrow> n = length (ShardSessions session)"
    and keep: "\<And>ss. set ss \<subseteq> set (PreSessions session @ ShardSessions session @ PostSessions session) \<Longrightarrow> filter (\<lambda>s. TransactionId s \<noteq> 0) ss = ss"
  shows "err \<noteq> None \<and> l = map commit_of (PreSessions session) @ map rollback_of (ShardSessions session @ PostSessions session) \<or>
    err \<noteq> None \<and> l = map commit_of (PreSessions session @ take n (ShardSessions session)) @
      map rollback_of (drop n (ShardSessions session) @ PostSessions session) \<or>
    l = map commit_of (PreSessions session @ ShardSessions session @ PostSessions session)"
proof -
  have kept: "filter (\<lambda>s. TransactionId s \<noteq> 0) (ShardSessions session) = ShardSessions session"
    "filter (\<lambda>s. TransactionId s \<noteq> 0) (PostSessions session) = PostSessions session"
    "filter (\<lambda>s. TransactionId s \<noteq> 0) (drop n (ShardSessions session)) = drop n (ShardSessions session)"
    by (rule keep, auto dest: in_set_dropD)+
  let ?s1 = "session\<lparr>PreSessions := map clear_id (PreSessions session)\<rparr>"
  let ?s2 = "?s1\<lparr>ShardSessions := map clear_id (take n (ShardSessions session)) @ drop n (ShardSessions session)\<rparr>"
  show ?thesis
  proof (cases "AggrError errs1")
    case (Some e)
    then show ?thesis using run r1 Rollback_recorded [of ?s1 txc "map commit_of (PreSessions session)" w1] assms(2)
      by (auto simp: commitNormal_def runSessions_def filter_cleared kept)
  next
    case e1: None
    show ?thesis
    proof (cases err2)
      case (Some e)
      then show ?thesis
        using run r1 e1 r2 Rollback_recorded [of ?s2 txc "map commit_of (PreSessions session) @ map commit_of (take n (ShardSessions session))" w2] assms(2)
        by (auto simp: commitNormal_def runSessions_def filter_cleared kept)
    next
      case None
      obtain errs3 w3 where "run_all (\<lambda>s. gw_request (recorded txc) (sTarget s) (RCommit (TransactionId s))) (PostSessions session)
          (map commit_of (PreSessions session) @ map commit_of (ShardSessions session), w2) =
          (errs3, (map commit_of (PreSessions session) @ map commit_of (ShardSessions session)) @ map commit_of (PostSessions session), w3)"
        using run_commits_recorded [of txc "PostSessions session" "map commit_of (PreSessions session) @ map commit_of (ShardSessions session)" w2] by blast
      then show ?thesis using run r1 e1 r2 None n by (auto simp: commitNormal_def runSessions_def Let_def split: option.splits)
    qed
  qed
qed

subsection \<open>Properties\<close>

definition example_session :: "ShardSession list \<Rightarrow> TransactionMode \<Rightarrow> SafeSession" where
  "example_session ss tm =
     \<lparr>mustRollback = False, acState = notAutocommittable, commitOrder = CO_NORMAL, sInTransaction = True, ShardSessions = ss,
      SingleDb = False, Autocommit = False, TransactionMode = tm, Warnings = [], PreSessions = [], PostSessions = []\<rparr>"

definition example_world :: world where
  "example_world = \<lparr>wcluster = fold act (take 5 example_run) idle, wfates = (\<lambda>_. ([], Delivered (\<lambda>_. Fine) True))\<rparr>"

text \<open>
  C2. A commit in two phases, whatever faults there are and whatever else happens meanwhile: the cluster stays in a reachable state, so that
  the transaction is atomic, and when the commit returns no error, then the metadata manager has committed it, and so has every other shard
  the statements it voted for.
\<close>

theorem commit2PC_commits_everywhere:
  assumes "reachable (wcluster w)" "ShardSessions session = m # ss" "ss \<noteq> []"
    and "plan (wcluster w) (dtids_New m) = Some (m # ss)" "commit2PC (net mo txt) session w = (err, session', w')"
  shows "reachable (wcluster w') \<and>
    (err = None \<longrightarrow> (\<exists>q. committed (wcluster w') (key m) (dtids_New m) = [q]) \<and>
       (\<forall>s \<in> set ss. \<exists>q. votes (wcluster w') (key s, dtids_New m) = Some q \<and>
          committed (wcluster w') (key s) (dtids_New m) = (if q = [] then [] else [q])))"
proof -
  obtain s rest where ss: "ss = s # rest" using assms(3) by (cases ss) auto
  have run: "step\<^sup>*\<^sup>* (wcluster w) (wcluster w')"
    "err = None \<Longrightarrow> (key m, RStartCommit (TransactionId m) (dtids_New m)) \<in> oks (wcluster w') \<and>
      (\<forall>t \<in> set ss. (key t, RCommitPrepared (dtids_New m)) \<in> oks (wcluster w'))"
    using net_gw.commit2PC_steps [OF assms(1) _ refl _ assms(5), of m s rest] assms(2,4) ss by auto
  note c' = reachable_steps [OF run(1) assms(1)] steps_keep(3) [OF run(1) assms(4)]
  note mm = inv_runD(5) [OF reachable_inv_run [OF c']]
  have "\<exists>q. committed (wcluster w') (key m) (dtids_New m) = [q]" if "err = None"
    using mm run(2) [OF that] by (cases "committed (wcluster w') (key m) (dtids_New m)") (auto simp: mm_ok_def committed_view)
  then show ?thesis using c'(1) answered_commits [OF c'] run(2) by blast
qed

lemma example_world_runs:
  "fst (commit2PC (net TM_TWOPC (\<lambda>_. [])) (example_session [session_at ''a'', session_at ''b''] TM_TWOPC) example_world) = None"
  "plan (wcluster example_world) (dtids_New (session_at ''a'')) = Some [session_at ''a'', session_at ''b'']"
  by code_simp+

theorem commit2PC_commits_everywhere_witness:
  "\<exists>session' w' q. commit2PC (net TM_TWOPC (\<lambda>_. [])) (example_session [session_at ''a'', session_at ''b''] TM_TWOPC) example_world =
     (None, session', w') \<and> committed (wcluster w') (''ks'', ''a'') (dtids_New (session_at ''a'')) = [q]"
proof -
  let ?run = "commit2PC (net TM_TWOPC (\<lambda>_. [])) (example_session [session_at ''a'', session_at ''b''] TM_TWOPC) example_world"
  obtain session' w' where r: "?run = (None, session', w')" using example_world_runs(1) by (metis prod.collapse)
  have "reachable (wcluster example_world)" by (simp add: example_world_def acts_reachable)
  from commit2PC_commits_everywhere [OF this _ _ example_world_runs(2) r] r show ?thesis
    by (auto simp: example_session_def key_session_at)
qed

text \<open>
  C3. Every distributed transaction can be brought to an end: from any reachable state in which the metadata manager still
  knows the transaction, and in which no shard has it reserved for an operator, a resolution that meets no fault returns no error, the metadata
  manager forgets the transaction, and either every shard has committed what it voted for, or no shard has committed anything and none keeps it prepared.
\<close>

theorem Resolve_resolves:
  assumes "reachable c" "plan c d = Some (m # ss)" "map_of (dt_state (db (ctab c (key m)))) d = Some st"
    and "\<forall>s \<in> set (m # ss). twopcEnabled (ctab c (key s))"
    and "\<forall>s \<in> set ss. map_of (pp_reserved (preparedPool (ctab c (key s)))) d = None"
  shows "\<exists>c'. Resolve (direct mo txt) d c = (None, c') \<and> reachable c' \<and> map_of (dt_state (db (ctab c' (key m)))) d = None \<and>
    (if committed c (key m) d \<noteq> []
     then \<forall>s \<in> set ss. \<exists>q. votes c' (key s, d) = Some q \<and> committed c' (key s) d = (if q = [] then [] else [q])
     else \<forall>s \<in> set ss. committed c' (key s) d = [] \<and> map_of (redo_state (db (ctab c' (key s)))) d = None \<and>
       map_of (pp_conns (preparedPool (ctab c' (key s)))) d = None)"
proof -
  note mm = inv_runD(5) [OF reachable_inv_run [OF assms(1,2)]]
  have st: "vState (view d (ctab c (key m))) = Some st" using assms(3) by (simp add: view_def)
  have free: "\<forall>s \<in> set ss. \<not> vReserved (view d (ctab c (key s)))" using assms(5) by (simp add: view_def)
  obtain c' where res: "Resolve (direct mo txt) d c = (None, c')" and vs: "vState (view d (ctab c' (key m))) = None"
    "vDone (view d (ctab c' (key m))) = vDone (view d (ctab c (key m)))"
    and parts: "\<And>s. s \<in> set ss \<Longrightarrow> ctab c' (key s) = snd (handle fine (resume_request (st = COMMIT) d) (ctab c (key s)))"
    using direct_Resolve [OF assms(1,2) st assms(4) free, of mo "txt"] by metis
  note steps = direct_gw.Resolve_steps [OF assms(1) res]
  note c' = reachable_steps [OF steps assms(1)] steps_keep(3) [OF steps assms(2)]
  have decided: "committed c (key m) d \<noteq> [] \<longleftrightarrow> st = COMMIT" using mm st by (auto simp: mm_ok_def committed_view)
  have undone: "committed c' (key s) d = [] \<and> map_of (redo_state (db (ctab c' (key s)))) d = None \<and>
      map_of (pp_conns (preparedPool (ctab c' (key s)))) d = None" if s: "s \<in> set ss" and none: "committed c (key m) d = []" for s
  proof -
    have "vDone (view d (ctab c' (key s))) = []"
      using inv_runD(6) [OF reachable_inv_run [OF c'] s] none vs(2) by (auto simp: shard_ok_def committed_view)
    moreover have "vRedo (view d (ctab c' (key s))) = None \<and> vConn (view d (ctab c' (key s))) = None"
      using fine_RollbackPrepared(2) [of "ctab c (key s)" d] parts [OF s] none decided assms(4) free s by (simp add: resume_request_def)
    ultimately show ?thesis by (simp add: committed_view) (simp add: view_def)
  qed
  have "\<exists>q. votes c' (key s, d) = Some q \<and> committed c' (key s) d = (if q = [] then [] else [q])"
    if "s \<in> set ss" "committed c (key m) d \<noteq> []" for s
    using concluded_commits [OF c' _ vs(1) that(1)] that(2) vs(2) by (simp add: committed_view)
  then show ?thesis using res c'(1) vs(1) undone by (intro exI [of _ c']) (auto simp: view_def)
qed

lemma example_resolvable:
  "map_of (dt_state (db (ctab (fold act example_run idle) (''ks'', ''a'')))) ''ks:a:1'' = Some COMMIT"
  "twopcEnabled (ctab (fold act example_run idle) (''ks'', ''a''))" "twopcEnabled (ctab (fold act example_run idle) (''ks'', ''b''))"
  "map_of (pp_reserved (preparedPool (ctab (fold act example_run idle) (''ks'', ''b'')))) ''ks:a:1'' = None"
  by code_simp+

theorem Resolve_resolves_witness:
  "\<exists>c'. Resolve (direct TM_TWOPC (\<lambda>_. [])) ''ks:a:1'' (fold act example_run idle) = (None, c') \<and>
     map_of (dt_state (db (ctab c' (''ks'', ''a'')))) ''ks:a:1'' = None"
  using Resolve_resolves [OF acts_reachable example_state(1), unfolded key_session_at, OF example_resolvable(1), of TM_TWOPC "\<lambda>_. []"]
    example_resolvable by (auto simp: key_session_at)

text \<open>
  C20. A commit of a transaction in the modes other than two-phase commit ends the transaction of every shard exactly once, with a commit or,
  after an error, with a rollback; without an error it ends all of them with a commit. The session is then out of the transaction.
\<close>

theorem Commit_ends_each_transaction:
  assumes "sInTransaction session" "TransactionMode session \<noteq> TM_TWOPC" "TransactionMode session \<noteq> TM_UNSPECIFIED \<or> mode txc \<noteq> TM_TWOPC"
    and ids: "list_all (\<lambda>s. TransactionId s \<noteq> 0) (PreSessions session @ ShardSessions session @ PostSessions session)"
    and run: "Commit (recorded txc) session ([], w) = (err, session', l, w')"
  shows "(\<exists>cs rs. mset (PreSessions session @ ShardSessions session @ PostSessions session) = mset (cs @ rs) \<and>
      l = map commit_of cs @ map rollback_of rs \<and> (err = None \<longrightarrow> rs = [])) \<and>
    \<not> sInTransaction session' \<and> PreSessions session' @ ShardSessions session' @ PostSessions session' = []"
proof -
  obtain session1 where normal: "commitNormal (recorded txc) session ([], w) = (err, session1, l, w')" and s': "session' = Session_Reset session1"
    using run assms(1-3) by (auto simp: Commit_def recorded_def Let_def split: prod.splits)
  have keep: "filter (\<lambda>s. TransactionId s \<noteq> 0) ss = ss"
    if "set ss \<subseteq> set (PreSessions session @ ShardSessions session @ PostSessions session)" for ss
    using that ids by (auto simp: list_all_iff intro!: filter_True)
  obtain errs1 w1 where r1: "run_all (\<lambda>s. gw_request (recorded txc) (sTarget s) (RCommit (TransactionId s))) (PreSessions session) ([], w) =
      (errs1, map commit_of (PreSessions session), w1)" using run_commits_recorded [of txc "PreSessions session" "[]" w] by auto
  obtain n err2 w2 where r2: "commit_shards (recorded txc) (ShardSessions session) (map commit_of (PreSessions session), w1) =
      (err2, map clear_id (take n (ShardSessions session)) @ drop n (ShardSessions session),
       map commit_of (PreSessions session) @ map commit_of (take n (ShardSessions session)), w2)"
    and n: "err2 = None \<longrightarrow> n = length (ShardSessions session)"
    using commit_shards_recorded [of txc "ShardSessions session" "map commit_of (PreSessions session)" w1] by blast
  consider (pre) "l = map commit_of (PreSessions session) @ map rollback_of (ShardSessions session @ PostSessions session)" "err \<noteq> None"
    | (shard) "l = map commit_of (PreSessions session @ take n (ShardSessions session)) @
        map rollback_of (drop n (ShardSessions session) @ PostSessions session)" "err \<noteq> None"
    | (all) "l = map commit_of (PreSessions session @ ShardSessions session @ PostSessions session)"
    using normal_requests [OF normal assms(1) r1 r2 n keep] by blast
  then have "\<exists>cs rs. mset (PreSessions session @ ShardSessions session @ PostSessions session) = mset (cs @ rs) \<and>
      l = map commit_of cs @ map rollback_of rs \<and> (err = None \<longrightarrow> rs = [])"
  proof cases
    case pre
    show ?thesis
      by (rule exI [of _ "PreSessions session"], rule exI [of _ "ShardSessions session @ PostSessions session"]) (use pre in auto)
  next
    case shard
    have "mset (ShardSessions session) = mset (take n (ShardSessions session)) + mset (drop n (ShardSessions session))"
      by (simp flip: mset_append)
    then show ?thesis
      by - (rule exI [of _ "PreSessions session @ take n (ShardSessions session)"],
        rule exI [of _ "drop n (ShardSessions session) @ PostSessions session"], use shard in auto)
  next
    case all
    show ?thesis
      by (rule exI [of _ "PreSessions session @ ShardSessions session @ PostSessions session"], rule exI [of _ "[]"]) (use all in simp)
  qed
  then show ?thesis by (simp add: s' Session_Reset_def)
qed

definition example_gateway :: "unit TxConn" where
  "example_gateway =
     \<lparr>gw_request = (\<lambda>t r w. (if r = RCommit 2 then Some DbError else None, w)), gw_ReadTransaction = (\<lambda>t d w. (Inl DbError, w)),
      mode = TM_MULTI, error_text = (\<lambda>_. [])\<rparr>"

definition three_shards :: SafeSession where
  "three_shards =
     example_session [session_at ''a'', (session_at ''b'')\<lparr>TransactionId := 2\<rparr>, (session_at ''c'')\<lparr>TransactionId := 3\<rparr>] TM_MULTI"

theorem Commit_ends_each_transaction_witness:
  "\<exists>err session' l w'. Commit (recorded example_gateway) three_shards ([], ()) = (err, session', l, w') \<and>
     (\<exists>cs rs. mset (ShardSessions three_shards) = mset (cs @ rs) \<and> l = map commit_of cs @ map rollback_of rs)"
proof -
  obtain err session' l w' where run: "Commit (recorded example_gateway) three_shards ([], ()) = (err, session', l, w')"
    by (metis prod.collapse)
  from Commit_ends_each_transaction [OF _ _ _ _ run] run show ?thesis
    by (auto simp: three_shards_def example_session_def session_at_def)
qed

text \<open>
  C21. A scattered request on different targets keeps the session in order, whatever the order in which its goroutines run and also when shards
  fail: the session is not left in a state in which it must be rolled back; among the transactions of each order of commit (normal, pre, post) no
  target has two, and every one has an id; and in single mode there is at most one transaction of the normal order.
\<close>

theorem multiGoTransaction_session:
  assumes "session_ok (mode txc) session" "\<not> mustRollback session" "distinct (map (target_key \<circ> rTarget) rss)"
    and "multiGoTransaction txc fatal sched rss session nit action w = (errs, session', w')"
  shows "\<not> mustRollback session' \<and>
    sessions_ok (PreSessions session') \<and> sessions_ok (ShardSessions session') \<and> sessions_ok (PostSessions session') \<and>
    (isSingleDB (mode txc) session' \<longrightarrow> length (ShardSessions session') \<le> 1)"
proof (cases "rss = []")
  case True
  then show ?thesis using assms by (simp add: multiGoTransaction_def session_ok_def)
next
  case False
  let ?st = "\<lparr>pcs = replicate (length rss) Started, allErrors = [], scSession = session, scWorld = w\<rparr>"
  have "scatter_ok (mode txc) rss ?st" using assms(1,2) by (simp add: scatter_ok_def)
  from all_shards_ok [OF this assms(3), of fatal nit action sched] show ?thesis
    using assms(4) False session_ok_Reset [of "mode txc" "scSession (all_shards (mode txc) fatal nit action rss sched ?st)"]
    by (auto simp: multiGoTransaction_def Rollback_def Let_def scatter_ok_def session_ok_def Session_Reset_def split: if_splits prod.splits)
qed

theorem multiGoTransaction_session_witness:
  "let (errs, session', w') = multiGoTransaction (example_gateway\<lparr>mode := TM_MULTI\<rparr>) (\<lambda>_ :: unit. False) [1, 0, 0, 1, 1, 0, 1, 0]
       [\<lparr>rTarget = master (''ks'', ''a''), rQueryService = ()\<rparr>, \<lparr>rTarget = master (''ks'', ''b''), rQueryService = ()\<rparr>]
       (example_session [] TM_MULTI) False (\<lambda>rs i b j w. (int i + 1, None, w)) ()
   in errs = [] \<and> map (tshard \<circ> sTarget) (ShardSessions session') = [''b'', ''a''] \<and> sessions_ok (ShardSessions session') \<and> \<not> mustRollback session'"
proof -
  let ?rss = "[\<lparr>rTarget = master (''ks'', ''a''), rQueryService = ()\<rparr>, \<lparr>rTarget = master (''ks'', ''b''), rQueryService = ()\<rparr>]"
  let ?run = "multiGoTransaction (example_gateway\<lparr>mode := TM_MULTI\<rparr>) (\<lambda>_ :: unit. False) [1, 0, 0, 1, 1, 0, 1, 0] ?rss
       (example_session [] TM_MULTI) False (\<lambda>rs i b j w. (int i + 1, None, w)) ()"
  obtain errs session' w' where run: "?run = (errs, session', w')" by (metis prod.collapse)
  have "fst ?run = [] \<and> map (tshard \<circ> sTarget) (ShardSessions (fst (snd ?run))) = [''b'', ''a'']" by code_simp
  then have "errs = []" "map (tshard \<circ> sTarget) (ShardSessions session') = [''b'', ''a'']" unfolding run by simp_all
  moreover have "distinct (map (target_key \<circ> rTarget) ?rss)" by (simp add: target_key_def master_def)
  ultimately show ?thesis using multiGoTransaction_session [OF _ _ _ run] run
    by (auto simp: example_session_def session_ok_def sessions_ok_def Let_def)
qed

text \<open>
  Why the targets must differ, which the code leaves to its callers: two goroutines of the same shard may both look at the session before either
  has appended, and then the shard has two transactions.
\<close>

lemma duplicate_targets_race:
  "map TransactionId (ShardSessions (fst (snd (multiGoTransaction (example_gateway\<lparr>mode := TM_MULTI\<rparr>) (\<lambda>_ :: unit. False) [0, 1]
       [\<lparr>rTarget = master (''ks'', ''a''), rQueryService = ()\<rparr>, \<lparr>rTarget = master (''ks'', ''a''), rQueryService = ()\<rparr>]
       (example_session [] TM_MULTI) False (\<lambda>rs i b j w. (int i + 1, None, w)) ())))) = [1, 2]"
  by code_simp

end
