(* ===== verification/Spec2Isabelle.thy ===== *)
theory Spec2Isabelle
  imports Destination Mysql_Encoding Replication_Position Query_Rules Sql_Identifier Pools Route Tx_Conn
begin

text \<open>
  Vitess spreads the tables of a MySQL database over shards. This library models the parts of it that decide where a row lives, what is
  read from and written to the shards for a query, how the answers of the shards are put together, how a transaction over several shards ends,
  and how a position in the replication stream is kept. The sources are under \<^verbatim>\<open>src\<close>, in Go.

  \<^bold>\<open>How the parts work together.\<close> A client's session is with vtgate. A statement is read as tokens and has comments that steer it (\<^verbatim>\<open>vt/sqlparser\<close>). Its
  plan is a tree of engine primitives (\<^verbatim>\<open>vt/vtgate/engine\<close>); at the leaves, routes turn column values into keyspace ids with a vindex
  (\<^verbatim>\<open>vt/vtgate/vindexes\<close>), and the resolver (\<^verbatim>\<open>vt/srvtopo\<close>) turns keyspace ids and ranges into shards, by the key ranges of \<^verbatim>\<open>vt/key\<close>. Bind
  variables, results and arithmetic are those of \<^verbatim>\<open>sqltypes\<close>. A scattered request begins a transaction on each shard it meets; the
  commit ends them, in two phases if asked to (\<^verbatim>\<open>vt/vtgate/tx_conn.go\<close>), and the tablets of the shards answer its requests
  (\<^verbatim>\<open>vt/vttablet/tabletserver\<close>). A tablet checks queries against rules, keeps its transactions in a numbered pool and
  its plans in an LRU cache, speaks MySQL's protocol, and follows its master by GTIDs.

  \<^bold>\<open>Shared theories.\<close>
  \<^item> \<^verbatim>\<open>Prelude\<close>: bytes, words, panics (\<open>'a go\<close> is a panic or a value), and what the sources use of \<^verbatim>\<open>bytes\<close>, \<^verbatim>\<open>strings\<close> and
    \<^verbatim>\<open>encoding\<close>. \<^verbatim>\<open>Go_Strings\<close>: decimal numbers. \<^verbatim>\<open>Go_Heap\<close>: \<^verbatim>\<open>container/heap\<close>, with the locale \<open>heap_order\<close>. \<^verbatim>\<open>Go_Crypto\<close>: DES, triple
    DES, and MD5.

  \<^bold>\<open>Where rows live.\<close>
  \<^item> \<^verbatim>\<open>Key_Range\<close> (\<^verbatim>\<open>vt/key/key.go\<close>): the tests on key ranges decide the questions on the sets of ids they stand for; a sharding
    specification is a partition.
  \<^item> \<^verbatim>\<open>Destination\<close> (\<^verbatim>\<open>vt/key/destination.go\<close>) and \<^verbatim>\<open>Resolver\<close> (\<^verbatim>\<open>vt/srvtopo/resolver.go\<close>): a keyspace id goes to the one shard that
    owns it, and the values of a query are split by shard.
  \<^item> \<^verbatim>\<open>Vindexes\<close> (\<^verbatim>\<open>vt/vtgate/vindexes\<close>, the functional ones): \<^verbatim>\<open>Map\<close>, \<^verbatim>\<open>Verify\<close> and \<^verbatim>\<open>ReverseMap\<close> agree. The locales are \<open>vindex\<close> and
    \<open>reversible_vindex\<close>.

  \<^bold>\<open>Queries.\<close>
  \<^item> \<^verbatim>\<open>Sql_Type\<close>, \<^verbatim>\<open>Sql_Value\<close>, \<^verbatim>\<open>Sql_Arithmetic\<close>, \<^verbatim>\<open>Sql_Result\<close> (\<^verbatim>\<open>sqltypes\<close>): the comparison of integers is exact, and their
    sum where its type can hold it; results survive the wire.
  \<^item> \<^verbatim>\<open>Sql_Comments\<close>, \<^verbatim>\<open>Tokenizer\<close>, \<^verbatim>\<open>Sql_Identifier\<close> (\<^verbatim>\<open>comments.go\<close>, \<^verbatim>\<open>token.go\<close>, \<^verbatim>\<open>formatID\<close> of \<^verbatim>\<open>ast.go\<close>): a value or an
    identifier written into SQL is read back as one token, and the tokenizer always moves on.
  \<^item> \<^verbatim>\<open>Engine\<close>, \<^verbatim>\<open>Merge_Sort\<close>, \<^verbatim>\<open>Route\<close> (\<^verbatim>\<open>limit.go\<close>, \<^verbatim>\<open>join.go\<close>, \<^verbatim>\<open>ordered_aggregate.go\<close>, \<^verbatim>\<open>merge_sort.go\<close>, \<^verbatim>\<open>route.go\<close>, \<^verbatim>\<open>subquery.go\<close>,
    \<^verbatim>\<open>pullout_subquery.go\<close>): what each primitive returns, streaming or not.
  \<^item> This theory joins them: a count by key over all shards is exact (\<open>scattered_group_by_exact\<close>), and an \<^verbatim>\<open>IN\<close> clause is sent
    where its values are stored (\<open>IN_values_where_stored\<close>).

  \<^bold>\<open>Transactions.\<close>
  \<^item> \<^verbatim>\<open>Safe_Session\<close> (\<^verbatim>\<open>vt/vtgate/safe_session.go\<close>, \<^verbatim>\<open>vt/dtids/dtids.go\<close>): the session of a client, and the ids of distributed transactions.
  \<^item> \<^verbatim>\<open>Tablet_2pc\<close> (\<^verbatim>\<open>tx_prep_pool.go\<close>, \<^verbatim>\<open>twopc.go\<close>, \<^verbatim>\<open>tx_executor.go\<close>, parts of \<^verbatim>\<open>tx_pool.go\<close> and \<^verbatim>\<open>tx_engine.go\<close>): the requests of two-phase
    commit at one tablet, with any outcome of their database calls, and the recovery from the redo log.
  \<^item> \<^verbatim>\<open>Two_Phase_Commit\<close>: the step relation of a cluster of such tablets and of any number of coordinators. A transaction is
    committed on all shards or on none, a rollback is final, and what is forgotten has been committed everywhere.
  \<^item> \<^verbatim>\<open>Tx_Conn\<close> (\<^verbatim>\<open>vt/vtgate/tx_conn.go\<close>, \<^verbatim>\<open>multiGoTransaction\<close> of \<^verbatim>\<open>scatter_conn.go\<close>): \<^verbatim>\<open>Commit\<close>, \<^verbatim>\<open>Rollback\<close> and \<^verbatim>\<open>Resolve\<close> are runs of the
    cluster, for every gateway that keeps the laws of the locale \<open>two_phase_gateway\<close>; a resolution without faults ends a transaction. A
    scattered request keeps one transaction per target and order of commit, as long as its targets differ.

  \<^bold>\<open>The tablet's data and the replication.\<close>
  \<^item> \<^verbatim>\<open>Query_Rules\<close> (\<^verbatim>\<open>tabletserver/rules\<close>), \<^verbatim>\<open>Lru_Cache\<close> (\<^verbatim>\<open>cache/lru_cache.go\<close>, which refines a list in the order of use; locale \<open>lookup_cache\<close>), \<^verbatim>\<open>Pools\<close>
    (\<^verbatim>\<open>pools/id_pool.go\<close> and \<^verbatim>\<open>numbered.go\<close>: an id or a resource has one user at a time).
  \<^item> \<^verbatim>\<open>Mysql_Encoding\<close> (\<^verbatim>\<open>mysql/encoding.go\<close>): what is written is read back, by the locale \<open>codec\<close>.
  \<^item> \<^verbatim>\<open>Gtid_Set\<close>, \<^verbatim>\<open>Gtid_Mysql56\<close>, \<^verbatim>\<open>Gtid_Mariadb\<close>, \<^verbatim>\<open>Replication_Position\<close> (the GTID files of \<^verbatim>\<open>mysql\<close>): the locale \<open>gtid_set\<close> is the interface
    \<^verbatim>\<open>GTIDSet\<close>; its operations are those on sets of transactions.

  \<^bold>\<open>Conventions.\<close> A struct is a record, an interface with its implementations a datatype, a nil pointer \<open>None\<close>, an error the left
  side of a sum or an optional value, a Go map an association list in the order of its iteration. Integers are unbounded where the code cannot leave its
  width, and words or explicit wrap-around elsewhere. What is outside of the sources is a parameter: the topology and the health of tablets, the
  gateway, the cursor of the engine, floating point numbers, regular expressions, collations, random choices, the clock, \<^verbatim>\<open>sort.Slice\<close>.

  \<^bold>\<open>Bounds.\<close> No definition has fuel. Loops are recursions that end; only that of \<^verbatim>\<open>StripComments\<close> may not, and is a partial function. Goroutines
  are modelled by their results: the streams of a merge sort by what the receiver gets, the requests of a commit by one after the other with
  arbitrary steps of the cluster in between, and the goroutines of \<^verbatim>\<open>multiGoTransaction\<close> by their steps in any interleaving. A
  request is one step of its tablet. A restart of a tablet recovers the whole redo log in the steps of a cluster; \<open>failed_recovery_answers\<close> shows that this is needed.

  \<^bold>\<open>Not modelled.\<close> The parser that goyacc generates and with it the syntax tree and the planners; sockets, remote calls, and the generated messages; the
  topology services, the backups, the workers and the workflows, which are sequences of remote calls; binary log streaming; lookup vindexes,
  which run queries of their own; JSON output, statistics, timeouts and cancellation. Of the tablet server, the execution of queries in MySQL, the
  states of the transaction engine, and transactions of the isolation level \<^verbatim>\<open>AUTOCOMMIT\<close> are left out.
\<close>

section \<open>A query on its way to the shards and back\<close>

text \<open>The stream of a scattered count, merged by key, is a list of counts in the order of the keys.\<close>

lemma scattered_counts:
  assumes "served r (RKeyspace route) tabletType shs f"
    and "VC_ResolveDestinations vc = vcursor_ResolveDestinations r pick tabletType"
    and "ROpcode route = SelectScatter" "ROrderBy route = by_key" "RTruncateColumnCount route = 0"
    and "list_all2 (\<lambda>t sh. shard_stream flds (map count_row (group_counts t))
          (VC_StreamExecuteMulti vc (RQuery route) [f (Name sh)] [bindVars])) ts shs"
    and "list_all int64_keys ts" "int (length (concat ts)) < 2 ^ 63"
  shows "\<exists>out ps. Route_StreamExecute F route vc bindVars want collect [] = Ret (None, empty_result\<lparr>Fields := flds\<rparr> # out) \<and>
    concat (map Rows out) = map count_row ps \<and> mset ps = mset (concat (map group_counts ts)) \<and> sorted (map fst ps) \<and>
    counts_ok ps \<and> list_all (\<lambda>r. Fields r = []) out"
proof -
  let ?rss = "map (\<lambda>sh. f (Name sh)) shs" and ?rowss = "map (\<lambda>t. map count_row (group_counts t)) ts"
  have ok: "counts_ok (concat (map group_counts ts))" by (rule counts_ok_groups [OF assms(7,8)])
  have shs: "?rss \<noteq> []" using assms(1) by (auto simp: served_def partitioned_def)
  have "ResolveDestinations r pick (RKeyspace route) tabletType (None :: Value list option) [DestinationAllShards] = Inr (?rss, [])"
    by (rule served_all [OF assms(1)])
  then have res: "VC_ResolveDestinations vc (RKeyspace route) None [DestinationAllShards] = Inr (?rss, [])"
    by (simp add: assms(2) vcursor_ResolveDestinations_def)
  have "sorted_wrt (row_le by_key) rows \<and> set rows \<subseteq> sortable (\<lambda>_. True) by_key" if rows: "rows \<in> set ?rowss" for rows
  proof -
    obtain t where t: "t \<in> set ts" "rows = map count_row (group_counts t)" using rows by auto
    have "counts_ok (group_counts t)"
      using ok t(1) split_list [OF t(1)] by (auto dest!: counts_ok_append)
    then show ?thesis
      using sorted_counts [of "group_counts t"] count_row_key(2) by (fastforce simp: t(2) counts_ok_def list_all_iff)
  qed
  then have all: "\<forall>rows\<in>set ?rowss. sorted_wrt (row_le (ROrderBy route)) rows \<and> set rows \<subseteq> sortable (\<lambda>_. True) (ROrderBy route)"
    by (simp add: assms(4))
  have "list_all2 (\<lambda>rows rs. shard_stream flds rows (VC_StreamExecuteMulti vc (RQuery route) [rs] [bindVars])) ?rowss ?rss"
    using assms(6) by (simp add: list.rel_map)
  from scatter_stream [OF assms(3) _ assms(5) res shs this all, of F want] obtain out where
    out: "Route_StreamExecute F route vc bindVars want collect [] = Ret (None, empty_result\<lparr>Fields := flds\<rparr> # out)"
      "mset (concat (map Rows out)) = mset (map count_row (concat (map group_counts ts)))"
      "sorted_wrt (row_le by_key) (concat (map Rows out))" "list_all (\<lambda>r. Fields r = []) out"
    by (auto simp: assms(4) by_key_def map_concat comp_def)
  obtain ps where ps: "concat (map Rows out) = map count_row ps" "mset ps = mset (concat (map group_counts ts))"
    using mset_map_preimage [OF out(2)] by blast
  have "set ps = set (concat (map group_counts ts))" "sum_list (map snd ps) = sum_list (map snd (concat (map group_counts ts)))"
    using mset_eq_setD [OF ps(2)] arg_cong [OF ps(2), of "\<lambda>m. sum_mset (image_mset snd m)"] by (simp_all flip: sum_mset_sum_list)
  then have "counts_ok ps" using ok by (simp add: counts_ok_def list_all_iff)
  then show ?thesis using out ps sorted_counts [of ps] by auto
qed

text \<open>A keyspace of two shards, its resolver, and a cursor whose shards stream the counts of their own rows.\<close>

definition two_shards :: "ShardReference list" where
  "two_shards =
     [\<lparr>Name = ''-80'', SR_KeyRange = Some \<lparr>Start = [], End = [128]\<rparr>\<rparr>,
      \<lparr>Name = ''80-'', SR_KeyRange = Some \<lparr>Start = [128], End = []\<rparr>\<rparr>]"

definition two_resolver :: "unit Resolver" where
  "two_resolver =
     \<lparr>GetSrvKeyspace = (\<lambda>_ _. Inr \<lparr>Partitions = [\<lparr>ServedType = 1, ShardReferences = two_shards\<rparr>], ServedFrom = []\<rparr>),
      GetAggregateStats = (\<lambda>_. Inr ()), localCell = ''zone''\<rparr>"

definition shard_at :: "string \<Rightarrow> unit ResolvedShard" where
  "shard_at n = \<lparr>rTarget = \<lparr>tkeyspace = ''ks'', tshard = n, ttabletType = 1, tcell = []\<rparr>, rQueryService = ()\<rparr>"

definition two_cursor :: "(string \<Rightarrow> int list) \<Rightarrow> unit VCursor" where
  "two_cursor t =
     \<lparr>VC_ResolveDestinations = vcursor_ResolveDestinations two_resolver id 1,
      VC_ExecuteMultiShard = (\<lambda>_ _ _ _. (empty_result, [])),
      VC_StreamExecuteMulti =
        (\<lambda>_ rss _.
           ([empty_result\<lparr>Fields := [int_field, int_field]\<rparr>,
             empty_result\<lparr>Rows := map count_row (group_counts (t (tshard (rTarget (hd rss)))))\<rparr>], None)),
      VC_AutocommitApproval = False\<rparr>"

definition two_route :: "RouteOpcode \<Rightarrow> OrderbyParams list \<Rightarrow> PlanValue list \<Rightarrow> Route" where
  "two_route opcode orderBy pvs =
     \<lparr>ROpcode = opcode, RKeyspace = ''ks'', RQuery = ''q'', RFieldQuery = ''f'',
      RVindex = vindex_op (Vindex_Map (\<lambda>_. []) (Hash ''h'')), RValues = pvs, ROrderBy = orderBy,
      RTruncateColumnCount = 0, ScatterErrorsAsWarnings = False\<rparr>"

lemma served_two: "served two_resolver (RKeyspace (two_route opcode orderBy pvs)) 1 two_shards shard_at"
  by (simp add: two_route_def served_def GetKeyspaceShards_def SrvKeyspaceGetPartition_def resolve_shard_def partitioned_def shard_ranges_def
      two_resolver_def two_shards_def shard_at_def Let_def)

lemma vhash_4: "vhash 4 = [0xd2, 0xfd, 0x88, 0x67, 0xd5, 0x0d, 0x2d, 0xfe]"
  by code_simp

section \<open>Properties\<close>



text \<open>
  C4. All primitives of a plan agree on the place of a value. When the shards of the keyspace cut the key space and are served, a query
  with an \<^verbatim>\<open>IN\<close> clause goes to each shard that owns the keyspace id of one of the values, once, and to no other; the
  variable \<^verbatim>\<open>__vals\<close> of that shard's query has exactly the values, in order, that the shard owns; and the shard of a single
  value, which rows are written to, is the one shard that owns its keyspace id.
\<close>
theorem IN_values_where_stored:
  assumes "served r (RKeyspace route) tabletType shs f"
    and "VC_ResolveDestinations vc = vcursor_ResolveDestinations r pick tabletType"
    and "ROpcode route = SelectIN" "RVindex route = vindex_op (Vindex_Map coll vx)" "RValues route = [pv]"
    and "ResolveList pv bindVars = Inr keys" "list_all (Vindex_accepts coll vx) keys"
  shows "(\<exists>ns. route_params route vc bindVars err =
        Ret (Inr (map f ns,
          map (\<lambda>n. AList.update ''__vals'' (tuple_variable (filter (\<lambda>v. owns shs n (Vindex_ksid coll vx v)) keys)) bindVars) ns)) \<and>
      distinct ns \<and> set ns = {n. \<exists>v\<in>set keys. owns shs n (Vindex_ksid coll vx v)}) \<and>
    list_all (\<lambda>v. case Vindex_ksid coll vx v of
        None \<Rightarrow> resolveSingleShard vc (RVindex route) (RKeyspace route) v = Ret (Inr None)
      | Some k \<Rightarrow> \<exists>n. {m. owns shs m (Some k)} = {n} \<and>
          resolveSingleShard vc (RVindex route) (RKeyspace route) v = Ret (Inr (Some (f n, k)))) keys"
  unfolding assms(4) list_all_iff
proof (intro conjI ballI)
  show "case Vindex_ksid coll vx v of
      None \<Rightarrow> resolveSingleShard vc (vindex_op (Vindex_Map coll vx)) (RKeyspace route) v = Ret (Inr None)
    | Some k \<Rightarrow> \<exists>n. {m. owns shs m (Some k)} = {n} \<and>
        resolveSingleShard vc (vindex_op (Vindex_Map coll vx)) (RKeyspace route) v = Ret (Inr (Some (f n, k)))"
    if "v \<in> set keys" for v
    using assms(7) that by (intro resolveSingleShard_ksid [OF assms(1,2)]) (simp add: list_all_iff)
qed (use paramsSelectIn_ksids [OF assms(1,2,4-7)] assms(3) in \<open>simp add: route_params_def\<close>)

theorem IN_values_where_stored_witness:
  "let vs = map NewUint64 [1, 2, 4]; pv = PlanValue [] NULL_value [] (Some (map (\<lambda>v. PlanValue [] v [] None) vs)) in
   \<exists>ns. route_params (two_route SelectIN [] [pv]) (two_cursor (\<lambda>_. [])) [] UnsupportedRoute =
       Ret (Inr (map shard_at ns,
         map (\<lambda>n. [(''__vals'', tuple_variable
           (filter (\<lambda>v. owns two_shards n (Vindex_ksid (\<lambda>_. []) (Hash ''h'') v)) vs))]) ns)) \<and>
     distinct ns \<and> set ns = {''-80'', ''80-''}"
proof -
  let ?vs = "map NewUint64 [1, 2, 4]" and ?k = "Vindex_ksid (\<lambda>_. []) (Hash ''h'')"
  let ?pv = "PlanValue [] NULL_value [] (Some (map (\<lambda>v. PlanValue [] v [] None) ?vs))"
  let ?rt = "two_route SelectIN [] [?pv]" and ?vc = "two_cursor (\<lambda>_. [])"
  have vs: "ResolveList ?pv [] = Inr ?vs"
    by (simp add: ResolveList_def ResolveValue_def NewUint64_def MakeTrusted_def Value_IsNull_def)
  have "VC_ResolveDestinations ?vc = vcursor_ResolveDestinations two_resolver id 1" "ROpcode ?rt = SelectIN"
    "RVindex ?rt = vindex_op (Vindex_Map (\<lambda>_. []) (Hash ''h''))" "RValues ?rt = [?pv]"
    by (simp_all add: two_cursor_def two_route_def)
  note IN_values_where_stored [OF served_two this vs, of UnsupportedRoute]
  then obtain ns where ns: "route_params ?rt ?vc [] UnsupportedRoute =
      Ret (Inr (map shard_at ns,
        map (\<lambda>n. AList.update ''__vals'' (tuple_variable (filter (\<lambda>v. owns two_shards n (?k v)) ?vs)) []) ns))"
    "distinct ns" "set ns = {n. \<exists>v\<in>set ?vs. owns two_shards n (?k v)}"
    by (elim conjE exE meta_impE) simp
  define k where "k = ?k"
  have "?k (NewUint64 1) = Some [0x16, 0x6b, 0x40, 0xb4, 0x4a, 0xba, 0x4b, 0xd6]"
    "?k (NewUint64 2) = Some [0x06, 0xe7, 0xea, 0x22, 0xce, 0x92, 0x70, 0x8f]"
    "?k (NewUint64 4) = Some [0xd2, 0xfd, 0x88, 0x67, 0xd5, 0x0d, 0x2d, 0xfe]"
    using signed_number_of [OF number_of_NewUint64] vhash_tests by (simp_all add: vhash_4)
  note ks = this [folded k_def]
  have "owns two_shards n (k (NewUint64 1)) \<longleftrightarrow> n = ''-80''" "owns two_shards n (k (NewUint64 2)) \<longleftrightarrow> n = ''-80''"
    "owns two_shards n (k (NewUint64 4)) \<longleftrightarrow> n = ''80-''" for n
    by (auto simp: ks owns_def two_shards_def)
  then have "set ns = {''-80'', ''80-''}" unfolding ns(3) [folded k_def] by auto
  then show ?thesis unfolding Let_def using ns(1,2) by (intro exI [of _ ns]) simp
qed

end
